(* ===== verification/Prelude.thy ===== *)
theory Prelude
  imports "HOL-Library.Multiset" "HOL-Library.List_Lexorder" "HOL-Library.Char_ord"
begin

text \<open>
  Shared vocabulary of the development: the collections of simplification rules the
  component proofs use, SQL's three-valued logic (a NULL truth value is None), and tables:
  a table is a list of rows, \<open>lookup_by\<close> reads it by a key column, \<open>put_by\<close> replaces the
  row with the same key or appends a new one, \<open>filter\<close> is DELETE.
\<close>

named_theorems sql_simps \<open>evaluation of SQL expressions\<close>
named_theorems table_simps \<open>reading a table after an update\<close>

type_synonym sqlbool = "bool option"

section \<open>SQL's three-valued logic\<close>

definition is_true :: "sqlbool \<Rightarrow> bool" where
  "is_true b = (b = Some True)"

fun sql_not :: "sqlbool \<Rightarrow> sqlbool" where
  "sql_not None = None"
| "sql_not (Some b) = Some (\<not> b)"

fun sql_and :: "sqlbool \<Rightarrow> sqlbool \<Rightarrow> sqlbool" where
  "sql_and (Some False) b = Some False"
| "sql_and (Some True) b = b"
| "sql_and None (Some False) = Some False"
| "sql_and None b = None"

fun sql_or :: "sqlbool \<Rightarrow> sqlbool \<Rightarrow> sqlbool" where
  "sql_or (Some True) b = Some True"
| "sql_or (Some False) b = b"
| "sql_or None (Some True) = Some True"
| "sql_or None b = None"

fun sql_eq :: "'a option \<Rightarrow> 'a option \<Rightarrow> sqlbool" where
  "sql_eq (Some a) (Some b) = Some (a = b)"
| "sql_eq _ _ = None"

definition sql_is_null :: "'a option \<Rightarrow> sqlbool" where
  "sql_is_null x = Some (x = None)"

definition sql_not_distinct :: "'a option \<Rightarrow> 'a option \<Rightarrow> sqlbool" where
  "sql_not_distinct x y = Some (x = y)"

definition coalesce :: "'a option \<Rightarrow> 'a \<Rightarrow> 'a" where
  "coalesce x y = (case x of None \<Rightarrow> y | Some v \<Rightarrow> v)"

declare sql_is_null_def [sql_simps] sql_not_distinct_def [sql_simps]

lemma coalesce_simps [simp]: "coalesce None y = y" "coalesce (Some v) y = v"
  by (simp_all add: coalesce_def)

lemma is_true_simps [simp]: "is_true (Some b) = b" "\<not> is_true None"
  by (auto simp: is_true_def)

lemma is_true_and [simp]: "is_true (sql_and a b) = (is_true a \<and> is_true b)"
  by (cases "(a, b)" rule: sql_and.cases) (auto simp: is_true_def)

lemma is_true_or [simp]: "is_true (sql_or a b) = (is_true a \<or> is_true b)"
  by (cases "(a, b)" rule: sql_or.cases) (auto simp: is_true_def)

lemma is_true_eq [sql_simps]: "is_true (sql_eq x y) = (x \<noteq> None \<and> x = y)"
  by (cases "(x, y)" rule: sql_eq.cases) (auto simp: is_true_def)

lemma is_true_not_eq [sql_simps]:
  "is_true (sql_not (sql_eq x y)) = (x \<noteq> None \<and> y \<noteq> None \<and> x \<noteq> y)"
  by (cases "(x, y)" rule: sql_eq.cases) (auto simp: is_true_def)

text \<open>Keys are tuples that proofs never take apart.\<close>

declare split_paired_All [simp del] split_paired_Ex [simp del]

section \<open>Tables\<close>

definition lookup_by :: "('a \<Rightarrow> 'k) \<Rightarrow> 'a list \<Rightarrow> 'k \<Rightarrow> 'a option" where
  "lookup_by f xs k = find (\<lambda>x. f x = k) xs"

definition put_by :: "('a \<Rightarrow> 'k) \<Rightarrow> 'a \<Rightarrow> 'a list \<Rightarrow> 'a list" where
  "put_by f x xs =
     (if lookup_by f xs (f x) = None then xs @ [x]
      else map (\<lambda>y. if f y = f x then x else y) xs)"

lemma lookup_by_Nil [simp]: "lookup_by f [] k = None"
  by (simp add: lookup_by_def)

lemma lookup_by_Cons [simp]:
  "lookup_by f (x # xs) k = (if f x = k then Some x else lookup_by f xs k)"
  by (simp add: lookup_by_def)

lemma lookup_by_append [simp]:
  "lookup_by f (xs @ ys) k =
     (case lookup_by f xs k of None \<Rightarrow> lookup_by f ys k | Some x \<Rightarrow> Some x)"
  by (induction xs) auto

lemma lookup_by_SomeD: "lookup_by f xs k = Some x \<Longrightarrow> x \<in> set xs \<and> f x = k"
  by (induction xs) (auto split: if_splits)

lemma lookup_by_key: "lookup_by f xs k = Some x \<Longrightarrow> f x = k"
  by (induction xs) (auto split: if_splits)

lemma lookup_by_None: "lookup_by f xs k = None \<longleftrightarrow> k \<notin> f ` set xs"
  by (induction xs) auto

lemma lookup_by_Some:
  "distinct (map f xs) \<Longrightarrow> lookup_by f xs k = Some x \<longleftrightarrow> x \<in> set xs \<and> f x = k"
  by (induction xs) (auto simp: rev_image_eqI)

lemma lookup_by_map_put:
  "lookup_by f (map (\<lambda>y. if f y = f x then x else y) xs) k =
     (if k = f x then (if lookup_by f xs k = None then None else Some x)
      else lookup_by f xs k)"
  by (induction xs) auto

lemma lookup_by_put [table_simps]:
  "lookup_by f (put_by f x xs) k = (if k = f x then Some x else lookup_by f xs k)"
  by (auto simp: put_by_def lookup_by_map_put split: option.splits)

lemma keys_put_by: "map f (put_by f x xs) = (if lookup_by f xs (f x) = None then map f xs @ [f x] else map f xs)"
  by (auto simp: put_by_def)

lemma distinct_put_by [table_simps]:
  "distinct (map f xs) \<Longrightarrow> distinct (map f (put_by f x xs))"
  by (auto simp: keys_put_by lookup_by_None)

lemma set_put_by:
  "distinct (map f xs) \<Longrightarrow>
     set (put_by f x xs) = insert x {y \<in> set xs. f y \<noteq> f x}"
  by (auto simp: put_by_def lookup_by_None image_iff split: if_splits)

lemma lookup_by_filter [table_simps]:
  "distinct (map f xs) \<Longrightarrow>
     lookup_by f (filter P xs) k =
       (case lookup_by f xs k of None \<Rightarrow> None | Some x \<Rightarrow> if P x then Some x else None)"
proof (induction xs)
  case Nil
  then show ?case by simp
next
  case (Cons x xs)
  then have "f x = k \<Longrightarrow> lookup_by f xs k = None"
    by (auto simp: lookup_by_None)
  with Cons show ?case by (auto split: option.splits)
qed

lemma distinct_filter_keys [table_simps]:
  "distinct (map f xs) \<Longrightarrow> distinct (map f (filter P xs))"
  by (rule distinct_map_filter)

lemma distinct_sort_key: "distinct (map f (sort_key g xs)) = distinct (map f xs)"
  by (simp add: distinct_map)

end
