(* ===== verification/Json.thy ===== *)
theory Json
  imports Prelude
begin

text \<open>
  JSON documents as the program handles them: a parsed document (\<open>json\<close>), PostgreSQL's
  jsonb value (the canonical form: keys sorted and unique, the last duplicate wins), Go's
  json.RawMessage (\<open>raw\<close>: nil, empty, bytes that do not parse, or bytes that parse to a
  document) and JSONEqual of src/internal/writer/writer.go, which compares two messages
  after decoding their numbers to float64. Number literals are integers.
\<close>

datatype json =
    JNull
  | JBool bool
  | JNum int
  | JStr string
  | JArr "json list"
  | JObj "(string \<times> json) list"

datatype raw = RNil | REmpty | RBad | RDoc json

section \<open>Objects as sorted association lists\<close>

fun obj_ins :: "string \<Rightarrow> 'v \<Rightarrow> (string \<times> 'v) list \<Rightarrow> (string \<times> 'v) list" where
  "obj_ins k v [] = [(k, v)]"
| "obj_ins k v ((k', v') # r) =
     (if k = k' then (k, v) # r
      else if k < k' then (k, v) # (k', v') # r
      else (k', v') # obj_ins k v r)"

definition norm_obj :: "(string \<times> 'v) list \<Rightarrow> (string \<times> 'v) list" where
  "norm_obj kvs = foldr (\<lambda>(k, v) acc. obj_ins k v acc) (rev kvs) []"

fun canon :: "json \<Rightarrow> json" where
  "canon (JArr xs) = JArr (map canon xs)"
| "canon (JObj kvs) = JObj (norm_obj (map (\<lambda>(k, v). (k, canon v)) kvs))"
| "canon j = j"

text \<open>The operator \<open>j -> 'k'\<close>: NULL unless the document is an object with that key.\<close>

fun jget :: "string \<Rightarrow> json \<Rightarrow> json option" where
  "jget k (JObj kvs) = map_of kvs k"
| "jget k _ = None"

lemma set_obj_ins: "fst ` set (obj_ins k v r) = insert k (fst ` set r)"
  by (induction k v r rule: obj_ins.induct) auto

lemma sorted_obj_ins:
  "sorted_wrt (<) (map fst r) \<Longrightarrow> sorted_wrt (<) (map fst (obj_ins k v r))"
proof (induction k v r rule: obj_ins.induct)
  case (1 k v)
  show ?case by simp
next
  case (2 k v k' v' r)
  from 2 set_obj_ins [of k v r] show ?case
    by (fastforce simp: image_iff)
qed

lemma map_of_obj_ins:
  "sorted_wrt (<) (map fst r) \<Longrightarrow> map_of (obj_ins k v r) = (map_of r)(k \<mapsto> v)"
  by (induction k v r rule: obj_ins.induct) (auto simp: fun_eq_iff)

lemma norm_obj_snoc: "norm_obj (kvs @ [(k, v)]) = obj_ins k v (norm_obj kvs)"
  by (simp add: norm_obj_def)

lemma norm_obj_Nil [simp]: "norm_obj [] = []"
  by (simp add: norm_obj_def)

lemma sorted_norm_obj: "sorted_wrt (<) (map fst (norm_obj kvs))"
  by (induction kvs rule: rev_induct) (auto simp: norm_obj_snoc sorted_obj_ins)

lemma norm_obj_single [simp]: "norm_obj [kv] = [kv]"
  by (cases kv) (simp add: norm_obj_def)

lemma map_of_norm_obj: "map_of (norm_obj kvs) = map_of (rev kvs)"
  by (induction kvs rule: rev_induct)
    (auto simp: norm_obj_snoc map_of_obj_ins sorted_norm_obj)

lemma sorted_map_of_eq:
  assumes "sorted_wrt (<) (map fst xs)" and "sorted_wrt (<) (map fst ys)"
    and "map_of xs = map_of ys"
  shows "(xs :: (string \<times> 'v) list) = ys"
proof -
  have d: "distinct (map fst xs)" "distinct (map fst ys)"
    using assms(1,2) by (simp_all add: strict_sorted_iff)
  then have "set xs = set ys"
    using assms(3) map_of_inject_set [OF d] by blast
  moreover have "inj_on fst (set xs \<union> set ys)"
    using d(1) calculation by (simp add: distinct_map)
  moreover have "sorted (map fst xs)" "sorted (map fst ys)"
    using assms(1,2) by (simp_all add: strict_sorted_imp_sorted)
  ultimately show ?thesis
    using d map_sorted_distinct_set_unique [of fst xs ys] by blast
qed

lemma norm_obj_eq_iff: "norm_obj xs = norm_obj ys \<longleftrightarrow> map_of (rev xs) = map_of (rev ys)"
  using sorted_map_of_eq [OF sorted_norm_obj sorted_norm_obj] by (metis map_of_norm_obj)

lemma norm_obj_idem:
  assumes "sorted_wrt (<) (map fst (kvs :: (string \<times> 'v) list))"
  shows "norm_obj kvs = kvs"
proof (rule sorted_map_of_eq [OF sorted_norm_obj assms])
  have "distinct (map fst kvs)" using assms by (simp add: strict_sorted_iff)
  then show "map_of (norm_obj kvs) = map_of kvs"
    by (simp add: map_of_norm_obj map_of_inject_set rev_map [symmetric])
qed


lemma norm_obj_norm_obj: "norm_obj (norm_obj kvs) = norm_obj kvs"
  by (rule norm_obj_idem [OF sorted_norm_obj])

lemma map_of_map_snd: "map_of (map (\<lambda>(k, v). (k, f v)) kvs) k = map_option f (map_of kvs k)"
  by (induction kvs) auto

lemma map_fst_norm_obj_map:
  "norm_obj (map (\<lambda>(k, v). (k, f v)) kvs) = map (\<lambda>(k, v). (k, f v)) (norm_obj kvs)"
proof (induction kvs rule: rev_induct)
  case Nil
  show ?case by simp
next
  case (snoc kv kvs)
  obtain k v where kv: "kv = (k, v)" by (cases kv)
  have "obj_ins k (f v) (map (\<lambda>(k, v). (k, f v)) r) = map (\<lambda>(k, v). (k, f v)) (obj_ins k v r)"
    for r by (induction k v r rule: obj_ins.induct) auto
  with snoc kv show ?case by (simp add: norm_obj_snoc)
qed

lemma set_norm_obj: "set (norm_obj kvs) \<subseteq> set kvs"
proof (induction kvs rule: rev_induct)
  case Nil
  show ?case by simp
next
  case (snoc kv kvs)
  obtain k v where kv: "kv = (k, v)" by (cases kv)
  have "set (obj_ins k v r) \<subseteq> insert (k, v) (set r)" for r
    by (induction k v r rule: obj_ins.induct) auto
  with snoc kv show ?case by (fastforce simp: norm_obj_snoc)
qed

lemma canon_idem [simp]: "canon (canon j) = canon j"
proof (induction j)
  case (JObj kvs)
  let ?m = "map (\<lambda>(k, v). (k, canon v))"
  have "canon (canon (JObj kvs)) = JObj (norm_obj (?m (norm_obj (?m kvs))))"
    by simp
  also have "?m (norm_obj (?m kvs)) = norm_obj (?m (?m kvs))"
    by (simp only: map_fst_norm_obj_map)
  also have "?m (?m kvs) = ?m kvs"
    using JObj by auto
  also have "norm_obj (norm_obj (?m kvs)) = norm_obj (?m kvs)"
    by (rule norm_obj_idem [OF sorted_norm_obj])
  finally show ?case by simp
qed auto

text \<open>Reading a field of the stored document is reading it of the document that was sent.\<close>

lemma jget_canon: "jget k (canon (JObj kvs)) = map_option canon (map_of (rev kvs) k)"
  by (simp add: map_of_norm_obj rev_map map_of_map_snd)

section \<open>Decoding to float64, and JSONEqual\<close>

fun bitlen :: "nat \<Rightarrow> nat" where
  "bitlen n = (if n = 0 then 0 else Suc (bitlen (n div 2)))"

declare bitlen.simps [simp del]

text \<open>Round a natural number to 53 significant bits, ties to even.\<close>

definition round53 :: "nat \<Rightarrow> nat" where
  "round53 m =
     (if m \<le> 2 ^ 53 then m
      else let e = bitlen m - 53; q = m div 2 ^ e; r = m mod 2 ^ e; h = 2 ^ (e - 1);
               q' = (if h < r \<or> (r = h \<and> odd q) then q + 1 else q)
           in q' * 2 ^ e)"

text \<open>strconv.ParseFloat of an integer literal: None when the value is out of range.\<close>

definition f64 :: "int \<Rightarrow> int option" where
  "f64 n = (let m = round53 (nat \<bar>n\<bar>) in if m < 2 ^ 1024 then Some (sgn n * int m) else None)"

text \<open>json.Unmarshal into \<open>any\<close>: every number becomes a float64, or decoding fails.\<close>

fun go_dec :: "json \<Rightarrow> json option" where
  "go_dec (JNum n) = map_option JNum (f64 n)"
| "go_dec (JArr xs) = map_option JArr (those (map go_dec xs))"
| "go_dec (JObj kvs) =
     map_option (\<lambda>vs. JObj (zip (map fst kvs) vs)) (those (map (\<lambda>(k, v). go_dec v) kvs))"
| "go_dec j = Some j"

text \<open>
  JSONEqual (writer.go, 555-572). json.Marshal of a decoded value sorts the keys of every
  object, so equal output is equality of the canonical decoded values.
\<close>

fun raw_len0 :: "raw \<Rightarrow> bool" where
  "raw_len0 RNil = True"
| "raw_len0 REmpty = True"
| "raw_len0 _ = False"

fun unmarshal_any :: "raw \<Rightarrow> json option" where
  "unmarshal_any (RDoc j) = go_dec j"
| "unmarshal_any _ = None"

definition JSONEqual :: "raw \<Rightarrow> raw \<Rightarrow> bool" where
  "JSONEqual a b =
     (if raw_len0 a \<and> raw_len0 b then True
      else if raw_len0 a \<or> raw_len0 b then False
      else (case unmarshal_any a of
              None \<Rightarrow> False
            | Some va \<Rightarrow>
                (case unmarshal_any b of
                   None \<Rightarrow> False
                 | Some vb \<Rightarrow> canon va = canon vb)))"

text \<open>Documents whose numbers float64 holds exactly (below 2^53 in size).\<close>

fun nums_exact :: "json \<Rightarrow> bool" where
  "nums_exact (JNum n) = (\<bar>n\<bar> \<le> 2 ^ 53)"
| "nums_exact (JArr xs) = list_all nums_exact xs"
| "nums_exact (JObj kvs) = list_all (\<lambda>(k, v). nums_exact v) kvs"
| "nums_exact _ = True"

lemma f64_exact: "\<bar>n\<bar> \<le> 2 ^ 53 \<Longrightarrow> f64 n = Some n"
proof -
  assume a: "\<bar>n\<bar> \<le> 2 ^ 53"
  then have "nat \<bar>n\<bar> \<le> 2 ^ 53" by (simp add: nat_le_iff)
  moreover have "(2::nat) ^ 53 < 2 ^ 1024" by (rule power_strict_increasing) simp_all
  ultimately have "round53 (nat \<bar>n\<bar>) = nat \<bar>n\<bar>" "nat \<bar>n\<bar> < 2 ^ 1024"
    by (simp_all add: round53_def)
  then show ?thesis by (simp add: f64_def Let_def sgn_mult_abs)
qed

lemma those_map_Some: "(\<And>x. x \<in> set xs \<Longrightarrow> f x = Some (g x)) \<Longrightarrow> those (map f xs) = Some (map g xs)"
  by (induction xs) auto

lemma go_dec_exact: "nums_exact j \<Longrightarrow> go_dec j = Some j"
proof (induction j)
  case (JNum n)
  then show ?case by (simp add: f64_exact)
next
  case (JArr xs)
  then have "those (map go_dec xs) = Some (map (\<lambda>x. x) xs)"
    by (intro those_map_Some) (auto simp: list_all_iff)
  then show ?case by simp
next
  case (JObj kvs)
  have "go_dec v = Some v" if "(k, v) \<in> set kvs" for k v
    using JObj.IH [OF that, of v] JObj.prems that by (fastforce simp: list_all_iff)
  then have "those (map (\<lambda>(k, v). go_dec v) kvs) = Some (map snd kvs)"
    by (intro those_map_Some) auto
  then show ?case by (simp add: zip_map_fst_snd)
qed auto

text \<open>
  On such documents JSONEqual is equality of the stored jsonb values: the check in Go and
  the check in the stored procedure agree.
\<close>

lemma JSONEqual_exact:
  "nums_exact a \<Longrightarrow> nums_exact b \<Longrightarrow> JSONEqual (RDoc a) (RDoc b) = (canon a = canon b)"
  by (simp add: JSONEqual_def go_dec_exact)

lemma JSONEqual_nil [simp]:
  "\<not> JSONEqual (RDoc a) RNil" "\<not> JSONEqual RNil (RDoc a)" "JSONEqual RNil RNil"
  by (simp_all add: JSONEqual_def)

lemma nums_exact_canon: "nums_exact j \<Longrightarrow> nums_exact (canon j)"
proof (induction j)
  case (JObj kvs)
  have "nums_exact (canon v)" if "(k, v) \<in> set kvs" for k v
    using JObj.IH [OF that, of v] JObj.prems that by (fastforce simp: list_all_iff)
  then show ?case
    using set_norm_obj [of "map (\<lambda>(k, v). (k, canon v)) kvs"]
    by (fastforce simp: list_all_iff)
qed (auto simp: list_all_iff)

section \<open>Properties\<close>

text \<open>Go's comparison of documents and the database's agree: on documents whose numbers float64
  holds exactly, JSONEqual is equality of the jsonb values, whatever the order of keys or
  duplicate keys; an absent document equals only an absent one.\<close>

theorem json_equal_is_jsonb_equal:
  assumes "nums_exact a" "nums_exact b"
  shows "(JSONEqual (RDoc a) (RDoc b) \<longleftrightarrow> canon a = canon b) \<and> JSONEqual (RDoc a) (RDoc (canon a)) \<and>
    \<not> JSONEqual (RDoc a) RNil \<and> \<not> JSONEqual REmpty (RDoc b) \<and> JSONEqual RNil REmpty"
  using assms nums_exact_canon [OF assms(1)] by (simp add: JSONEqual_exact) (simp add: JSONEqual_def)

theorem json_equal_is_jsonb_equal_witness:
  "JSONEqual (RDoc (JObj [(''b'', JNum 1), (''a'', JNum 2)])) (RDoc (JObj [(''a'', JNum 2), (''b'', JNum 1)]))"
  using json_equal_is_jsonb_equal [of "JObj [(''b'', JNum 1), (''a'', JNum 2)]" "JObj [(''a'', JNum 2), (''b'', JNum 1)]"]
  by (simp add: norm_obj_def)

text \<open>Beyond float64 they do not: Go takes 2^53 + 1 and 2^53 for the same number.\<close>

lemma json_equal_rounds:
  "JSONEqual (RDoc (JNum (2 ^ 53 + 1))) (RDoc (JNum (2 ^ 53))) \<and>
   canon (JNum (2 ^ 53 + 1)) \<noteq> canon (JNum (2 ^ 53))"
proof -
  have "bitlen (9007199254740993 :: nat) = 54"
    by (simp add: bitlen.simps)
  then have "round53 9007199254740993 = 9007199254740992" by (simp add: round53_def Let_def)
  moreover have "round53 9007199254740992 = 9007199254740992" by (simp add: round53_def)
  moreover have "(9007199254740992 :: nat) < 2 ^ 1024"
    by (rule less_trans [of _ "2 ^ 54"]) (simp, rule power_strict_increasing, simp_all)
  ultimately show ?thesis by (simp add: JSONEqual_def f64_def Let_def)
qed

end
