(* ===== verification/Model.thy ===== *)
theory Model
  imports Json
begin

text \<open>
  The data model of src/internal/model/types.go and of the table definitions in
  src/internal/schema/migrations/001_initial.sql. A row of kubernetes_resources and the Go
  struct Resource have the same columns; xid8 stamps are natural numbers, BIGINT columns and
  int64 fields are integers, timestamps are microseconds, a UUID is its 128-bit value.
\<close>

type_synonym txid = nat
type_synonym uid = nat
type_synonym time = int
type_synonym key = "string \<times> string \<times> string"

record resource =
  GVK :: string
  Namespace :: string
  Name :: string
  UID :: uid
  TxidStamp :: txid
  ObjectVersion :: int
  Spec :: json
  Status :: json
  Metadata :: json
  DeletionTimestamp :: "time option"
  CreatedAt :: time
  UpdatedAt :: time

definition rkey :: "resource \<Rightarrow> key" where
  "rkey r = (GVK r, Namespace r, Name r)"

record WriteRequest =
  wGVK :: string
  wNamespace :: string
  wName :: string
  wSpec :: raw
  wStatus :: raw
  wMetadata :: raw
  wDeletionTimestamp :: "time option"
  wExpectedVersion :: int
  wForceWrite :: bool

record StatusWriteRequest =
  sGVK :: string
  sNamespace :: string
  sName :: string
  sStatus :: raw
  sExpectedVersion :: int
  sForceWrite :: bool

record ObjectWriteRequest =
  oGVK :: string
  oNamespace :: string
  oName :: string
  oSpec :: raw
  oMetadata :: raw
  oDeletionTimestamp :: "time option"
  oExpectedVersion :: int
  oForceWrite :: bool

record WriteResult =
  Txid :: txid
  resVersion :: int
  resUID :: uid
  Changed :: bool

text \<open>
  The LISTEN/NOTIFY channel of a GVK. PostgreSQL identifiers hold 63 bytes; longer names are
  replaced by a hash. \<open>sha\<close> stands for the hexadecimal form of the first 12 bytes of
  SHA-256, which the Go standard library computes.
\<close>

definition DoorbellChannel :: "(string \<Rightarrow> string) \<Rightarrow> string \<Rightarrow> string" where
  "DoorbellChannel sha gvk =
     (let raw = ''resource_changes_'' @ gvk
      in if length raw \<le> 63 then raw else ''rc_'' @ sha gvk)"

lemma DoorbellChannel_length:
  "(\<And>s. length (sha s) = 24) \<Longrightarrow> length (DoorbellChannel sha gvk) \<le> 63"
  by (simp add: DoorbellChannel_def Let_def)

text \<open>Short names keep distinct channels whatever the hash; a short and a long name never share one.\<close>

lemma DoorbellChannel_eq_iff:
  "DoorbellChannel sha a = DoorbellChannel sha b \<longleftrightarrow>
     a = b \<or> (46 < length a \<and> 46 < length b \<and> sha a = sha b)"
  by (auto simp: DoorbellChannel_def Let_def)

section \<open>The database\<close>

text \<open>
  Committed state: the rows of kubernetes_resources (primary key gvk, namespace, name), the
  compaction_horizon table (one compacted_xid per gvk), and the next transaction id
  pg_current_xact_id() would assign.
\<close>

record db =
  rows :: "resource list"
  horizon :: "string \<Rightarrow> txid option"
  next_xid :: txid

definition get_row :: "db \<Rightarrow> key \<Rightarrow> resource option" where
  "get_row d k = lookup_by rkey (rows d) k"

definition put_row :: "resource \<Rightarrow> db \<Rightarrow> db" where
  "put_row r d = d\<lparr>rows := put_by rkey r (rows d)\<rparr>"

text \<open>PRIMARY KEY, and every stamp was assigned by a transaction that has started.\<close>

definition wf_db :: "db \<Rightarrow> bool" where
  "wf_db d \<longleftrightarrow>
     distinct (map rkey (rows d)) \<and>
     (\<forall>r \<in> set (rows d). TxidStamp r < next_xid d) \<and>
     (\<forall>r \<in> set (rows d). 0 < TxidStamp r) \<and> 0 < next_xid d"

definition empty_db :: db where
  "empty_db = \<lparr>rows = [], horizon = (\<lambda>_. None), next_xid = 1\<rparr>"

lemma wf_empty_db [simp]: "wf_db empty_db"
  by (simp add: wf_db_def empty_db_def)

lemma get_row_put [table_simps]:
  "get_row (put_row r d) k = (if k = rkey r then Some r else get_row d k)"
  by (simp add: get_row_def put_row_def lookup_by_put)

lemma put_row_frame [simp]:
  "horizon (put_row r d) = horizon d" "next_xid (put_row r d) = next_xid d"
  by (simp_all add: put_row_def)

lemma get_row_frame [simp]:
  "get_row (d\<lparr>next_xid := n\<rparr>) k = get_row d k" "get_row (d\<lparr>horizon := h\<rparr>) k = get_row d k"
  by (simp_all add: get_row_def)

lemma get_row_key: "get_row d k = Some r \<Longrightarrow> rkey r = k"
  by (auto simp: get_row_def dest: lookup_by_key)

lemma get_row_Some_iff:
  "wf_db d \<Longrightarrow> get_row d k = Some r \<longleftrightarrow> r \<in> set (rows d) \<and> rkey r = k"
  by (simp add: get_row_def wf_db_def lookup_by_Some)

lemma get_row_in_rows: "get_row d k = Some r \<Longrightarrow> r \<in> set (rows d)"
  by (auto simp: get_row_def dest: lookup_by_SomeD)

lemma get_row_stamp: "get_row d k = Some r \<Longrightarrow> wf_db d \<Longrightarrow> 0 < TxidStamp r \<and> TxidStamp r < next_xid d"
  by (drule get_row_in_rows) (simp add: wf_db_def)

lemma wf_put_row:
  "wf_db d \<Longrightarrow> 0 < TxidStamp r \<Longrightarrow> TxidStamp r < next_xid d \<Longrightarrow> wf_db (put_row r d)"
  by (auto simp: wf_db_def put_row_def distinct_put_by set_put_by)

lemma wf_next_xid: "wf_db d \<Longrightarrow> next_xid d \<le> n \<Longrightarrow> wf_db (d\<lparr>next_xid := n\<rparr>)"
  by (auto simp: wf_db_def)

section \<open>Concrete rows\<close>

text \<open>A stored object and a table that holds it, for evaluation on concrete inputs.\<close>

definition ex_row :: resource where
  "ex_row = \<lparr>GVK = ''g'', Namespace = ''n'', Name = ''a'', UID = 7, TxidStamp = 3,
     ObjectVersion = 1, Spec = JObj [(''x'', JNum 1)], Status = JObj [], Metadata = JObj [],
     DeletionTimestamp = None, CreatedAt = 0, UpdatedAt = 0\<rparr>"

definition ex_db :: db where
  "ex_db = \<lparr>rows = [ex_row], horizon = (\<lambda>_. None), next_xid = 4\<rparr>"

lemma ex_row_simps [simp]:
  "rkey ex_row = (''g'', ''n'', ''a'')" "UID ex_row = 7" "TxidStamp ex_row = 3"
  "ObjectVersion ex_row = 1" "Spec ex_row = JObj [(''x'', JNum 1)]" "Status ex_row = JObj []"
  "Metadata ex_row = JObj []" "DeletionTimestamp ex_row = None" "GVK ex_row = ''g''"
  "Namespace ex_row = ''n''" "Name ex_row = ''a''"
  by (simp_all add: ex_row_def rkey_def)

lemma ex_db_simps [simp]:
  "rows ex_db = [ex_row]" "horizon ex_db g = None" "next_xid ex_db = 4"
  "get_row ex_db k = (if k = (''g'', ''n'', ''a'') then Some ex_row else None)"
  by (simp_all add: ex_db_def get_row_def)

lemma wf_ex_db [simp]: "wf_db ex_db"
  by (simp add: wf_db_def)

section \<open>Properties\<close>

text \<open>Channel names are usable and faithful: with a digest of 24 characters every name fits the 63
  bytes PostgreSQL allows, and two gvks share a channel only when both are too long to be
  named directly and their digests collide.\<close>

theorem doorbell_channels:
  assumes "\<And>s. length (sha s) = 24"
  shows "length (DoorbellChannel sha a) \<le> 63 \<and>
    (DoorbellChannel sha a = DoorbellChannel sha b \<longleftrightarrow>
       a = b \<or> (46 < length a \<and> 46 < length b \<and> sha a = sha b))"
  using DoorbellChannel_length [OF assms] DoorbellChannel_eq_iff [of sha a b] by simp

theorem doorbell_channels_witness:
  "DoorbellChannel (\<lambda>_. replicate 24 CHR ''0'') ''a/v1/B'' \<noteq> DoorbellChannel (\<lambda>_. replicate 24 CHR ''0'') ''a/v1/C''"
  using doorbell_channels [of "\<lambda>_. replicate 24 CHR ''0''" "''a/v1/B''" "''a/v1/C''"] by simp

end
