(* ===== verification/Pgctl.thy ===== *)
theory Pgctl
  imports Model
begin

text \<open>
  The stored procedure pgctl_write of src/internal/schema/migrations/001_initial.sql, as one
  transaction (\<open>pgctl_write\<close>) and as the pieces the concurrent model interleaves: the
  suppression test on the existing row, and one function per branch of the upsert, each from
  the row it finds to the row it writes or the SQLSTATE it raises. Errors are SQLSTATE codes.
  The UUID gen_random_uuid() returns and the value of now() are arguments.
\<close>

type_synonym sqlstate = string

record pgargs =
  p_status_only :: bool
  p_gvk :: string
  p_namespace :: string
  p_name :: string
  p_expected_version :: int
  p_force_write :: bool
  p_spec :: "json option"
  p_status :: "json option"
  p_metadata :: "json option"
  p_deletion_ts :: "time option"

record pgout =
  out_uid :: uid
  out_version :: int
  out_txid :: txid
  out_changed :: bool

definition p_key :: "pgargs \<Rightarrow> key" where
  "p_key p = (p_gvk p, p_namespace p, p_name p)"

definition not_null_violation :: sqlstate where
  "not_null_violation = ''23502''"

definition out_of_range :: sqlstate where
  "out_of_range = ''22003''"

text \<open>\<open>object_version + 1\<close> on BIGINT.\<close>

definition bigint_succ :: "int \<Rightarrow> sqlstate + int" where
  "bigint_succ n = (if n + 1 < 2 ^ 63 then Inr (n + 1) else Inl out_of_range)"

text \<open>
  The tombstone filter of the revival UPDATE: deletion_timestamp IS NOT NULL AND
  (metadata->'finalizers' IS NULL OR metadata->'finalizers' = '[]'::jsonb).
\<close>

definition no_finalizers_sql :: "resource \<Rightarrow> sqlbool" where
  "no_finalizers_sql r =
     sql_or (sql_is_null (jget ''finalizers'' (Metadata r)))
            (sql_eq (jget ''finalizers'' (Metadata r)) (Some (JArr [])))"

definition tombstone_filter :: "resource \<Rightarrow> sqlbool" where
  "tombstone_filter r =
     sql_and (sql_not (sql_is_null (DeletionTimestamp r))) (no_finalizers_sql r)"

text \<open>Step 1, on the row that was found.\<close>

definition suppressed :: "pgargs \<Rightarrow> resource \<Rightarrow> bool" where
  "suppressed p e =
     (if p_status_only p then is_true (sql_eq (Some (Status e)) (p_status p))
      else is_true
        (sql_and (sql_eq (Some (Spec e)) (p_spec p))
        (sql_and (sql_or (sql_is_null (p_status p)) (sql_eq (Some (Status e)) (p_status p)))
        (sql_and (sql_eq (Some (Metadata e)) (p_metadata p))
                 (sql_not_distinct (DeletionTimestamp e) (p_deletion_ts p))))))"

definition suppression_check :: "pgargs \<Rightarrow> resource option \<Rightarrow> resource option" where
  "suppression_check p cur =
     (if p_force_write p then None
      else (case cur of
              None \<Rightarrow> None
            | Some e \<Rightarrow> if suppressed p e then Some e else None))"

text \<open>Branch A: UPDATE of the status column where object_version = p_expected_version.\<close>

definition update_status :: "txid \<Rightarrow> time \<Rightarrow> pgargs \<Rightarrow> resource option \<Rightarrow> sqlstate + resource" where
  "update_status t now p cur =
     (case cur of
        None \<Rightarrow> Inl ''P0002''
      | Some e \<Rightarrow>
          if ObjectVersion e \<noteq> p_expected_version p then Inl ''P0002''
          else (case bigint_succ (ObjectVersion e) of
                  Inl err \<Rightarrow> Inl err
                | Inr v \<Rightarrow>
                    (case p_status p of
                       None \<Rightarrow> Inl not_null_violation
                     | Some s \<Rightarrow> Inr (e\<lparr>TxidStamp := t, ObjectVersion := v, Status := s,
                                        UpdatedAt := now\<rparr>))))"

text \<open>Branch B: INSERT; a duplicate key is the unique_violation the handler catches.\<close>

datatype insert_result = Inserted resource | InsertError sqlstate | UniqueViolation

definition insert_row :: "txid \<Rightarrow> uid \<Rightarrow> time \<Rightarrow> pgargs \<Rightarrow> resource option \<Rightarrow> insert_result" where
  "insert_row t u now p cur =
     (case (p_spec p, p_status p, p_metadata p) of
        (Some sp, Some st, Some md) \<Rightarrow>
          (case cur of
             Some _ \<Rightarrow> UniqueViolation
           | None \<Rightarrow> Inserted
               \<lparr>GVK = p_gvk p, Namespace = p_namespace p, Name = p_name p, UID = u,
                TxidStamp = t, ObjectVersion = 1, Spec = sp, Status = st, Metadata = md,
                DeletionTimestamp = p_deletion_ts p, CreatedAt = now, UpdatedAt = now\<rparr>)
      | _ \<Rightarrow> InsertError not_null_violation)"

text \<open>The handler: revive a tombstone as a fresh resource, or fail with 'already exists'.\<close>

definition revive_row :: "txid \<Rightarrow> uid \<Rightarrow> time \<Rightarrow> pgargs \<Rightarrow> resource option \<Rightarrow> sqlstate + resource" where
  "revive_row t u now p cur =
     (case cur of
        None \<Rightarrow> Inl ''P0003''
      | Some e \<Rightarrow>
          if \<not> is_true (tombstone_filter e) then Inl ''P0003''
          else (case (p_spec p, p_metadata p) of
                  (Some sp, Some md) \<Rightarrow>
                    Inr (e\<lparr>UID := u, TxidStamp := t, ObjectVersion := 1, Spec := sp,
                           Status := coalesce (p_status p) (JObj []), Metadata := md,
                           DeletionTimestamp := None, CreatedAt := now, UpdatedAt := now\<rparr>)
                | _ \<Rightarrow> Inl not_null_violation))"

text \<open>Branch C: UPDATE of spec, metadata and deletion_timestamp; a NULL status is kept.\<close>

definition update_row :: "txid \<Rightarrow> time \<Rightarrow> pgargs \<Rightarrow> resource option \<Rightarrow> sqlstate + resource" where
  "update_row t now p cur =
     (case cur of
        None \<Rightarrow> Inl ''P0002''
      | Some e \<Rightarrow>
          if ObjectVersion e \<noteq> p_expected_version p then Inl ''P0002''
          else (case bigint_succ (ObjectVersion e) of
                  Inl err \<Rightarrow> Inl err
                | Inr v \<Rightarrow>
                    (case (p_spec p, p_metadata p) of
                       (Some sp, Some md) \<Rightarrow>
                         Inr (e\<lparr>TxidStamp := t, ObjectVersion := v, Spec := sp,
                                Status := coalesce (p_status p) (Status e), Metadata := md,
                                DeletionTimestamp := p_deletion_ts p, UpdatedAt := now\<rparr>)
                     | _ \<Rightarrow> Inl not_null_violation)))"

text \<open>Step 2: the three mutually exclusive branches, on a row no one else changes meanwhile.\<close>

definition upsert :: "txid \<Rightarrow> uid \<Rightarrow> time \<Rightarrow> pgargs \<Rightarrow> resource option \<Rightarrow> sqlstate + resource" where
  "upsert t u now p cur =
     (if p_status_only p then
        (if p_expected_version p = 0 then Inl ''P0004'' else update_status t now p cur)
      else if p_expected_version p = 0 then
        (case insert_row t u now p cur of
           Inserted r \<Rightarrow> Inr r
         | InsertError e \<Rightarrow> Inl e
         | UniqueViolation \<Rightarrow> revive_row t u now p cur)
      else update_row t now p cur)"

text \<open>
  The whole procedure. pg_current_xact_id() comes first, so every call consumes a
  transaction id, whether it is suppressed, fails or writes; an exception aborts the
  transaction and leaves the rows alone.
\<close>

definition pgctl_write :: "uid \<Rightarrow> time \<Rightarrow> pgargs \<Rightarrow> db \<Rightarrow> db \<times> (sqlstate + pgout)" where
  "pgctl_write u now p d =
     (let t = next_xid d; d1 = d\<lparr>next_xid := t + 1\<rparr>; cur = get_row d (p_key p)
      in case suppression_check p cur of
           Some e \<Rightarrow> (d1, Inr \<lparr>out_uid = UID e, out_version = ObjectVersion e,
                                out_txid = 0, out_changed = False\<rparr>)
         | None \<Rightarrow>
             (case upsert t u now p cur of
                Inl err \<Rightarrow> (d1, Inl err)
              | Inr r \<Rightarrow> (put_row r d1, Inr \<lparr>out_uid = UID r, out_version = ObjectVersion r,
                                             out_txid = t, out_changed = True\<rparr>)))"

section \<open>What each branch writes\<close>

lemmas branch_defs = update_status_def insert_row_def revive_row_def update_row_def bigint_succ_def

lemmas branch_splits = option.splits sum.splits if_splits

lemma bigint_succ_Inr: "bigint_succ n = Inr v \<longleftrightarrow> v = n + 1 \<and> n + 1 < 2 ^ 63"
  by (auto simp: bigint_succ_def)

lemma tombstone_filter_iff:
  "is_true (tombstone_filter r) \<longleftrightarrow>
     DeletionTimestamp r \<noteq> None \<and>
     (jget ''finalizers'' (Metadata r) = None \<or> jget ''finalizers'' (Metadata r) = Some (JArr []))"
  by (auto simp: tombstone_filter_def no_finalizers_sql_def sql_simps)

lemma suppressed_iff:
  "suppressed p e \<longleftrightarrow>
     (if p_status_only p then p_status p = Some (Status e)
      else p_spec p = Some (Spec e) \<and> (p_status p = None \<or> p_status p = Some (Status e)) \<and>
           p_metadata p = Some (Metadata e) \<and> p_deletion_ts p = DeletionTimestamp e)"
  by (auto simp: suppressed_def sql_simps)

lemma update_status_Inr:
  "update_status t now p cur = Inr r \<Longrightarrow>
     \<exists>e s. cur = Some e \<and> ObjectVersion e = p_expected_version p \<and> p_status p = Some s \<and>
       r = e\<lparr>TxidStamp := t, ObjectVersion := ObjectVersion e + 1, Status := s, UpdatedAt := now\<rparr>"
  by (auto simp: branch_defs split: branch_splits)

lemma update_row_Inr:
  "update_row t now p cur = Inr r \<Longrightarrow>
     \<exists>e sp md. cur = Some e \<and> ObjectVersion e = p_expected_version p \<and>
       p_spec p = Some sp \<and> p_metadata p = Some md \<and>
       r = e\<lparr>TxidStamp := t, ObjectVersion := ObjectVersion e + 1, Spec := sp,
             Status := coalesce (p_status p) (Status e), Metadata := md,
             DeletionTimestamp := p_deletion_ts p, UpdatedAt := now\<rparr>"
  by (auto simp: branch_defs split: branch_splits)

lemma insert_row_Inserted:
  "insert_row t u now p cur = Inserted r \<Longrightarrow>
     cur = None \<and> rkey r = p_key p \<and> ObjectVersion r = 1 \<and> UID r = u \<and> TxidStamp r = t \<and>
     p_spec p = Some (Spec r) \<and> p_status p = Some (Status r) \<and> p_metadata p = Some (Metadata r) \<and>
     DeletionTimestamp r = p_deletion_ts p"
  by (auto simp: branch_defs rkey_def p_key_def split: branch_splits)

lemma insert_row_Unique: "insert_row t u now p cur = UniqueViolation \<Longrightarrow> cur \<noteq> None"
  by (auto simp: branch_defs split: branch_splits)

lemma revive_row_Inr:
  "revive_row t u now p cur = Inr r \<Longrightarrow>
     \<exists>e sp md. cur = Some e \<and> is_true (tombstone_filter e) \<and>
       p_spec p = Some sp \<and> p_metadata p = Some md \<and>
       r = e\<lparr>UID := u, TxidStamp := t, ObjectVersion := 1, Spec := sp,
             Status := coalesce (p_status p) (JObj []), Metadata := md,
             DeletionTimestamp := None, CreatedAt := now, UpdatedAt := now\<rparr>"
  by (auto simp: branch_defs split: branch_splits)

text \<open>The version history one write may add: +1 on the expected version, or 1 on a fresh object.\<close>

definition next_version :: "resource option \<Rightarrow> pgargs \<Rightarrow> resource \<Rightarrow> bool" where
  "next_version cur p r \<longleftrightarrow>
     (case cur of
        None \<Rightarrow> p_expected_version p = 0 \<and> ObjectVersion r = 1
      | Some e \<Rightarrow>
          (p_expected_version p = ObjectVersion e \<and> ObjectVersion r = ObjectVersion e + 1 \<and> UID r = UID e)
          \<or> (p_expected_version p = 0 \<and> is_true (tombstone_filter e) \<and>
             ObjectVersion r = 1 \<and> DeletionTimestamp r = None))"

lemma upsert_Inr:
  assumes "upsert t u now p cur = Inr r" and "\<And>e. cur = Some e \<Longrightarrow> rkey e = p_key p"
  shows "rkey r = p_key p" "TxidStamp r = t" "next_version cur p r"
proof -
  have "rkey r = p_key p \<and> TxidStamp r = t \<and> next_version cur p r"
    using assms
    by (auto simp: upsert_def next_version_def rkey_def split: if_splits insert_result.splits
        dest!: update_status_Inr update_row_Inr revive_row_Inr insert_row_Inserted)
  then show "rkey r = p_key p" "TxidStamp r = t" "next_version cur p r" by blast+
qed

lemma get_row_p_key: "get_row d (p_key p) = Some e \<Longrightarrow> rkey e = p_key p"
  by (rule get_row_key)

section \<open>Properties\<close>

text \<open>An update of the example row, and variations of it.\<close>

definition ex_args :: pgargs where
  "ex_args = \<lparr>p_status_only = False, p_gvk = ''g'', p_namespace = ''n'', p_name = ''a'',
     p_expected_version = 1, p_force_write = False, p_spec = Some (JObj [(''x'', JNum 2)]),
     p_status = None, p_metadata = Some (JObj []), p_deletion_ts = None\<rparr>"

lemma suppression_check_Some:
  "suppression_check p cur = Some e \<longleftrightarrow> \<not> p_force_write p \<and> cur = Some e \<and> suppressed p e"
  by (auto simp: suppression_check_def split: option.splits)

lemma suppression_check_None:
  "suppression_check p cur = None \<longleftrightarrow>
     p_force_write p \<or> cur = None \<or> (\<exists>e. cur = Some e \<and> \<not> suppressed p e)"
  by (auto simp: suppression_check_def split: option.splits)

text \<open>The three outcomes of a call.\<close>

lemma pgctl_write_cases:
  assumes "pgctl_write u now p d = (d', res)"
  obtains
    (noop) e where "suppression_check p (get_row d (p_key p)) = Some e"
      "d' = d\<lparr>next_xid := next_xid d + 1\<rparr>"
      "res = Inr \<lparr>out_uid = UID e, out_version = ObjectVersion e, out_txid = 0, out_changed = False\<rparr>"
  | (error) err where "suppression_check p (get_row d (p_key p)) = None"
      "upsert (next_xid d) u now p (get_row d (p_key p)) = Inl err"
      "d' = d\<lparr>next_xid := next_xid d + 1\<rparr>" "res = Inl err"
  | (written) r where "suppression_check p (get_row d (p_key p)) = None"
      "upsert (next_xid d) u now p (get_row d (p_key p)) = Inr r"
      "d' = put_row r (d\<lparr>next_xid := next_xid d + 1\<rparr>)"
      "res = Inr \<lparr>out_uid = UID r, out_version = ObjectVersion r, out_txid = next_xid d,
                  out_changed = True\<rparr>"
  using assms by (auto simp: pgctl_write_def Let_def split: option.splits sum.splits)

lemma upsert_row_key:
  assumes "upsert t u now p (get_row d (p_key p)) = Inr r"
  shows "rkey r = p_key p" "TxidStamp r = t" "next_version (get_row d (p_key p)) p r"
  using upsert_Inr [OF assms] get_row_p_key by blast+

lemma pgctl_write_frame:
  assumes "wf_db d" "pgctl_write u now p d = (d', res)"
  shows "wf_db d' \<and> next_xid d' = next_xid d + 1 \<and> horizon d' = horizon d \<and>
    (\<forall>k. k \<noteq> p_key p \<longrightarrow> get_row d' k = get_row d k)"
  using assms(2)
proof (cases rule: pgctl_write_cases)
  case (written r)
  have r: "rkey r = p_key p" "TxidStamp r = next_xid d" using upsert_row_key [OF written(2)] by simp_all
  moreover have "0 < next_xid d" "wf_db (d\<lparr>next_xid := next_xid d + 1\<rparr>)"
    using assms(1) wf_next_xid [OF assms(1)] by (simp_all add: wf_db_def)
  ultimately show ?thesis using written(3) by (simp add: wf_put_row get_row_put)
qed (use assms(1) wf_next_xid [OF assms(1)] in auto)

text \<open>C6: A call that reports a change has checked the version and touched one row only: the
  row at the request's key carries the call's fresh transaction id, which is what the call
  returns, it continues the row that was there (the expected version plus one under the same
  uid, or version 1 for a new or revived object), and every other row, the horizon and the
  table's invariant are kept.\<close>

theorem pgctl_write_changed:
  assumes "wf_db d" "pgctl_write u now p d = (d', Inr out)" "out_changed out"
  shows "wf_db d' \<and> horizon d' = horizon d \<and> (\<forall>k. k \<noteq> p_key p \<longrightarrow> get_row d' k = get_row d k) \<and>
    (\<exists>r. get_row d' (p_key p) = Some r \<and> next_version (get_row d (p_key p)) p r \<and>
         TxidStamp r = next_xid d \<and>
         out = \<lparr>out_uid = UID r, out_version = ObjectVersion r, out_txid = next_xid d, out_changed = True\<rparr>)"
  using assms(2)
proof (cases rule: pgctl_write_cases)
  case (written r)
  then show ?thesis
    using pgctl_write_frame [OF assms(1,2)] upsert_row_key [OF written(2)] by (auto simp: get_row_put)
qed (use assms(3) in auto)

theorem pgctl_write_changed_witness:
  "\<exists>d'. pgctl_write 9 5 ex_args ex_db =
      (d', Inr \<lparr>out_uid = 7, out_version = 2, out_txid = 4, out_changed = True\<rparr>) \<and> wf_db d'"
proof -
  let ?d = "fst (pgctl_write 9 5 ex_args ex_db)"
  have "pgctl_write 9 5 ex_args ex_db =
      (?d, Inr \<lparr>out_uid = 7, out_version = 2, out_txid = 4, out_changed = True\<rparr>)"
    by (simp add: pgctl_write_def ex_args_def p_key_def suppression_check_def suppressed_iff
        upsert_def update_row_def bigint_succ_def)
  with pgctl_write_changed [OF wf_ex_db this] show ?thesis by auto
qed

text \<open>C16: Which calls are refused, on every branch: the conflict code P0002 is raised exactly when
  the write is not suppressed, names a version, and the row is missing or has another version;
  P0003 exactly when a create finds a row that is not a tombstone; P0004 exactly when a status
  write names no version. A refused or suppressed call leaves the rows as they are.\<close>

theorem pgctl_write_refusals:
  "let cur = get_row d (p_key p); go = (suppression_check p cur = None);
       (d', res) = pgctl_write u now p d
   in (res = Inl ''P0002'' \<longleftrightarrow>
         go \<and> p_expected_version p \<noteq> 0 \<and> (\<forall>e. cur = Some e \<longrightarrow> ObjectVersion e \<noteq> p_expected_version p)) \<and>
      (res = Inl ''P0003'' \<longleftrightarrow>
         go \<and> \<not> p_status_only p \<and> p_expected_version p = 0 \<and>
         p_spec p \<noteq> None \<and> p_status p \<noteq> None \<and> p_metadata p \<noteq> None \<and>
         (\<exists>e. cur = Some e \<and> \<not> is_true (tombstone_filter e))) \<and>
      (res = Inl ''P0004'' \<longleftrightarrow> go \<and> p_status_only p \<and> p_expected_version p = 0) \<and>
      (rows d' \<noteq> rows d \<longrightarrow> (\<exists>out. res = Inr out \<and> out_changed out))"
  by (auto simp: pgctl_write_def Let_def upsert_def branch_defs not_null_violation_def out_of_range_def
      split: branch_splits insert_result.splits)

theorem pgctl_write_refusals_witness:
  "snd (pgctl_write 9 5 (ex_args\<lparr>p_expected_version := 2\<rparr>) ex_db) = Inl ''P0002''"
  using pgctl_write_refusals [of ex_db "ex_args\<lparr>p_expected_version := 2\<rparr>" 9 5]
  by (auto simp: Let_def ex_args_def p_key_def suppression_check_def suppressed_iff split: prod.splits)

text \<open>After a success, written or suppressed, the row holds what was asked for.\<close>

lemma pgctl_write_stores:
  assumes "pgctl_write u now p d = (d', Inr out)"
  obtains r where "get_row d' (p_key p) = Some r" "out_version out = ObjectVersion r" "out_uid out = UID r"
    "\<not> p_status_only p \<Longrightarrow> p_spec p = Some (Spec r) \<and> p_metadata p = Some (Metadata r)"
    "p_status p \<noteq> None \<Longrightarrow> p_status p = Some (Status r)"
    "p_expected_version p \<noteq> 0 \<Longrightarrow> \<not> p_status_only p \<Longrightarrow> DeletionTimestamp r = p_deletion_ts p"
    "p_expected_version p \<noteq> 0 \<Longrightarrow> \<exists>e. get_row d (p_key p) = Some e \<and>
       (p_status p = None \<longrightarrow> Status r = Status e) \<and> UID r = UID e \<and>
       (p_status_only p \<longrightarrow> Spec r = Spec e \<and> Metadata r = Metadata e \<and> DeletionTimestamp r = DeletionTimestamp e)"
    "p_expected_version p = 0 \<Longrightarrow> p_deletion_ts p = None \<Longrightarrow> \<not> p_status_only p \<Longrightarrow> DeletionTimestamp r = None"
    "get_row d (p_key p) = None \<Longrightarrow> out_changed out \<and> ObjectVersion r = 1"
  using assms
proof (cases rule: pgctl_write_cases)
  case (noop e)
  then have e: "get_row d (p_key p) = Some e" "suppressed p e" by (simp_all add: suppression_check_Some)
  show ?thesis
    by (rule that [of e]) (use e noop in \<open>auto simp: suppressed_iff split: if_splits\<close>)
next
  case (written r)
  have k: "get_row d' (p_key p) = Some r"
    using written upsert_row_key(1) [OF written(2)] by (simp add: get_row_put)
  show ?thesis
    by (rule that [of r], rule k)
      (use written(2,4) in \<open>auto simp: upsert_def branch_defs split: branch_splits insert_result.splits\<close>)
qed simp

text \<open>On a row that is no tombstone, a success keeps the identity.\<close>

lemma pgctl_write_on_live:
  assumes "pgctl_write u now p d = (d', Inr out)" "get_row d (p_key p) = Some e"
    "\<not> is_true (tombstone_filter e)" "\<not> p_status_only p"
  shows "\<exists>r. get_row d' (p_key p) = Some r \<and> out_version out = ObjectVersion r \<and> UID r = UID e \<and>
    p_spec p = Some (Spec r) \<and> p_metadata p = Some (Metadata r) \<and> DeletionTimestamp r = p_deletion_ts p \<and>
    Status r = coalesce (p_status p) (Status e)"
  using assms(1)
proof (cases rule: pgctl_write_cases)
  case (noop f)
  then show ?thesis using assms(2-4) by (auto simp: suppression_check_Some suppressed_iff)
next
  case (written r)
  then have "get_row d' (p_key p) = Some r" using upsert_row_key(1) [OF written(2)] by (simp add: get_row_put)
  then show ?thesis
    using written(2,4) assms(2-4)
    by (auto simp: upsert_def branch_defs split: branch_splits insert_result.splits)
qed simp

text \<open>The row a successful update or plain create stores satisfies the suppression test of the same request.\<close>

lemma upsert_then_suppressed:
  assumes "upsert t u now p cur = Inr r" "p_expected_version p \<noteq> 0 \<or> p_deletion_ts p = None"
  shows "suppressed p r"
  using assms
  by (cases "p_status p")
    (auto simp: upsert_def suppressed_iff branch_defs split: branch_splits insert_result.splits)

text \<open>Replaying is safe: sending the request of a successful write again (not forced, and not a
  create that asks for a deletion timestamp) changes no row, reports no change and returns the
  uid and version of the first call, whatever the clock and the generated uuid are by then.\<close>

theorem pgctl_write_replay:
  assumes "wf_db d" "pgctl_write u now p d = (d', Inr out)"
    and "\<not> p_force_write p" "p_expected_version p \<noteq> 0 \<or> p_deletion_ts p = None"
  shows "pgctl_write u' now' p d' =
    (d'\<lparr>next_xid := next_xid d' + 1\<rparr>,
     Inr \<lparr>out_uid = out_uid out, out_version = out_version out, out_txid = 0, out_changed = False\<rparr>)"
  using assms(2)
proof (cases rule: pgctl_write_cases)
  case (noop e)
  then show ?thesis by (simp add: pgctl_write_def)
next
  case (written r)
  then have "get_row d' (p_key p) = Some r" "suppressed p r"
    using upsert_row_key(1) [OF written(2)] upsert_then_suppressed [OF written(2) assms(4)]
    by (simp_all add: get_row_put)
  then show ?thesis using assms(3) written(4) by (simp add: pgctl_write_def suppression_check_def)
qed simp

theorem pgctl_write_replay_witness:
  "snd (pgctl_write 1 8 ex_args (fst (pgctl_write 9 5 ex_args ex_db))) =
     Inr \<lparr>out_uid = 7, out_version = 2, out_txid = 0, out_changed = False\<rparr>"
proof -
  have "pgctl_write 9 5 ex_args ex_db = (fst (pgctl_write 9 5 ex_args ex_db),
      Inr \<lparr>out_uid = 7, out_version = 2, out_txid = 4, out_changed = True\<rparr>)"
    by (simp add: pgctl_write_def ex_args_def p_key_def suppression_check_def suppressed_iff
        upsert_def update_row_def bigint_succ_def)
  from pgctl_write_replay [OF wf_ex_db this, of 1 8] show ?thesis
    by (simp add: ex_args_def)
qed

text \<open>Which columns a write may change. A status write keeps spec, metadata, deletion and creation
  times and the uid; an object write without a status keeps the status; no update changes the
  creation time. Only a revival, on a tombstone, gives the row a new identity.\<close>

theorem pgctl_write_columns:
  assumes "pgctl_write u now p d = (d', Inr out)" "get_row d (p_key p) = Some e"
    and "get_row d' (p_key p) = Some r"
  shows "(p_status_only p \<longrightarrow> r = e\<lparr>TxidStamp := TxidStamp r, ObjectVersion := ObjectVersion r,
              Status := Status r, UpdatedAt := UpdatedAt r\<rparr>) \<and>
    (p_expected_version p \<noteq> 0 \<longrightarrow> UID r = UID e \<and> CreatedAt r = CreatedAt e \<and>
       (p_status p = None \<longrightarrow> Status r = Status e)) \<and>
    (UID r \<noteq> UID e \<longrightarrow> is_true (tombstone_filter e) \<and> ObjectVersion r = 1 \<and> DeletionTimestamp r = None)"
  using assms(1)
proof (cases rule: pgctl_write_cases)
  case (noop f)
  then show ?thesis using assms by simp
next
  case (written q)
  then have "q = r" using upsert_row_key(1) [OF written(2)] assms(3) by (simp add: get_row_put)
  then show ?thesis
    using written(2) assms(2)
    by (auto simp: upsert_def branch_defs split: branch_splits insert_result.splits)
qed simp

theorem pgctl_write_columns_witness:
  "\<exists>r. get_row (fst (pgctl_write 9 5 ex_args ex_db)) (''g'', ''n'', ''a'') = Some r \<and>
       UID r = 7 \<and> Status r = JObj []"
proof -
  let ?d' = "fst (pgctl_write 9 5 ex_args ex_db)"
  let ?r = "ex_row\<lparr>TxidStamp := 4, ObjectVersion := 2, Spec := JObj [(''x'', JNum 2)], UpdatedAt := 5\<rparr>"
  have w: "pgctl_write 9 5 ex_args ex_db = (?d',
      Inr \<lparr>out_uid = 7, out_version = 2, out_txid = 4, out_changed = True\<rparr>)"
    and r: "get_row ?d' (p_key ex_args) = Some ?r"
    by (simp_all add: pgctl_write_def ex_args_def p_key_def suppression_check_def suppressed_iff
        upsert_def update_row_def bigint_succ_def get_row_put rkey_def)
  have "get_row ex_db (p_key ex_args) = Some ex_row" by (simp add: ex_args_def p_key_def)
  from pgctl_write_columns [OF w this r] r show ?thesis by (simp add: ex_args_def p_key_def)
qed

lemmas eval_pgctl = pgctl_write_def p_key_def suppression_check_def suppressed_iff upsert_def
  insert_row_def revive_row_def update_row_def bigint_succ_def get_row_put rkey_def tombstone_filter_iff

definition ex_delete :: pgargs where
  "ex_delete = ex_args\<lparr>p_spec := Some (JObj [(''x'', JNum 1)]), p_status := Some (JObj []), p_deletion_ts := Some 5\<rparr>"

definition ex_recreate :: pgargs where
  "ex_recreate = ex_args\<lparr>p_expected_version := 0, p_spec := Some (JObj [(''x'', JNum 3)]), p_status := Some (JObj [])\<rparr>"

text \<open>The version check does not tell incarnations apart: an object read at version 1 is deleted
  and created again by others; the new object, with another uid, starts at version 1 too, and
  the stale update that expects version 1 is accepted and overwrites it.\<close>

theorem stale_version_crosses_incarnations:
  "let d1 = fst (pgctl_write 8 5 ex_delete ex_db); d2 = fst (pgctl_write 9 6 ex_recreate d1);
       (d3, res) = pgctl_write 10 7 ex_args d2
   in map_option UID (get_row ex_db (p_key ex_args)) = Some 7 \<and>
      map_option (\<lambda>r. (UID r, ObjectVersion r)) (get_row d2 (p_key ex_args)) = Some (9, 1) \<and>
      res = Inr \<lparr>out_uid = 9, out_version = 2, out_txid = 6, out_changed = True\<rparr> \<and>
      map_option Spec (get_row d3 (p_key ex_args)) = Some (JObj [(''x'', JNum 2)])"
  by (simp add: eval_pgctl ex_delete_def ex_recreate_def ex_args_def)

end
