(* ===== verification/Compaction.thy ===== *)
theory Compaction
  imports Pgctl
begin

text \<open>
  Tombstone compaction, src/pkg/compaction/compactor.go: one statement deletes the
  fully-deleted rows older than the retention and raises the horizon of every gvk it deleted
  from. \<open>compact_rows\<close> is the effect of the statement on a chosen set of rows (the statement
  may skip a row another transaction has locked and changed); \<open>Compact\<close> chooses every
  eligible one.
\<close>

record compact_config = Retention :: int

definition default_retention :: int where
  "default_retention = 24 * 60 * 60 * 1000000"

text \<open>The age test: GREATEST(deletion_timestamp, updated_at) < now() - cutoff, in microseconds.\<close>

definition older_than :: "time \<Rightarrow> int \<Rightarrow> resource \<Rightarrow> sqlbool" where
  "older_than now cutoff r =
     (case DeletionTimestamp r of
        None \<Rightarrow> Some (UpdatedAt r < now - cutoff)
      | Some dt \<Rightarrow> Some (max dt (UpdatedAt r) < now - cutoff))"

definition compact_filter :: "time \<Rightarrow> int \<Rightarrow> resource \<Rightarrow> sqlbool" where
  "compact_filter now cutoff r =
     sql_and (sql_not (sql_is_null (DeletionTimestamp r)))
       (sql_and (older_than now cutoff r) (no_finalizers_sql r))"

text \<open>The horizon CTE: max(txid_stamp) per gvk of the deleted rows, merged with GREATEST.\<close>

definition raise_horizon :: "resource list \<Rightarrow> (string \<Rightarrow> txid option) \<Rightarrow> string \<Rightarrow> txid option" where
  "raise_horizon del h g =
     (let ss = map TxidStamp (filter (\<lambda>r. GVK r = g) del)
      in if ss = [] then h g
         else Some (case h g of None \<Rightarrow> Max (set ss) | Some c \<Rightarrow> max c (Max (set ss))))"

definition compact_rows :: "(resource \<Rightarrow> bool) \<Rightarrow> db \<Rightarrow> db" where
  "compact_rows P d =
     d\<lparr>rows := filter (\<lambda>r. \<not> P r) (rows d),
       horizon := raise_horizon (filter P (rows d)) (horizon d)\<rparr>"

text \<open>
  Compact: a zero Retention means 24 hours; the interval is whole seconds (Go's int
  conversion truncates towards zero). The statement runs as a transaction of its own.
\<close>

definition trunc_seconds :: "int \<Rightarrow> int" where
  "trunc_seconds us = sgn us * (\<bar>us\<bar> div 1000000)"

definition Compact :: "time \<Rightarrow> compact_config \<Rightarrow> db \<Rightarrow> db \<times> nat" where
  "Compact now cfg d =
     (let ret = (if Retention cfg = 0 then default_retention else Retention cfg);
          cutoff = trunc_seconds ret * 1000000;
          P = (\<lambda>r. is_true (compact_filter now cutoff r))
      in ((compact_rows P d)\<lparr>next_xid := next_xid d + 1\<rparr>, length (filter P (rows d))))"

section \<open>Laws\<close>

lemma compact_filter_iff:
  "is_true (compact_filter now cutoff r) \<longleftrightarrow>
     is_true (tombstone_filter r) \<and> is_true (older_than now cutoff r)"
  by (auto simp: compact_filter_def tombstone_filter_def)

lemma raise_horizon_mono: "h g = Some c \<Longrightarrow> \<exists>c'. raise_horizon del h g = Some c' \<and> c \<le> c'"
  by (auto simp: raise_horizon_def Let_def)

lemma raise_horizon_covers:
  assumes "r \<in> set del"
  shows "\<exists>c. raise_horizon del h (GVK r) = Some c \<and> TxidStamp r \<le> c"
proof -
  let ?ss = "map TxidStamp (filter (\<lambda>x. GVK x = GVK r) del)"
  have in_ss: "TxidStamp r \<in> set ?ss" using assms by auto
  then have "TxidStamp r \<le> Max (set ?ss)" by (intro Max_ge) auto
  moreover have "?ss \<noteq> []" using in_ss by (metis empty_iff empty_set)
  ultimately show ?thesis
    by (auto simp: raise_horizon_def Let_def split: option.splits intro: max.coboundedI2)
qed

lemma raise_horizon_other: "(\<And>r. r \<in> set del \<Longrightarrow> GVK r \<noteq> g) \<Longrightarrow> raise_horizon del h g = h g"
  by (auto simp: raise_horizon_def Let_def filter_empty_conv)

text \<open>The new horizon is the old one or the stamp of a row that was deleted.\<close>

lemma raise_horizon_tight:
  assumes "raise_horizon del h g = Some c"
  shows "h g = Some c \<or> (\<exists>r \<in> set del. GVK r = g \<and> TxidStamp r = c)"
proof (cases "filter (\<lambda>r. GVK r = g) del = []")
  case True
  with assms show ?thesis by (simp add: raise_horizon_def)
next
  case False
  let ?S = "set (map TxidStamp (filter (\<lambda>r. GVK r = g) del))"
  have "Max ?S \<in> ?S" using False by (intro Max_in) (auto simp: filter_empty_conv)
  with assms False show ?thesis
    by (auto simp: raise_horizon_def Let_def max_def split: option.splits if_splits)
qed

lemma compact_rows_frame [simp]: "next_xid (compact_rows P d) = next_xid d"
  by (simp add: compact_rows_def)

lemma get_row_compact_rows [table_simps]:
  "wf_db d \<Longrightarrow> get_row (compact_rows P d) k =
     (case get_row d k of None \<Rightarrow> None | Some r \<Rightarrow> if P r then None else Some r)"
  by (auto simp: get_row_def compact_rows_def wf_db_def lookup_by_filter split: option.splits)

lemma wf_compact_rows: "wf_db d \<Longrightarrow> wf_db (compact_rows P d)"
  by (auto simp: wf_db_def compact_rows_def distinct_filter_keys)

lemma horizon_compact_mono:
  "horizon d g = Some c \<Longrightarrow> \<exists>c'. horizon (compact_rows P d) g = Some c' \<and> c \<le> c'"
  by (simp add: compact_rows_def raise_horizon_mono)

lemma horizon_compact_covers:
  "r \<in> set (rows d) \<Longrightarrow> P r \<Longrightarrow>
     \<exists>c. horizon (compact_rows P d) (GVK r) = Some c \<and> TxidStamp r \<le> c"
  by (simp add: compact_rows_def raise_horizon_covers)

section \<open>Properties\<close>


definition ex_tombstone :: resource where
  "ex_tombstone = ex_row\<lparr>DeletionTimestamp := Some 0\<rparr>"


end
