(* ===== verification/Reader.thy ===== *)
theory Reader
  imports Compaction
begin

text \<open>
  The read side, src/internal/reader: List (list.go), shards (shard.go), event types
  (event.go) and one poll (pollAll of watcher.go). A REPEATABLE READ transaction reads one
  snapshot: the committed database and pg_snapshot_xmin, the least transaction id that is
  still running, or the next one to be assigned when none is.
\<close>

record snapshot =
  s_db :: db
  s_xmin :: txid

section \<open>Shards\<close>

record ShardSpec =
  Mod :: int
  Owned :: "int list"

text \<open>Validate (shard.go, 14-32): the loop with its set of residues already seen.\<close>

datatype shard_error = ModNotPositive int | OwnedEmpty | OutOfRange int int | DuplicateOwned int

fun validate_owned :: "int \<Rightarrow> int list \<Rightarrow> int list \<Rightarrow> shard_error option" where
  "validate_owned m seen [] = None"
| "validate_owned m seen (r # rs) =
     (if r < 0 \<or> m \<le> r then Some (OutOfRange r m)
      else if r \<in> set seen then Some (DuplicateOwned r)
      else validate_owned m (r # seen) rs)"

definition Validate :: "ShardSpec \<Rightarrow> shard_error option" where
  "Validate s =
     (if Mod s \<le> 0 then Some (ModNotPositive (Mod s))
      else if Owned s = [] then Some OwnedEmpty
      else validate_owned (Mod s) [] (Owned s))"

text \<open>
  The predicate \<open>abs(hashtext(namespace)::bigint) % $Mod = ANY($Owned::int[])\<close>. PostgreSQL's
  hashtext is the argument \<open>ht\<close>; the left operand of \<open>%\<close> is not negative, so truncated and
  floored remainders agree.
\<close>

definition shard_match :: "(string \<Rightarrow> int) \<Rightarrow> ShardSpec \<Rightarrow> resource \<Rightarrow> bool" where
  "shard_match ht s r \<longleftrightarrow> \<bar>ht (Namespace r)\<bar> mod Mod s \<in> set (Owned s)"

definition in_shard :: "(string \<Rightarrow> int) \<Rightarrow> ShardSpec option \<Rightarrow> resource \<Rightarrow> bool" where
  "in_shard ht s r = (case s of None \<Rightarrow> True | Some sp \<Rightarrow> shard_match ht sp r)"

lemma validate_owned_None:
  "validate_owned m seen rs = None \<longleftrightarrow>
     (\<forall>r \<in> set rs. 0 \<le> r \<and> r < m) \<and> distinct rs \<and> set rs \<inter> set seen = {}"
  by (induction m seen rs rule: validate_owned.induct) auto

lemma Validate_None:
  "Validate s = None \<longleftrightarrow>
     0 < Mod s \<and> Owned s \<noteq> [] \<and> distinct (Owned s) \<and> (\<forall>r \<in> set (Owned s). 0 \<le> r \<and> r < Mod s)"
  by (auto simp: Validate_def validate_owned_None)

section \<open>List\<close>

text \<open>
  A ListFilter is a list of SQL predicates (their text and arguments are in the theories of
  the clients), a limit and an offset.
\<close>

record ListFilter =
  WhereClauses :: "(resource \<Rightarrow> sqlbool) list"
  Limit :: int
  Offset :: int

record ListResult =
  Resources :: "resource list"
  Watermark :: txid

text \<open>deletion_timestamp IS NULL OR metadata->'finalizers' != '[]'::jsonb\<close>

definition list_filter :: "resource \<Rightarrow> sqlbool" where
  "list_filter r =
     sql_or (sql_is_null (DeletionTimestamp r))
            (sql_not (sql_eq (jget ''finalizers'' (Metadata r)) (Some (JArr []))))"

definition paginate :: "int \<Rightarrow> int \<Rightarrow> 'a list \<Rightarrow> 'a list" where
  "paginate lim off xs =
     (if 0 < lim then take (nat lim) (if 0 < off then drop (nat off) xs else xs) else xs)"

definition watermark_of :: "txid \<Rightarrow> txid" where
  "watermark_of xmin = (if 0 < xmin then xmin - 1 else 0)"

definition List :: "snapshot \<Rightarrow> string \<Rightarrow> ListFilter option \<Rightarrow> ListResult" where
  "List sn g flt =
     (let clauses = (case flt of None \<Rightarrow> [] | Some f \<Rightarrow> WhereClauses f);
          sel = filter (\<lambda>r. GVK r = g \<and> is_true (list_filter r) \<and>
                             list_all (\<lambda>c. is_true (c r)) clauses) (rows (s_db sn));
          ord = sort_key TxidStamp sel
      in \<lparr>Resources = (case flt of None \<Rightarrow> ord | Some f \<Rightarrow> paginate (Limit f) (Offset f) ord),
          Watermark = watermark_of (s_xmin sn)\<rparr>)"

text \<open>ToListFilter (shard.go, 48-55).\<close>

definition ToListFilter :: "(string \<Rightarrow> int) \<Rightarrow> ShardSpec \<Rightarrow> ListFilter" where
  "ToListFilter ht s =
     \<lparr>WhereClauses = [\<lambda>r. Some (shard_match ht s r)], Limit = 0, Offset = 0\<rparr>"

lemma set_List:
  "set (Resources (List sn g None)) =
     {r \<in> set (rows (s_db sn)). GVK r = g \<and> is_true (list_filter r)}"
  by (auto simp: List_def Let_def)

lemma set_List_shard:
  "set (Resources (List sn g (Some (ToListFilter ht s)))) =
     {r \<in> set (rows (s_db sn)). GVK r = g \<and> is_true (list_filter r) \<and> shard_match ht s r}"
  by (auto simp: List_def Let_def ToListFilter_def paginate_def)

text \<open>
  The three spellings of the tombstone filter: List shows exactly the rows that revival and
  compaction do not treat as tombstones.
\<close>

lemma list_filter_iff: "is_true (list_filter r) \<longleftrightarrow> \<not> is_true (tombstone_filter r)"
  by (cases "jget ''finalizers'' (Metadata r)")
    (auto simp: list_filter_def tombstone_filter_iff sql_simps)

section \<open>One poll\<close>

datatype EventType = EventAdded | EventModified | EventDeleted

record Event =
  Type :: EventType
  Resource :: resource

fun event_string :: "EventType \<Rightarrow> string" where
  "event_string EventAdded = ''ADDED''"
| "event_string EventModified = ''MODIFIED''"
| "event_string EventDeleted = ''DELETED''"

record WatcherConfig =
  cGVK :: string
  cStart :: txid
  cShard :: "ShardSpec option"

datatype poll_error = ErrGone txid txid

definition event_of :: "resource \<Rightarrow> Event" where
  "event_of r =
     \<lparr>Type = (if DeletionTimestamp r \<noteq> None then EventDeleted
              else if ObjectVersion r = 1 then EventAdded else EventModified),
      Resource = r\<rparr>"

definition poll_rows :: "(string \<Rightarrow> int) \<Rightarrow> WatcherConfig \<Rightarrow> txid \<Rightarrow> db \<Rightarrow> resource list" where
  "poll_rows ht cfg hwm d =
     sort_key TxidStamp
       (filter (\<lambda>r. GVK r = cGVK cfg \<and> hwm < TxidStamp r \<and> in_shard ht (cShard cfg) r) (rows d))"

text \<open>
  pollAll (watcher.go, 385-464): the events of the snapshot and the new high-water mark, or
  ErrGone when the mark is behind the compaction horizon.
\<close>

definition pollAll ::
  "(string \<Rightarrow> int) \<Rightarrow> WatcherConfig \<Rightarrow> txid \<Rightarrow> snapshot \<Rightarrow> poll_error + (Event list \<times> txid)" where
  "pollAll ht cfg hwm sn =
     (case horizon (s_db sn) (cGVK cfg) of
        Some c \<Rightarrow>
          if hwm < c then Inl (ErrGone hwm c)
          else Inr (map event_of (poll_rows ht cfg hwm (s_db sn)),
                    if 0 < s_xmin sn \<and> hwm < s_xmin sn - 1 then s_xmin sn - 1 else hwm)
      | None \<Rightarrow>
          Inr (map event_of (poll_rows ht cfg hwm (s_db sn)),
               if 0 < s_xmin sn \<and> hwm < s_xmin sn - 1 then s_xmin sn - 1 else hwm))"

lemma pollAll_Inr:
  "pollAll ht cfg hwm sn = Inr (evs, h') \<Longrightarrow>
     evs = map event_of (poll_rows ht cfg hwm (s_db sn)) \<and> h' = max hwm (s_xmin sn - 1) \<and>
     (\<forall>c. horizon (s_db sn) (cGVK cfg) = Some c \<longrightarrow> c \<le> hwm)"
  by (auto simp: pollAll_def split: option.splits if_splits)

lemma pollAll_Inl:
  "pollAll ht cfg hwm sn = Inl e \<longleftrightarrow>
     (\<exists>c. horizon (s_db sn) (cGVK cfg) = Some c \<and> hwm < c \<and> e = ErrGone hwm c)"
  by (auto simp: pollAll_def split: option.splits)

lemma set_poll_rows:
  "set (poll_rows ht cfg hwm d) =
     {r \<in> set (rows d). GVK r = cGVK cfg \<and> hwm < TxidStamp r \<and> in_shard ht (cShard cfg) r}"
  by (auto simp: poll_rows_def)

lemma sorted_poll_rows: "sorted (map TxidStamp (poll_rows ht cfg hwm d))"
  by (simp add: poll_rows_def)

section \<open>Properties\<close>

text \<open>C22: List returns, in stamp order and each key once, exactly the rows of the gvk that revival and
  compaction do not treat as tombstones, and its resource version is the snapshot's xmin minus
  one.\<close>

theorem list_exact:
  assumes "wf_db (s_db sn)" "0 < s_xmin sn"
  shows "set (Resources (List sn g None)) =
      {r \<in> set (rows (s_db sn)). GVK r = g \<and> \<not> is_true (tombstone_filter r)} \<and>
    sorted (map TxidStamp (Resources (List sn g None))) \<and>
    distinct (map rkey (Resources (List sn g None))) \<and>
    Suc (Watermark (List sn g None)) = s_xmin sn"
proof -
  let ?sel = "filter (\<lambda>r. GVK r = g \<and> is_true (list_filter r)) (rows (s_db sn))"
  have "distinct (map rkey (sort_key TxidStamp ?sel))"
    using assms(1) by (simp add: wf_db_def distinct_filter_keys distinct_sort_key)
  moreover have "Resources (List sn g None) = sort_key TxidStamp ?sel" by (simp add: List_def Let_def)
  moreover have "Suc (Watermark (List sn g None)) = s_xmin sn"
    using assms(2) by (simp add: List_def Let_def watermark_of_def)
  moreover have "set (sort_key TxidStamp ?sel) =
      {r \<in> set (rows (s_db sn)). GVK r = g \<and> \<not> is_true (tombstone_filter r)}"
    by (auto simp: list_filter_iff)
  moreover have "sorted (map TxidStamp (sort_key TxidStamp ?sel))" by simp
  ultimately show ?thesis by (simp only: simp_thms)
qed

definition ex_snap :: snapshot where
  "ex_snap = \<lparr>s_db = ex_db, s_xmin = 4\<rparr>"

theorem list_exact_witness: "Resources (List ex_snap ''g'' None) = [ex_row] \<and> Watermark (List ex_snap ''g'' None) = 3"
  using list_exact [of ex_snap "''g''"]
  by (simp add: ex_snap_def) (simp add: List_def list_filter_iff tombstone_filter_iff)

text \<open>Paging by offset over one snapshot is complete and without repeats: the pages with limit L
  at offsets 0, L, 2L, ... are, one after the other, the unpaged list under the same filter.\<close>

theorem list_pages_complete:
  assumes "0 < lim"
  shows "concat (map (\<lambda>i. Resources (List sn g (Some \<lparr>WhereClauses = cs, Limit = lim, Offset = int i * lim\<rparr>))) [0..<n]) =
    take (n * nat lim) (Resources (List sn g (Some \<lparr>WhereClauses = cs, Limit = 0, Offset = 0\<rparr>)))"
proof -
  define xs where "xs = Resources (List sn g (Some \<lparr>WhereClauses = cs, Limit = 0, Offset = 0\<rparr>))"
  have page: "Resources (List sn g (Some \<lparr>WhereClauses = cs, Limit = lim, Offset = int i * lim\<rparr>)) =
      take (nat lim) (drop (i * nat lim) xs)" for i
  proof -
    have "nat (int i * lim) = i * nat lim" using assms by (simp add: nat_mult_distrib)
    moreover have "0 < int i * lim \<longleftrightarrow> 0 < i" using assms by (simp add: zero_less_mult_iff)
    ultimately show ?thesis using assms by (simp add: xs_def List_def Let_def paginate_def)
  qed
  have "concat (map (\<lambda>i. take l (drop (i * l) xs)) [0..<n]) = take (n * l) xs" for l
  proof (induction n)
    case (Suc n)
    have "take (n * l) xs @ take l (drop (n * l) xs) = take (n * l + l) xs" by (simp add: take_add)
    then show ?case using Suc by (simp add: algebra_simps)
  qed simp
  then show ?thesis unfolding page by (simp add: xs_def)
qed

theorem list_pages_complete_witness:
  "concat (map (\<lambda>i. Resources (List ex_snap ''g'' (Some \<lparr>WhereClauses = [], Limit = 1, Offset = int i * 1\<rparr>))) [0..<2]) = [ex_row]"
  unfolding list_pages_complete [where lim = 1, simplified, of ex_snap "''g''" "[]" 2, simplified]
  by (subst list_pages_complete) (simp_all add: List_def list_filter_iff tombstone_filter_iff ex_snap_def paginate_def)

definition ex_second :: resource where
  "ex_second = ex_row\<lparr>Name := ''b'', TxidStamp := 4\<rparr>"

definition ex_third :: resource where
  "ex_third = ex_row\<lparr>Name := ''c'', TxidStamp := 5\<rparr>"

definition ex_before :: snapshot where
  "ex_before = \<lparr>s_db = \<lparr>rows = [ex_row, ex_second, ex_third], horizon = (\<lambda>_. None), next_xid = 6\<rparr>, s_xmin = 6\<rparr>"

definition ex_updated :: resource where
  "ex_updated = ex_row\<lparr>ObjectVersion := 2, TxidStamp := 6\<rparr>"

definition ex_after :: snapshot where
  "ex_after = \<lparr>s_db = (put_row ex_updated (s_db ex_before))\<lparr>next_xid := 7\<rparr>, s_xmin = 7\<rparr>"

definition ex_page :: "int \<Rightarrow> ListFilter" where
  "ex_page off = \<lparr>WhereClauses = [], Limit = 1, Offset = off\<rparr>"

lemma ex_rows_simps:
  "rkey ex_second = (''g'', ''n'', ''b'')" "TxidStamp ex_second = 4" "GVK ex_second = ''g''"
  "DeletionTimestamp ex_second = None"
  "rkey ex_third = (''g'', ''n'', ''c'')" "TxidStamp ex_third = 5" "GVK ex_third = ''g''"
  "DeletionTimestamp ex_third = None"
  "rkey ex_updated = (''g'', ''n'', ''a'')" "TxidStamp ex_updated = 6" "GVK ex_updated = ''g''"
  "DeletionTimestamp ex_updated = None"
  by (simp_all add: ex_second_def ex_third_def ex_updated_def rkey_def)

lemma ex_before_rows: "rows (s_db ex_before) = [ex_row, ex_second, ex_third]"
  by (simp add: ex_before_def)

lemma ex_after_rows: "rows (s_db ex_after) = [ex_updated, ex_second, ex_third]"
  by (simp add: ex_after_def put_row_def put_by_def ex_before_rows ex_rows_simps)

lemma ex_lists:
  "Resources (List ex_before ''g'' (Some (ex_page off))) = paginate 1 off [ex_row, ex_second, ex_third]"
  "Resources (List ex_after ''g'' (Some (ex_page off))) = paginate 1 off [ex_second, ex_third, ex_updated]"
  by (simp_all add: List_def Let_def ex_page_def ex_before_rows ex_after_rows list_filter_iff
      tombstone_filter_iff ex_rows_simps)

text \<open>Across snapshots paging by offset is not complete: when the first object is updated between
  two pages it moves to the end of the stamp order, and an object that no one touched, and that
  both snapshots hold, is on no page of the walk.\<close>

theorem list_pages_skip:
  "Resources (List ex_before ''g'' (Some (ex_page 0))) = [ex_row] \<and>
   Resources (List ex_after ''g'' (Some (ex_page 1))) = [ex_third] \<and>
   Resources (List ex_after ''g'' (Some (ex_page 2))) = [ex_updated] \<and>
   Resources (List ex_after ''g'' (Some (ex_page 3))) = [] \<and>
   ex_second \<in> set (rows (s_db ex_before)) \<and> ex_second \<in> set (rows (s_db ex_after))"
  by (simp add: ex_lists paginate_def ex_before_rows ex_after_rows)

text \<open>C24: Sharding is a partition (the shards' residues together are 0..m-1, each owned once): every
  row has exactly one shard, so of all the shards exactly one lists it when the unsharded list
  has it, and exactly one poll delivers it when the unsharded poll would.\<close>

theorem shards_partition:
  assumes valid: "\<forall>s \<in> set ss. Validate s = None \<and> Mod s = m"
    and owned: "\<forall>i. 0 \<le> i \<and> i < m \<longrightarrow> (\<exists>!j. j < length ss \<and> i \<in> set (Owned (ss ! j)))" and "ss \<noteq> []"
  shows "(\<exists>!j. j < length ss \<and> shard_match ht (ss ! j) r) \<and>
    (r \<in> set (Resources (List sn g None)) \<longrightarrow>
       (\<exists>!j. j < length ss \<and> r \<in> set (Resources (List sn g (Some (ToListFilter ht (ss ! j))))))) \<and>
    (r \<in> set (poll_rows ht \<lparr>cGVK = g, cStart = st, cShard = None\<rparr> h (s_db sn)) \<longrightarrow>
       (\<exists>!j. j < length ss \<and>
          r \<in> set (poll_rows ht \<lparr>cGVK = g, cStart = st, cShard = Some (ss ! j)\<rparr> h (s_db sn))))"
proof -
  have "0 < m" using valid assms(3) by (cases ss) (auto simp: Validate_None)
  then have "0 \<le> \<bar>ht (Namespace r)\<bar> mod m" "\<bar>ht (Namespace r)\<bar> mod m < m" by simp_all
  then have "\<exists>!j. j < length ss \<and> \<bar>ht (Namespace r)\<bar> mod m \<in> set (Owned (ss ! j))"
    using owned by blast
  moreover have "(j < length ss \<and> shard_match ht (ss ! j) r) \<longleftrightarrow>
      (j < length ss \<and> \<bar>ht (Namespace r)\<bar> mod m \<in> set (Owned (ss ! j)))" for j
    using valid by (auto simp: shard_match_def)
  ultimately have "\<exists>!j. j < length ss \<and> shard_match ht (ss ! j) r" by simp
  then show ?thesis
    by (auto simp: set_List set_List_shard set_poll_rows in_shard_def)
qed

theorem shards_partition_witness:
  "\<exists>!j. j < 2 \<and> shard_match (\<lambda>s. 5) ([\<lparr>Mod = 2, Owned = [0]\<rparr>, \<lparr>Mod = 2, Owned = [1]\<rparr>] ! j) ex_row"
proof -
  have two: "j < 2 \<longleftrightarrow> j = 0 \<or> j = (1 :: nat)" for j by auto
  have "\<exists>!j. j < length [\<lparr>Mod = 2, Owned = [0]\<rparr>, \<lparr>Mod = 2, Owned = [1]\<rparr>] \<and>
      shard_match (\<lambda>s. 5) ([\<lparr>Mod = 2, Owned = [0]\<rparr>, \<lparr>Mod = 2, Owned = [1]\<rparr>] ! j) ex_row"
  proof (rule shards_partition [THEN conjunct1])
    show "\<forall>i. 0 \<le> i \<and> i < 2 \<longrightarrow> (\<exists>!j. j < length [\<lparr>Mod = 2, Owned = [0]\<rparr>, \<lparr>Mod = 2, Owned = [1]\<rparr>] \<and>
        i \<in> set (Owned ([\<lparr>Mod = 2, Owned = [0]\<rparr>, \<lparr>Mod = 2, Owned = [1]\<rparr>] ! j)))"
    proof (intro allI impI)
      fix i :: int assume "0 \<le> i \<and> i < 2"
      then have "i = 0 \<or> i = 1" by auto
      then show "\<exists>!j. j < length [\<lparr>Mod = 2, Owned = [0]\<rparr>, \<lparr>Mod = 2, Owned = [1]\<rparr>] \<and>
        i \<in> set (Owned ([\<lparr>Mod = 2, Owned = [0]\<rparr>, \<lparr>Mod = 2, Owned = [1]\<rparr>] ! j))"
        by (auto simp: two numeral_2_eq_2 less_Suc_eq)
    qed
  qed (simp_all add: Validate_None)
  then show ?thesis by (simp add: numeral_2_eq_2)
qed



end
