(* ===== verification/Sessions.thy ===== *)
theory Sessions
  imports Reader
begin

text \<open>
  Many sessions calling pgctl_write and the compactor at once. A transaction takes its id
  first, reads the existing row (suppression), runs its upsert in one statement, or in two
  when the INSERT meets a row and the handler tries to revive it, and then commits or aborts;
  other sessions move in between. READ COMMITTED: every statement sees the rows committed when
  it runs, and a row written by a running transaction is locked until that transaction ends.
  Other transactions of the cluster only hold an id. Compaction deletes any set of unlocked
  eligible rows and raises the horizon in the same statement.
\<close>

datatype phase = Other | Began | Checked | Reviving | Wrote resource

record txn =
  t_xid :: txid
  t_args :: pgargs
  t_phase :: phase

record sys =
  committed :: db
  running :: "txn list"

definition init_sys :: "db \<Rightarrow> sys" where
  "init_sys d = \<lparr>committed = d, running = []\<rparr>"

definition xmin_of :: "sys \<Rightarrow> txid" where
  "xmin_of s = foldr min (map t_xid (running s)) (next_xid (committed s))"

definition snap :: "sys \<Rightarrow> snapshot" where
  "snap s = \<lparr>s_db = committed s, s_xmin = xmin_of s\<rparr>"

fun wrote :: "phase \<Rightarrow> resource option" where
  "wrote (Wrote r) = Some r"
| "wrote _ = None"

definition locked :: "sys \<Rightarrow> key \<Rightarrow> bool" where
  "locked s k \<longleftrightarrow> list_ex (\<lambda>x. map_option rkey (wrote (t_phase x)) = Some k) (running s)"

definition end_txn :: "txid \<Rightarrow> sys \<Rightarrow> sys" where
  "end_txn t s = s\<lparr>running := filter (\<lambda>x. t_xid x \<noteq> t) (running s)\<rparr>"

definition set_phase :: "txn \<Rightarrow> phase \<Rightarrow> sys \<Rightarrow> sys" where
  "set_phase x ph s = s\<lparr>running := put_by t_xid (x\<lparr>t_phase := ph\<rparr>) (running s)\<rparr>"

definition start_txn :: "pgargs \<Rightarrow> phase \<Rightarrow> sys \<Rightarrow> sys" where
  "start_txn p ph s =
     s\<lparr>committed := (committed s)\<lparr>next_xid := next_xid (committed s) + 1\<rparr>,
       running := running s @ [\<lparr>t_xid = next_xid (committed s), t_args = p, t_phase = ph\<rparr>]\<rparr>"

text \<open>
  What the upsert's first statement does: writes a row, raises, or (INSERT only) meets an
  existing row, which sends control to the exception handler.
\<close>

datatype stmt = Writes resource | Raises sqlstate | Handler

definition first_stmt :: "txid \<Rightarrow> uid \<Rightarrow> time \<Rightarrow> pgargs \<Rightarrow> resource option \<Rightarrow> stmt" where
  "first_stmt t u now p cur =
     (if \<not> p_status_only p \<and> p_expected_version p = 0 then
        (case insert_row t u now p cur of
           Inserted r \<Rightarrow> Writes r
         | InsertError e \<Rightarrow> Raises e
         | UniqueViolation \<Rightarrow> Handler)
      else (case upsert t u now p cur of Inl e \<Rightarrow> Raises e | Inr r \<Rightarrow> Writes r))"

text \<open>\<open>ok\<close> restricts the requests that are sent; \<open>cur\<close> is always the committed row.\<close>

inductive pg_step :: "(pgargs \<Rightarrow> bool) \<Rightarrow> sys \<Rightarrow> sys \<Rightarrow> bool" for ok :: "pgargs \<Rightarrow> bool" where
  begin_write: "ok p \<Longrightarrow> pg_step ok s (start_txn p Began s)"
| begin_other: "pg_step ok s (start_txn p Other s)"
| check_noop:
    "x \<in> set (running s) \<Longrightarrow> t_phase x = Began \<Longrightarrow>
     suppression_check (t_args x) (get_row (committed s) (p_key (t_args x))) = Some e \<Longrightarrow>
     pg_step ok s (end_txn (t_xid x) s)"
| check_go:
    "x \<in> set (running s) \<Longrightarrow> t_phase x = Began \<Longrightarrow>
     suppression_check (t_args x) (get_row (committed s) (p_key (t_args x))) = None \<Longrightarrow>
     pg_step ok s (set_phase x Checked s)"
| upsert_writes:
    "x \<in> set (running s) \<Longrightarrow> t_phase x = Checked \<Longrightarrow> \<not> locked s (p_key (t_args x)) \<Longrightarrow>
     first_stmt (t_xid x) u now (t_args x) (get_row (committed s) (p_key (t_args x))) = Writes r \<Longrightarrow>
     pg_step ok s (set_phase x (Wrote r) s)"
| upsert_handler:
    "x \<in> set (running s) \<Longrightarrow> t_phase x = Checked \<Longrightarrow> \<not> locked s (p_key (t_args x)) \<Longrightarrow>
     first_stmt (t_xid x) u now (t_args x) (get_row (committed s) (p_key (t_args x))) = Handler \<Longrightarrow>
     pg_step ok s (set_phase x Reviving s)"
| revive:
    "x \<in> set (running s) \<Longrightarrow> t_phase x = Reviving \<Longrightarrow> \<not> locked s (p_key (t_args x)) \<Longrightarrow>
     revive_row (t_xid x) u now (t_args x) (get_row (committed s) (p_key (t_args x))) = Inr r \<Longrightarrow>
     pg_step ok s (set_phase x (Wrote r) s)"
| commit:
    "x \<in> set (running s) \<Longrightarrow> t_phase x = Wrote r \<Longrightarrow>
     pg_step ok s (end_txn (t_xid x) (s\<lparr>committed := put_row r (committed s)\<rparr>))"
| abort: "x \<in> set (running s) \<Longrightarrow> pg_step ok s (end_txn (t_xid x) s)"
| compact:
    "(\<And>r. r \<in> set (rows (committed s)) \<Longrightarrow> P r \<Longrightarrow>
        is_true (tombstone_filter r) \<and> \<not> locked s (rkey r)) \<Longrightarrow>
     pg_step ok s (s\<lparr>committed := (compact_rows P (committed s))
                       \<lparr>next_xid := next_xid (committed s) + 1\<rparr>\<rparr>)"

inductive reachable :: "(pgargs \<Rightarrow> bool) \<Rightarrow> sys \<Rightarrow> sys \<Rightarrow> bool" for ok :: "pgargs \<Rightarrow> bool" and s0 :: sys where
  reach_refl: "reachable ok s0 s0"
| reach_step: "reachable ok s0 s \<Longrightarrow> pg_step ok s s' \<Longrightarrow> reachable ok s0 s'"

section \<open>The invariant of the server\<close>

text \<open>
  A running transaction's id is below the next one and unique. A transaction that has written
  holds a row stamped with its id at the key it was asked to write; that row continues the
  committed row (\<open>next_version\<close>), and no other transaction has written the same key.
\<close>

definition pending_ok :: "sys \<Rightarrow> txn \<Rightarrow> bool" where
  "pending_ok s x \<longleftrightarrow>
     (case t_phase x of
        Wrote r \<Rightarrow>
          rkey r = p_key (t_args x) \<and> TxidStamp r = t_xid x \<and>
          next_version (get_row (committed s) (rkey r)) (t_args x) r
      | Reviving \<Rightarrow> p_expected_version (t_args x) = 0
      | _ \<Rightarrow> True)"

definition sys_inv :: "sys \<Rightarrow> bool" where
  "sys_inv s \<longleftrightarrow>
     wf_db (committed s) \<and>
     distinct (map t_xid (running s)) \<and>
     (\<forall>x \<in> set (running s). 0 < t_xid x \<and> t_xid x < next_xid (committed s)) \<and>
     (\<forall>x \<in> set (running s). pending_ok s x) \<and>
     (\<forall>x \<in> set (running s). \<forall>y \<in> set (running s). \<forall>r q.
        t_phase x = Wrote r \<longrightarrow> t_phase y = Wrote q \<longrightarrow> rkey r = rkey q \<longrightarrow> x = y)"

lemma sys_inv_init: "wf_db d \<Longrightarrow> sys_inv (init_sys d)"
  by (simp add: sys_inv_def init_sys_def)

lemma sys_inv_wf [dest]: "sys_inv s \<Longrightarrow> wf_db (committed s)"
  by (simp add: sys_inv_def)

lemma locked_iff: "locked s k \<longleftrightarrow> (\<exists>x \<in> set (running s). \<exists>r. t_phase x = Wrote r \<and> rkey r = k)"
proof -
  have "map_option rkey (wrote ph) = Some k \<longleftrightarrow> (\<exists>r. ph = Wrote r \<and> rkey r = k)" for ph
    by (cases ph) auto
  then show ?thesis by (simp add: locked_def list_ex_iff)
qed

lemma foldr_min_le: "x \<in> set xs \<Longrightarrow> foldr min xs n \<le> (x :: nat)"
  by (induction xs) (auto intro: min.coboundedI1 min.coboundedI2)

lemma foldr_min_le_init: "foldr min xs n \<le> (n :: nat)"
  by (induction xs) (auto intro: min.coboundedI2)

lemma foldr_min_greatest: "(\<And>x. x \<in> set xs \<Longrightarrow> m \<le> x) \<Longrightarrow> m \<le> n \<Longrightarrow> m \<le> foldr min xs (n :: nat)"
  by (induction xs) auto

lemma xmin_le_running: "x \<in> set (running s) \<Longrightarrow> xmin_of s \<le> t_xid x"
  by (simp add: xmin_of_def foldr_min_le)


lemma xmin_le_next: "xmin_of s \<le> next_xid (committed s)"
  by (simp add: xmin_of_def foldr_min_le_init)

lemma xmin_greatest:
  "(\<And>x. x \<in> set (running s) \<Longrightarrow> m \<le> t_xid x) \<Longrightarrow> m \<le> next_xid (committed s) \<Longrightarrow> m \<le> xmin_of s"
  unfolding xmin_of_def by (rule foldr_min_greatest) auto

lemma xmin_pos: "sys_inv s \<Longrightarrow> 0 < xmin_of s"
  using xmin_greatest [of s 1] by (auto simp: sys_inv_def wf_db_def Suc_le_eq)

section \<open>One lemma per kind of step\<close>

lemma end_txn_simps [simp]:
  "committed (end_txn t s) = committed s"
  "set (running (end_txn t s)) = {x \<in> set (running s). t_xid x \<noteq> t}"
  by (auto simp: end_txn_def)

lemma set_phase_simps [simp]: "committed (set_phase x ph s) = committed s"
  by (simp add: set_phase_def)

lemma set_running_set_phase:
  "sys_inv s \<Longrightarrow> set (running (set_phase x ph s)) =
     insert (x\<lparr>t_phase := ph\<rparr>) {y \<in> set (running s). t_xid y \<noteq> t_xid x}"
  by (simp add: set_phase_def sys_inv_def set_put_by)

lemma start_txn_simps [simp]:
  "rows (committed (start_txn p ph s)) = rows (committed s)"
  "horizon (committed (start_txn p ph s)) = horizon (committed s)"
  "next_xid (committed (start_txn p ph s)) = next_xid (committed s) + 1"
  "get_row (committed (start_txn p ph s)) k = get_row (committed s) k"
  "running (start_txn p ph s) =
     running s @ [\<lparr>t_xid = next_xid (committed s), t_args = p, t_phase = ph\<rparr>]"
  by (simp_all add: start_txn_def)

lemma pending_ok_cong:
  "(\<And>k. get_row (committed s) k = get_row (committed s') k) \<Longrightarrow> pending_ok s x = pending_ok s' x"
  by (cases "t_phase x") (simp_all add: pending_ok_def)

lemma sys_inv_start:
  assumes inv: "sys_inv s" and ph: "ph = Other \<or> ph = Began"
  shows "sys_inv (start_txn p ph s)"
proof -
  let ?n = "next_xid (committed s)"
  let ?x = "\<lparr>t_xid = ?n, t_args = p, t_phase = ph\<rparr>"
  have wf: "wf_db (committed (start_txn p ph s))"
    using inv by (auto simp: wf_db_def sys_inv_def intro: less_SucI)
  have "?n \<notin> t_xid ` set (running s)" "0 < ?n"
    using inv by (auto simp: sys_inv_def wf_db_def)
  moreover have "pending_ok (start_txn p ph s) x" if "x \<in> set (running s)" for x
    using inv that pending_ok_cong [of "start_txn p ph s" s x] by (auto simp: sys_inv_def)
  moreover have "pending_ok (start_txn p ph s) ?x" "\<And>r. t_phase ?x \<noteq> Wrote r"
    using ph by (auto simp: pending_ok_def)
  ultimately show ?thesis
    using inv wf unfolding sys_inv_def by (auto simp: less_Suc_eq)
qed

lemma sys_inv_end: "sys_inv s \<Longrightarrow> sys_inv (end_txn t s)"
  unfolding sys_inv_def pending_ok_def
  by (auto simp: end_txn_def distinct_filter_keys split: phase.splits)

lemma running_unique:
  "sys_inv s \<Longrightarrow> x \<in> set (running s) \<Longrightarrow> y \<in> set (running s) \<Longrightarrow> t_xid x = t_xid y \<Longrightarrow> x = y"
  by (auto simp: sys_inv_def distinct_map inj_on_def)

lemma sys_inv_set_phase:
  assumes inv: "sys_inv s" and x: "x \<in> set (running s)"
    and pend: "pending_ok s (x\<lparr>t_phase := ph\<rparr>)"
    and ph: "\<And>r. ph = Wrote r \<Longrightarrow>
      rkey r = p_key (t_args x) \<and> \<not> locked s (p_key (t_args x))"
  shows "sys_inv (set_phase x ph s)"
proof -
  let ?x = "x\<lparr>t_phase := ph\<rparr>"
  let ?old = "{y \<in> set (running s). t_xid y \<noteq> t_xid x}"
  have run: "set (running (set_phase x ph s)) = insert ?x ?old"
    by (rule set_running_set_phase [OF inv])
  have ok: "pending_ok (set_phase x ph s) y" if "y \<in> insert ?x ?old" for y
    using that inv pend by (auto simp: sys_inv_def pending_ok_def split: phase.splits)
  have dist: "distinct (map t_xid (running (set_phase x ph s)))"
    using inv by (simp add: set_phase_def sys_inv_def distinct_put_by)
  have nl: "rkey q \<noteq> rkey r" if "ph = Wrote r" "y \<in> ?old" "t_phase y = Wrote q" for y r q
    using ph [OF that(1)] that by (auto simp: locked_iff)
  have uni: "y = z" if "y \<in> insert ?x ?old" "z \<in> insert ?x ?old" "t_phase y = Wrote r"
    "t_phase z = Wrote q" "rkey r = rkey q" for y z r q
    using that nl [of r z q] nl [of q y r] inv by (auto simp: sys_inv_def)
  show ?thesis
    using inv x dist ok uni unfolding sys_inv_def run set_phase_simps by auto
qed

lemma get_row_other_put: "k \<noteq> rkey r \<Longrightarrow> get_row (put_row r d) k = get_row d k"
  by (simp add: get_row_put)

lemma sys_inv_commit:
  assumes inv: "sys_inv s" and x: "x \<in> set (running s)" and ph: "t_phase x = Wrote r"
  shows "sys_inv (end_txn (t_xid x) (s\<lparr>committed := put_row r (committed s)\<rparr>))"
proof -
  have pend: "rkey r = p_key (t_args x)" "TxidStamp r = t_xid x"
    using inv x ph by (auto simp: sys_inv_def pending_ok_def)
  have wf: "wf_db (put_row r (committed s))"
    using inv x pend by (intro wf_put_row) (auto simp: sys_inv_def)
  have ok: "pending_ok (end_txn (t_xid x) (s\<lparr>committed := put_row r (committed s)\<rparr>)) y"
    if y: "y \<in> set (running s)" "t_xid y \<noteq> t_xid x" for y
  proof (cases "t_phase y")
    case (Wrote q)
    then have "rkey q \<noteq> rkey r"
      using inv x ph y by (fastforce simp: sys_inv_def)
    moreover have "pending_ok s y" using inv y by (auto simp: sys_inv_def)
    ultimately show ?thesis using Wrote by (simp add: pending_ok_def get_row_other_put) metis
  qed (use inv y in \<open>auto simp: sys_inv_def pending_ok_def\<close>)
  show ?thesis
    using inv wf ok unfolding sys_inv_def
    by (auto simp: end_txn_def distinct_filter_keys)
qed

lemma sys_inv_compact:
  assumes inv: "sys_inv s"
    and P: "\<And>r. r \<in> set (rows (committed s)) \<Longrightarrow> P r \<Longrightarrow>
      is_true (tombstone_filter r) \<and> \<not> locked s (rkey r)"
  shows "sys_inv (s\<lparr>committed := (compact_rows P (committed s))
                       \<lparr>next_xid := next_xid (committed s) + 1\<rparr>\<rparr>)" (is "sys_inv ?t")
proof -
  have wf: "wf_db (committed ?t)"
    using inv by (auto intro!: wf_next_xid wf_compact_rows)
  have ok: "pending_ok ?t y" if y: "y \<in> set (running s)" for y
  proof (cases "t_phase y")
    case (Wrote q)
    have "get_row (committed ?t) (rkey q) = get_row (committed s) (rkey q)"
    proof (cases "get_row (committed s) (rkey q)")
      case (Some e)
      have "rkey e = rkey q" "e \<in> set (rows (committed s))"
        using Some by (auto dest: get_row_key get_row_in_rows)
      moreover have "locked s (rkey q)" using y Wrote by (auto simp: locked_iff)
      ultimately have "\<not> P e" using P [of e] by auto
      then show ?thesis using Some inv by (auto simp: get_row_compact_rows)
    qed (use inv in \<open>auto simp: get_row_compact_rows\<close>)
    moreover have "pending_ok s y" using inv y by (auto simp: sys_inv_def)
    ultimately show ?thesis using Wrote by (simp add: pending_ok_def) metis
  qed (use inv y in \<open>auto simp: sys_inv_def pending_ok_def\<close>)
  show ?thesis
    using inv wf ok unfolding sys_inv_def by fastforce
qed

text \<open>A statement that writes yields a row that continues the committed one.\<close>

lemma first_stmt_Writes:
  assumes "first_stmt t u now p cur = Writes r" and "\<And>e. cur = Some e \<Longrightarrow> rkey e = p_key p"
  shows "rkey r = p_key p \<and> TxidStamp r = t \<and> next_version cur p r"
proof -
  have "upsert t u now p cur = Inr r"
    using assms(1)
    by (auto simp: first_stmt_def upsert_def split: if_splits insert_result.splits sum.splits)
  then show ?thesis using upsert_Inr assms(2) by blast
qed

lemma first_stmt_Handler:
  "first_stmt t u now p cur = Handler \<Longrightarrow> p_expected_version p = 0 \<and> \<not> p_status_only p"
  by (auto simp: first_stmt_def split: if_splits sum.splits)


section \<open>Every step keeps the invariant\<close>

lemma upsert_phase_inv:
  assumes "sys_inv s" "x \<in> set (running s)" "\<not> locked s (p_key (t_args x))"
    and "rkey r = p_key (t_args x) \<and> TxidStamp r = t_xid x \<and>
         next_version (get_row (committed s) (p_key (t_args x))) (t_args x) r"
  shows "sys_inv (set_phase x (Wrote r) s)"
  using assms by (intro sys_inv_set_phase) (auto simp: pending_ok_def)

lemma pg_step_inv: "pg_step ok s s' \<Longrightarrow> sys_inv s \<Longrightarrow> sys_inv s'"
proof (induction rule: pg_step.induct)
  case (upsert_writes x s u now r)
  then show ?case
    by (intro upsert_phase_inv first_stmt_Writes) (auto dest: get_row_key)
next
  case (upsert_handler x s u now)
  then show ?case
    by (intro sys_inv_set_phase) (auto simp: pending_ok_def dest: first_stmt_Handler)
next
  case (revive x s u now r)
  obtain e where e: "get_row (committed s) (p_key (t_args x)) = Some e"
    and r: "is_true (tombstone_filter e)" "rkey r = rkey e" "TxidStamp r = t_xid x"
      "ObjectVersion r = 1" "DeletionTimestamp r = None"
    using revive_row_Inr [OF revive.hyps(4)] by (auto simp: rkey_def)
  have "rkey e = p_key (t_args x)" using e by (rule get_row_key)
  moreover have "p_expected_version (t_args x) = 0"
    using revive.prems revive.hyps(1,2) by (fastforce simp: sys_inv_def pending_ok_def)
  ultimately show ?case
    using revive.prems revive.hyps(1,3) e r
    by (intro upsert_phase_inv) (auto simp: next_version_def)
next
  case (check_go x s)
  then show ?case by (intro sys_inv_set_phase) (auto simp: pending_ok_def)
next
  case (compact s P)
  then show ?case by (intro sys_inv_compact)
qed (auto intro: sys_inv_start sys_inv_end sys_inv_commit)

lemma reachable_inv: "reachable ok s0 s \<Longrightarrow> sys_inv s0 \<Longrightarrow> sys_inv s"
  by (induction rule: reachable.induct) (auto intro: pg_step_inv)

lemma reachable_trans: "reachable ok b c \<Longrightarrow> reachable ok a b \<Longrightarrow> reachable ok a c"
  by (induction rule: reachable.induct) (auto intro: reach_step)

section \<open>What a step can do to the committed rows\<close>

text \<open>
  A step leaves a row alone, or commits a row that continues it and is stamped with a running
  transaction's id, or compacts it away.
\<close>

lemma pg_step_row:
  assumes "pg_step ok s s'" and "sys_inv s"
  shows "get_row (committed s') k = get_row (committed s) k
    \<or> (\<exists>x \<in> set (running s). \<exists>r. t_phase x = Wrote r \<and> get_row (committed s') k = Some r \<and>
          rkey r = k \<and> TxidStamp r = t_xid x \<and> next_version (get_row (committed s) k) (t_args x) r)
    \<or> (\<exists>e. get_row (committed s) k = Some e \<and> is_true (tombstone_filter e) \<and> \<not> locked s k \<and>
          get_row (committed s') k = None \<and>
          (\<exists>c. horizon (committed s') (GVK e) = Some c \<and> TxidStamp e \<le> c))"
  using assms
proof (induction rule: pg_step.induct)
  case (commit x s r)
  have "rkey r = p_key (t_args x) \<and> TxidStamp r = t_xid x \<and>
        next_version (get_row (committed s) (rkey r)) (t_args x) r"
    using commit by (fastforce simp: sys_inv_def pending_ok_def)
  then show ?case using commit by (auto simp: get_row_put)
next
  case (compact s P)
  have wf: "wf_db (committed s)" using compact.prems by (rule sys_inv_wf)
  show ?case
  proof (cases "get_row (committed s) k")
    case None
    then show ?thesis using wf by (simp add: get_row_compact_rows)
  next
    case (Some e)
    have e: "e \<in> set (rows (committed s))" "rkey e = k"
      using Some by (auto dest: get_row_in_rows get_row_key)
    show ?thesis
    proof (cases "P e")
      case True
      then show ?thesis
        using compact.hyps [OF e(1)] e wf Some horizon_compact_covers [OF e(1), of P]
        by (auto simp: get_row_compact_rows)
    qed (use wf Some in \<open>simp add: get_row_compact_rows\<close>)
  qed
qed auto

lemma pg_step_horizon:
  "pg_step ok s s' \<Longrightarrow> horizon (committed s) g = Some c \<Longrightarrow>
     \<exists>c'. horizon (committed s') g = Some c' \<and> c \<le> c'"
  by (induction rule: pg_step.induct) (auto simp: horizon_compact_mono)

text \<open>The running transactions after a step are old ones or one with the next id.\<close>

lemma pg_step_running:
  "pg_step ok s s' \<Longrightarrow> sys_inv s \<Longrightarrow> y \<in> set (running s') \<Longrightarrow>
     t_xid y = next_xid (committed s) \<or> (\<exists>x \<in> set (running s). t_xid x = t_xid y)"
  by (induction rule: pg_step.induct) (auto simp: set_running_set_phase)

lemma pg_step_next: "pg_step ok s s' \<Longrightarrow> next_xid (committed s) \<le> next_xid (committed s')"
  by (induction rule: pg_step.induct) auto

text \<open>pg_snapshot_xmin never decreases (I2), and every row committed later is stamped at or above it.\<close>

lemma xmin_mono: "pg_step ok s s' \<Longrightarrow> sys_inv s \<Longrightarrow> xmin_of s \<le> xmin_of s'"
proof (rule xmin_greatest)
  fix y
  assume "pg_step ok s s'" "sys_inv s" "y \<in> set (running s')"
  then show "xmin_of s \<le> t_xid y"
    using pg_step_running [of ok s s' y] xmin_le_next [of s] xmin_le_running [of _ s] by fastforce
next
  assume "pg_step ok s s'"
  then show "xmin_of s \<le> next_xid (committed s')"
    using pg_step_next xmin_le_next order_trans by blast
qed

lemma step_stamp_fresh:
  assumes "pg_step ok s s'" "sys_inv s" "get_row (committed s') k = Some r"
    "get_row (committed s) k \<noteq> Some r"
  shows "xmin_of s \<le> TxidStamp r"
  using pg_step_row [OF assms(1,2), of k] assms(3,4) xmin_le_running [of _ s] by auto

section \<open>Properties\<close>

lemma reachable_xmin_mono: "reachable ok s0 s \<Longrightarrow> sys_inv s0 \<Longrightarrow> xmin_of s0 \<le> xmin_of s"
proof (induction rule: reachable.induct)
  case (reach_step s s')
  then show ?case using xmin_mono [OF reach_step.hyps(2) reachable_inv [OF reach_step.hyps(1)]] by simp
qed simp

lemma reachable_old_row:
  assumes "reachable ok s0 s" "sys_inv s0" "get_row (committed s) k = Some r" "TxidStamp r < xmin_of s0"
  shows "get_row (committed s0) k = Some r"
  using assms
proof (induction rule: reachable.induct)
  case (reach_step s s')
  have inv: "sys_inv s" using reachable_inv [OF reach_step.hyps(1)] reach_step.prems(1) .
  have "\<not> xmin_of s \<le> TxidStamp r"
    using reachable_xmin_mono [OF reach_step.hyps(1) reach_step.prems(1)] reach_step.prems(3) by simp
  then have "get_row (committed s) k = Some r"
    using step_stamp_fresh [OF reach_step.hyps(2) inv reach_step.prems(2)] by blast
  then show ?case using reach_step by simp
qed simp

text \<open>C3: No lost update, whatever transactions run side by side: a step that changes a stored object
  either continues it (same uid, the version plus one, written by a request that expected
  exactly the replaced version) or revives a tombstone as a fresh object at version 1; the new
  row carries the id of a transaction that was running.\<close>

theorem commit_continues_row:
  assumes "wf_db d" "reachable ok (init_sys d) s" "pg_step ok s s'"
    and "get_row (committed s) k = Some e" "get_row (committed s') k = Some r" "r \<noteq> e"
  shows "\<exists>x \<in> set (running s). TxidStamp r = t_xid x \<and>
    ((p_expected_version (t_args x) = ObjectVersion e \<and> ObjectVersion r = ObjectVersion e + 1 \<and> UID r = UID e) \<or>
     (p_expected_version (t_args x) = 0 \<and> is_true (tombstone_filter e) \<and> ObjectVersion r = 1 \<and>
      DeletionTimestamp r = None))"
proof -
  have "sys_inv s" using reachable_inv [OF assms(2)] sys_inv_init [OF assms(1)] .
  from pg_step_row [OF assms(3) this, of k] assms(4-6) show ?thesis
    by (auto simp: next_version_def)
qed

text \<open>A running update of the example row, ready to commit.\<close>

definition ex_txn :: txn where
  "ex_txn = \<lparr>t_xid = 4, t_args = ex_args,
     t_phase = Wrote (ex_row\<lparr>TxidStamp := 4, ObjectVersion := 2, Spec := JObj [(''x'', JNum 2)], UpdatedAt := 5\<rparr>)\<rparr>"

definition ex_sys :: sys where
  "ex_sys = \<lparr>committed = ex_db\<lparr>next_xid := 5\<rparr>, running = [ex_txn]\<rparr>"

definition ex_sys' :: sys where
  "ex_sys' = end_txn 4 (ex_sys\<lparr>committed := put_row (ex_row\<lparr>TxidStamp := 4, ObjectVersion := 2,
     Spec := JObj [(''x'', JNum 2)], UpdatedAt := 5\<rparr>) (committed ex_sys)\<rparr>)"

definition ex_updated_row :: resource where
  "ex_updated_row = ex_row\<lparr>TxidStamp := 4, ObjectVersion := 2, Spec := JObj [(''x'', JNum 2)], UpdatedAt := 5\<rparr>"

lemma ex_updated_row_simps [simp]:
  "rkey ex_updated_row = (''g'', ''n'', ''a'')" "TxidStamp ex_updated_row = 4" "UID ex_updated_row = 7"
  "ObjectVersion ex_updated_row = 2" "ex_updated_row \<noteq> ex_row" "ex_row \<noteq> ex_updated_row"
  by (auto simp: ex_updated_row_def rkey_def dest: arg_cong [of _ _ TxidStamp])

lemma ex_sys_reachable: "ok ex_args \<Longrightarrow> reachable ok (init_sys ex_db) ex_sys"
proof -
  assume ok: "ok ex_args"
  let ?x = "\<lambda>ph. \<lparr>t_xid = 4, t_args = ex_args, t_phase = ph\<rparr>"
  let ?s = "\<lambda>ph. \<lparr>committed = ex_db\<lparr>next_xid := 5\<rparr>, running = [?x ph]\<rparr>"
  have cur: "get_row (ex_db\<lparr>next_xid := 5\<rparr>) (p_key ex_args) = Some ex_row"
    by (simp add: ex_args_def p_key_def)
  have "start_txn ex_args Began (init_sys ex_db) = ?s Began"
    by (simp add: start_txn_def init_sys_def)
  then have "reachable ok (init_sys ex_db) (?s Began)"
    using reach_step [OF reach_refl begin_write [of ok ex_args, OF ok], of "init_sys ex_db"] by simp
  moreover have "pg_step ok (?s Began) (set_phase (?x Began) Checked (?s Began))"
    using cur by (intro check_go) (simp_all add: suppression_check_def suppressed_iff ex_args_def p_key_def)
  moreover have "set_phase (?x Began) Checked (?s Began) = ?s Checked"
    by (simp add: set_phase_def put_by_def)
  ultimately have "reachable ok (init_sys ex_db) (?s Checked)" using reach_step by metis
  moreover have "pg_step ok (?s Checked) (set_phase (?x Checked) (Wrote ex_updated_row) (?s Checked))"
    using cur
    by (intro upsert_writes [where u = 9 and now = 5])
      (simp_all add: locked_def first_stmt_def upsert_def update_row_def bigint_succ_def ex_args_def
        p_key_def ex_updated_row_def)
  moreover have "set_phase (?x Checked) (Wrote ex_updated_row) (?s Checked) = ex_sys"
    by (simp add: set_phase_def put_by_def ex_sys_def ex_txn_def ex_updated_row_def)
  ultimately show "reachable ok (init_sys ex_db) ex_sys" using reach_step by metis
qed

lemma ex_sys_commit: "pg_step ok ex_sys ex_sys'"
proof -
  have "pg_step ok ex_sys (end_txn (t_xid ex_txn) (ex_sys\<lparr>committed := put_row ex_updated_row (committed ex_sys)\<rparr>))"
    by (rule commit) (simp_all add: ex_sys_def ex_txn_def ex_updated_row_def)
  then show ?thesis by (simp add: ex_sys'_def ex_txn_def ex_updated_row_def)
qed

lemma ex_sys_simps [simp]:
  "committed ex_sys = ex_db\<lparr>next_xid := 5\<rparr>" "xmin_of ex_sys = 4" "running ex_sys' = []"
  "get_row (committed ex_sys') (''g'', ''n'', ''a'') = Some ex_updated_row"
  "next_xid (committed ex_sys') = 5" "horizon (committed ex_sys') g = None" "xmin_of ex_sys' = 5"
  by (simp_all add: ex_sys_def ex_sys'_def xmin_of_def end_txn_def ex_txn_def get_row_put
      ex_updated_row_def [symmetric])

theorem commit_continues_row_witness:
  "\<exists>x \<in> set (running ex_sys). t_xid x = 4 \<and> p_expected_version (t_args x) = 1"
proof -
  have "pg_step (\<lambda>_. True) ex_sys ex_sys'" "reachable (\<lambda>_. True) (init_sys ex_db) ex_sys"
    using ex_sys_commit ex_sys_reachable by simp_all
  from commit_continues_row [OF wf_ex_db this(2,1), of "(''g'', ''n'', ''a'')" ex_row ex_updated_row]
  show ?thesis by auto
qed

text \<open>C9: A list's resource version is a safe place to watch from: whatever commits after the list
  was read, now or later, is stamped above it, so every row stamped at or below it that is ever
  seen again was already there, unchanged, when the list was read.\<close>

theorem list_watermark_is_prefix:
  assumes "wf_db d" "reachable ok (init_sys d) s" "reachable ok s s'"
    and "get_row (committed s') k = Some r" "TxidStamp r \<le> Watermark (List (snap s) g flt)"
  shows "get_row (committed s) k = Some r"
proof -
  have inv: "sys_inv s" using reachable_inv [OF assms(2)] sys_inv_init [OF assms(1)] .
  then have "TxidStamp r < xmin_of s"
    using assms(5) xmin_pos [OF inv] by (simp add: List_def Let_def watermark_of_def snap_def)
  then show ?thesis using reachable_old_row [OF assms(3) inv assms(4)] by simp
qed

theorem list_watermark_is_prefix_witness:
  "\<not> TxidStamp ex_updated_row \<le> Watermark (List (snap ex_sys) ''g'' None)"
proof
  assume w: "TxidStamp ex_updated_row \<le> Watermark (List (snap ex_sys) ''g'' None)"
  have r: "reachable (\<lambda>_. True) (init_sys ex_db) ex_sys" "reachable (\<lambda>_. True) ex_sys ex_sys'"
    using ex_sys_reachable ex_sys_commit reach_step [OF reach_refl] by auto
  from list_watermark_is_prefix [OF wf_ex_db r _ w, of "(''g'', ''n'', ''a'')"] show False by simp
qed

end
