(* ===== verification/Writer.thy ===== *)
theory Writer
  imports Pgctl
begin

text \<open>
  The write path of src/internal/writer (writer.go, errors.go, hooks.go): Write, WriteStatus
  and WriteObject over the stored procedure (production, no hooks) and over explicit
  transactions (hooks set), error mapping, the doorbell, metrics labels and ReadBack.
  What the network does to a call (\<open>net\<close>, \<open>commit_fault\<close>) and what the test hooks return are
  arguments. Durations are not modelled.
\<close>

section \<open>Errors, the doorbell interface, the writer's world\<close>

datatype werr =
    ErrConflict
  | ErrAlreadyExists
  | ErrNeedsVersion string
  | ErrPg string sqlstate
  | AmbiguousCommitError key txid "sqlstate option"
  | ErrHook string
  | ErrTx string

text \<open>The interface Doorbell (writer.go, 20-22): after Ring the gvk is pending.\<close>

locale doorbell =
  fixes ring :: "string \<Rightarrow> 'b \<Rightarrow> 'b" and pending :: "'b \<Rightarrow> string set"
  assumes pending_ring: "pending (ring g b) = insert g (pending b)"

text \<open>
  The database, the attached doorbell if any, and the Prometheus counters that record results
  (nil when no metrics are attached).
\<close>

record wmetrics =
  NoopSuppressionsTotal :: nat
  WritesTotal :: "string \<times> string \<Rightarrow> nat"
  StatementTimeoutsTotal :: nat

record 'b world =
  wdb :: db
  wbell :: "'b option"
  wmet :: "wmetrics option"

definition ring_doorbell :: "(string \<Rightarrow> 'b \<Rightarrow> 'b) \<Rightarrow> string \<Rightarrow> 'b world \<Rightarrow> 'b world" where
  "ring_doorbell ring gvk w = w\<lparr>wbell := map_option (ring gvk) (wbell w)\<rparr>"

section \<open>observeResult\<close>

fun err_pg_code :: "werr \<Rightarrow> sqlstate option" where
  "err_pg_code (ErrPg _ c) = Some c"
| "err_pg_code (AmbiguousCommitError _ _ cause) = cause"
| "err_pg_code _ = None"

fun result_label :: "werr + WriteResult \<Rightarrow> string" where
  "result_label (Inr r) = (if Changed r then ''success'' else ''noop'')"
| "result_label (Inl ErrConflict) = ''conflict''"
| "result_label (Inl ErrAlreadyExists) = ''already_exists''"
| "result_label (Inl (AmbiguousCommitError _ _ _)) = ''ambiguous_commit''"
| "result_label (Inl _) = ''error''"

definition observe :: "string \<Rightarrow> werr + WriteResult \<Rightarrow> wmetrics \<Rightarrow> wmetrics" where
  "observe gvk res m =
     (let l = result_label res;
          m1 = (if l = ''noop'' then m\<lparr>NoopSuppressionsTotal := NoopSuppressionsTotal m + 1\<rparr> else m);
          m2 = m1\<lparr>WritesTotal := (WritesTotal m1)((gvk, l) := WritesTotal m1 (gvk, l) + 1)\<rparr>
      in case res of
           Inl e \<Rightarrow> if err_pg_code e = Some ''57014''
                    then m2\<lparr>StatementTimeoutsTotal := StatementTimeoutsTotal m2 + 1\<rparr> else m2
         | Inr _ \<Rightarrow> m2)"

definition observeResult :: "string \<Rightarrow> werr + WriteResult \<Rightarrow> 'b world \<Rightarrow> 'b world" where
  "observeResult gvk res w = w\<lparr>wmet := map_option (observe gvk res) (wmet w)\<rparr>"

section \<open>The stored-procedure path\<close>

record writeParams =
  wp_statusOnly :: bool
  wp_gvk :: string
  wp_namespace :: string
  wp_name :: string
  wp_expectedVersion :: int
  wp_forceWrite :: bool
  wp_spec :: raw
  wp_status :: raw
  wp_metadata :: raw
  wp_deletionTimestamp :: "time option"

text \<open>A RawMessage as a JSONB argument: nil is NULL, bytes that are no document are rejected.\<close>

definition invalid_text :: sqlstate where
  "invalid_text = ''22P02''"

fun to_jsonb :: "raw \<Rightarrow> sqlstate + json option" where
  "to_jsonb RNil = Inr None"
| "to_jsonb (RDoc j) = Inr (Some (canon j))"
| "to_jsonb _ = Inl invalid_text"

definition pg_args :: "writeParams \<Rightarrow> sqlstate + pgargs" where
  "pg_args p =
     (case to_jsonb (wp_spec p) of
        Inl e \<Rightarrow> Inl e
      | Inr sp \<Rightarrow>
          (case to_jsonb (wp_status p) of
             Inl e \<Rightarrow> Inl e
           | Inr st \<Rightarrow>
               (case to_jsonb (wp_metadata p) of
                  Inl e \<Rightarrow> Inl e
                | Inr md \<Rightarrow> Inr
                    \<lparr>p_status_only = wp_statusOnly p, p_gvk = wp_gvk p, p_namespace = wp_namespace p,
                     p_name = wp_name p, p_expected_version = wp_expectedVersion p,
                     p_force_write = wp_forceWrite p, p_spec = sp, p_status = st,
                     p_metadata = md, p_deletion_ts = wp_deletionTimestamp p\<rparr>)))"

definition wp_key :: "writeParams \<Rightarrow> key" where
  "wp_key p = (wp_gvk p, wp_namespace p, wp_name p)"

fun mapStoredProcError :: "sqlstate \<Rightarrow> werr" where
  "mapStoredProcError c =
     (if c = ''P0002'' then ErrConflict
      else if c = ''P0003'' then ErrAlreadyExists
      else if c = ''P0004'' then ErrNeedsVersion ''WriteStatus requires ExpectedVersion > 0: object must exist''
      else ErrPg ''stored proc'' c)"

text \<open>
  What happens to one round trip: it completes, it fails before the server runs the
  statement, or the server commits and the answer is lost.
\<close>

datatype net = NetOk | LostBefore | LostAfter

definition run_proc :: "uid \<Rightarrow> time \<Rightarrow> writeParams \<Rightarrow> db \<Rightarrow> db \<times> (sqlstate + pgout)" where
  "run_proc u now p d =
     (case pg_args p of Inl e \<Rightarrow> (d, Inl e) | Inr a \<Rightarrow> pgctl_write u now a d)"

definition callStoredProc ::
  "(string \<Rightarrow> 'b \<Rightarrow> 'b) \<Rightarrow> net \<Rightarrow> uid \<Rightarrow> time \<Rightarrow> writeParams \<Rightarrow> 'b world \<Rightarrow>
     'b world \<times> (werr + WriteResult)" where
  "callStoredProc ring nt u now p w =
     (case nt of
        LostBefore \<Rightarrow> (w, Inl (AmbiguousCommitError (wp_key p) 0 None))
      | LostAfter \<Rightarrow>
          (w\<lparr>wdb := fst (run_proc u now p (wdb w))\<rparr>,
           Inl (AmbiguousCommitError (wp_key p) 0 None))
      | NetOk \<Rightarrow>
          (let (d', res) = run_proc u now p (wdb w); w' = w\<lparr>wdb := d'\<rparr>
           in case res of
                Inl c \<Rightarrow> (w', Inl (mapStoredProcError c))
              | Inr out \<Rightarrow>
                  if \<not> out_changed out then
                    (w', Inr \<lparr>Txid = 0, resVersion = out_version out, resUID = out_uid out,
                              Changed = False\<rparr>)
                  else
                    (ring_doorbell ring (wp_gvk p) w',
                     Inr \<lparr>Txid = out_txid out, resVersion = out_version out,
                          resUID = out_uid out, Changed = True\<rparr>)))"

definition params_of_write :: "WriteRequest \<Rightarrow> writeParams" where
  "params_of_write r =
     \<lparr>wp_statusOnly = False, wp_gvk = wGVK r, wp_namespace = wNamespace r, wp_name = wName r,
      wp_expectedVersion = wExpectedVersion r, wp_forceWrite = wForceWrite r, wp_spec = wSpec r,
      wp_status = wStatus r, wp_metadata = wMetadata r, wp_deletionTimestamp = wDeletionTimestamp r\<rparr>"

definition params_of_status :: "StatusWriteRequest \<Rightarrow> writeParams" where
  "params_of_status r =
     \<lparr>wp_statusOnly = True, wp_gvk = sGVK r, wp_namespace = sNamespace r, wp_name = sName r,
      wp_expectedVersion = sExpectedVersion r, wp_forceWrite = sForceWrite r, wp_spec = RNil,
      wp_status = sStatus r, wp_metadata = RNil, wp_deletionTimestamp = None\<rparr>"

definition params_of_object :: "ObjectWriteRequest \<Rightarrow> writeParams" where
  "params_of_object r =
     \<lparr>wp_statusOnly = False, wp_gvk = oGVK r, wp_namespace = oNamespace r, wp_name = oName r,
      wp_expectedVersion = oExpectedVersion r, wp_forceWrite = oForceWrite r, wp_spec = oSpec r,
      wp_status = RNil, wp_metadata = oMetadata r, wp_deletionTimestamp = oDeletionTimestamp r\<rparr>"

definition stored_proc_path ::
  "(string \<Rightarrow> 'b \<Rightarrow> 'b) \<Rightarrow> net \<Rightarrow> uid \<Rightarrow> time \<Rightarrow> writeParams \<Rightarrow> 'b world \<Rightarrow>
     'b world \<times> (werr + WriteResult)" where
  "stored_proc_path ring nt u now p w =
     (let (w', res) = callStoredProc ring nt u now p w in (observeResult (wp_gvk p) res w', res))"

definition writeStoredProc ::
  "(string \<Rightarrow> 'b \<Rightarrow> 'b) \<Rightarrow> net \<Rightarrow> uid \<Rightarrow> time \<Rightarrow> WriteRequest \<Rightarrow> 'b world \<Rightarrow>
     'b world \<times> (werr + WriteResult)" where
  "writeStoredProc ring nt u now r w = stored_proc_path ring nt u now (params_of_write r) w"

definition writeStatusStoredProc ::
  "(string \<Rightarrow> 'b \<Rightarrow> 'b) \<Rightarrow> net \<Rightarrow> uid \<Rightarrow> time \<Rightarrow> StatusWriteRequest \<Rightarrow> 'b world \<Rightarrow>
     'b world \<times> (werr + WriteResult)" where
  "writeStatusStoredProc ring nt u now r w = stored_proc_path ring nt u now (params_of_status r) w"

definition writeObjectStoredProc ::
  "(string \<Rightarrow> 'b \<Rightarrow> 'b) \<Rightarrow> net \<Rightarrow> uid \<Rightarrow> time \<Rightarrow> ObjectWriteRequest \<Rightarrow> 'b world \<Rightarrow>
     'b world \<times> (werr + WriteResult)" where
  "writeObjectStoredProc ring nt u now r w = stored_proc_path ring nt u now (params_of_object r) w"

section \<open>ReadBack\<close>

definition ReadBack :: "db \<Rightarrow> key \<Rightarrow> txid \<Rightarrow> resource option" where
  "ReadBack d k t =
     (case get_row d k of
        None \<Rightarrow> None
      | Some r \<Rightarrow> if TxidStamp r = t then Some r else None)"

end
