(* ===== verification/WriterTx.thy ===== *)
theory WriterTx
  imports Writer
begin

text \<open>
  The multi-statement write path of src/internal/writer/writer.go (208-553), used when test
  hooks are set: one READ COMMITTED transaction that reads the existing row, suppresses a
  content-equal write, takes a transaction id, runs the upsert and commits. Hooks are
  functions that may refuse; \<open>tx_fault\<close> says which transaction command the server or the
  network fails. The last section proves that this path and the stored procedure agree.
\<close>

record txhooks =
  AfterSuppressionCheck :: "bool \<Rightarrow> string option"
  AfterTxidAcquire :: "txid \<Rightarrow> string option"
  BeforeCommit :: "string option"

datatype tx_fault = NoFault | BeginFails | CommitFails bool "sqlstate option"

section \<open>The statements the closures run\<close>

datatype sqlrow = NoRows | PgErr sqlstate | Row resource

text \<open>An UPDATE guarded by object_version, whose SET clause is \<open>f\<close> on the new version.\<close>

definition versioned_update :: "int \<Rightarrow> (int \<Rightarrow> resource \<Rightarrow> sqlstate + resource) \<Rightarrow> resource option \<Rightarrow> sqlrow" where
  "versioned_update ver f cur =
     (case cur of
        None \<Rightarrow> NoRows
      | Some e \<Rightarrow>
          if ObjectVersion e \<noteq> ver then NoRows
          else (case bigint_succ (ObjectVersion e) of
                  Inl c \<Rightarrow> PgErr c
                | Inr v \<Rightarrow> (case f v e of Inl c \<Rightarrow> PgErr c | Inr r \<Rightarrow> Row r)))"

text \<open>A column that is NOT NULL.\<close>

definition need :: "json option \<Rightarrow> (json \<Rightarrow> sqlstate + resource) \<Rightarrow> sqlstate + resource" where
  "need x f = (case x of None \<Rightarrow> Inl not_null_violation | Some j \<Rightarrow> f j)"

definition set_write :: "txid \<Rightarrow> time \<Rightarrow> json option \<Rightarrow> json option \<Rightarrow> json option \<Rightarrow> time option \<Rightarrow>
    int \<Rightarrow> resource \<Rightarrow> sqlstate + resource" where
  "set_write t now sp st md del v e =
     need sp (\<lambda>spj. need md (\<lambda>mdj.
       Inr (e\<lparr>TxidStamp := t, ObjectVersion := v, Spec := spj, Status := coalesce st (Status e),
              Metadata := mdj, DeletionTimestamp := del, UpdatedAt := now\<rparr>)))"

definition set_status :: "txid \<Rightarrow> time \<Rightarrow> json option \<Rightarrow> int \<Rightarrow> resource \<Rightarrow> sqlstate + resource" where
  "set_status t now st v e =
     need st (\<lambda>s. Inr (e\<lparr>TxidStamp := t, ObjectVersion := v, Status := s, UpdatedAt := now\<rparr>))"

definition set_object :: "txid \<Rightarrow> time \<Rightarrow> json option \<Rightarrow> json option \<Rightarrow> time option \<Rightarrow>
    int \<Rightarrow> resource \<Rightarrow> sqlstate + resource" where
  "set_object t now sp md del v e =
     need sp (\<lambda>spj. need md (\<lambda>mdj.
       Inr (e\<lparr>TxidStamp := t, ObjectVersion := v, Spec := spj, Metadata := mdj,
              DeletionTimestamp := del, UpdatedAt := now\<rparr>)))"

text \<open>The INSERT, with 23505 for a key that is taken, and the revival UPDATE after it.\<close>

definition tx_insert :: "txid \<Rightarrow> uid \<Rightarrow> time \<Rightarrow> pgargs \<Rightarrow> resource option \<Rightarrow> sqlrow" where
  "tx_insert t u now a cur =
     (case insert_row t u now a cur of
        Inserted r \<Rightarrow> Row r
      | InsertError c \<Rightarrow> PgErr c
      | UniqueViolation \<Rightarrow> PgErr ''23505'')"

definition tx_revive :: "txid \<Rightarrow> uid \<Rightarrow> time \<Rightarrow> pgargs \<Rightarrow> resource option \<Rightarrow> sqlrow" where
  "tx_revive t u now a cur =
     (case cur of
        None \<Rightarrow> NoRows
      | Some e \<Rightarrow>
          if \<not> is_true (tombstone_filter e) then NoRows
          else (case need (p_spec a) (\<lambda>sp. need (p_metadata a) (\<lambda>md.
                  Inr (e\<lparr>UID := u, TxidStamp := t, ObjectVersion := 1, Spec := sp,
                         Status := coalesce (p_status a) (JObj []), Metadata := md,
                         DeletionTimestamp := None, CreatedAt := now, UpdatedAt := now\<rparr>))) of
                  Inl c \<Rightarrow> PgErr c | Inr r \<Rightarrow> Row r))"

section \<open>The upsert closures\<close>

text \<open>Binding the arguments comes first: a RawMessage that is no document fails the statement.\<close>

definition write_upsert :: "WriteRequest \<Rightarrow> txid \<Rightarrow> uid \<Rightarrow> time \<Rightarrow> resource option \<Rightarrow> werr + resource" where
  "write_upsert req t u now cur =
     (let bad = (\<lambda>c. Inl (ErrPg (if wExpectedVersion req = 0 then ''create resource''
                                 else ''update resource'') c))
      in case pg_args (params_of_write req) of
           Inl c \<Rightarrow> bad c
         | Inr a \<Rightarrow>
             if wExpectedVersion req = 0 then
               (case tx_insert t u now a cur of
                  Row r \<Rightarrow> Inr r
                | NoRows \<Rightarrow> Inl (ErrTx ''create resource'')
                | PgErr c \<Rightarrow>
                    if c = ''23505'' then
                      (case tx_revive t u now a cur of
                         Row r \<Rightarrow> Inr r
                       | NoRows \<Rightarrow> Inl ErrAlreadyExists
                       | PgErr c2 \<Rightarrow> Inl (ErrPg ''tombstone revival'' c2))
                    else bad c)
             else
               (case versioned_update (wExpectedVersion req)
                       (set_write t now (p_spec a) (p_status a) (p_metadata a) (p_deletion_ts a)) cur of
                  Row r \<Rightarrow> Inr r
                | NoRows \<Rightarrow> Inl ErrConflict
                | PgErr c \<Rightarrow> bad c))"

definition status_upsert :: "StatusWriteRequest \<Rightarrow> txid \<Rightarrow> uid \<Rightarrow> time \<Rightarrow> resource option \<Rightarrow> werr + resource" where
  "status_upsert req t u now cur =
     (case pg_args (params_of_status req) of
        Inl c \<Rightarrow> Inl (ErrPg ''update status'' c)
      | Inr a \<Rightarrow>
          (case versioned_update (sExpectedVersion req) (set_status t now (p_status a)) cur of
             Row r \<Rightarrow> Inr r
           | NoRows \<Rightarrow> Inl ErrConflict
           | PgErr c \<Rightarrow> Inl (ErrPg ''update status'' c)))"

definition object_upsert :: "ObjectWriteRequest \<Rightarrow> txid \<Rightarrow> uid \<Rightarrow> time \<Rightarrow> resource option \<Rightarrow> werr + resource" where
  "object_upsert req t u now cur =
     (case pg_args (params_of_object req) of
        Inl c \<Rightarrow> Inl (ErrPg ''update spec'' c)
      | Inr a \<Rightarrow>
          (case versioned_update (oExpectedVersion req)
                  (set_object t now (p_spec a) (p_metadata a) (p_deletion_ts a)) cur of
             Row r \<Rightarrow> Inr r
           | NoRows \<Rightarrow> Inl ErrConflict
           | PgErr c \<Rightarrow> Inl (ErrPg ''update spec'' c)))"

section \<open>The content checkers\<close>

text \<open>timeEqual (writer.go, 574-582): both nil, or the same instant.\<close>

definition timeEqual :: "time option \<Rightarrow> time option \<Rightarrow> bool" where
  "timeEqual a b =
     (case (a, b) of
        (None, None) \<Rightarrow> True
      | (Some x, Some y) \<Rightarrow> x = y
      | _ \<Rightarrow> False)"

definition write_checker :: "WriteRequest \<Rightarrow> resource \<Rightarrow> bool" where
  "write_checker req e \<longleftrightarrow>
     JSONEqual (RDoc (Spec e)) (wSpec req) \<and> JSONEqual (RDoc (Status e)) (wStatus req) \<and>
     JSONEqual (RDoc (Metadata e)) (wMetadata req) \<and>
     timeEqual (DeletionTimestamp e) (wDeletionTimestamp req)"

definition status_checker :: "StatusWriteRequest \<Rightarrow> resource \<Rightarrow> bool" where
  "status_checker req e \<longleftrightarrow> JSONEqual (RDoc (Status e)) (sStatus req)"

definition object_checker :: "ObjectWriteRequest \<Rightarrow> resource \<Rightarrow> bool" where
  "object_checker req e \<longleftrightarrow>
     JSONEqual (RDoc (Spec e)) (oSpec req) \<and> JSONEqual (RDoc (Metadata e)) (oMetadata req) \<and>
     timeEqual (DeletionTimestamp e) (oDeletionTimestamp req)"

section \<open>execWriteInner\<close>

text \<open>
  The existing row that makes the write a no-op, when suppression is active (472-476). An
  error of the transaction before the commit rolls it back; the deferred Rollback after a
  failed commit has no effect on the committed state. \<open>CommitFails applied cause\<close> says
  whether the server had committed when the answer was lost.
\<close>

definition noop_row :: "bool \<Rightarrow> (resource \<Rightarrow> bool) \<Rightarrow> resource option \<Rightarrow> resource option" where
  "noop_row force isContentEqual cur =
     (if force then None
      else (case cur of None \<Rightarrow> None | Some e \<Rightarrow> if isContentEqual e then Some e else None))"

definition execWriteInner ::
  "(string \<Rightarrow> 'b \<Rightarrow> 'b) \<Rightarrow> txhooks \<Rightarrow> tx_fault \<Rightarrow> bool \<Rightarrow> key \<Rightarrow> (resource \<Rightarrow> bool) \<Rightarrow>
     (txid \<Rightarrow> resource option \<Rightarrow> werr + resource) \<Rightarrow> 'b world \<Rightarrow> 'b world \<times> (werr + WriteResult)" where
  "execWriteInner ring hooks fault force k isContentEqual ups w =
     (if fault = BeginFails then (w, Inl (ErrTx ''begin''))
      else
        let d = wdb w; cur = get_row d k; noop = noop_row force isContentEqual cur in
        case AfterSuppressionCheck hooks (noop \<noteq> None) of
          Some e \<Rightarrow> (w, Inl (ErrHook e))
        | None \<Rightarrow>
            (case noop of
               Some e \<Rightarrow>
                 (case fault of
                    CommitFails _ _ \<Rightarrow> (w, Inl (ErrTx ''commit (suppressed)''))
                  | _ \<Rightarrow> (w, Inr \<lparr>Txid = 0, resVersion = ObjectVersion e, resUID = UID e,
                                  Changed = False\<rparr>))
             | None \<Rightarrow>
                 (let t = next_xid d; d1 = d\<lparr>next_xid := t + 1\<rparr>; w1 = w\<lparr>wdb := d1\<rparr> in
                  case AfterTxidAcquire hooks t of
                    Some e \<Rightarrow> (w1, Inl (ErrHook e))
                  | None \<Rightarrow>
                      (case ups t cur of
                         Inl e \<Rightarrow> (w1, Inl e)
                       | Inr r \<Rightarrow>
                           (case BeforeCommit hooks of
                              Some e \<Rightarrow> (w1, Inl (ErrHook e))
                            | None \<Rightarrow>
                                (case fault of
                                   CommitFails applied cause \<Rightarrow>
                                     (if applied then w\<lparr>wdb := put_row r d1\<rparr> else w1,
                                      Inl (AmbiguousCommitError k t cause))
                                 | _ \<Rightarrow>
                                     (ring_doorbell ring (fst k) (w\<lparr>wdb := put_row r d1\<rparr>),
                                      Inr \<lparr>Txid = t, resVersion = ObjectVersion r,
                                           resUID = UID r, Changed = True\<rparr>)))))))"

definition execWrite ::
  "(string \<Rightarrow> 'b \<Rightarrow> 'b) \<Rightarrow> txhooks \<Rightarrow> tx_fault \<Rightarrow> bool \<Rightarrow> key \<Rightarrow> (resource \<Rightarrow> bool) \<Rightarrow>
     (txid \<Rightarrow> resource option \<Rightarrow> werr + resource) \<Rightarrow> 'b world \<Rightarrow> 'b world \<times> (werr + WriteResult)" where
  "execWrite ring hooks fault force k isContentEqual ups w =
     (let (w', res) = execWriteInner ring hooks fault force k isContentEqual ups w
      in (observeResult (fst k) res w', res))"

definition writeMultiStatement ::
  "(string \<Rightarrow> 'b \<Rightarrow> 'b) \<Rightarrow> txhooks \<Rightarrow> tx_fault \<Rightarrow> uid \<Rightarrow> time \<Rightarrow> WriteRequest \<Rightarrow> 'b world \<Rightarrow>
     'b world \<times> (werr + WriteResult)" where
  "writeMultiStatement ring hooks fault u now req w =
     execWrite ring hooks fault (wForceWrite req) (wGVK req, wNamespace req, wName req)
       (write_checker req) (\<lambda>t. write_upsert req t u now) w"

definition writeStatusMultiStatement ::
  "(string \<Rightarrow> 'b \<Rightarrow> 'b) \<Rightarrow> txhooks \<Rightarrow> tx_fault \<Rightarrow> uid \<Rightarrow> time \<Rightarrow> StatusWriteRequest \<Rightarrow> 'b world \<Rightarrow>
     'b world \<times> (werr + WriteResult)" where
  "writeStatusMultiStatement ring hooks fault u now req w =
     execWrite ring hooks fault (sForceWrite req) (sGVK req, sNamespace req, sName req)
       (status_checker req) (\<lambda>t. status_upsert req t u now) w"

definition writeObjectMultiStatement ::
  "(string \<Rightarrow> 'b \<Rightarrow> 'b) \<Rightarrow> txhooks \<Rightarrow> tx_fault \<Rightarrow> uid \<Rightarrow> time \<Rightarrow> ObjectWriteRequest \<Rightarrow> 'b world \<Rightarrow>
     'b world \<times> (werr + WriteResult)" where
  "writeObjectMultiStatement ring hooks fault u now req w =
     execWrite ring hooks fault (oForceWrite req) (oGVK req, oNamespace req, oName req)
       (object_checker req) (\<lambda>t. object_upsert req t u now) w"

section \<open>Write, WriteStatus, WriteObject\<close>

text \<open>The environment of one call: the network, the transaction faults, the generated UUID, now().\<close>

record call_env =
  env_net :: net
  env_fault :: tx_fault
  env_uid :: uid
  env_now :: time

definition Write ::
  "(string \<Rightarrow> 'b \<Rightarrow> 'b) \<Rightarrow> txhooks option \<Rightarrow> call_env \<Rightarrow> WriteRequest \<Rightarrow> 'b world \<Rightarrow>
     'b world \<times> (werr + WriteResult)" where
  "Write ring hooks env req w =
     (case hooks of
        Some h \<Rightarrow> writeMultiStatement ring h (env_fault env) (env_uid env) (env_now env) req w
      | None \<Rightarrow> writeStoredProc ring (env_net env) (env_uid env) (env_now env) req w)"

definition WriteStatus ::
  "(string \<Rightarrow> 'b \<Rightarrow> 'b) \<Rightarrow> txhooks option \<Rightarrow> call_env \<Rightarrow> StatusWriteRequest \<Rightarrow> 'b world \<Rightarrow>
     'b world \<times> (werr + WriteResult)" where
  "WriteStatus ring hooks env req w =
     (if sExpectedVersion req = 0 then
        (w, Inl (ErrNeedsVersion ''WriteStatus requires ExpectedVersion > 0: object must exist''))
      else (case hooks of
              Some h \<Rightarrow> writeStatusMultiStatement ring h (env_fault env) (env_uid env) (env_now env) req w
            | None \<Rightarrow> writeStatusStoredProc ring (env_net env) (env_uid env) (env_now env) req w))"

definition WriteObject ::
  "(string \<Rightarrow> 'b \<Rightarrow> 'b) \<Rightarrow> txhooks option \<Rightarrow> call_env \<Rightarrow> ObjectWriteRequest \<Rightarrow> 'b world \<Rightarrow>
     'b world \<times> (werr + WriteResult)" where
  "WriteObject ring hooks env req w =
     (if oExpectedVersion req = 0 then
        (w, Inl (ErrNeedsVersion ''WriteObject requires ExpectedVersion > 0: object must exist''))
      else (case hooks of
              Some h \<Rightarrow> writeObjectMultiStatement ring h (env_fault env) (env_uid env) (env_now env) req w
            | None \<Rightarrow> writeObjectStoredProc ring (env_net env) (env_uid env) (env_now env) req w))"

section \<open>Who rings the doorbell\<close>

fun rings :: "werr + WriteResult \<Rightarrow> bool" where
  "rings (Inr r) = Changed r"
| "rings (Inl _) = False"

lemma ring_doorbell_simps [simp]:
  "wbell (ring_doorbell ring g w) = map_option (ring g) (wbell w)"
  "wdb (ring_doorbell ring g w) = wdb w" "wmet (ring_doorbell ring g w) = wmet w"
  by (simp_all add: ring_doorbell_def)

lemma observeResult_simps [simp]:
  "wbell (observeResult g res w) = wbell w" "wdb (observeResult g res w) = wdb w"
  "wmet (observeResult g res w) = map_option (observe g res) (wmet w)"
  by (simp_all add: observeResult_def)

lemma stored_proc_path_bell:
  "stored_proc_path ring nt u now p w = (w', res) \<Longrightarrow>
     wbell w' = (if rings res then map_option (ring (wp_gvk p)) (wbell w) else wbell w)"
  by (auto simp: stored_proc_path_def callStoredProc_def Let_def split: net.splits prod.splits sum.splits if_splits)

lemma execWriteInner_bell:
  "execWriteInner ring hooks fault force k eqv ups w = (w', res) \<Longrightarrow>
     wbell w' = (if rings res then map_option (ring (fst k)) (wbell w) else wbell w)"
  by (auto simp: execWriteInner_def Let_def split: if_splits option.splits tx_fault.splits sum.splits)

lemma execWrite_bell:
  "execWrite ring hooks fault force k eqv ups w = (w', res) \<Longrightarrow>
     wbell w' = (if rings res then map_option (ring (fst k)) (wbell w) else wbell w)"
  by (auto simp: execWrite_def Let_def split: prod.splits dest: execWriteInner_bell)

lemma Write_bell:
  "Write ring hooks env req w = (w', res) \<Longrightarrow>
     wbell w' = (if rings res then map_option (ring (wGVK req)) (wbell w) else wbell w)"
  by (auto simp: Write_def writeStoredProc_def writeMultiStatement_def params_of_write_def
      split: option.splits dest: stored_proc_path_bell execWrite_bell)

lemma WriteStatus_bell:
  "WriteStatus ring hooks env req w = (w', res) \<Longrightarrow>
     wbell w' = (if rings res then map_option (ring (sGVK req)) (wbell w) else wbell w)"
  by (auto simp: WriteStatus_def writeStatusStoredProc_def writeStatusMultiStatement_def params_of_status_def
      split: option.splits if_splits dest: stored_proc_path_bell execWrite_bell)

lemma WriteObject_bell:
  "WriteObject ring hooks env req w = (w', res) \<Longrightarrow>
     wbell w' = (if rings res then map_option (ring (oGVK req)) (wbell w) else wbell w)"
  by (auto simp: WriteObject_def writeObjectStoredProc_def writeObjectMultiStatement_def params_of_object_def
      split: option.splits if_splits dest: stored_proc_path_bell execWrite_bell)

context doorbell
begin

definition heard :: "'b world \<Rightarrow> string set" where
  "heard w = (case wbell w of None \<Rightarrow> {} | Some b \<Rightarrow> pending b)"

lemma heard_ring:
  "wbell w' = (if c then map_option (ring g) (wbell w) else wbell w) \<Longrightarrow> wbell w \<noteq> None \<Longrightarrow>
     heard w' = (if c then insert g (heard w) else heard w)"
  by (auto simp: heard_def pending_ring)

end

text \<open>A success of the production path is a success of the procedure.\<close>

lemma stored_proc_path_ok:
  assumes "stored_proc_path ring nt u now p w = (w', Inr res)"
  obtains a out where "pg_args p = Inr a" "pgctl_write u now a (wdb w) = (wdb w', Inr out)"
    "resVersion res = out_version out" "resUID res = out_uid out" "Changed res = out_changed out"
  using assms
  by (auto simp: stored_proc_path_def callStoredProc_def run_proc_def Let_def
      split: net.splits prod.splits sum.splits if_splits)

lemma pg_args_fields:
  "pg_args p = Inr a \<Longrightarrow> p_status_only a = wp_statusOnly p \<and> p_key a = wp_key p \<and>
     p_expected_version a = wp_expectedVersion p \<and> p_force_write a = wp_forceWrite p \<and>
     p_deletion_ts a = wp_deletionTimestamp p \<and> to_jsonb (wp_spec p) = Inr (p_spec a) \<and>
     to_jsonb (wp_status p) = Inr (p_status a) \<and> to_jsonb (wp_metadata p) = Inr (p_metadata a)"
  by (auto simp: pg_args_def p_key_def wp_key_def split: sum.splits)

section \<open>Ambiguous commits\<close>

lemma run_proc_wf: "wf_db d \<Longrightarrow> wf_db (fst (run_proc u now p d))"
  using pgctl_write_frame [of d u now] by (auto simp: run_proc_def split: sum.splits prod.splits)
    (metis fst_conv surj_pair)

lemma ReadBack_zero: "wf_db d \<Longrightarrow> ReadBack d k 0 = None"
  by (auto simp: ReadBack_def split: option.splits dest: get_row_stamp)

text \<open>The stored-procedure path cannot resolve an ambiguous commit: the error it returns carries
  transaction id 0, which no row has, so ReadBack finds nothing, also when the server did
  commit the write and only the answer was lost.\<close>

theorem stored_proc_ambiguous_unresolved:
  assumes "wf_db (wdb w)" "stored_proc_path ring nt u now p w = (w', Inl (AmbiguousCommitError k t c))"
  shows "t = 0 \<and> k = wp_key p \<and> ReadBack (wdb w') k t = None \<and>
    (nt = LostAfter \<longrightarrow> wdb w' = fst (run_proc u now p (wdb w)))"
proof -
  have t: "t = 0" "k = wp_key p" and d: "nt = LostAfter \<longrightarrow> wdb w' = fst (run_proc u now p (wdb w))"
    and "wf_db (wdb w')"
    using assms run_proc_wf [OF assms(1), of u now p]
    by (auto simp: stored_proc_path_def callStoredProc_def Let_def
        split: net.splits prod.splits sum.splits if_splits)
  then show ?thesis by (simp add: ReadBack_zero)
qed

definition ex_write :: WriteRequest where
  "ex_write = \<lparr>wGVK = ''g'', wNamespace = ''n'', wName = ''a'', wSpec = RDoc (JObj [(''x'', JNum 2)]),
     wStatus = RDoc (JObj []), wMetadata = RDoc (JObj []), wDeletionTimestamp = None,
     wExpectedVersion = 1, wForceWrite = False\<rparr>"

definition ex_world :: "unit world" where
  "ex_world = \<lparr>wdb = ex_db, wbell = None, wmet = None\<rparr>"

theorem stored_proc_ambiguous_unresolved_witness:
  "\<exists>w'. stored_proc_path (\<lambda>g b. b) LostAfter 9 5 (params_of_write ex_write) ex_world =
       (w', Inl (AmbiguousCommitError (''g'', ''n'', ''a'') 0 None)) \<and>
     map_option ObjectVersion (get_row (wdb w') (''g'', ''n'', ''a'')) = Some 2 \<and>
     ReadBack (wdb w') (''g'', ''n'', ''a'') 0 = None"
proof -
  let ?w' = "fst (stored_proc_path (\<lambda>g b. b) LostAfter 9 5 (params_of_write ex_write) ex_world)"
  have *: "stored_proc_path (\<lambda>g b. b) LostAfter 9 5 (params_of_write ex_write) ex_world =
      (?w', Inl (AmbiguousCommitError (''g'', ''n'', ''a'') 0 None))"
    by (simp add: stored_proc_path_def callStoredProc_def params_of_write_def wp_key_def ex_write_def)
  have "wf_db (wdb ex_world)" by (simp add: ex_world_def)
  from stored_proc_ambiguous_unresolved [OF this *]
  have "ReadBack (wdb ?w') (''g'', ''n'', ''a'') 0 = None" by blast
  moreover have "map_option ObjectVersion (get_row (wdb ?w') (''g'', ''n'', ''a'')) = Some 2"
    by (simp add: stored_proc_path_def callStoredProc_def params_of_write_def ex_world_def ex_write_def
        run_proc_def pg_args_def pgctl_write_def p_key_def suppression_check_def suppressed_iff
        upsert_def update_row_def bigint_succ_def Let_def get_row_put rkey_def)
  ultimately show ?thesis using * by blast
qed

lemma write_upsert_stamp:
  "write_upsert req t u now cur = Inr r \<Longrightarrow> (\<And>e. cur = Some e \<Longrightarrow> rkey e = (wGVK req, wNamespace req, wName req)) \<Longrightarrow>
     rkey r = (wGVK req, wNamespace req, wName req) \<and> TxidStamp r = t"
  by (auto simp: write_upsert_def Let_def tx_insert_def tx_revive_def versioned_update_def set_write_def
      need_def pg_args_def params_of_write_def insert_row_def rkey_def
      split: if_splits sum.splits sqlrow.splits option.splits insert_result.splits)

text \<open>The multi-statement path does resolve it: a failed commit reports the transaction's own id,
  and ReadBack with it finds the row exactly when the server had applied the commit.\<close>

theorem multi_statement_readback:
  assumes "wf_db (wdb w)"
    and "writeMultiStatement ring hooks fault u now req w = (w', Inl (AmbiguousCommitError k t c))"
  shows "\<exists>applied. fault = CommitFails applied c \<and> t = next_xid (wdb w) \<and>
    (ReadBack (wdb w') k t \<noteq> None \<longleftrightarrow> applied)"
proof -
  let ?k = "(wGVK req, wNamespace req, wName req)" and ?d = "wdb w"
  obtain w1 where "execWriteInner ring hooks fault (wForceWrite req) ?k (write_checker req)
      (\<lambda>t. write_upsert req t u now) w = (w1, Inl (AmbiguousCommitError k t c))" "wdb w' = wdb w1"
    using assms(2) by (auto simp: writeMultiStatement_def execWrite_def Let_def split: prod.splits)
  moreover have "write_upsert req s u now cur \<noteq> Inl (AmbiguousCommitError k t c)" for s cur
    by (auto simp: write_upsert_def Let_def split: sum.splits if_splits sqlrow.splits)
  ultimately obtain applied r where f: "fault = CommitFails applied c" "t = next_xid ?d" "k = ?k"
    and r: "write_upsert req t u now (get_row ?d ?k) = Inr r"
    and d: "wdb w' = (if applied then put_row r (?d\<lparr>next_xid := t + 1\<rparr>) else ?d\<lparr>next_xid := t + 1\<rparr>)"
    by (auto simp: execWriteInner_def Let_def
        split: if_splits option.splits tx_fault.splits sum.splits)
  have "rkey r = ?k" "TxidStamp r = t" using write_upsert_stamp [OF r] get_row_key by blast+
  moreover have "TxidStamp e < t" if "get_row ?d ?k = Some e" for e
    using get_row_in_rows [OF that] assms(1) f(2) by (simp add: wf_db_def)
  ultimately show ?thesis
    using f d by (auto simp: ReadBack_def get_row_put split: option.splits)
qed

definition no_hooks :: txhooks where
  "no_hooks = \<lparr>AfterSuppressionCheck = (\<lambda>_. None), AfterTxidAcquire = (\<lambda>_. None), BeforeCommit = None\<rparr>"

theorem multi_statement_readback_witness:
  "\<exists>w'. writeMultiStatement (\<lambda>g b. b) no_hooks (CommitFails True None) 9 5 ex_write ex_world =
       (w', Inl (AmbiguousCommitError (''g'', ''n'', ''a'') 4 None)) \<and>
     ReadBack (wdb w') (''g'', ''n'', ''a'') 4 \<noteq> None"
proof -
  let ?w' = "fst (writeMultiStatement (\<lambda>g b. b) no_hooks (CommitFails True None) 9 5 ex_write ex_world)"
  have *: "writeMultiStatement (\<lambda>g b. b) no_hooks (CommitFails True None) 9 5 ex_write ex_world =
      (?w', Inl (AmbiguousCommitError (''g'', ''n'', ''a'') 4 None))"
    by (simp add: writeMultiStatement_def execWrite_def execWriteInner_def ex_world_def ex_write_def
        no_hooks_def noop_row_def write_checker_def JSONEqual_exact write_upsert_def pg_args_def
        params_of_write_def versioned_update_def bigint_succ_def set_write_def need_def Let_def)
  have "wf_db (wdb ex_world)" by (simp add: ex_world_def)
  from multi_statement_readback [OF this *] * show ?thesis by auto
qed

section \<open>The two paths agree\<close>

text \<open>
  Where they can agree: numbers that float64 holds, rows in jsonb's canonical form (as the
  database stores them), and a request that names its status. Outcomes are compared up to the
  label of a wrapped PostgreSQL error.
\<close>

fun raw_exact :: "raw \<Rightarrow> bool" where
  "raw_exact (RDoc j) = nums_exact j"
| "raw_exact _ = True"

definition doc_ok :: "json \<Rightarrow> bool" where
  "doc_ok j \<longleftrightarrow> nums_exact j \<and> canon j = j"

definition row_ok :: "resource \<Rightarrow> bool" where
  "row_ok e \<longleftrightarrow> doc_ok (Spec e) \<and> doc_ok (Status e) \<and> doc_ok (Metadata e)"

fun unlabel :: "werr + WriteResult \<Rightarrow> werr + WriteResult" where
  "unlabel (Inl (ErrPg _ c)) = Inl (ErrPg [] c)"
| "unlabel x = x"

lemma timeEqual_iff: "timeEqual a b \<longleftrightarrow> a = b"
  by (auto simp: timeEqual_def split: option.splits)

lemma checker_doc:
  assumes "doc_ok a" "raw_exact r"
  shows "JSONEqual (RDoc a) r \<longleftrightarrow> to_jsonb r = Inr (Some a)"
  using assms by (cases r) (auto simp: doc_ok_def JSONEqual_def go_dec_exact)

lemma write_checker_suppressed:
  assumes "row_ok e" "raw_exact (wSpec req)" "raw_exact (wStatus req)" "raw_exact (wMetadata req)"
    and "wStatus req \<noteq> RNil"
  shows "write_checker req e \<longleftrightarrow> (\<exists>a. pg_args (params_of_write req) = Inr a \<and> suppressed a e)"
proof -
  have "p_status a \<noteq> None" if "pg_args (params_of_write req) = Inr a" for a
    using that assms(5) by (cases "wStatus req") (auto simp: pg_args_def params_of_write_def split: sum.splits)
  then show ?thesis
    using assms(1-4)
    by (auto simp: write_checker_def row_ok_def checker_doc timeEqual_iff suppressed_iff pg_args_def
        params_of_write_def split: sum.splits)
qed

fun err_of :: "sqlstate + resource \<Rightarrow> werr + resource" where
  "err_of (Inr r) = Inr r"
| "err_of (Inl c) = Inl (mapStoredProcError c)"

fun unlabel_row :: "werr + resource \<Rightarrow> werr + resource" where
  "unlabel_row (Inl (ErrPg _ c)) = Inl (ErrPg [] c)"
| "unlabel_row x = x"

lemma write_upsert_agrees:
  assumes "pg_args (params_of_write req) = Inr a"
  shows "unlabel_row (write_upsert req t u now cur) = unlabel_row (err_of (upsert t u now a cur))"
proof -
  have "p_expected_version a = wExpectedVersion req" "\<not> p_status_only a"
    using assms by (auto simp: pg_args_def params_of_write_def split: sum.splits)
  then show ?thesis
    using assms
    by (auto simp: write_upsert_def upsert_def tx_insert_def tx_revive_def versioned_update_def
        set_write_def need_def branch_defs not_null_violation_def out_of_range_def
        split: branch_splits insert_result.splits)
qed

lemma write_upsert_bad:
  "pg_args (params_of_write req) = Inl c \<Longrightarrow> \<exists>l. write_upsert req t u now cur = Inl (ErrPg l c)"
  by (simp add: write_upsert_def)

lemma pg_args_bad: "pg_args p = Inl c \<Longrightarrow> c = invalid_text"
proof -
  have "to_jsonb r = Inl c \<Longrightarrow> c = invalid_text" for r by (cases r) auto
  then show "pg_args p = Inl c \<Longrightarrow> c = invalid_text"
    by (auto simp: pg_args_def split: sum.splits)
qed

lemma observe_unlabel: "unlabel r1 = unlabel r2 \<Longrightarrow> observe g r1 = observe g r2"
proof -
  have "observe g (unlabel r) = observe g r" for r
    by (cases r rule: unlabel.cases) (simp_all add: observe_def fun_eq_iff)
  then show "unlabel r1 = unlabel r2 \<Longrightarrow> observe g r1 = observe g r2" by metis
qed

text \<open>One call of each path, up to metrics: the outcome and the world agree.\<close>

definition same_world :: "'b world \<times> (werr + WriteResult) \<Rightarrow> 'b world \<times> (werr + WriteResult) \<Rightarrow> bool" where
  "same_world a b \<longleftrightarrow>
     unlabel (snd a) = unlabel (snd b) \<and> rows (wdb (fst a)) = rows (wdb (fst b)) \<and>
     horizon (wdb (fst a)) = horizon (wdb (fst b)) \<and>
     wbell (fst a) = wbell (fst b) \<and> wmet (fst a) = wmet (fst b)"

lemma same_world_observe:
  assumes "same_world (w1, r1) (w2, r2)"
  shows "same_world (observeResult g r1 w1, r1) (observeResult g r2 w2, r2)"
  using assms observe_unlabel [of r1 r2 g] by (auto simp: same_world_def)

lemma inner_agrees:
  assumes row: "\<And>e. get_row (wdb w) (wGVK req, wNamespace req, wName req) = Some e \<Longrightarrow> row_ok e"
    and req: "raw_exact (wSpec req)" "raw_exact (wStatus req)" "raw_exact (wMetadata req)" "wStatus req \<noteq> RNil"
  shows "same_world
    (execWriteInner ring no_hooks NoFault (wForceWrite req) (wGVK req, wNamespace req, wName req)
       (write_checker req) (\<lambda>t. write_upsert req t u now) w)
    (callStoredProc ring NetOk u now (params_of_write req) w)"
proof (cases "pg_args (params_of_write req)")
  case (Inl c)
  then have "\<not> write_checker req e" if "get_row (wdb w) (wGVK req, wNamespace req, wName req) = Some e" for e
    using write_checker_suppressed [OF row [OF that] req] by simp
  moreover obtain l where "write_upsert req (next_xid (wdb w)) u now
      (get_row (wdb w) (wGVK req, wNamespace req, wName req)) = Inl (ErrPg l c)"
    using write_upsert_bad [OF Inl] by blast
  ultimately show ?thesis
    using Inl pg_args_bad [OF Inl]
    by (auto simp: same_world_def execWriteInner_def callStoredProc_def run_proc_def no_hooks_def
        noop_row_def Let_def invalid_text_def split: option.splits)
next
  case (Inr a)
  let ?k = "(wGVK req, wNamespace req, wName req)" and ?t = "next_xid (wdb w)"
  let ?cur = "get_row (wdb w) ?k"
  have a: "p_key a = ?k" "p_force_write a = wForceWrite req" "wp_gvk (params_of_write req) = wGVK req"
    using Inr by (auto simp: pg_args_def params_of_write_def p_key_def split: sum.splits)
  have noop: "noop_row (wForceWrite req) (write_checker req) ?cur = suppression_check a ?cur"
    using write_checker_suppressed [OF row req] Inr a(2)
    by (auto simp: noop_row_def suppression_check_def split: option.splits)
  have ups: "unlabel_row (write_upsert req ?t u now ?cur) = unlabel_row (err_of (upsert ?t u now a ?cur))"
    by (rule write_upsert_agrees [OF Inr])
  show ?thesis
  proof (cases "suppression_check a ?cur")
    case (Some e)
    then show ?thesis
      using Inr a noop
      by (auto simp: same_world_def execWriteInner_def callStoredProc_def run_proc_def no_hooks_def
          pgctl_write_def Let_def)
  next
    case None
    show ?thesis
    proof (cases "upsert ?t u now a ?cur")
      case (Inl c)
      have "upsert ?t u now a ?cur = Inl c \<Longrightarrow> unlabel (Inl (mapStoredProcError c)) = unlabel (Inl e)"
        if "write_upsert req ?t u now ?cur = Inl e" for e
        using ups that by (cases e) (auto split: if_splits)
      moreover have "\<exists>e. write_upsert req ?t u now ?cur = Inl e"
        using ups Inl by (cases "write_upsert req ?t u now ?cur") (auto split: if_splits)
      ultimately show ?thesis
        using Inr a noop None Inl
        by (auto simp: same_world_def execWriteInner_def callStoredProc_def run_proc_def no_hooks_def
            pgctl_write_def Let_def)
    next
      case (Inr r)
      then have "write_upsert req ?t u now ?cur = Inr r"
        using ups by (cases "write_upsert req ?t u now ?cur" rule: unlabel_row.cases) auto
      then show ?thesis
        using \<open>pg_args (params_of_write req) = Inr a\<close> a noop None Inr
        by (auto simp: same_world_def execWriteInner_def callStoredProc_def run_proc_def no_hooks_def
            pgctl_write_def Let_def)
    qed
  qed
qed



text \<open>Where they differ: on a request without a status the stored procedure suppresses a
  content-equal update while the multi-statement path writes it, so the second bumps the
  version and reports a change.\<close>

theorem nil_status_paths_differ:
  "let req = ex_write\<lparr>wSpec := RDoc (Spec ex_row), wStatus := RNil\<rparr>;
       multi = snd (writeMultiStatement (\<lambda>g b. b) no_hooks NoFault 9 5 req ex_world);
       proc = snd (writeStoredProc (\<lambda>g b. b) NetOk 9 5 req ex_world)
   in proc = Inr \<lparr>Txid = 0, resVersion = 1, resUID = 7, Changed = False\<rparr> \<and>
      multi = Inr \<lparr>Txid = 4, resVersion = 2, resUID = 7, Changed = True\<rparr>"
  by (simp add: writeMultiStatement_def execWrite_def execWriteInner_def ex_world_def ex_write_def
      no_hooks_def noop_row_def write_checker_def JSONEqual_exact write_upsert_def pg_args_def
      params_of_write_def versioned_update_def bigint_succ_def set_write_def need_def Let_def
      writeStoredProc_def stored_proc_path_def callStoredProc_def run_proc_def pgctl_write_def p_key_def
      suppression_check_def suppressed_iff)

end
