(* ===== verification/Contention.thy ===== *)
theory Contention
  imports Sessions WriterTx
begin

text \<open>
  What optimistic concurrency promises to writers that race. First over the sessions of
  Sessions.thy: without creates and revivals of a key, each of its versions is one content.
  Then over the writer of src/internal/writer: the locale \<open>versioned_writer\<close> states what a
  caller relies on when it sends updates (every update is guarded by the version it names, and
  touches its own key only), and proves that of any updates that name the same version at most
  one wins; the interpretation discharges the contract for Write, WriteStatus and WriteObject
  on both of their paths.
\<close>

section \<open>One content per version\<close>

text \<open>A transaction that takes part in pgctl_write was sent a permitted request.\<close>

definition sent_ok :: "(pgargs \<Rightarrow> bool) \<Rightarrow> sys \<Rightarrow> bool" where
  "sent_ok ok s \<longleftrightarrow> (\<forall>x \<in> set (running s). t_phase x \<noteq> Other \<longrightarrow> ok (t_args x))"

lemma sent_ok_step: "pg_step ok s s' \<Longrightarrow> sys_inv s \<Longrightarrow> sent_ok ok s \<Longrightarrow> sent_ok ok s'"
  by (induction rule: pg_step.induct) (auto simp: sent_ok_def set_running_set_phase)

lemma sent_ok_reachable: "reachable ok s0 s \<Longrightarrow> sys_inv s0 \<Longrightarrow> sent_ok ok s0 \<Longrightarrow> sent_ok ok s"
  by (induction rule: reachable.induct) (auto intro: sent_ok_step reachable_inv)

text \<open>The row at the key is gone, or is \<open>r\<close>, or has a later version of the same object.\<close>

definition later :: "resource \<Rightarrow> resource option \<Rightarrow> bool" where
  "later r cur \<longleftrightarrow> (\<forall>r'. cur = Some r' \<longrightarrow> UID r' = UID r \<and> (r' = r \<or> ObjectVersion r < ObjectVersion r'))"

lemma later_step:
  assumes "pg_step ok s s'" "sys_inv s" "sent_ok ok s"
    and upd: "\<And>p. ok p \<Longrightarrow> p_key p = k \<Longrightarrow> p_expected_version p \<noteq> 0"
    and "later r (get_row (committed s) k)"
  shows "later r (get_row (committed s') k)"
proof -
  have "p_expected_version (t_args x) \<noteq> 0" if "x \<in> set (running s)" "t_phase x = Wrote r'" "rkey r' = k" for x r'
    using that upd [of "t_args x"] assms(2,3) by (fastforce simp: sent_ok_def sys_inv_def pending_ok_def)
  with pg_step_row [OF assms(1,2), of k] assms(5) show ?thesis
    by (auto simp: later_def next_version_def split: option.splits)
qed

lemma later_reachable:
  assumes "reachable ok s s'" "sys_inv s" "sent_ok ok s"
    and "\<And>p. ok p \<Longrightarrow> p_key p = k \<Longrightarrow> p_expected_version p \<noteq> 0"
    and "later r (get_row (committed s) k)"
  shows "later r (get_row (committed s') k)"
  using assms
proof (induction rule: reachable.induct)
  case (reach_step s1 s2)
  then show ?case
    using later_step [OF reach_step.hyps(2)] reachable_inv sent_ok_reachable by blast
qed simp

text \<open>C4: Each version of an object is one content, whatever transactions race for it: as long as no
  create is sent for its key, the row that is there later belongs to the same object, its
  version never falls, and if the version is the same then so is the whole row. Two
  transactions that replace the same version never both commit.\<close>

theorem version_is_one_content:
  assumes "wf_db d" "reachable ok (init_sys d) s" "reachable ok s s'"
    and "\<And>p. ok p \<Longrightarrow> p_key p = k \<Longrightarrow> p_expected_version p \<noteq> 0"
    and "get_row (committed s) k = Some r" "get_row (committed s') k = Some r'"
  shows "UID r' = UID r \<and> ObjectVersion r \<le> ObjectVersion r' \<and> (ObjectVersion r' = ObjectVersion r \<longrightarrow> r' = r)"
proof -
  have "sent_ok ok (init_sys d)" by (simp add: sent_ok_def init_sys_def)
  then have "sys_inv s" "sent_ok ok s"
    using reachable_inv [OF assms(2)] sent_ok_reachable [OF assms(2)] sys_inv_init [OF assms(1)] by auto
  from later_reachable [OF assms(3) this assms(4)] assms(5,6) show ?thesis
    by (fastforce simp: later_def)
qed

theorem version_is_one_content_witness:
  "UID ex_updated_row = UID ex_row \<and> ObjectVersion ex_row \<le> ObjectVersion ex_updated_row"
proof -
  let ?ok = "\<lambda>p. p_expected_version p \<noteq> 0"
  have "?ok ex_args" by (simp add: ex_args_def)
  then have r: "reachable ?ok (init_sys ex_db) ex_sys" "reachable ?ok ex_sys ex_sys'"
    using ex_sys_reachable [of ?ok] ex_sys_commit reach_step [OF reach_refl] by auto
  from version_is_one_content [OF wf_ex_db r, of "(''g'', ''n'', ''a'')" ex_row ex_updated_row]
  show ?thesis by simp
qed

section \<open>The contract of a versioned writer\<close>

text \<open>
  \<open>submit q w\<close> sends the request \<open>q\<close>. A request with version 0 is a create and promises nothing here.
\<close>

locale versioned_writer =
  fixes submit :: "'q \<Rightarrow> 'w \<Rightarrow> 'w \<times> (werr + WriteResult)"
    and row_at :: "'w \<Rightarrow> key \<Rightarrow> resource option" and wf :: "'w \<Rightarrow> bool"
    and target :: "'q \<Rightarrow> key" and version :: "'q \<Rightarrow> int"
  assumes keeps_wf: "wf w \<Longrightarrow> submit q w = (w', res) \<Longrightarrow> wf w'"
    and frame: "wf w \<Longrightarrow> submit q w = (w', res) \<Longrightarrow> k \<noteq> target q \<Longrightarrow> row_at w' k = row_at w k"
    and guarded: "wf w \<Longrightarrow> submit q w = (w', res) \<Longrightarrow> version q \<noteq> 0 \<Longrightarrow>
      row_at w' (target q) = row_at w (target q) \<or>
      (\<exists>e r. row_at w (target q) = Some e \<and> ObjectVersion e = version q \<and> UID r = UID e \<and>
             row_at w' (target q) = Some r \<and> ObjectVersion r = version q + 1)"
    and reported: "wf w \<Longrightarrow> submit q w = (w', Inr out) \<Longrightarrow> Changed out \<Longrightarrow> version q \<noteq> 0 \<Longrightarrow>
      (\<exists>e. row_at w (target q) = Some e \<and> ObjectVersion e = version q) \<and>
      (\<exists>r. row_at w' (target q) = Some r \<and> ObjectVersion r = version q + 1)"

text \<open>A sequence of requests, with the answer to each.\<close>

fun submit_all :: "('q \<Rightarrow> 'w \<Rightarrow> 'w \<times> 'r) \<Rightarrow> 'q list \<Rightarrow> 'w \<Rightarrow> 'w \<times> ('q \<times> 'r) list" where
  "submit_all f [] w = (w, [])"
| "submit_all f (q # qs) w =
     (let (w1, res) = f q w; (w2, answers) = submit_all f qs w1 in (w2, (q, res) # answers))"

fun won :: "werr + WriteResult \<Rightarrow> bool" where
  "won (Inr res) = Changed res"
| "won (Inl e) = False"

context versioned_writer
begin

text \<open>The version at a key, if there is a row.\<close>

definition at_version :: "(int \<Rightarrow> bool) \<Rightarrow> 'w \<Rightarrow> key \<Rightarrow> bool" where
  "at_version P w k \<longleftrightarrow> (\<forall>r. row_at w k = Some r \<longrightarrow> P (ObjectVersion r))"

lemma step_above:
  assumes "wf w" "submit q w = (w', res)" "target q = k \<Longrightarrow> version q \<noteq> 0" "at_version (\<lambda>n. v < n) w k"
  shows "at_version (\<lambda>n. v < n) w' k"
proof (cases "target q = k")
  case True
  with guarded [OF assms(1,2)] assms(3,4) show ?thesis by (fastforce simp: at_version_def)
qed (use frame [OF assms(1,2)] assms(4) in \<open>auto simp: at_version_def\<close>)

lemma no_winner_above:
  assumes "wf w" "\<forall>q \<in> set qs. target q = k \<longrightarrow> version q \<noteq> 0" "at_version (\<lambda>n. v < n) w k"
    and "(q, res) \<in> set (snd (submit_all submit qs w))" "target q = k" "version q = v"
  shows "\<not> won res"
  using assms(1-4)
proof (induction qs arbitrary: w)
  case (Cons a qs)
  obtain w1 ra where a: "submit a w = (w1, ra)" by fastforce
  have up: "at_version (\<lambda>n. v < n) w1 k" using step_above [OF Cons.prems(1) a] Cons.prems(2,3) by auto
  show ?case
  proof (cases "(q, res) = (a, ra)")
    case True
    with a Cons.prems reported [OF Cons.prems(1), of q w1] assms(5,6) show ?thesis
      by (cases res) (auto simp: at_version_def)
  next
    case False
    with Cons.prems(4) a have "(q, res) \<in> set (snd (submit_all submit qs w1))"
      by (auto simp: Let_def split: prod.splits)
    with Cons.IH [OF keeps_wf [OF Cons.prems(1) a] _ up] Cons.prems(2) show ?thesis by simp
  qed
qed simp

lemma one_winner:
  assumes "wf w" "\<forall>q \<in> set qs. target q = k \<longrightarrow> version q \<noteq> 0"
  shows "length (filter (\<lambda>(q, res). target q = k \<and> version q = v \<and> won res) (snd (submit_all submit qs w))) \<le> 1"
  using assms
proof (induction qs arbitrary: w)
  case (Cons a qs)
  let ?P = "\<lambda>(q, res). target q = k \<and> version q = v \<and> won res"
  obtain w1 ra where a: "submit a w = (w1, ra)" by fastforce
  have wf1: "wf w1" using keeps_wf [OF Cons.prems(1) a] .
  have split: "snd (submit_all submit (a # qs) w) = (a, ra) # snd (submit_all submit qs w1)"
    using a by (simp add: Let_def split: prod.splits)
  show ?case
  proof (cases "?P (a, ra)")
    case True
    then have "at_version (\<lambda>n. v < n) w1 k"
      using reported [OF Cons.prems(1), of a w1] a Cons.prems(2) by (cases ra) (auto simp: at_version_def)
    from no_winner_above [OF wf1 _ this] Cons.prems(2)
    have "filter ?P (snd (submit_all submit qs w1)) = []" by (auto simp: filter_empty_conv)
    then show ?thesis unfolding split by simp
  next
    case False
    then have "filter ?P (snd (submit_all submit (a # qs) w)) = filter ?P (snd (submit_all submit qs w1))"
      unfolding split by simp
    moreover have "length (filter ?P (snd (submit_all submit qs w1))) \<le> 1"
      using Cons.IH [OF wf1] Cons.prems(2) by simp
    ultimately show ?thesis by simp
  qed
qed simp

end

section \<open>The writer keeps the contract\<close>

datatype any_request = ReqWrite WriteRequest | ReqStatus StatusWriteRequest | ReqObject ObjectWriteRequest

record call =
  c_hooks :: "txhooks option"
  c_env :: call_env
  c_req :: any_request

text \<open>One call of Write, WriteStatus or WriteObject.\<close>

definition send :: "(string \<Rightarrow> 'b \<Rightarrow> 'b) \<Rightarrow> call \<Rightarrow> 'b world \<Rightarrow> 'b world \<times> (werr + WriteResult)" where
  "send ring c w =
     (case c_req c of
        ReqWrite q \<Rightarrow> Write ring (c_hooks c) (c_env c) q w
      | ReqStatus q \<Rightarrow> WriteStatus ring (c_hooks c) (c_env c) q w
      | ReqObject q \<Rightarrow> WriteObject ring (c_hooks c) (c_env c) q w)"

definition call_key :: "call \<Rightarrow> key" where
  "call_key c =
     (case c_req c of
        ReqWrite q \<Rightarrow> (wGVK q, wNamespace q, wName q)
      | ReqStatus q \<Rightarrow> (sGVK q, sNamespace q, sName q)
      | ReqObject q \<Rightarrow> (oGVK q, oNamespace q, oName q))"

definition call_version :: "call \<Rightarrow> int" where
  "call_version c =
     (case c_req c of
        ReqWrite q \<Rightarrow> wExpectedVersion q
      | ReqStatus q \<Rightarrow> sExpectedVersion q
      | ReqObject q \<Rightarrow> oExpectedVersion q)"

text \<open>
  What a call does to the database \<open>d\<close> at its key: nothing but using up a transaction id, or
  writing a row \<open>r\<close> that continues the expected version; a reported change is such a row.
\<close>

definition effect :: "key \<Rightarrow> int \<Rightarrow> db \<Rightarrow> db \<Rightarrow> werr + WriteResult \<Rightarrow> bool" where
  "effect k v d d' res \<longleftrightarrow>
     wf_db d' \<and> (\<forall>k'. k' \<noteq> k \<longrightarrow> get_row d' k' = get_row d k') \<and>
     (v \<noteq> 0 \<longrightarrow>
        (get_row d' k = get_row d k \<and> \<not> won res) \<or>
        (\<exists>e r. get_row d k = Some e \<and> ObjectVersion e = v \<and> UID r = UID e \<and>
               get_row d' k = Some r \<and> ObjectVersion r = v + 1))"

lemma effect_none: "wf_db d \<Longrightarrow> \<not> won res \<Longrightarrow> effect k v d d res"
  by (simp add: effect_def)

lemma effect_xid: "wf_db d \<Longrightarrow> \<not> won res \<Longrightarrow> effect k v d (d\<lparr>next_xid := next_xid d + 1\<rparr>) res"
  by (simp add: effect_def wf_next_xid)

lemma effect_put:
  assumes "wf_db d" "rkey r = k" "TxidStamp r = next_xid d"
    and "v \<noteq> 0 \<Longrightarrow> \<exists>e. get_row d k = Some e \<and> ObjectVersion e = v \<and> UID r = UID e \<and> ObjectVersion r = v + 1"
  shows "effect k v d (put_row r (d\<lparr>next_xid := next_xid d + 1\<rparr>)) res"
proof -
  have "wf_db (put_row r (d\<lparr>next_xid := next_xid d + 1\<rparr>))"
    using assms(1,3) by (intro wf_put_row wf_next_xid) (auto simp: wf_db_def)
  then show ?thesis using assms(2,4) by (simp add: effect_def get_row_put)
qed

lemma pgctl_effect:
  assumes "wf_db d" "pgctl_write u now p d = (d', res)"
    and "won ans \<Longrightarrow> \<exists>out. res = Inr out \<and> out_changed out"
  shows "effect (p_key p) (p_expected_version p) d d' ans"
  using assms(2)
proof (cases rule: pgctl_write_cases)
  case (written r)
  note r = upsert_row_key [OF written(2)]
  have "\<exists>e. get_row d (p_key p) = Some e \<and> ObjectVersion e = p_expected_version p \<and> UID r = UID e \<and>
      ObjectVersion r = p_expected_version p + 1" if "p_expected_version p \<noteq> 0"
    using r(3) that by (auto simp: next_version_def split: option.splits)
  then show ?thesis unfolding written(3) by (intro effect_put) (use assms(1) r in auto)
next
  case (noop e)
  then show ?thesis unfolding noop(2) using assms(1,3) by (intro effect_xid) auto
next
  case (error err)
  then show ?thesis unfolding error(3) using assms(1,3) by (intro effect_xid) auto
qed

lemma stored_proc_effect:
  assumes "wf_db (wdb w)" "stored_proc_path ring nt u now p w = (w', res)"
  shows "effect (wp_key p) (wp_expectedVersion p) (wdb w) (wdb w') res"
proof -
  have run: "effect (wp_key p) (wp_expectedVersion p) (wdb w) d' ans"
    if "run_proc u now p (wdb w) = (d', r)" "won ans \<Longrightarrow> \<exists>out. r = Inr out \<and> out_changed out" for d' r ans
  proof (cases "pg_args p")
    case (Inl c)
    then show ?thesis using that assms(1) by (auto simp: run_proc_def intro!: effect_none)
  next
    case (Inr a)
    then show ?thesis
      using that pgctl_effect [OF assms(1), of u now a d' r ans] pg_args_fields [OF Inr]
      by (simp add: run_proc_def)
  qed
  show ?thesis
  proof (cases nt)
    case NetOk
    obtain d' r where r: "run_proc u now p (wdb w) = (d', r)" by fastforce
    with assms(2) NetOk have "wdb w' = d'" "won res \<Longrightarrow> \<exists>out. r = Inr out \<and> out_changed out"
      by (auto simp: stored_proc_path_def callStoredProc_def Let_def split: sum.splits if_splits)
    then show ?thesis using run [OF r, of res] by blast
  next
    case LostBefore
    then show ?thesis
      using assms by (auto simp: stored_proc_path_def callStoredProc_def Let_def intro!: effect_none)
  next
    case LostAfter
    obtain d' r where r: "run_proc u now p (wdb w) = (d', r)" by fastforce
    with assms(2) LostAfter have "wdb w' = d'" "\<not> won res"
      by (auto simp: stored_proc_path_def callStoredProc_def Let_def)
    then show ?thesis using run [OF r, of res] by blast
  qed
qed

text \<open>The row an upsert closure yields continues the version it was asked to replace.\<close>

definition continues :: "key \<Rightarrow> int \<Rightarrow> (txid \<Rightarrow> resource option \<Rightarrow> werr + resource) \<Rightarrow> bool" where
  "continues k v ups \<longleftrightarrow>
     (\<forall>t cur r. ups t cur = Inr r \<longrightarrow> (\<forall>e. cur = Some e \<longrightarrow> rkey e = k) \<longrightarrow>
        rkey r = k \<and> TxidStamp r = t \<and>
        (v \<noteq> 0 \<longrightarrow> (\<exists>e. cur = Some e \<and> ObjectVersion e = v \<and> UID r = UID e \<and> ObjectVersion r = v + 1)))"

lemma execWrite_effect:
  assumes "wf_db (wdb w)" "execWrite ring hooks fault force k eqv ups w = (w', res)" "continues k v ups"
  shows "effect k v (wdb w) (wdb w') res"
proof -
  let ?d = "wdb w" let ?put = "\<lambda>r. put_row r (?d\<lparr>next_xid := next_xid ?d + 1\<rparr>)"
  have put: "effect k v ?d (?put r) ans" if "ups (next_xid ?d) (get_row ?d k) = Inr r" for r ans
  proof -
    have "\<forall>e. get_row ?d k = Some e \<longrightarrow> rkey e = k" by (auto dest: get_row_key)
    with assms(3) that show ?thesis
      unfolding continues_def by (intro effect_put [OF assms(1)]) blast+
  qed
  have "wdb w' = ?d \<and> \<not> won res \<or> wdb w' = ?d\<lparr>next_xid := next_xid ?d + 1\<rparr> \<and> \<not> won res \<or>
      (\<exists>r. ups (next_xid ?d) (get_row ?d k) = Inr r \<and> wdb w' = ?put r)"
    using assms(2)
    by (auto simp: execWrite_def execWriteInner_def Let_def
        split: prod.splits if_splits option.splits tx_fault.splits sum.splits)
  then show ?thesis
    using effect_none [OF assms(1), of res k v] effect_xid [OF assms(1), of res k v] put [of _ res] by metis
qed

lemma versioned_update_Row:
  "versioned_update v f cur = Row r \<Longrightarrow>
     \<exists>e. cur = Some e \<and> ObjectVersion e = v \<and> f (v + 1) e = Inr r"
  by (auto simp: versioned_update_def bigint_succ_def split: option.splits if_splits sum.splits)

lemma write_upsert_continues:
  "continues (wGVK q, wNamespace q, wName q) (wExpectedVersion q) (\<lambda>t. write_upsert q t u now)"
proof -
  have "\<exists>e. cur = Some e \<and> ObjectVersion e = wExpectedVersion q \<and> UID r = UID e \<and>
      ObjectVersion r = wExpectedVersion q + 1"
    if "write_upsert q t u now cur = Inr r" "wExpectedVersion q \<noteq> 0" for t cur r
    using that
    by (auto simp: write_upsert_def Let_def set_write_def need_def
        split: sum.splits sqlrow.splits option.splits dest!: versioned_update_Row)
  then show ?thesis
    unfolding continues_def using write_upsert_stamp [of q _ u now] by blast
qed

lemma status_upsert_continues:
  "continues (sGVK q, sNamespace q, sName q) (sExpectedVersion q) (\<lambda>t. status_upsert q t u now)"
  unfolding continues_def
  by (auto simp: status_upsert_def set_status_def need_def rkey_def
      split: sum.splits sqlrow.splits option.splits dest!: versioned_update_Row)

lemma object_upsert_continues:
  "continues (oGVK q, oNamespace q, oName q) (oExpectedVersion q) (\<lambda>t. object_upsert q t u now)"
  unfolding continues_def
  by (auto simp: object_upsert_def set_object_def need_def rkey_def
      split: sum.splits sqlrow.splits option.splits dest!: versioned_update_Row)

lemma send_effect:
  assumes "wf_db (wdb w)" "send ring c w = (w', res)"
  shows "effect (call_key c) (call_version c) (wdb w) (wdb w') res"
proof (cases "c_req c")
  case (ReqWrite q)
  then show ?thesis
    using assms stored_proc_effect [OF assms(1)] execWrite_effect [OF assms(1) _ write_upsert_continues]
    by (fastforce simp: send_def call_key_def call_version_def Write_def writeStoredProc_def writeMultiStatement_def
        params_of_write_def wp_key_def split: option.splits)
next
  case (ReqStatus q)
  then show ?thesis
    using assms stored_proc_effect [OF assms(1)] execWrite_effect [OF assms(1) _ status_upsert_continues]
    by (fastforce simp: send_def call_key_def call_version_def WriteStatus_def writeStatusStoredProc_def
        writeStatusMultiStatement_def params_of_status_def wp_key_def split: option.splits if_splits intro: effect_none)
next
  case (ReqObject q)
  then show ?thesis
    using assms stored_proc_effect [OF assms(1)] execWrite_effect [OF assms(1) _ object_upsert_continues]
    by (fastforce simp: send_def call_key_def call_version_def WriteObject_def writeObjectStoredProc_def
        writeObjectMultiStatement_def params_of_object_def wp_key_def split: option.splits if_splits intro: effect_none)
qed

interpretation occ: versioned_writer "send ring" "\<lambda>w. get_row (wdb w)" "\<lambda>w. wf_db (wdb w)" call_key call_version
  for ring :: "string \<Rightarrow> 'b \<Rightarrow> 'b"
proof
  fix w w' :: "'b world" and q res k
  assume a: "wf_db (wdb w)" "send ring q w = (w', res)"
  note e = send_effect [OF a, unfolded effect_def]
  show "wf_db (wdb w')" using e by blast
  show "get_row (wdb w') k = get_row (wdb w) k" if "k \<noteq> call_key q" using e that by blast
  show "get_row (wdb w') (call_key q) = get_row (wdb w) (call_key q) \<or>
      (\<exists>e r. get_row (wdb w) (call_key q) = Some e \<and> ObjectVersion e = call_version q \<and> UID r = UID e \<and>
             get_row (wdb w') (call_key q) = Some r \<and> ObjectVersion r = call_version q + 1)"
    if "call_version q \<noteq> 0" using e that by blast
next
  fix w w' :: "'b world" and q res
  assume a: "wf_db (wdb w)" "send ring q w = (w', Inr res)" "Changed res" "call_version q \<noteq> 0"
  show "(\<exists>e. get_row (wdb w) (call_key q) = Some e \<and> ObjectVersion e = call_version q) \<and>
      (\<exists>r. get_row (wdb w') (call_key q) = Some r \<and> ObjectVersion r = call_version q + 1)"
    using send_effect [OF a(1,2), unfolded effect_def] a(3,4) by (simp, blast)
qed

text \<open>C18: One winner: whatever updates are sent to an object one after the other, through Write,
  WriteStatus and WriteObject, with hooks or without, over any network and with writes to other
  objects in between, at most one of those that name the same version reports a change.\<close>

theorem one_update_wins:
  assumes "wf_db (wdb w)" "\<forall>c \<in> set calls. call_key c = k \<longrightarrow> call_version c \<noteq> 0"
  shows "length (filter (\<lambda>(c, res). call_key c = k \<and> call_version c = v \<and> won res)
           (snd (submit_all (send ring) calls w))) \<le> 1"
  using assms by (rule occ.one_winner)

text \<open>The same update sent twice by two clients that both read version 1: the first answer is the only change.\<close>

definition ex_call :: "int \<Rightarrow> call" where
  "ex_call n = \<lparr>c_hooks = None,
     c_env = \<lparr>env_net = NetOk, env_fault = NoFault, env_uid = 9, env_now = 5\<rparr>,
     c_req = ReqWrite (ex_write\<lparr>wSpec := RDoc (JObj [(''x'', JNum n)])\<rparr>)\<rparr>"

lemma ex_call_simps [simp]:
  "call_key (ex_call n) = (''g'', ''n'', ''a'')" "call_version (ex_call n) = 1"
  by (simp_all add: ex_call_def call_key_def call_version_def ex_write_def)

lemma ex_call_wins: "\<exists>w' res. send (\<lambda>g b. b) (ex_call 2) ex_world = (w', Inr res) \<and> Changed res"
  by (simp add: ex_call_def send_def Write_def writeStoredProc_def stored_proc_path_def callStoredProc_def
      params_of_write_def ex_world_def ex_write_def run_proc_def pg_args_def pgctl_write_def p_key_def
      suppression_check_def suppressed_iff upsert_def update_row_def bigint_succ_def Let_def ring_doorbell_def)

theorem one_update_wins_witness:
  "\<exists>w' res1 res2. submit_all (send (\<lambda>g b. b)) [ex_call 2, ex_call 3] ex_world =
       (w', [(ex_call 2, res1), (ex_call 3, res2)]) \<and> won res1 \<and> \<not> won res2"
proof -
  obtain w1 r1 where 1: "send (\<lambda>g b. b) (ex_call 2) ex_world = (w1, Inr r1)" "Changed r1"
    using ex_call_wins by blast
  obtain w2 r2 where 2: "send (\<lambda>g b. b) (ex_call 3) w1 = (w2, r2)" by fastforce
  have all: "submit_all (send (\<lambda>g b. b)) [ex_call 2, ex_call 3] ex_world =
      (w2, [(ex_call 2, Inr r1), (ex_call 3, r2)])"
    using 1 2 by simp
  have "wf_db (wdb ex_world)" by (simp add: ex_world_def)
  then have "length (filter (\<lambda>(c, res). call_key c = (''g'', ''n'', ''a'') \<and> call_version c = 1 \<and> won res)
      (snd (submit_all (send (\<lambda>g b. b)) [ex_call 2, ex_call 3] ex_world))) \<le> 1"
    by (rule one_update_wins) simp
  then have "\<not> won r2" using 1(2) unfolding all by (auto split: if_splits)
  with all 1(2) show ?thesis by (metis won.simps(1))
qed

end
