(* ===== verification/Meta.thy ===== *)
theory Meta
  imports Pgctl
begin

text \<open>
  Object metadata as src/pkg/pgruntime/convert.go stores it: storedMetadata, its JSON form
  (extractMetadata, with Go's omitempty), decoding it back as encoding/json does (field names
  match without regard to case, a value of the wrong type is an error), hasFinalizers and
  isFullyDeleted, and currentGeneration of pgclient.go. An owner reference is a JSON document;
  the argument \<open>own\<close> says whether the Kubernetes type OwnerReference accepts it.
\<close>

record storedMetadata =
  Labels :: "(string \<times> string) list"
  Annotations :: "(string \<times> string) list"
  OwnerReferences :: "json list"
  Finalizers :: "string list"
  Generation :: int

definition empty_meta :: storedMetadata where
  "empty_meta = \<lparr>Labels = [], Annotations = [], OwnerReferences = [], Finalizers = [],
                 Generation = 0\<rparr>"

section \<open>Encoding\<close>

definition str_obj :: "(string \<times> string) list \<Rightarrow> json" where
  "str_obj kvs = JObj (map (\<lambda>(k, v). (k, JStr v)) kvs)"

definition omit :: "bool \<Rightarrow> string \<Rightarrow> json \<Rightarrow> (string \<times> json) list" where
  "omit e k v = (if e then [] else [(k, v)])"

definition encode_meta :: "storedMetadata \<Rightarrow> json" where
  "encode_meta sm = JObj
     (omit (Labels sm = []) ''labels'' (str_obj (Labels sm)) @
      omit (Annotations sm = []) ''annotations'' (str_obj (Annotations sm)) @
      omit (OwnerReferences sm = []) ''ownerReferences'' (JArr (OwnerReferences sm)) @
      omit (Finalizers sm = []) ''finalizers'' (JArr (map JStr (Finalizers sm))) @
      omit (Generation sm = 0) ''generation'' (JNum (Generation sm)))"

section \<open>Decoding\<close>

definition lower_char :: "char \<Rightarrow> char" where
  "lower_char c =
     (let n = (of_char c :: nat) in if 65 \<le> n \<and> n \<le> 90 then char_of (n + 32) else c)"

definition lower :: "string \<Rightarrow> string" where
  "lower s = map lower_char s"

fun as_str :: "json \<Rightarrow> string option" where
  "as_str (JStr s) = Some s"
| "as_str JNull = Some []"
| "as_str _ = None"

fun as_strmap :: "(string \<times> string) list \<Rightarrow> json \<Rightarrow> (string \<times> string) list option" where
  "as_strmap old JNull = Some []"
| "as_strmap old (JObj kvs) =
     map_option (\<lambda>vs. norm_obj (old @ zip (map fst kvs) vs)) (those (map (\<lambda>(k, v). as_str v) kvs))"
| "as_strmap old _ = None"

fun as_strlist :: "json \<Rightarrow> string list option" where
  "as_strlist JNull = Some []"
| "as_strlist (JArr xs) = those (map as_str xs)"
| "as_strlist _ = None"

fun as_owners :: "(json \<Rightarrow> bool) \<Rightarrow> json \<Rightarrow> json list option" where
  "as_owners own JNull = Some []"
| "as_owners own (JArr xs) = (if list_all own xs then Some xs else None)"
| "as_owners own _ = None"

fun as_int64 :: "int \<Rightarrow> json \<Rightarrow> int option" where
  "as_int64 old JNull = Some old"
| "as_int64 old (JNum n) = (if - (2 ^ 63) \<le> n \<and> n < 2 ^ 63 then Some n else None)"
| "as_int64 old _ = None"

definition set_field :: "(json \<Rightarrow> bool) \<Rightarrow> string \<Rightarrow> json \<Rightarrow> storedMetadata \<Rightarrow> storedMetadata option" where
  "set_field own k v sm =
     (let f = lower k in
      if f = ''labels'' then map_option (\<lambda>x. sm\<lparr>Labels := x\<rparr>) (as_strmap (Labels sm) v)
      else if f = ''annotations'' then
        map_option (\<lambda>x. sm\<lparr>Annotations := x\<rparr>) (as_strmap (Annotations sm) v)
      else if f = ''ownerreferences'' then
        map_option (\<lambda>x. sm\<lparr>OwnerReferences := x\<rparr>) (as_owners own v)
      else if f = ''finalizers'' then map_option (\<lambda>x. sm\<lparr>Finalizers := x\<rparr>) (as_strlist v)
      else if f = ''generation'' then
        map_option (\<lambda>x. sm\<lparr>Generation := x\<rparr>) (as_int64 (Generation sm) v)
      else Some sm)"

fun set_fields :: "(json \<Rightarrow> bool) \<Rightarrow> (string \<times> json) list \<Rightarrow> storedMetadata \<Rightarrow> storedMetadata option" where
  "set_fields own [] sm = Some sm"
| "set_fields own ((k, v) # kvs) sm =
     (case set_field own k v sm of None \<Rightarrow> None | Some sm' \<Rightarrow> set_fields own kvs sm')"

fun decode_meta :: "(json \<Rightarrow> bool) \<Rightarrow> json \<Rightarrow> storedMetadata option" where
  "decode_meta own (JObj kvs) = set_fields own kvs empty_meta"
| "decode_meta own JNull = Some empty_meta"
| "decode_meta own _ = None"

definition hasFinalizers :: "(json \<Rightarrow> bool) \<Rightarrow> resource \<Rightarrow> bool" where
  "hasFinalizers own r =
     (case decode_meta own (Metadata r) of None \<Rightarrow> False | Some sm \<Rightarrow> Finalizers sm \<noteq> [])"

definition isFullyDeleted :: "(json \<Rightarrow> bool) \<Rightarrow> resource \<Rightarrow> bool" where
  "isFullyDeleted own r \<longleftrightarrow> DeletionTimestamp r \<noteq> None \<and> \<not> hasFinalizers own r"

definition currentGeneration :: "(json \<Rightarrow> bool) \<Rightarrow> json \<Rightarrow> int" where
  "currentGeneration own md =
     (case decode_meta own md of None \<Rightarrow> 0 | Some sm \<Rightarrow> Generation sm)"

section \<open>Round trip\<close>

definition sm_ok :: "(json \<Rightarrow> bool) \<Rightarrow> storedMetadata \<Rightarrow> bool" where
  "sm_ok own sm \<longleftrightarrow>
     list_all (\<lambda>j. own (canon j)) (OwnerReferences sm) \<and>
     - (2 ^ 63) \<le> Generation sm \<and> Generation sm < 2 ^ 63"

text \<open>What comes back: the maps in key order, the owner references in canonical form.\<close>

definition norm_meta :: "storedMetadata \<Rightarrow> storedMetadata" where
  "norm_meta sm = sm\<lparr>Labels := norm_obj (Labels sm), Annotations := norm_obj (Annotations sm),
                     OwnerReferences := map canon (OwnerReferences sm)\<rparr>"

lemma those_JStr: "those (map as_str (map JStr xs)) = Some xs"
  by (induction xs) auto

lemma those_JStr_pairs:
  "those (map (\<lambda>(k, v). as_str v) (map (\<lambda>(k, v). (k, JStr v)) kvs)) = Some (map snd kvs)"
  by (induction kvs) auto

lemma map_fst_pairs: "map fst (map (\<lambda>(k, v). (k, f v)) kvs) = map fst kvs"
  by (induction kvs) auto

lemma canon_str_obj: "canon (str_obj kvs) = str_obj (norm_obj kvs)"
proof -
  have "map (\<lambda>(k, v). (k, canon v)) (map (\<lambda>(k, v). (k, JStr v)) kvs) = map (\<lambda>(k, v). (k, JStr v)) kvs"
    by auto
  then show ?thesis by (simp add: str_obj_def map_fst_norm_obj_map del: map_map)
qed

lemma as_strmap_str_obj: "as_strmap [] (str_obj kvs) = Some (norm_obj kvs)"
  by (simp add: str_obj_def those_JStr_pairs map_fst_pairs zip_map_fst_snd del: map_map)

lemma canon_JStrs: "map canon (map JStr xs) = map JStr xs"
  by simp

text \<open>The stored document has its fields in key order.\<close>

lemma canon_encode_meta:
  "canon (encode_meta sm) = JObj
     (omit (Annotations sm = []) ''annotations'' (str_obj (norm_obj (Annotations sm))) @
      omit (Finalizers sm = []) ''finalizers'' (JArr (map JStr (Finalizers sm))) @
      omit (Generation sm = 0) ''generation'' (JNum (Generation sm)) @
      omit (Labels sm = []) ''labels'' (str_obj (norm_obj (Labels sm))) @
      omit (OwnerReferences sm = []) ''ownerReferences'' (JArr (map canon (OwnerReferences sm))))"
  by (simp add: encode_meta_def omit_def canon_str_obj norm_obj_def)

lemma set_fields_append:
  "set_fields own (xs @ ys) sm =
     (case set_fields own xs sm of None \<Rightarrow> None | Some sm' \<Rightarrow> set_fields own ys sm')"
  by (induction xs arbitrary: sm) (auto split: option.splits)

lemma lower_names:
  "lower ''labels'' = ''labels''" "lower ''annotations'' = ''annotations''"
  "lower ''ownerReferences'' = ''ownerreferences''" "lower ''finalizers'' = ''finalizers''"
  "lower ''generation'' = ''generation''"
  by (simp_all add: lower_def lower_char_def Let_def char_of_def bit_Suc_0_iff)

lemma norm_obj_eq_Nil [simp]: "norm_obj kvs = [] \<longleftrightarrow> kvs = []"
proof (cases kvs rule: rev_cases)
  case (snoc xs x)
  have "obj_ins k v r \<noteq> []" for k :: string and v :: 'a and r
    by (induction k v r rule: obj_ins.induct) auto
  with snoc show ?thesis by (cases x) (simp add: norm_obj_snoc)
qed simp

lemma decode_encode_meta:
  assumes "sm_ok own sm"
  shows "decode_meta own (canon (encode_meta sm)) = Some (norm_meta sm)"
  using assms
  by (cases sm)
    (simp add: canon_encode_meta omit_def set_field_def lower_names norm_obj_norm_obj as_strmap_str_obj those_JStr
       sm_ok_def list_all_iff norm_meta_def empty_meta_def del: map_map)

section \<open>Go's and SQL's view of a deleted object\<close>

text \<open>The two tests agree on the metadata pgruntime writes.\<close>

definition meta_written :: "(json \<Rightarrow> bool) \<Rightarrow> json \<Rightarrow> bool" where
  "meta_written own md \<longleftrightarrow> (\<exists>sm. sm_ok own sm \<and> md = canon (encode_meta sm))"

lemma jget_finalizers_encode:
  "jget ''finalizers'' (canon (encode_meta sm)) =
     (if Finalizers sm = [] then None else Some (JArr (map JStr (Finalizers sm))))"
  by (simp add: canon_encode_meta omit_def)

lemma fully_deleted_iff_tombstone:
  "meta_written own (Metadata r) \<Longrightarrow> isFullyDeleted own r \<longleftrightarrow> is_true (tombstone_filter r)"
  by (auto simp: meta_written_def isFullyDeleted_def hasFinalizers_def decode_encode_meta
      tombstone_filter_iff jget_finalizers_encode norm_meta_def)

section \<open>Properties\<close>

text \<open>Metadata survives the database: what extractMetadata encodes and jsonb stores decodes to the
  same labels, annotations, owner references, finalizers and generation (maps in key order,
  documents in jsonb's canonical form).\<close>

theorem metadata_round_trip:
  assumes "sm_ok own sm"
  shows "decode_meta own (canon (encode_meta sm)) = Some (norm_meta sm) \<and>
    Finalizers (norm_meta sm) = Finalizers sm \<and> Generation (norm_meta sm) = Generation sm \<and>
    map_of (Labels (norm_meta sm)) = map_of (rev (Labels sm))"
  using decode_encode_meta [OF assms] by (simp add: norm_meta_def map_of_norm_obj)

definition ex_meta :: storedMetadata where
  "ex_meta = \<lparr>Labels = [(''b'', ''1''), (''a'', ''2'')], Annotations = [], OwnerReferences = [],
     Finalizers = [''f''], Generation = 3\<rparr>"

theorem metadata_round_trip_witness:
  "map_option Generation (decode_meta (\<lambda>_. True) (canon (encode_meta ex_meta))) = Some 3"
  using metadata_round_trip [of "\<lambda>_. True" ex_meta] by (simp add: sm_ok_def ex_meta_def)

text \<open>C28: On metadata that pgruntime wrote, the three tests for a dead object agree: isFullyDeleted in
  Go, the tombstone filter of revival and compaction in SQL; an object with a finalizer is
  never dead by any of them.\<close>

theorem tombstone_tests_agree:
  assumes "sm_ok own sm" "Metadata r = canon (encode_meta sm)"
  shows "(isFullyDeleted own r \<longleftrightarrow> is_true (tombstone_filter r)) \<and>
    (hasFinalizers own r \<longleftrightarrow> Finalizers sm \<noteq> []) \<and>
    (Finalizers sm \<noteq> [] \<longrightarrow> \<not> is_true (tombstone_filter r))"
proof -
  have "meta_written own (Metadata r)" using assms by (auto simp: meta_written_def)
  moreover have "hasFinalizers own r \<longleftrightarrow> Finalizers sm \<noteq> []"
    by (simp add: hasFinalizers_def assms(2) decode_encode_meta [OF assms(1)] norm_meta_def)
  ultimately show ?thesis using fully_deleted_iff_tombstone isFullyDeleted_def by metis
qed

theorem tombstone_tests_agree_witness:
  "\<not> is_true (tombstone_filter (ex_row\<lparr>Metadata := canon (encode_meta ex_meta), DeletionTimestamp := Some 1\<rparr>))"
  using tombstone_tests_agree [of "\<lambda>_. True" ex_meta "ex_row\<lparr>Metadata := canon (encode_meta ex_meta), DeletionTimestamp := Some 1\<rparr>"]
  by (simp add: sm_ok_def ex_meta_def)

text \<open>On other metadata they differ. With a JSON null for finalizers SQL keeps the row (never a
  tombstone) while Go calls the object deleted; with a malformed field elsewhere Go loses
  finalizers that are there.\<close>

theorem tombstone_tests_differ:
  "let r1 = ex_row\<lparr>DeletionTimestamp := Some 1, Metadata := JObj [(''finalizers'', JNull)]\<rparr>;
       r2 = ex_row\<lparr>DeletionTimestamp := Some 1,
                   Metadata := JObj [(''finalizers'', JArr [JStr ''f'']), (''generation'', JStr ''x'')]\<rparr>
   in isFullyDeleted own r1 \<and> \<not> is_true (tombstone_filter r1) \<and>
      isFullyDeleted own r2 \<and> \<not> is_true (tombstone_filter r2)"
  by (simp add: isFullyDeleted_def hasFinalizers_def set_field_def lower_names empty_meta_def
      tombstone_filter_iff)

end
