(* ===== verification/ResourceVersion.thy ===== *)
theory ResourceVersion
  imports Prelude
begin

text \<open>
  Resource versions, src/internal/resourceversion/rv.go: a watermark, with the object's own
  version in front of it when there is one. strconv's ParseUint and ParseInt in base 10, 64
  bits, and the decimal formatting of fmt are written out.
\<close>

record RV =
  rvObjectVersion :: int
  rvWatermark :: nat

section \<open>Decimal numbers\<close>

definition digit :: "nat \<Rightarrow> char" where
  "digit d = char_of (48 + d)"

text \<open>A digit to base 16, in lower case.\<close>

definition hex_digit :: "nat \<Rightarrow> char" where
  "hex_digit n = (if n < 10 then char_of (48 + n) else char_of (87 + n))"

fun dec :: "nat \<Rightarrow> string" where
  "dec n = (if n < 10 then [digit n] else dec (n div 10) @ [digit (n mod 10)])"

declare dec.simps [simp del]

definition is_digit :: "char \<Rightarrow> bool" where
  "is_digit c \<longleftrightarrow> 48 \<le> (of_char c :: nat) \<and> (of_char c :: nat) \<le> 57"

definition digits_val :: "string \<Rightarrow> nat" where
  "digits_val s = foldl (\<lambda>a c. 10 * a + (of_char c - 48)) 0 s"

definition ParseUint :: "string \<Rightarrow> nat option" where
  "ParseUint s =
     (if s = [] \<or> \<not> list_all is_digit s then None
      else let n = digits_val s in if n < 2 ^ 64 then Some n else None)"

fun ParseInt :: "string \<Rightarrow> int option" where
  "ParseInt [] = None"
| "ParseInt (c # cs) =
     (let neg = (c = CHR ''-''); body = (if c = CHR ''-'' \<or> c = CHR ''+'' then cs else c # cs)
      in case ParseUint body of
           None \<Rightarrow> None
         | Some n \<Rightarrow>
             if neg then (if n \<le> 2 ^ 63 then Some (- int n) else None)
             else (if n < 2 ^ 63 then Some (int n) else None))"

definition FormatInt :: "int \<Rightarrow> string" where
  "FormatInt i = (if i < 0 then CHR ''-'' # dec (nat (- i)) else dec (nat i))"

lemma of_char_digit: "d < 10 \<Longrightarrow> (of_char (digit d) :: nat) = 48 + d"
  by (simp add: digit_def)

lemma is_digit_digit: "d < 10 \<Longrightarrow> is_digit (digit d)"
  by (simp add: is_digit_def of_char_digit)

lemma dec_digits: "list_all is_digit (dec n) \<and> dec n \<noteq> []"
proof (induction n rule: dec.induct)
  case (1 n)
  then show ?case by (subst (1 2) dec.simps) (auto simp: is_digit_digit)
qed

lemma digits_val_snoc: "digits_val (s @ [c]) = 10 * digits_val s + (of_char c - 48)"
  by (simp add: digits_val_def)

lemma digits_val_dec [simp]: "digits_val (dec n) = n"
proof (induction n rule: dec.induct)
  case (1 n)
  show ?case
  proof (cases "n < 10")
    case True
    then show ?thesis by (subst dec.simps) (simp add: digits_val_def of_char_digit)
  next
    case False
    then show ?thesis
      using 1 by (subst dec.simps) (simp add: digits_val_snoc of_char_digit)
  qed
qed

lemma ParseUint_dec [simp]: "ParseUint (dec n) = (if n < 2 ^ 64 then Some n else None)"
  by (simp add: ParseUint_def dec_digits Let_def)

lemma dec_no_char: "\<not> is_digit c \<Longrightarrow> c \<notin> set (dec n)"
  using dec_digits [of n] by (auto simp: list_all_iff)

lemma not_digits: "\<not> is_digit CHR ''o''" "\<not> is_digit CHR ''b''" "\<not> is_digit CHR '';''"
  "\<not> is_digit CHR ''-''" "\<not> is_digit CHR ''+''" "\<not> is_digit CHR ''/''"
  by (simp_all add: is_digit_def)

lemma hd_dec: "\<not> is_digit c \<Longrightarrow> hd (dec n) \<noteq> c"
  using dec_no_char dec_digits by (metis list.set_sel(1))

lemma ParseInt_dec [simp]: "ParseInt (dec n) = (if n < 2 ^ 63 then Some (int n) else None)"
proof -
  obtain c cs where d: "dec n = c # cs" using dec_digits [of n] by (cases "dec n") auto
  then have "c \<noteq> CHR ''-''" "c \<noteq> CHR ''+''"
    using hd_dec [of _ n] not_digits by (metis list.sel(1))+
  moreover have "ParseUint (c # cs) = (if n < 2 ^ 64 then Some n else None)"
    using ParseUint_dec [of n] d by simp
  ultimately show ?thesis using d by (simp add: Let_def)
qed

lemma ParseInt_FormatInt:
  "- (2 ^ 63) \<le> i \<Longrightarrow> i < 2 ^ 63 \<Longrightarrow> ParseInt (FormatInt i) = Some i"
proof (cases "i < 0")
  case True
  assume "- (2 ^ 63) \<le> i"
  then have "nat (- i) \<le> 2 ^ 63" "nat (- i) < 2 ^ 64" by simp_all
  then show ?thesis using True by (simp add: FormatInt_def Let_def)
next
  case False
  assume "i < 2 ^ 63"
  then have "nat i < 2 ^ 63" using False by simp
  then show ?thesis using False by (simp add: FormatInt_def)
qed

section \<open>String and Parse\<close>

definition rv_string :: "RV \<Rightarrow> string" where
  "rv_string rv =
     (if 0 < rvObjectVersion rv
      then ''o'' @ FormatInt (rvObjectVersion rv) @ '';'' @ dec (rvWatermark rv)
      else dec (rvWatermark rv))"

datatype rv_error =
    RVNoSemicolon string
  | RVBadObjectVersion string
  | RVEmptyWatermark
  | RVOldFormat string
  | RVBadWatermark string

text \<open>strings.IndexByte(s, ';') with the two slices around it.\<close>

definition split_semi :: "string \<Rightarrow> (string \<times> string) option" where
  "split_semi s =
     (case dropWhile (\<lambda>c. c \<noteq> CHR '';'') s of
        [] \<Rightarrow> None
      | _ # rest \<Rightarrow> Some (takeWhile (\<lambda>c. c \<noteq> CHR '';'') s, rest))"

definition parse_watermark :: "int \<Rightarrow> string \<Rightarrow> rv_error + RV" where
  "parse_watermark ov s =
     (if take 1 s = ''b'' then Inl (RVOldFormat s)
      else (case ParseUint s of
              None \<Rightarrow> Inl (RVBadWatermark s)
            | Some wm \<Rightarrow> Inr \<lparr>rvObjectVersion = ov, rvWatermark = wm\<rparr>))"

definition Parse :: "string \<Rightarrow> rv_error + RV" where
  "Parse s =
     (if s = [] then Inr \<lparr>rvObjectVersion = 0, rvWatermark = 0\<rparr>
      else if take 1 s = ''o'' then
        (case split_semi s of
           None \<Rightarrow> Inl (RVNoSemicolon s)
         | Some (pre, rest) \<Rightarrow>
             (case ParseInt (tl pre) of
                None \<Rightarrow> Inl (RVBadObjectVersion s)
              | Some ov \<Rightarrow>
                  if rest = [] then Inl RVEmptyWatermark else parse_watermark ov rest))
      else parse_watermark 0 s)"

lemma dec_hd_not: "take 1 (dec n) \<noteq> [c]" if "\<not> is_digit c"
  using hd_dec [OF that, of n] dec_digits [of n] by (cases "dec n") auto

lemma parse_watermark_dec:
  "wm < 2 ^ 64 \<Longrightarrow> parse_watermark ov (dec wm) = Inr \<lparr>rvObjectVersion = ov, rvWatermark = wm\<rparr>"
  using dec_hd_not [OF not_digits(2), of wm] by (simp add: parse_watermark_def)

lemma split_semi_dec:
  "split_semi (''o'' @ dec n @ '';'' @ r) = Some (''o'' @ dec n, r)"
proof -
  have "\<forall>c \<in> set (dec n). c \<noteq> CHR '';''" using dec_no_char [OF not_digits(3)] by metis
  then show ?thesis by (simp add: split_semi_def)
qed

lemma Parse_rv_string:
  assumes "0 \<le> rvObjectVersion rv" "rvObjectVersion rv < 2 ^ 63" "rvWatermark rv < 2 ^ 64"
  shows "Parse (rv_string rv) = Inr rv"
proof (cases "0 < rvObjectVersion rv")
  case True
  let ?n = "nat (rvObjectVersion rv)"
  have n: "?n < 2 ^ 63" "int ?n = rvObjectVersion rv" using assms by simp_all
  have "rv_string rv = ''o'' @ dec ?n @ '';'' @ dec (rvWatermark rv)"
    using True by (simp add: rv_string_def FormatInt_def)
  moreover have "Parse (''o'' @ dec ?n @ '';'' @ dec (rvWatermark rv)) =
      Inr \<lparr>rvObjectVersion = int ?n, rvWatermark = rvWatermark rv\<rparr>"
    using n(1) assms(3) dec_digits [of "rvWatermark rv"] split_semi_dec [of ?n "dec (rvWatermark rv)"]
    by (simp add: Parse_def parse_watermark_dec)
  ultimately show ?thesis using n by simp
next
  case False
  then have "rvObjectVersion rv = 0" using assms by simp
  then show ?thesis
    using assms dec_digits [of "rvWatermark rv"] dec_hd_not [OF not_digits(1), of "rvWatermark rv"]
    by (simp add: rv_string_def Parse_def parse_watermark_dec)
qed

section \<open>Properties\<close>

text \<open>C27: Resource versions survive printing: every version a Go value can hold (a non-negative int64
  object version and a uint64 watermark) is what Parse reads back from its String.\<close>

theorem rv_round_trip:
  assumes "0 \<le> ov" "ov < 2 ^ 63" "wm < 2 ^ 64"
  shows "Parse (rv_string \<lparr>rvObjectVersion = ov, rvWatermark = wm\<rparr>) = Inr \<lparr>rvObjectVersion = ov, rvWatermark = wm\<rparr>"
  by (rule Parse_rv_string) (use assms in simp_all)

theorem rv_round_trip_witness:
  "Parse (rv_string \<lparr>rvObjectVersion = 5, rvWatermark = 12345678\<rparr>) = Inr \<lparr>rvObjectVersion = 5, rvWatermark = 12345678\<rparr>"
  by (rule rv_round_trip) simp_all

lemma ParseUint_bound: "ParseUint s = Some n \<Longrightarrow> n < 2 ^ 64 \<and> list_all is_digit s"
  by (auto simp: ParseUint_def Let_def split: if_splits)

lemma ParseInt_bound: "ParseInt s = Some i \<Longrightarrow> - (2 ^ 63) \<le> i \<and> i < 2 ^ 63"
  by (cases s) (auto simp: Let_def split: option.splits if_splits)

text \<open>Parse accepts nothing else: whatever text it accepts gives a watermark of 64 bits and an
  object version of 64 bits, and a text with the old bucket prefix, alone or after an object
  version, is an error.\<close>

theorem rv_parse_bounds:
  "case Parse s of
     Inr rv \<Rightarrow> rvWatermark rv < 2 ^ 64 \<and> - (2 ^ 63) \<le> rvObjectVersion rv \<and> rvObjectVersion rv < 2 ^ 63 \<and>
               take 1 s \<noteq> ''b'' \<and> (take 1 s \<noteq> ''o'' \<longrightarrow> rvObjectVersion rv = 0)
   | Inl e \<Rightarrow> s \<noteq> []"
proof -
  have wm: "rvWatermark rv < 2 ^ 64 \<and> rvObjectVersion rv = ov \<and> take 1 t \<noteq> ''b''"
    if "parse_watermark ov t = Inr rv" for ov t rv
    using that by (auto simp: parse_watermark_def split: if_splits option.splits dest: ParseUint_bound)
  show ?thesis
  proof (cases "Parse s")
    case (Inl e)
    then show ?thesis by (auto simp: Parse_def)
  next
    case (Inr rv)
    show ?thesis
    proof (cases "take 1 s = ''o''")
      case True
      then obtain pre rest ov where "split_semi s = Some (pre, rest)" "ParseInt (tl pre) = Some ov"
        "parse_watermark ov rest = Inr rv"
        using Inr by (auto simp: Parse_def split: option.splits if_splits)
      then show ?thesis using Inr True wm ParseInt_bound by fastforce
    next
      case False
      then show ?thesis using Inr wm [of 0 s rv] by (auto simp: Parse_def split: if_splits)
    qed
  qed
qed

theorem rv_parse_bounds_witness: "\<forall>rv. Parse ''b3;7'' \<noteq> Inr rv"
  using rv_parse_bounds [of "''b3;7''"] by (auto split: sum.splits)

end
