(* ===== verification/Convert.thy ===== *)
theory Convert
  imports Meta ResourceVersion Writer
begin

text \<open>
  src/pkg/pgruntime/convert.go: GVK strings, objects to rows and back. A Go object type is its
  metadata and, if it has them, a Spec and a Status field; reflection finds the fields, and
  encoding/json on the user's types is the argument \<open>cd\<close> (a \<open>codec\<close>). The runtime scheme
  and the text form of a UUID (google/uuid) are arguments too.
\<close>

section \<open>GVK strings\<close>

record gvk =
  gGroup :: string
  gVersion :: string
  gKind :: string

definition gvkToString :: "gvk \<Rightarrow> string" where
  "gvkToString g = gGroup g @ ''/'' @ gVersion g @ ''/'' @ gKind g"

text \<open>strings.SplitN(s, sep, n): at most n parts, the last one unsplit.\<close>

fun SplitN :: "char \<Rightarrow> nat \<Rightarrow> string \<Rightarrow> string list" where
  "SplitN sep 0 s = []"
| "SplitN sep (Suc 0) s = [s]"
| "SplitN sep (Suc (Suc n)) s =
     (case dropWhile (\<lambda>c. c \<noteq> sep) s of
        [] \<Rightarrow> [s]
      | _ # rest \<Rightarrow> takeWhile (\<lambda>c. c \<noteq> sep) s # SplitN sep (Suc n) rest)"

definition stringToGVK :: "string \<Rightarrow> string + gvk" where
  "stringToGVK s =
     (case SplitN CHR ''/'' 3 s of
        [g, v, k] \<Rightarrow> Inr \<lparr>gGroup = g, gVersion = v, gKind = k\<rparr>
      | _ \<Rightarrow> Inl (''invalid GVK string: '' @ s))"

text \<open>The scheme's answer for an object type: an error, or its kinds, most preferred first.\<close>

fun resolveGVK :: "string + gvk list \<Rightarrow> string + gvk" where
  "resolveGVK (Inl e) = Inl (''resolve GVK: '' @ e)"
| "resolveGVK (Inr []) = Inl ''no GVK registered for type''"
| "resolveGVK (Inr (g # _)) = Inr g"

definition trim_suffix :: "string \<Rightarrow> string \<Rightarrow> string" where
  "trim_suffix suf s =
     (let n = length s - length suf
      in if length suf \<le> length s \<and> drop n s = suf then take n s else s)"

definition itemGVKFromListGVK :: "gvk \<Rightarrow> gvk" where
  "itemGVKFromListGVK g = g\<lparr>gKind := trim_suffix ''List'' (gKind g)\<rparr>"

lemma SplitN_step:
  "sep \<notin> set a \<Longrightarrow> SplitN sep (Suc (Suc n)) (a @ sep # b) = a # SplitN sep (Suc n) b"
proof -
  assume "sep \<notin> set a"
  then have a: "\<forall>c \<in> set a. c \<noteq> sep" by metis
  have "dropWhile (\<lambda>c. c \<noteq> sep) (a @ sep # b) = sep # b" "takeWhile (\<lambda>c. c \<noteq> sep) (a @ sep # b) = a"
    using a by (simp_all add: dropWhile_append2 takeWhile_append2)
  then show ?thesis by simp
qed

section \<open>Objects\<close>

record ('s, 't) object =
  objName :: string
  objNamespace :: string
  objUID :: string
  objRV :: string
  objCreated :: time
  objDeletion :: "time option"
  objMeta :: storedMetadata
  objGVK :: gvk
  objSpec :: "'s option"
  objStatus :: "'t option"

record ('s, 't) codec =
  enc_spec :: "'s \<Rightarrow> string + json"
  dec_spec :: "json \<Rightarrow> 's \<Rightarrow> string + 's"
  enc_status :: "'t \<Rightarrow> string + json"
  dec_status :: "json \<Rightarrow> 't \<Rightarrow> string + 't"

definition extractSpec :: "('s, 't) codec \<Rightarrow> ('s, 't) object \<Rightarrow> string + json" where
  "extractSpec cd obj = (case objSpec obj of None \<Rightarrow> Inr (JObj []) | Some s \<Rightarrow> enc_spec cd s)"

definition extractStatus :: "('s, 't) codec \<Rightarrow> ('s, 't) object \<Rightarrow> string + json" where
  "extractStatus cd obj = (case objStatus obj of None \<Rightarrow> Inr (JObj []) | Some t \<Rightarrow> enc_status cd t)"

definition extractSpecStatus :: "('s, 't) codec \<Rightarrow> ('s, 't) object \<Rightarrow> string + (json \<times> json)" where
  "extractSpecStatus cd obj =
     (case extractSpec cd obj of
        Inl e \<Rightarrow> Inl (''marshal spec: '' @ e)
      | Inr sp \<Rightarrow>
          (case extractStatus cd obj of
             Inl e \<Rightarrow> Inl (''marshal status: '' @ e)
           | Inr st \<Rightarrow> Inr (sp, st)))"

definition extractMetadata :: "('s, 't) object \<Rightarrow> json" where
  "extractMetadata obj = encode_meta (objMeta obj)"

text \<open>
  The version a write expects: 0 for none, an integer, or the object version of a composite
  resource version that a watch event carried.
\<close>

definition parseResourceVersion :: "('s, 't) object \<Rightarrow> string + int" where
  "parseResourceVersion obj =
     (if objRV obj = [] then Inr 0
      else (case ParseInt (objRV obj) of
              Some v \<Rightarrow> Inr v
            | None \<Rightarrow>
                (case Parse (objRV obj) of
                   Inl _ \<Rightarrow> Inl ''carries no object version''
                 | Inr rv \<Rightarrow> if rvObjectVersion rv = 0 then Inl ''carries no object version''
                             else Inr (rvObjectVersion rv))))"

text \<open>A nil deletion timestamp leaves the object's own; undecodable metadata leaves all its fields.\<close>

definition populateObjectMeta ::
  "(json \<Rightarrow> bool) \<Rightarrow> (uid \<Rightarrow> string) \<Rightarrow> resource \<Rightarrow> ('s, 't) object \<Rightarrow> ('s, 't) object" where
  "populateObjectMeta own uuid_string r obj =
     (let o1 = obj\<lparr>objName := Name r, objNamespace := Namespace r, objUID := uuid_string (UID r),
                   objRV := FormatInt (ObjectVersion r), objCreated := CreatedAt r\<rparr>;
          o2 = (case DeletionTimestamp r of None \<Rightarrow> o1 | Some t \<Rightarrow> o1\<lparr>objDeletion := Some t\<rparr>)
      in case decode_meta own (Metadata r) of None \<Rightarrow> o2 | Some sm \<Rightarrow> o2\<lparr>objMeta := sm\<rparr>)"

text \<open>A document that is the text {} is not decoded, so the field keeps what it held.\<close>

definition injectSpecStatus ::
  "('s, 't) codec \<Rightarrow> json \<Rightarrow> json \<Rightarrow> ('s, 't) object \<Rightarrow> string + ('s, 't) object" where
  "injectSpecStatus cd sp st obj =
     (let o1 = (if sp = JObj [] then Inr obj
                else (case objSpec obj of
                        None \<Rightarrow> Inr obj
                      | Some s \<Rightarrow>
                          (case dec_spec cd sp s of
                             Inl e \<Rightarrow> Inl (''unmarshal spec: '' @ e)
                           | Inr s' \<Rightarrow> Inr (obj\<lparr>objSpec := Some s'\<rparr>))))
      in case o1 of
           Inl e \<Rightarrow> Inl e
         | Inr obj1 \<Rightarrow>
             (if st = JObj [] then Inr obj1
              else (case objStatus obj1 of
                      None \<Rightarrow> Inr obj1
                    | Some t \<Rightarrow>
                        (case dec_status cd st t of
                           Inl e \<Rightarrow> Inl (''unmarshal status: '' @ e)
                         | Inr t' \<Rightarrow> Inr (obj1\<lparr>objStatus := Some t'\<rparr>)))))"

definition populateObject ::
  "(json \<Rightarrow> bool) \<Rightarrow> (uid \<Rightarrow> string) \<Rightarrow> ('s, 't) codec \<Rightarrow> resource \<Rightarrow> gvk \<Rightarrow> ('s, 't) object \<Rightarrow>
     string + ('s, 't) object" where
  "populateObject own us cd r g obj =
     injectSpecStatus cd (Spec r) (Status r) ((populateObjectMeta own us r obj)\<lparr>objGVK := g\<rparr>)"

text \<open>\<open>new\<close> is scheme.New: an error, or a zero object of the gvk's type.\<close>

definition resourceToObject ::
  "(json \<Rightarrow> bool) \<Rightarrow> (uid \<Rightarrow> string) \<Rightarrow> ('s, 't) codec \<Rightarrow> (gvk \<Rightarrow> string + ('s, 't) object) \<Rightarrow>
     resource \<Rightarrow> string + ('s, 't) object" where
  "resourceToObject own us cd new r =
     (case stringToGVK (GVK r) of
        Inl e \<Rightarrow> Inl e
      | Inr g \<Rightarrow>
          (case new g of
             Inl e \<Rightarrow> Inl (''scheme.New: '' @ e)
           | Inr obj \<Rightarrow> populateObject own us cd r g obj))"

section \<open>Properties\<close>

text \<open>A kind's database name determines the kind: when group and version have no slash (Kubernetes
  forbids it), stringToGVK reads back what gvkToString wrote, so two kinds never share rows;
  and the item kind of a list kind is the kind the list was made from.\<close>

theorem gvk_round_trip:
  assumes "CHR ''/'' \<notin> set (gGroup g)" "CHR ''/'' \<notin> set (gVersion g)"
  shows "stringToGVK (gvkToString g) = Inr g \<and>
    itemGVKFromListGVK (g\<lparr>gKind := gKind g @ ''List''\<rparr>) = g"
proof -
  have "SplitN CHR ''/'' 3 (gvkToString g) = [gGroup g, gVersion g, gKind g]"
    using SplitN_step [OF assms(1), of 1] SplitN_step [OF assms(2), of 0]
    by (simp add: gvkToString_def numeral_3_eq_3)
  then show ?thesis by (simp add: stringToGVK_def itemGVKFromListGVK_def trim_suffix_def)
qed

theorem gvk_round_trip_witness:
  "stringToGVK (gvkToString \<lparr>gGroup = ''apps'', gVersion = ''v1'', gKind = ''Deployment''\<rparr>) =
     Inr \<lparr>gGroup = ''apps'', gVersion = ''v1'', gKind = ''Deployment''\<rparr>"
  by (rule gvk_round_trip [THEN conjunct1]) simp_all

text \<open>An object carries its version into the next write wherever it came from: the version that
  populateObjectMeta sets on a read, and the composite version that a watch event stamps, both
  parse back to the row's object version.\<close>

theorem object_version_survives:
  assumes "0 < v" "v < 2 ^ 63" "wm < 2 ^ 64"
  shows "parseResourceVersion (obj\<lparr>objRV := FormatInt v\<rparr>) = Inr v \<and>
    parseResourceVersion (obj\<lparr>objRV := rv_string \<lparr>rvObjectVersion = v, rvWatermark = wm\<rparr>\<rparr>) = Inr v"
proof -
  have "FormatInt v \<noteq> []" using dec_digits [of "nat v"] assms(1) by (simp add: FormatInt_def)
  moreover have "ParseInt (FormatInt v) = Some v" by (rule ParseInt_FormatInt) (use assms in simp_all)
  moreover have "Parse (rv_string \<lparr>rvObjectVersion = v, rvWatermark = wm\<rparr>) = Inr \<lparr>rvObjectVersion = v, rvWatermark = wm\<rparr>"
    by (rule Parse_rv_string) (use assms in simp_all)
  moreover have "rv_string \<lparr>rvObjectVersion = v, rvWatermark = wm\<rparr> \<noteq> []"
    "ParseInt (rv_string \<lparr>rvObjectVersion = v, rvWatermark = wm\<rparr>) = None"
    using assms(1) not_digits by (simp_all add: rv_string_def ParseUint_def)
  ultimately show ?thesis using assms(1) by (simp add: parseResourceVersion_def)
qed

definition ex_object :: "(json, json) object" where
  "ex_object = \<lparr>objName = ''a'', objNamespace = ''n'', objUID = [], objRV = [], objCreated = 0,
     objDeletion = None, objMeta = empty_meta, objGVK = \<lparr>gGroup = ''g'', gVersion = ''v'', gKind = ''K''\<rparr>,
     objSpec = Some (JObj [(''x'', JNum 1)]), objStatus = Some (JObj [])\<rparr>"

theorem object_version_survives_witness:
  "parseResourceVersion (ex_object\<lparr>objRV := rv_string \<lparr>rvObjectVersion = 5, rvWatermark = 100\<rparr>\<rparr>) = Inr 5"
  by (rule object_version_survives [THEN conjunct2]) simp_all

text \<open>Reading into an object that was used before keeps what the row no longer says.\<close>

definition json_codec :: "(json, json) codec" where
  "json_codec = \<lparr>enc_spec = (\<lambda>s. Inr s), dec_spec = (\<lambda>j _. Inr j), enc_status = (\<lambda>s. Inr s),
     dec_status = (\<lambda>j _. Inr j)\<rparr>"

lemma read_into_used_object:
  "populateObject own us json_codec (ex_row\<lparr>Spec := JObj []\<rparr>) g (ex_object\<lparr>objDeletion := Some 1\<rparr>) = Inr obj \<Longrightarrow>
     objSpec obj = Some (JObj [(''x'', JNum 1)]) \<and> objDeletion obj = Some 1"
  by (auto simp: populateObject_def injectSpecStatus_def populateObjectMeta_def json_codec_def Let_def
      ex_object_def split: option.splits)

end
