(* ===== verification/PgClient.thy ===== *)
theory PgClient
  imports Convert WriterTx Reader
begin

text \<open>
  src/pkg/pgruntime/pgclient.go and errors.go: the controller-runtime client over the table
  (its List is in ClientList.thy).
  Get, Create, Update, Delete and the status update run one after the other on the
  committed database; what the connection pool, the queries and the writer's connection do is
  in a \<open>client_env\<close>. The object a caller passed is returned as the call leaves it, with the
  error if there is one.
\<close>

section \<open>Errors\<close>

datatype unsupported = DryRun | PropagationPolicy | Preconditions | GracePeriod | GenerateName

datatype api_err =
    NotFound string string string
  | AlreadyExists string string string
  | Conflict string string string
  | MethodNotSupported string
  | Unsupported unsupported
  | Plain string
  | WriterErr werr

definition rejectDryRun :: "string list \<Rightarrow> api_err option" where
  "rejectDryRun dryRun = (if dryRun = [] then None else Some (Unsupported DryRun))"

record delete_options =
  doDryRun :: "string list"
  doPropagation :: bool
  doPreconditions :: bool
  doGracePeriod :: bool

definition rejectUnsupportedDeleteOpts :: "delete_options \<Rightarrow> api_err option" where
  "rejectUnsupportedDeleteOpts opts =
     (case rejectDryRun (doDryRun opts) of
        Some e \<Rightarrow> Some e
      | None \<Rightarrow>
          if doPropagation opts then Some (Unsupported PropagationPolicy)
          else if doPreconditions opts then Some (Unsupported Preconditions)
          else if doGracePeriod opts then Some (Unsupported GracePeriod)
          else None)"

definition not_found :: "gvk \<Rightarrow> string \<Rightarrow> api_err" where
  "not_found g name = NotFound (gGroup g) (lower (gKind g)) name"

record client_env =
  ce_acquire :: "string option"
  ce_query :: "string option"
  ce_readback :: "string option"
  ce_call :: call_env
  ce_now :: time

text \<open>mapGetError: no rows is NotFound, everything else passes through.\<close>

datatype query_err = QNoRows | QFailed string

fun mapGetError :: "query_err \<Rightarrow> gvk \<Rightarrow> string \<Rightarrow> api_err" where
  "mapGetError QNoRows g name = not_found g name"
| "mapGetError (QFailed e) g name = Plain e"

text \<open>On the right the row that read-back found, if the commit was ambiguous.\<close>

definition mapWriteError :: "client_env \<Rightarrow> db \<Rightarrow> werr \<Rightarrow> gvk \<Rightarrow> string \<Rightarrow> api_err + resource" where
  "mapWriteError env d err g name =
     (let gr = (gGroup g, lower (gKind g)) in
      case err of
        ErrAlreadyExists \<Rightarrow> Inl (AlreadyExists (fst gr) (snd gr) name)
      | ErrConflict \<Rightarrow> Inl (Conflict (fst gr) (snd gr) name)
      | AmbiguousCommitError k t _ \<Rightarrow>
          (case ce_readback env of
             Some e \<Rightarrow> Inl (Plain (''ambiguous commit + read-back failed: '' @ e))
           | None \<Rightarrow>
               (case ReadBack d k t of
                  None \<Rightarrow> Inl (Conflict (fst gr) (snd gr) name)
                | Some r \<Rightarrow> Inr r))
      | _ \<Rightarrow> Inl (WriterErr err))"

section \<open>Reads\<close>

definition query_row :: "client_env \<Rightarrow> db \<Rightarrow> key \<Rightarrow> (resource \<Rightarrow> bool) \<Rightarrow> query_err + resource" where
  "query_row env d k wh =
     (case ce_query env of
        Some e \<Rightarrow> Inl (QFailed e)
      | None \<Rightarrow>
          (case get_row d k of
             None \<Rightarrow> Inl QNoRows
           | Some r \<Rightarrow> if wh r then Inr r else Inl QNoRows))"

text \<open>
  populateObject into the caller's object. When a document does not decode, the metadata has
  been set already (fields of the document decoded before the error are not tracked).
\<close>

definition populate_into ::
  "(json \<Rightarrow> bool) \<Rightarrow> (uid \<Rightarrow> string) \<Rightarrow> ('s, 't) codec \<Rightarrow> resource \<Rightarrow> gvk \<Rightarrow> ('s, 't) object \<Rightarrow>
     ('s, 't) object \<times> api_err option" where
  "populate_into own us cd r g obj =
     (case populateObject own us cd r g obj of
        Inl e \<Rightarrow> ((populateObjectMeta own us r obj)\<lparr>objGVK := g\<rparr>, Some (Plain e))
      | Inr obj' \<Rightarrow> (obj', None))"

definition Get ::
  "client_env \<Rightarrow> (json \<Rightarrow> bool) \<Rightarrow> (uid \<Rightarrow> string) \<Rightarrow> ('s, 't) codec \<Rightarrow> string + gvk list \<Rightarrow> db \<Rightarrow>
     string \<times> string \<Rightarrow> ('s, 't) object \<Rightarrow> ('s, 't) object \<times> api_err option" where
  "Get env own us cd kinds d nsname obj =
     (case resolveGVK kinds of
        Inl e \<Rightarrow> (obj, Some (Plain e))
      | Inr g \<Rightarrow>
          (case ce_acquire env of
             Some e \<Rightarrow> (obj, Some (Plain e))
           | None \<Rightarrow>
               (case query_row env d (gvkToString g, nsname) (\<lambda>_. True) of
                  Inl e \<Rightarrow> (obj, Some (mapGetError e g (snd nsname)))
                | Inr r \<Rightarrow>
                    if isFullyDeleted own r then (obj, Some (mapGetError QNoRows g (snd nsname)))
                    else populate_into own us cd r g obj)))"

text \<open>The row for a write: dead rows are filtered in SQL; None is no such row.\<close>

definition readCurrentResource :: "client_env \<Rightarrow> db \<Rightarrow> key \<Rightarrow> api_err + resource option" where
  "readCurrentResource env d k =
     (case query_row env d k (\<lambda>r. is_true (sql_or (sql_is_null (DeletionTimestamp r))
             (sql_and (sql_not (sql_is_null (jget ''finalizers'' (Metadata r))))
                      (sql_not (sql_eq (jget ''finalizers'' (Metadata r)) (Some (JArr []))))))) of
        Inl QNoRows \<Rightarrow> Inr None
      | Inl (QFailed e) \<Rightarrow> Inl (Plain (''read current resource: '' @ e))
      | Inr r \<Rightarrow> Inr (Some r))"

section \<open>Create\<close>

text \<open>uidFromUUID: the sixteen bytes in hex, in groups of 4, 2, 2, 2 and 6.\<close>

fun hex_text :: "nat \<Rightarrow> nat \<Rightarrow> string" where
  "hex_text 0 n = []"
| "hex_text (Suc k) n = hex_text k (n div 16) @ [hex_digit (n mod 16)]"

definition uidFromUUID :: "uid \<Rightarrow> string" where
  "uidFromUUID u =
     (let h = hex_text 32 u
      in take 8 h @ ''-'' @ take 4 (drop 8 h) @ ''-'' @ take 4 (drop 12 h) @ ''-'' @
         take 4 (drop 16 h) @ ''-'' @ drop 20 h)"

text \<open>After a failed write: an error, or the object as read-back found it.\<close>

definition after_write_error ::
  "client_env \<Rightarrow> (json \<Rightarrow> bool) \<Rightarrow> (uid \<Rightarrow> string) \<Rightarrow> ('s, 't) codec \<Rightarrow> unit world \<Rightarrow> werr \<Rightarrow> gvk \<Rightarrow>
     string \<Rightarrow> ('s, 't) object \<Rightarrow> unit world \<times> ('s, 't) object \<times> api_err option" where
  "after_write_error env own us cd w err g name obj =
     (case mapWriteError env (wdb w) err g name of
        Inl e \<Rightarrow> (w, obj, Some e)
      | Inr r \<Rightarrow> (w, populate_into own us cd r g obj))"

definition set_generation :: "int \<Rightarrow> ('s, 't) object \<Rightarrow> ('s, 't) object" where
  "set_generation n obj = obj\<lparr>objMeta := (objMeta obj)\<lparr>Generation := n\<rparr>\<rparr>"

definition Create ::
  "client_env \<Rightarrow> (json \<Rightarrow> bool) \<Rightarrow> (uid \<Rightarrow> string) \<Rightarrow> ('s, 't) codec \<Rightarrow> string + gvk list \<Rightarrow> string list \<Rightarrow>
     string \<Rightarrow> ('s, 't) object \<Rightarrow> unit world \<Rightarrow> unit world \<times> ('s, 't) object \<times> api_err option" where
  "Create env own us cd kinds dryRun generateName obj w =
     (case rejectDryRun dryRun of
        Some e \<Rightarrow> (w, obj, Some e)
      | None \<Rightarrow>
        if objName obj = [] \<and> generateName \<noteq> [] then (w, obj, Some (Unsupported GenerateName))
        else (case resolveGVK kinds of
          Inl e \<Rightarrow> (w, obj, Some (Plain e))
        | Inr g \<Rightarrow>
          (let o1 = set_generation 1 obj in
           case extractSpecStatus cd o1 of
             Inl e \<Rightarrow> (w, o1, Some (Plain e))
           | Inr (sp, st) \<Rightarrow>
             (case ce_acquire env of
                Some e \<Rightarrow> (w, o1, Some (Plain e))
              | None \<Rightarrow>
                (case Write (\<lambda>g b. b) None (ce_call env)
                        \<lparr>wGVK = gvkToString g, wNamespace = objNamespace o1, wName = objName o1,
                         wSpec = RDoc sp, wStatus = RDoc st, wMetadata = RDoc (extractMetadata o1),
                         wDeletionTimestamp = None, wExpectedVersion = 0, wForceWrite = False\<rparr> w of
                   (w', Inl err) \<Rightarrow> after_write_error env own us cd w' err g (objName o1) o1
                 | (w', Inr res) \<Rightarrow>
                     (w', o1\<lparr>objUID := uidFromUUID (resUID res), objRV := FormatInt (resVersion res),
                             objCreated := ce_now env, objGVK := g\<rparr>, None))))))"

section \<open>Update\<close>

definition Update ::
  "client_env \<Rightarrow> (json \<Rightarrow> bool) \<Rightarrow> (uid \<Rightarrow> string) \<Rightarrow> ('s, 't) codec \<Rightarrow> string + gvk list \<Rightarrow> string list \<Rightarrow>
     ('s, 't) object \<Rightarrow> unit world \<Rightarrow> unit world \<times> ('s, 't) object \<times> api_err option" where
  "Update env own us cd kinds dryRun obj w =
     (case rejectDryRun dryRun of
        Some e \<Rightarrow> (w, obj, Some e)
      | None \<Rightarrow> (case resolveGVK kinds of
          Inl e \<Rightarrow> (w, obj, Some (Plain e))
        | Inr g \<Rightarrow> (case parseResourceVersion obj of
            Inl e \<Rightarrow> (w, obj, Some (Plain (''parse resource version: '' @ e)))
          | Inr ver \<Rightarrow> (case ce_acquire env of
              Some e \<Rightarrow> (w, obj, Some (Plain e))
            | None \<Rightarrow>
              (case readCurrentResource env (wdb w) (gvkToString g, objNamespace obj, objName obj) of
                Inl e \<Rightarrow> (w, obj, Some e)
              | Inr None \<Rightarrow> (w, obj, Some (not_found g (objName obj)))
              | Inr (Some cur) \<Rightarrow> (case extractSpec cd obj of
                  Inl e \<Rightarrow> (w, obj, Some (Plain e))
                | Inr sp \<Rightarrow>
                  (let o1 = (if JSONEqual (RDoc (Spec cur)) (RDoc sp) then obj
                             else set_generation (currentGeneration own (Metadata cur) + 1) obj) in
                   case WriteObject (\<lambda>g b. b) None (ce_call env)
                          \<lparr>oGVK = gvkToString g, oNamespace = objNamespace o1, oName = objName o1,
                           oSpec = RDoc sp, oMetadata = RDoc (extractMetadata o1),
                           oDeletionTimestamp = DeletionTimestamp cur, oExpectedVersion = ver,
                           oForceWrite = False\<rparr> w of
                     (w', Inl err) \<Rightarrow> after_write_error env own us cd w' err g (objName o1) o1
                   | (w', Inr res) \<Rightarrow> (w', o1\<lparr>objRV := FormatInt (resVersion res)\<rparr>, None))))))))"

section \<open>Delete\<close>

text \<open>What Delete writes: the current row, or with an explicit version the caller's own object.\<close>

definition delete_source ::
  "client_env \<Rightarrow> ('s, 't) codec \<Rightarrow> gvk \<Rightarrow> ('s, 't) object \<Rightarrow> int \<Rightarrow> db \<Rightarrow>
     api_err + (int \<times> json \<times> json \<times> json \<times> time option)" where
  "delete_source env cd g obj ver d =
     (if ver = 0 then
        (case readCurrentResource env d (gvkToString g, objNamespace obj, objName obj) of
           Inl e \<Rightarrow> Inl e
         | Inr None \<Rightarrow> Inl (not_found g (objName obj))
         | Inr (Some cur) \<Rightarrow> Inr (ObjectVersion cur, Spec cur, Status cur, Metadata cur, DeletionTimestamp cur))
      else (case extractSpecStatus cd obj of
              Inl e \<Rightarrow> Inl (Plain e)
            | Inr (sp, st) \<Rightarrow> Inr (ver, sp, st, extractMetadata obj, None)))"

definition Delete ::
  "client_env \<Rightarrow> ('s, 't) codec \<Rightarrow> string + gvk list \<Rightarrow> delete_options \<Rightarrow> ('s, 't) object \<Rightarrow>
     unit world \<Rightarrow> unit world \<times> api_err option" where
  "Delete env cd kinds opts obj w =
     (case rejectUnsupportedDeleteOpts opts of
        Some e \<Rightarrow> (w, Some e)
      | None \<Rightarrow> (case resolveGVK kinds of
          Inl e \<Rightarrow> (w, Some (Plain e))
        | Inr g \<Rightarrow> (case ce_acquire env of
            Some e \<Rightarrow> (w, Some (Plain e))
          | None \<Rightarrow> (case parseResourceVersion obj of
              Inl e \<Rightarrow> (w, Some (Plain (''parse resource version: '' @ e)))
            | Inr ver \<Rightarrow> (case delete_source env cd g obj ver (wdb w) of
                Inl e \<Rightarrow> (w, Some e)
              | Inr (v, sp, st, md, old) \<Rightarrow>
                (let ts = (case old of None \<Rightarrow> ce_now env | Some t \<Rightarrow> t) in
                 case Write (\<lambda>g b. b) None (ce_call env)
                        \<lparr>wGVK = gvkToString g, wNamespace = objNamespace obj, wName = objName obj,
                         wSpec = RDoc sp, wStatus = RDoc st, wMetadata = RDoc md,
                         wDeletionTimestamp = Some ts, wExpectedVersion = v, wForceWrite = False\<rparr> w of
                   (w', Inl err) \<Rightarrow>
                     (w', case mapWriteError env (wdb w') err g (objName obj) of Inl e \<Rightarrow> Some e | Inr _ \<Rightarrow> None)
                 | (w', Inr _) \<Rightarrow> (w', None)))))))"

section \<open>The status writer and the unsupported methods\<close>

definition StatusUpdate ::
  "client_env \<Rightarrow> (json \<Rightarrow> bool) \<Rightarrow> (uid \<Rightarrow> string) \<Rightarrow> ('s, 't) codec \<Rightarrow> string + gvk list \<Rightarrow> string list \<Rightarrow>
     ('s, 't) object \<Rightarrow> unit world \<Rightarrow> unit world \<times> ('s, 't) object \<times> api_err option" where
  "StatusUpdate env own us cd kinds dryRun obj w =
     (case rejectDryRun dryRun of
        Some e \<Rightarrow> (w, obj, Some e)
      | None \<Rightarrow> (case resolveGVK kinds of
          Inl e \<Rightarrow> (w, obj, Some (Plain e))
        | Inr g \<Rightarrow> (case parseResourceVersion obj of
            Inl e \<Rightarrow> (w, obj, Some (Plain (''parse resource version: '' @ e)))
          | Inr ver \<Rightarrow> (case extractStatus cd obj of
              Inl e \<Rightarrow> (w, obj, Some (Plain e))
            | Inr st \<Rightarrow> (case ce_acquire env of
                Some e \<Rightarrow> (w, obj, Some (Plain e))
              | None \<Rightarrow>
                (case WriteStatus (\<lambda>g b. b) None (ce_call env)
                        \<lparr>sGVK = gvkToString g, sNamespace = objNamespace obj, sName = objName obj,
                         sStatus = RDoc st, sExpectedVersion = ver, sForceWrite = False\<rparr> w of
                   (w', Inl err) \<Rightarrow> after_write_error env own us cd w' err g (objName obj) obj
                 | (w', Inr res) \<Rightarrow> (w', obj\<lparr>objRV := FormatInt (resVersion res)\<rparr>, None)))))))"

datatype client_method = Apply | Patch | DeleteAllOf | SubGet | SubCreate | SubApply | SubPatch

text \<open>\<open>status\<close> says that the subresource is the status (SubResource, pgSubResourceClient).\<close>

fun unsupported_method :: "bool \<Rightarrow> client_method \<Rightarrow> api_err" where
  "unsupported_method status Apply = MethodNotSupported ''apply''"
| "unsupported_method status Patch = MethodNotSupported ''patch''"
| "unsupported_method status DeleteAllOf = MethodNotSupported ''deleteAllOf''"
| "unsupported_method status SubGet = MethodNotSupported ''subresource get''"
| "unsupported_method status SubCreate = MethodNotSupported (if status then ''status create'' else ''subresource create'')"
| "unsupported_method status SubApply = MethodNotSupported (if status then ''status apply'' else ''subresource apply'')"
| "unsupported_method status SubPatch = MethodNotSupported (if status then ''status patch'' else ''subresource patch'')"

definition SubResourceUpdate ::
  "string \<Rightarrow> client_env \<Rightarrow> (json \<Rightarrow> bool) \<Rightarrow> (uid \<Rightarrow> string) \<Rightarrow> ('s, 't) codec \<Rightarrow> string + gvk list \<Rightarrow> string list \<Rightarrow>
     ('s, 't) object \<Rightarrow> unit world \<Rightarrow> unit world \<times> ('s, 't) object \<times> api_err option" where
  "SubResourceUpdate sub env own us cd kinds dryRun obj w =
     (if sub = ''status'' then StatusUpdate env own us cd kinds dryRun obj w
      else (w, obj, Some (MethodNotSupported ''subresource update'')))"

section \<open>Client operations and the row\<close>

text \<open>A failed write of the production path never turns into success: read-back finds nothing.\<close>

lemma after_write_error_fails:
  assumes "wf_db (wdb w0)" "stored_proc_path ring nt u now p w0 = (w, Inl err)"
  shows "\<exists>e. mapWriteError env (wdb w) err g name = Inl e"
proof (cases err)
  case (AmbiguousCommitError k t c)
  have "t = 0 \<and> wf_db (wdb w)"
    using assms run_proc_wf [OF assms(1), of u now p] AmbiguousCommitError
    by (auto simp: stored_proc_path_def callStoredProc_def Let_def
        split: net.splits prod.splits sum.splits if_splits)
  then show ?thesis
    using AmbiguousCommitError by (simp add: mapWriteError_def ReadBack_zero Let_def split: option.splits)
qed (simp_all add: mapWriteError_def Let_def)

lemma Write_production: "Write ring None env req w =
    stored_proc_path ring (env_net env) (env_uid env) (env_now env) (params_of_write req) w"
  by (simp add: Write_def writeStoredProc_def)

lemma query_row_ok:
  "query_row env d k wh = Inr r \<Longrightarrow> get_row d k = Some r \<and> wh r"
  by (auto simp: query_row_def split: option.splits if_splits)

lemma readCurrent_ok:
  "readCurrentResource env d k = Inr (Some r) \<Longrightarrow> get_row d k = Some r \<and> \<not> is_true (tombstone_filter r)"
  by (auto simp: readCurrentResource_def tombstone_filter_iff sql_simps
      split: sum.splits query_err.splits dest!: query_row_ok)

lemma Get_dead:
  assumes "resolveGVK kinds = Inr g" "ce_acquire env = None" "ce_query env = None"
    "get_row d (gvkToString g, nsname) = Some r" "isFullyDeleted own r"
  shows "Get env own us cd kinds d nsname obj = (obj, Some (not_found g (snd nsname)))"
  using assms by (simp add: Get_def query_row_def)

text \<open>A Delete that succeeds has run the procedure on the state it read and the mark.\<close>

lemma Delete_success:
  assumes "wf_db (wdb w)" "Delete env cd kinds opts obj w = (w', None)"
    and "resolveGVK kinds = Inr g" "k = (gvkToString g, objNamespace obj, objName obj)"
  obtains ver v sp st md old a out where "parseResourceVersion obj = Inr ver"
    "delete_source env cd g obj ver (wdb w) = Inr (v, sp, st, md, old)"
    "pgctl_write (env_uid (ce_call env)) (env_now (ce_call env)) a (wdb w) = (wdb w', Inr out)"
    "\<not> p_status_only a" "p_key a = k" "p_deletion_ts a = Some (case old of None \<Rightarrow> ce_now env | Some t \<Rightarrow> t)"
    "p_spec a = Some (canon sp)" "p_metadata a = Some (canon md)"
proof -
  have ok: "rejectUnsupportedDeleteOpts opts = None" "ce_acquire env = None"
    using assms(2,3) by (auto simp: Delete_def split: option.splits)
  obtain ver v sp st md old where src: "parseResourceVersion obj = Inr ver"
    "delete_source env cd g obj ver (wdb w) = Inr (v, sp, st, md, old)"
    using assms(2,3) ok by (auto simp: Delete_def split: sum.splits)
  let ?ts = "case old of None \<Rightarrow> ce_now env | Some t \<Rightarrow> t"
  let ?req = "\<lparr>wGVK = gvkToString g, wNamespace = objNamespace obj, wName = objName obj,
     wSpec = RDoc sp, wStatus = RDoc st, wMetadata = RDoc md, wDeletionTimestamp = Some ?ts, wExpectedVersion = v,
     wForceWrite = False\<rparr>"
  let ?path = "stored_proc_path (\<lambda>g b. b) (env_net (ce_call env)) (env_uid (ce_call env))
      (env_now (ce_call env)) (params_of_write ?req) w"
  have del: "Delete env cd kinds opts obj w =
      (case ?path of
         (w1, Inl err) \<Rightarrow> (w1, case mapWriteError env (wdb w1) err g (objName obj) of Inl e \<Rightarrow> Some e | Inr _ \<Rightarrow> None)
       | (w1, Inr _) \<Rightarrow> (w1, None))"
    using ok src assms(3) by (simp add: Delete_def Write_production Let_def)
  obtain res where "?path = (w', Inr res)"
  proof (cases ?path)
    case (Pair w1 x)
    then show ?thesis
      using that del assms(2) after_write_error_fails [OF assms(1), of _ _ _ _ _ w1 _ env g "objName obj"]
      by (cases x) fastforce+
  qed
  then obtain a out where a: "pg_args (params_of_write ?req) = Inr a"
    and out: "pgctl_write (env_uid (ce_call env)) (env_now (ce_call env)) a (wdb w) = (wdb w', Inr out)"
    by (rule stored_proc_path_ok)
  show ?thesis
    by (rule that [OF src out]) (use pg_args_fields [OF a] assms(4) in \<open>auto simp: params_of_write_def wp_key_def\<close>)
qed


definition ex_client_env :: client_env where
  "ex_client_env = \<lparr>ce_acquire = None, ce_query = None, ce_readback = None,
     ce_call = \<lparr>env_net = NetOk, env_fault = NoFault, env_uid = 9, env_now = 50\<rparr>, ce_now = 60\<rparr>"

definition ex_gvk :: gvk where
  "ex_gvk = \<lparr>gGroup = ''g'', gVersion = ''v'', gKind = ''K''\<rparr>"

definition ex_client_row :: resource where
  "ex_client_row = ex_row\<lparr>GVK := gvkToString ex_gvk\<rparr>"

definition ex_client_world :: "unit world" where
  "ex_client_world = \<lparr>wdb = ex_db\<lparr>rows := [ex_client_row]\<rparr>, wbell = None, wmet = None\<rparr>"

definition no_delete_options :: delete_options where
  "no_delete_options = \<lparr>doDryRun = [], doPropagation = False, doPreconditions = False, doGracePeriod = False\<rparr>"

lemma ex_client_wf [simp]: "wf_db (wdb ex_client_world)"
  by (simp add: ex_client_world_def wf_db_def ex_client_row_def)

lemma ex_client_row_at: "get_row (wdb ex_client_world) (gvkToString ex_gvk, ''n'', ''a'') = Some ex_client_row"
  by (simp add: ex_client_world_def get_row_def ex_client_row_def rkey_def)


lemma after_write_error_Some:
  assumes "wf_db (wdb w0)" "stored_proc_path ring nt u now p w0 = (w, Inl err)"
  shows "snd (snd (after_write_error env own us cd w err g name obj)) \<noteq> None"
  using after_write_error_fails [OF assms, of env g name] by (auto simp: after_write_error_def)

lemma WriteObject_production: "oExpectedVersion req \<noteq> 0 \<Longrightarrow> WriteObject ring None env req w =
    stored_proc_path ring (env_net env) (env_uid env) (env_now env) (params_of_object req) w"
  by (simp add: WriteObject_def writeObjectStoredProc_def)

lemma set_generation_simps [simp]:
  "objNamespace (set_generation n obj) = objNamespace obj" "objName (set_generation n obj) = objName obj"
  "objSpec (set_generation n obj) = objSpec obj" "objStatus (set_generation n obj) = objStatus obj"
  "Generation (objMeta (set_generation n obj)) = n" "objRV (set_generation n obj) = objRV obj"
  by (simp_all add: set_generation_def)

lemma extract_set_generation [simp]:
  "extractSpec cd (set_generation n obj) = extractSpec cd obj"
  "extractStatus cd (set_generation n obj) = extractStatus cd obj"
  by (simp_all add: extractSpec_def extractStatus_def)

lemma extractSpecStatus_set_generation [simp]:
  "extractSpecStatus cd (set_generation n obj) = extractSpecStatus cd obj"
  by (cases "extractSpec cd obj") (simp_all add: extractSpecStatus_def)

text \<open>The object an update writes: the generation rises when the spec changed.\<close>

definition update_object :: "(json \<Rightarrow> bool) \<Rightarrow> resource \<Rightarrow> json \<Rightarrow> ('s, 't) object \<Rightarrow> ('s, 't) object" where
  "update_object own cur sp obj =
     (if JSONEqual (RDoc (Spec cur)) (RDoc sp) then obj
      else set_generation (currentGeneration own (Metadata cur) + 1) obj)"

lemma Update_success:
  assumes "wf_db (wdb w)" "Update env own us cd kinds dryRun obj w = (w', obj', None)"
    and "resolveGVK kinds = Inr g" "k = (gvkToString g, objNamespace obj, objName obj)"
  obtains e sp r where "readCurrentResource env (wdb w) k = Inr (Some e)" "extractSpec cd obj = Inr sp"
    "get_row (wdb w') k = Some r" "UID r = UID e" "Spec r = canon sp" "Status r = Status e"
    "DeletionTimestamp r = DeletionTimestamp e" "Metadata r = canon (encode_meta (objMeta (update_object own e sp obj)))"
    "obj' = (update_object own e sp obj)\<lparr>objRV := FormatInt (ObjectVersion r)\<rparr>"
    "\<forall>k'. k' \<noteq> k \<longrightarrow> get_row (wdb w') k' = get_row (wdb w) k'"
proof -
  have ok: "rejectDryRun dryRun = None" "ce_acquire env = None"
    using assms(2,3) by (auto simp: Update_def split: option.splits sum.splits)
  obtain ver where ver: "parseResourceVersion obj = Inr ver"
    using assms(2,3) ok by (auto simp: Update_def split: sum.splits)
  obtain e where e: "readCurrentResource env (wdb w) k = Inr (Some e)"
    using assms(2-4) ok ver by (auto simp: Update_def split: sum.splits option.splits)
  obtain sp where sp: "extractSpec cd obj = Inr sp"
    using assms(2-4) ok ver e by (auto simp: Update_def split: sum.splits)
  let ?o = "update_object own e sp obj"
  let ?req = "\<lparr>oGVK = gvkToString g, oNamespace = objNamespace obj, oName = objName obj, oSpec = RDoc sp,
     oMetadata = RDoc (extractMetadata ?o), oDeletionTimestamp = DeletionTimestamp e, oExpectedVersion = ver,
     oForceWrite = False\<rparr>"
  have names: "objNamespace ?o = objNamespace obj" "objName ?o = objName obj"
    by (simp_all add: update_object_def)
  have upd: "Update env own us cd kinds dryRun obj w =
      (case WriteObject (\<lambda>g b. b) None (ce_call env) ?req w of
         (w1, Inl err) \<Rightarrow> after_write_error env own us cd w1 err g (objName obj) ?o
       | (w1, Inr res) \<Rightarrow> (w1, ?o\<lparr>objRV := FormatInt (resVersion res)\<rparr>, None))"
    using ok ver e sp assms(3,4) names by (simp add: Update_def update_object_def [symmetric] Let_def)
  have v0: "ver \<noteq> 0"
    using upd assms(2) by (auto simp: WriteObject_def after_write_error_def mapWriteError_def Let_def)
  let ?path = "stored_proc_path (\<lambda>g b. b) (env_net (ce_call env)) (env_uid (ce_call env))
      (env_now (ce_call env)) (params_of_object ?req) w"
  have path: "WriteObject (\<lambda>g b. b) None (ce_call env) ?req w = ?path"
    using v0 by (simp add: WriteObject_production)
  obtain res where res: "?path = (w', Inr res)" "obj' = ?o\<lparr>objRV := FormatInt (resVersion res)\<rparr>"
  proof (cases ?path)
    case (Pair w1 x)
    show ?thesis
    proof (cases x)
      case (Inl err)
      have "(w', obj', None) = after_write_error env own us cd w1 err g (objName obj) ?o"
        using upd assms(2) Pair Inl path by simp
      then have "snd (snd (after_write_error env own us cd w1 err g (objName obj) ?o)) = None"
        by (metis snd_conv)
      then show ?thesis
        using after_write_error_Some [OF assms(1), of _ _ _ _ _ w1 err] Pair Inl by blast
    next
      case (Inr y)
      then show ?thesis using that upd assms(2) Pair path by simp
    qed
  qed
  obtain a out where a: "pg_args (params_of_object ?req) = Inr a"
    and out: "pgctl_write (env_uid (ce_call env)) (env_now (ce_call env)) a (wdb w) = (wdb w', Inr out)"
    and rv: "resVersion res = out_version out"
    by (rule stored_proc_path_ok [OF res(1)])
  have f: "\<not> p_status_only a" "p_key a = k" "p_deletion_ts a = DeletionTimestamp e" "p_status a = None"
    "p_spec a = Some (canon sp)" "p_metadata a = Some (canon (encode_meta (objMeta ?o)))"
    using pg_args_fields [OF a] assms(4) by (auto simp: params_of_object_def wp_key_def extractMetadata_def)
  have cur: "get_row (wdb w) k = Some e" "\<not> is_true (tombstone_filter e)" using readCurrent_ok [OF e] by simp_all
  obtain r where "get_row (wdb w') k = Some r" "out_version out = ObjectVersion r" "UID r = UID e"
    "Spec r = canon sp" "Metadata r = canon (encode_meta (objMeta ?o))" "DeletionTimestamp r = DeletionTimestamp e"
    "Status r = Status e"
    using pgctl_write_on_live [OF out] cur f by auto
  then show ?thesis
    using that [OF e sp] res(2) rv pgctl_write_frame [OF assms(1) out] f(2) by auto
qed

text \<open>C20: What an update may change. When Update succeeds the row holds the caller's spec and
  metadata, keeps its uid, its status and its deletion timestamp, no other row changes, the
  object has the row's new version, and the generation stored with it is the row's generation
  plus one if the spec differs from the stored one and the caller's generation otherwise.\<close>

theorem update_scope:
  assumes "wf_db (wdb w)" "Update env own us cd kinds dryRun obj w = (w', obj', None)"
    and "resolveGVK kinds = Inr g" "k = (gvkToString g, objNamespace obj, objName obj)"
    and "sm_ok own (objMeta obj')"
  shows "\<exists>e r sp. get_row (wdb w) k = Some e \<and> get_row (wdb w') k = Some r \<and> extractSpec cd obj = Inr sp \<and>
    UID r = UID e \<and> Status r = Status e \<and> DeletionTimestamp r = DeletionTimestamp e \<and> Spec r = canon sp \<and>
    decode_meta own (Metadata r) = Some (norm_meta (objMeta obj')) \<and>
    currentGeneration own (Metadata r) =
      (if JSONEqual (RDoc (Spec e)) (RDoc sp) then Generation (objMeta obj)
       else currentGeneration own (Metadata e) + 1) \<and>
    objRV obj' = FormatInt (ObjectVersion r) \<and>
    (\<forall>k'. k' \<noteq> k \<longrightarrow> get_row (wdb w') k' = get_row (wdb w) k')"
proof -
  obtain e sp r where s: "readCurrentResource env (wdb w) k = Inr (Some e)" "extractSpec cd obj = Inr sp"
    "get_row (wdb w') k = Some r" "UID r = UID e" "Spec r = canon sp" "Status r = Status e"
    "DeletionTimestamp r = DeletionTimestamp e" "Metadata r = canon (encode_meta (objMeta (update_object own e sp obj)))"
    "obj' = (update_object own e sp obj)\<lparr>objRV := FormatInt (ObjectVersion r)\<rparr>"
    "\<forall>k'. k' \<noteq> k \<longrightarrow> get_row (wdb w') k' = get_row (wdb w) k'"
    by (rule Update_success [OF assms(1-4)])
  have m: "objMeta obj' = objMeta (update_object own e sp obj)" by (simp add: s(9))
  have "decode_meta own (Metadata r) = Some (norm_meta (objMeta obj'))"
    using decode_encode_meta assms(5) s(8) m by metis
  moreover have "Generation (norm_meta (objMeta obj')) =
      (if JSONEqual (RDoc (Spec e)) (RDoc sp) then Generation (objMeta obj)
       else currentGeneration own (Metadata e) + 1)"
    by (simp add: norm_meta_def m update_object_def)
  ultimately show ?thesis
    using s readCurrent_ok [OF s(1)] by (auto simp: currentGeneration_def)
qed

definition ex_update :: "(json, json) object" where
  "ex_update = ex_object\<lparr>objRV := ''1'', objSpec := Some (JObj [(''x'', JNum 2)])\<rparr>"

lemma ParseUint_one: "ParseUint ''1'' = Some 1"
  by (simp add: ParseUint_def is_digit_def digits_val_def)

lemma ex_update_simps [simp]:
  "objNamespace ex_update = ''n''" "objName ex_update = ''a''" "objMeta ex_update = empty_meta"
  "objSpec ex_update = Some (JObj [(''x'', JNum 2)])" "parseResourceVersion ex_update = Inr 1"
  by (simp_all add: ex_update_def ex_object_def parseResourceVersion_def ParseUint_one)

lemma ex_update_success:
  "\<exists>w' obj'. Update ex_client_env (\<lambda>_. True) uidFromUUID json_codec (Inr [ex_gvk]) [] ex_update ex_client_world = (w', obj', None) \<and>
     sm_ok (\<lambda>_. True) (objMeta obj')"
proof -
  have neq: "\<not> JSONEqual (RDoc (JObj [(''x'', JNum 1)])) (RDoc (JObj [(''x'', JNum 2)]))"
    by (simp add: JSONEqual_exact)
  have g: "currentGeneration (\<lambda>_. True) (JObj []) = 0" by (simp add: currentGeneration_def empty_meta_def)
  show ?thesis
    by (simp add: Update_def rejectDryRun_def ex_client_env_def readCurrentResource_def query_row_def
        ex_client_row_at sql_simps extractSpec_def json_codec_def Let_def WriteObject_production
        stored_proc_path_def callStoredProc_def run_proc_def pg_args_def params_of_object_def
        pgctl_write_def p_key_def suppression_check_def suppressed_iff upsert_def update_row_def
        bigint_succ_def neq g ex_client_row_def extractMetadata_def)
      (simp add: sm_ok_def set_generation_def empty_meta_def)
qed

theorem update_scope_witness:
  "\<exists>r. get_row (wdb (fst (Update ex_client_env (\<lambda>_. True) uidFromUUID json_codec (Inr [ex_gvk]) [] ex_update ex_client_world)))
        (gvkToString ex_gvk, ''n'', ''a'') = Some r \<and> currentGeneration (\<lambda>_. True) (Metadata r) = 1 \<and> UID r = 7"
proof -
  obtain w' obj' where u: "Update ex_client_env (\<lambda>_. True) uidFromUUID json_codec (Inr [ex_gvk]) [] ex_update ex_client_world = (w', obj', None)"
    and "sm_ok (\<lambda>_. True) (objMeta obj')" using ex_update_success by blast
  from update_scope [OF ex_client_wf u _ refl this(2), of ex_gvk]
  obtain e r sp where "get_row (wdb ex_client_world) (gvkToString ex_gvk, ''n'', ''a'') = Some e"
    "get_row (wdb w') (gvkToString ex_gvk, ''n'', ''a'') = Some r" "extractSpec json_codec ex_update = Inr sp"
    "UID r = UID e" "currentGeneration (\<lambda>_. True) (Metadata r) =
      (if JSONEqual (RDoc (Spec e)) (RDoc sp) then Generation (objMeta ex_update)
       else currentGeneration (\<lambda>_. True) (Metadata e) + 1)" by auto
  moreover have "\<not> JSONEqual (RDoc (JObj [(''x'', JNum 1)])) (RDoc (JObj [(''x'', JNum 2)]))"
    by (simp add: JSONEqual_exact)
  moreover have "extractSpec json_codec ex_update = Inr (JObj [(''x'', JNum 2)])"
    by (simp add: extractSpec_def json_codec_def)
  moreover have "currentGeneration (\<lambda>_. True) (JObj []) = 0"
    by (simp add: currentGeneration_def empty_meta_def)
  ultimately show ?thesis by (auto simp: u ex_client_row_at ex_client_row_def)
qed

text \<open>What the caller's types must do: decode what they encode, into the zero value of the type.\<close>

definition codec_law :: "('s, 't) codec \<Rightarrow> ('s, 't) object \<Rightarrow> ('s, 't) object \<Rightarrow> bool" where
  "codec_law cd obj zero \<longleftrightarrow>
     (case objSpec obj of
        None \<Rightarrow> objSpec zero = None
      | Some s \<Rightarrow> (\<exists>s0. objSpec zero = Some s0 \<and>
          (\<forall>j. enc_spec cd s = Inr j \<longrightarrow> (if canon j = JObj [] then s0 = s else dec_spec cd (canon j) s0 = Inr s)))) \<and>
     (case objStatus obj of
        None \<Rightarrow> objStatus zero = None
      | Some t \<Rightarrow> (\<exists>t0. objStatus zero = Some t0 \<and>
          (\<forall>j. enc_status cd t = Inr j \<longrightarrow> (if canon j = JObj [] then t0 = t else dec_status cd (canon j) t0 = Inr t))))"

lemma inject_codec:
  assumes "codec_law cd obj zero" "extractSpec cd obj = Inr sp" "extractStatus cd obj = Inr st"
    and "objSpec x = objSpec zero" "objStatus x = objStatus zero"
  shows "injectSpecStatus cd (canon sp) (canon st) x = Inr (x\<lparr>objSpec := objSpec obj, objStatus := objStatus obj\<rparr>)"
proof -
  have "(if canon sp = JObj [] then Inr x
         else (case objSpec x of None \<Rightarrow> Inr x
               | Some s \<Rightarrow> (case dec_spec cd (canon sp) s of Inl e \<Rightarrow> Inl (''unmarshal spec: '' @ e)
                            | Inr s' \<Rightarrow> Inr (x\<lparr>objSpec := Some s'\<rparr>)))) = Inr (x\<lparr>objSpec := objSpec obj\<rparr>)"
    using assms by (auto simp: codec_law_def extractSpec_def split: option.splits if_splits)
  moreover have "(if canon st = JObj [] then Inr y
         else (case objStatus y of None \<Rightarrow> Inr y
               | Some t \<Rightarrow> (case dec_status cd (canon st) t of Inl e \<Rightarrow> Inl (''unmarshal status: '' @ e)
                            | Inr t' \<Rightarrow> Inr (y\<lparr>objStatus := Some t'\<rparr>)))) = Inr (y\<lparr>objStatus := objStatus obj\<rparr>)"
    if "y = x\<lparr>objSpec := objSpec obj\<rparr>" for y
    using assms that by (auto simp: codec_law_def extractStatus_def split: option.splits if_splits)
  ultimately show ?thesis by (simp add: injectSpecStatus_def Let_def)
qed

lemma Create_stores:
  assumes "wf_db (wdb w)" "Create env own us cd kinds dryRun gn obj w = (w', obj', None)"
    and "resolveGVK kinds = Inr g" "k = (gvkToString g, objNamespace obj, objName obj)"
  obtains sp st r where "extractSpecStatus cd obj = Inr (sp, st)" "get_row (wdb w') k = Some r"
    "Spec r = canon sp" "Status r = canon st" "Metadata r = canon (encode_meta (objMeta (set_generation 1 obj)))"
    "DeletionTimestamp r = None" "objRV obj' = FormatInt (ObjectVersion r)" "objUID obj' = uidFromUUID (UID r)"
    "get_row (wdb w) k = None \<Longrightarrow> ObjectVersion r = 1"
    "\<forall>k'. k' \<noteq> k \<longrightarrow> get_row (wdb w') k' = get_row (wdb w) k'"
proof -
  have ok: "rejectDryRun dryRun = None" "\<not> (objName obj = [] \<and> gn \<noteq> [])"
    using assms(2) by (auto simp: Create_def split: option.splits if_splits)
  have ok2: "(objName obj = [] \<and> gn \<noteq> []) = False" using ok(2) by blast
  obtain sp st where s: "extractSpecStatus cd obj = Inr (sp, st)"
    using assms(2,3) ok by (auto simp: Create_def Let_def split: sum.splits)
  have acq: "ce_acquire env = None"
    using assms(2,3) ok s by (auto simp: Create_def Let_def split: option.splits)
  let ?o = "set_generation 1 obj"
  let ?req = "\<lparr>wGVK = gvkToString g, wNamespace = objNamespace obj, wName = objName obj, wSpec = RDoc sp,
     wStatus = RDoc st, wMetadata = RDoc (extractMetadata ?o), wDeletionTimestamp = None, wExpectedVersion = 0,
     wForceWrite = False\<rparr>"
  let ?path = "stored_proc_path (\<lambda>g b. b) (env_net (ce_call env)) (env_uid (ce_call env))
      (env_now (ce_call env)) (params_of_write ?req) w"
  have cre: "Create env own us cd kinds dryRun gn obj w =
      (case ?path of
         (w1, Inl err) \<Rightarrow> after_write_error env own us cd w1 err g (objName obj) ?o
       | (w1, Inr res) \<Rightarrow> (w1, ?o\<lparr>objUID := uidFromUUID (resUID res), objRV := FormatInt (resVersion res),
             objCreated := ce_now env, objGVK := g\<rparr>, None))"
    using s acq assms(3) unfolding Create_def ok(1) ok2 by (simp add: Let_def Write_production)
  obtain res where res: "?path = (w', Inr res)" "objRV obj' = FormatInt (resVersion res)" "objUID obj' = uidFromUUID (resUID res)"
  proof (cases ?path)
    case (Pair w1 x)
    show ?thesis
    proof (cases x)
      case (Inl err)
      have "(w', obj', None) = after_write_error env own us cd w1 err g (objName obj) ?o"
        using cre assms(2) Pair Inl by simp
      then have "snd (snd (after_write_error env own us cd w1 err g (objName obj) ?o)) = None"
        by (metis snd_conv)
      then show ?thesis
        using after_write_error_Some [OF assms(1), of _ _ _ _ _ w1 err] Pair Inl by blast
    next
      case (Inr y)
      then show ?thesis using that cre assms(2) Pair by auto
    qed
  qed
  obtain a out where a: "pg_args (params_of_write ?req) = Inr a"
    and out: "pgctl_write (env_uid (ce_call env)) (env_now (ce_call env)) a (wdb w) = (wdb w', Inr out)"
    and rv: "resVersion res = out_version out" "resUID res = out_uid out"
    by (rule stored_proc_path_ok [OF res(1)])
  have f: "\<not> p_status_only a" "p_key a = k" "p_deletion_ts a = None" "p_status a = Some (canon st)"
    "p_spec a = Some (canon sp)" "p_metadata a = Some (canon (encode_meta (objMeta ?o)))" "p_expected_version a = 0"
    using pg_args_fields [OF a] assms(4) by (auto simp: params_of_write_def wp_key_def extractMetadata_def)
  obtain r where "get_row (wdb w') (p_key a) = Some r" "out_version out = ObjectVersion r" "out_uid out = UID r"
    "p_spec a = Some (Spec r) \<and> p_metadata a = Some (Metadata r)" "p_status a = Some (Status r)"
    "DeletionTimestamp r = None" "get_row (wdb w) k = None \<Longrightarrow> ObjectVersion r = 1"
    using pgctl_write_stores [OF out] f by (metis option.distinct(1))
  then show ?thesis using that [OF s] f rv res pgctl_write_frame [OF assms(1) out] by auto
qed

lemma Create_success:
  assumes "wf_db (wdb w)" "Create env own us cd kinds dryRun gn obj w = (w', obj', None)"
    and "resolveGVK kinds = Inr g" "k = (gvkToString g, objNamespace obj, objName obj)" "get_row (wdb w) k = None"
  obtains sp st r where "extractSpecStatus cd obj = Inr (sp, st)" "get_row (wdb w') k = Some r"
    "Spec r = canon sp" "Status r = canon st" "Metadata r = canon (encode_meta (objMeta (set_generation 1 obj)))"
    "DeletionTimestamp r = None" "ObjectVersion r = 1" "objRV obj' = FormatInt 1" "objUID obj' = uidFromUUID (UID r)"
  using Create_stores [OF assms(1-4)] assms(5) by metis

text \<open>C19: Read your writes: after a Create of an object that was not there, a Get into a zero object of
  the type gives back the same name, spec, status and metadata (maps in key order), generation
  1, the same resource version the created object was given, and no deletion timestamp, for
  every type whose JSON decodes what it encodes.\<close>

theorem create_then_get:
  assumes "wf_db (wdb w)" "Create env own us cd kinds dryRun gn obj w = (w', obj', None)"
    and "resolveGVK kinds = Inr g" "get_row (wdb w) (gvkToString g, objNamespace obj, objName obj) = None"
    and "codec_law cd obj zero" "sm_ok own (objMeta (set_generation 1 obj))"
    and "ce_acquire env2 = None" "ce_query env2 = None" "objDeletion zero = None"
  shows "\<exists>got. Get env2 own us cd kinds (wdb w') (objNamespace obj, objName obj) zero = (got, None) \<and>
    objName got = objName obj \<and> objNamespace got = objNamespace obj \<and> objSpec got = objSpec obj \<and>
    objStatus got = objStatus obj \<and> objMeta got = norm_meta (objMeta (set_generation 1 obj)) \<and>
    Generation (objMeta got) = 1 \<and> objRV got = objRV obj' \<and> objDeletion got = None \<and> objGVK got = g"
proof -
  obtain sp st r where s: "extractSpecStatus cd obj = Inr (sp, st)"
    and r: "get_row (wdb w') (gvkToString g, objNamespace obj, objName obj) = Some r"
    "Spec r = canon sp" "Status r = canon st" "Metadata r = canon (encode_meta (objMeta (set_generation 1 obj)))"
    "DeletionTimestamp r = None" "ObjectVersion r = 1" "objRV obj' = FormatInt 1" "objUID obj' = uidFromUUID (UID r)"
    by (rule Create_success [OF assms(1-3) refl assms(4)])
  have e: "extractSpec cd obj = Inr sp" "extractStatus cd obj = Inr st"
    using s by (auto simp: extractSpecStatus_def split: sum.splits)
  have md: "decode_meta own (Metadata r) = Some (norm_meta (objMeta (set_generation 1 obj)))"
    using decode_encode_meta [OF assms(6)] r(4) by simp
  have key: "Name r = objName obj" "Namespace r = objNamespace obj"
    using get_row_key [OF r(1)] by (simp_all add: rkey_def)
  let ?x = "(populateObjectMeta own us r zero)\<lparr>objGVK := g\<rparr>"
  have x: "populateObjectMeta own us r zero = zero\<lparr>objName := objName obj, objNamespace := objNamespace obj,
      objUID := us (UID r), objRV := FormatInt 1, objCreated := CreatedAt r,
      objMeta := norm_meta (objMeta (set_generation 1 obj))\<rparr>"
    by (simp add: populateObjectMeta_def md key r(5,6) Let_def)
  have "populateObject own us cd r g zero = Inr (?x\<lparr>objSpec := objSpec obj, objStatus := objStatus obj\<rparr>)"
    unfolding populateObject_def r(2,3)
    by (rule inject_codec [OF assms(5) e]) (simp_all add: x)
  then have "Get env2 own us cd kinds (wdb w') (objNamespace obj, objName obj) zero =
      (?x\<lparr>objSpec := objSpec obj, objStatus := objStatus obj\<rparr>, None)"
    using assms(3,7,8) r(1,5) by (simp add: Get_def query_row_def isFullyDeleted_def populate_into_def)
  then show ?thesis
    using assms(9) r(7) by (simp add: x) (simp add: norm_meta_def)
qed

definition ex_zero :: "(json, json) object" where
  "ex_zero = ex_object\<lparr>objName := [], objNamespace := [], objSpec := Some JNull, objStatus := Some (JObj [])\<rparr>"

definition ex_new_world :: "unit world" where
  "ex_new_world = \<lparr>wdb = empty_db, wbell = None, wmet = None\<rparr>"

theorem create_then_get_witness:
  "\<exists>got. Get ex_client_env (\<lambda>_. True) uidFromUUID json_codec (Inr [ex_gvk])
     (wdb (fst (Create ex_client_env (\<lambda>_. True) uidFromUUID json_codec (Inr [ex_gvk]) [] [] ex_object ex_new_world)))
     (objNamespace ex_object, objName ex_object) ex_zero = (got, None) \<and> objSpec got = Some (JObj [(''x'', JNum 1)])"
proof -
  let ?c = "Create ex_client_env (\<lambda>_. True) uidFromUUID json_codec (Inr [ex_gvk]) [] [] ex_object ex_new_world"
  have "snd (snd ?c) = None"
    by (simp add: Create_def rejectDryRun_def ex_object_def extractSpecStatus_def extractSpec_def extractStatus_def
        json_codec_def ex_client_env_def Let_def Write_production stored_proc_path_def callStoredProc_def
        run_proc_def pg_args_def params_of_write_def pgctl_write_def p_key_def suppression_check_def upsert_def
        insert_row_def ex_new_world_def empty_db_def get_row_def extractMetadata_def set_generation_def)
  then have c: "?c = (fst ?c, fst (snd ?c), None)" by (metis prod.collapse)
  have wf: "wf_db (wdb ex_new_world)" "get_row (wdb ex_new_world) k = None" for k
    by (simp_all add: ex_new_world_def) (simp add: empty_db_def get_row_def)
  have law: "codec_law json_codec ex_object ex_zero"
    by (simp add: codec_law_def json_codec_def ex_object_def ex_zero_def)
  have sm: "sm_ok (\<lambda>_. True) (objMeta (set_generation 1 ex_object))"
    by (simp add: sm_ok_def ex_object_def set_generation_def empty_meta_def)
  have d: "objDeletion ex_zero = None" "ce_acquire ex_client_env = None" "ce_query ex_client_env = None"
    by (simp_all add: ex_zero_def ex_object_def ex_client_env_def)
  have k: "resolveGVK (Inr [ex_gvk]) = Inr ex_gvk" by simp
  have sp: "objSpec ex_object = Some (JObj [(''x'', JNum 1)])" by (simp add: ex_object_def)
  from create_then_get [OF wf(1) c k wf(2) law sm d(2,3,1)] sp show ?thesis by auto
qed

section \<open>Stale versions\<close>

lemma pgctl_write_stale:
  assumes "get_row d (p_key a) = Some e" "p_expected_version a \<noteq> 0" "p_expected_version a \<noteq> ObjectVersion e"
  shows "rows (fst (pgctl_write u now a d)) = rows d"
proof (cases "pgctl_write u now a d")
  case (Pair d' res)
  then show ?thesis
  proof (cases rule: pgctl_write_cases)
    case (written r)
    then show ?thesis
      using assms by (auto simp: upsert_def branch_defs split: branch_splits insert_result.splits)
  qed (simp_all add: Pair)
qed

lemma stored_proc_path_stale:
  assumes "get_row (wdb w) (wp_key p) = Some e" "wp_expectedVersion p \<noteq> 0" "wp_expectedVersion p \<noteq> ObjectVersion e"
    and "stored_proc_path ring nt u now p w = (w', res)"
  shows "rows (wdb w') = rows (wdb w)"
proof -
  have "rows (fst (run_proc u now p (wdb w))) = rows (wdb w)"
    using assms(1-3) pg_args_fields [of p]
    by (cases "pg_args p") (auto simp: run_proc_def intro: pgctl_write_stale)
  then show ?thesis
    using assms(4)
    by (auto simp: stored_proc_path_def callStoredProc_def Let_def split: net.splits prod.splits sum.splits if_splits)
qed

lemma fst_after_write_error [simp]: "fst (after_write_error env own us cd w err g name obj) = w"
  by (simp add: after_write_error_def split: sum.splits)

lemma Update_world:
  assumes "Update env own us cd kinds dryRun obj w = (w', obj', err)"
    and "resolveGVK kinds = Inr g" "parseResourceVersion obj = Inr v"
  shows "w' = w \<or> (\<exists>req res. WriteObject (\<lambda>g b. b) None (ce_call env) req w = (w', res) \<and>
    oExpectedVersion req = v \<and> (oGVK req, oNamespace req, oName req) = (gvkToString g, objNamespace obj, objName obj))"
proof -
  have "fst (Update env own us cd kinds dryRun obj w) = w \<or>
    (\<exists>req. fst (Update env own us cd kinds dryRun obj w) = fst (WriteObject (\<lambda>g b. b) None (ce_call env) req w) \<and>
      oExpectedVersion req = v \<and> (oGVK req, oNamespace req, oName req) = (gvkToString g, objNamespace obj, objName obj))"
  proof (cases "\<exists>cur sp. rejectDryRun dryRun = None \<and> ce_acquire env = None \<and>
      readCurrentResource env (wdb w) (gvkToString g, objNamespace obj, objName obj) = Inr (Some cur) \<and>
      extractSpec cd obj = Inr sp")
    case True
    then obtain cur sp where c: "rejectDryRun dryRun = None" "ce_acquire env = None"
      "readCurrentResource env (wdb w) (gvkToString g, objNamespace obj, objName obj) = Inr (Some cur)"
      "extractSpec cd obj = Inr sp" by blast
    let ?o = "update_object own cur sp obj"
    let ?req = "\<lparr>oGVK = gvkToString g, oNamespace = objNamespace ?o, oName = objName ?o, oSpec = RDoc sp,
       oMetadata = RDoc (extractMetadata ?o), oDeletionTimestamp = DeletionTimestamp cur, oExpectedVersion = v,
       oForceWrite = False\<rparr>"
    have "fst (Update env own us cd kinds dryRun obj w) = fst (WriteObject (\<lambda>g b. b) None (ce_call env) ?req w)"
      using c assms(2,3)
      by (auto simp: Update_def update_object_def [symmetric] Let_def split: prod.split sum.split)
    moreover have "objNamespace ?o = objNamespace obj" "objName ?o = objName obj"
      by (simp_all add: update_object_def)
    ultimately show ?thesis by (intro disjI2 exI [of _ ?req]) simp
  next
    case False
    then have "fst (Update env own us cd kinds dryRun obj w) = w"
      using assms(2,3) by (auto simp: Update_def split: option.split sum.split)
    then show ?thesis by blast
  qed
  then show ?thesis using assms(1) by (metis fst_conv surj_pair)
qed

text \<open>A stale update never writes. When the object carries a version that is not the stored one,
  Update changes no row, whatever the network does; if it reports success then because the
  stored content already is what the caller wants.\<close>

theorem stale_update_never_writes:
  assumes "get_row (wdb w) (gvkToString g, objNamespace obj, objName obj) = Some e" "resolveGVK kinds = Inr g"
    and "parseResourceVersion obj = Inr v" "v \<noteq> ObjectVersion e"
    and "Update env own us cd kinds dryRun obj w = (w', obj', err)"
  shows "rows (wdb w') = rows (wdb w) \<and>
    (wf_db (wdb w) \<and> err = None \<longrightarrow> (\<exists>sp. extractSpec cd obj = Inr sp \<and> canon sp = Spec e))"
proof -
  let ?k = "(gvkToString g, objNamespace obj, objName obj)"
  have rows: "rows (wdb w') = rows (wdb w)"
    using Update_world [OF assms(5,2,3)]
  proof (elim disjE exE conjE)
    fix req res
    assume req: "WriteObject (\<lambda>g b. b) None (ce_call env) req w = (w', res)" "oExpectedVersion req = v"
      "(oGVK req, oNamespace req, oName req) = ?k"
    show ?thesis
    proof (cases "v = 0")
      case False
      then show ?thesis
        using stored_proc_path_stale [of w "params_of_object req" e] assms(1,4) req
        by (auto simp: WriteObject_production params_of_object_def wp_key_def)
    qed (use req in \<open>simp add: WriteObject_def\<close>)
  qed simp
  moreover have "\<exists>sp. extractSpec cd obj = Inr sp \<and> canon sp = Spec e" if wf: "wf_db (wdb w)" and none: "err = None"
  proof -
    obtain e2 sp r where "extractSpec cd obj = Inr sp" "get_row (wdb w') ?k = Some r" "Spec r = canon sp"
      using Update_success [OF wf _ assms(2) refl] assms(5) none by metis
    moreover have "get_row (wdb w') ?k = Some e" using rows assms(1) by (simp add: get_row_def)
    ultimately show ?thesis by auto
  qed
  ultimately show ?thesis by blast
qed

theorem stale_update_never_writes_witness:
  "rows (wdb (fst (Update ex_client_env (\<lambda>_. True) uidFromUUID json_codec (Inr [ex_gvk]) []
     (ex_update\<lparr>objRV := rv_string \<lparr>rvObjectVersion = 3, rvWatermark = 9\<rparr>\<rparr>) ex_client_world))) = [ex_client_row]"
proof -
  let ?o = "ex_update\<lparr>objRV := rv_string \<lparr>rvObjectVersion = 3, rvWatermark = 9\<rparr>\<rparr>"
  have "Parse (rv_string \<lparr>rvObjectVersion = 3, rvWatermark = 9\<rparr>) = Inr \<lparr>rvObjectVersion = 3, rvWatermark = 9\<rparr>"
    by (rule Parse_rv_string) simp_all
  then have p: "parseResourceVersion ?o = Inr 3"
    using not_digits by (simp add: parseResourceVersion_def rv_string_def ParseUint_def)
  have k: "get_row (wdb ex_client_world) (gvkToString ex_gvk, objNamespace ?o, objName ?o) = Some ex_client_row"
    using ex_client_row_at by simp
  have v: "(3 :: int) \<noteq> ObjectVersion ex_client_row" by (simp add: ex_client_row_def)
  have r: "resolveGVK (Inr [ex_gvk]) = Inr ex_gvk" by simp
  show ?thesis
    using stale_update_never_writes [OF k r p v, of ex_client_env "\<lambda>_. True" uidFromUUID json_codec "[]"]
    by (metis ex_client_world_def surjective_pairing world.select_convs(1) db.select_convs(1) db.surjective db.update_convs(1))
qed

text \<open>Deleting a dying object again with an explicit version moves its deletion timestamp.\<close>

definition ex_dying_world :: "unit world" where
  "ex_dying_world = \<lparr>wdb = ex_db\<lparr>rows := [ex_client_row\<lparr>DeletionTimestamp := Some 5,
     Metadata := JObj [(''finalizers'', JArr [JStr ''f''])]\<rparr>]\<rparr>, wbell = None, wmet = None\<rparr>"

definition ex_dying :: "(json, json) object" where
  "ex_dying = ex_object\<lparr>objRV := ''1'', objMeta := empty_meta\<lparr>Finalizers := [''f'']\<rparr>\<rparr>"

lemma delete_with_version_moves_timestamp:
  "\<exists>r. get_row (wdb (fst (Delete ex_client_env json_codec (Inr [ex_gvk]) no_delete_options ex_dying ex_dying_world)))
       (gvkToString ex_gvk, ''n'', ''a'') = Some r \<and> DeletionTimestamp r = Some 60"
proof -
  have o: "objNamespace ex_dying = ''n''" "objName ex_dying = ''a''" "parseResourceVersion ex_dying = Inr 1"
    "extractSpecStatus json_codec ex_dying = Inr (JObj [(''x'', JNum 1)], JObj [])"
    "extractMetadata ex_dying = JObj [(''finalizers'', JArr [JStr ''f''])]"
    by (simp_all add: ex_dying_def ex_object_def parseResourceVersion_def ParseUint_one extractSpecStatus_def
        extractSpec_def extractStatus_def json_codec_def extractMetadata_def encode_meta_def omit_def empty_meta_def)
  show ?thesis
    by (simp add: Delete_def rejectUnsupportedDeleteOpts_def rejectDryRun_def no_delete_options_def
        ex_client_env_def o delete_source_def Let_def Write_production stored_proc_path_def callStoredProc_def
        run_proc_def pg_args_def params_of_write_def pgctl_write_def p_key_def suppression_check_def suppressed_iff
        upsert_def update_row_def bigint_succ_def ex_client_row_def ex_dying_world_def get_row_def rkey_def
        put_row_def put_by_def)
qed

end
