(* ===== verification/FieldSelector.thy ===== *)
theory FieldSelector
  imports Convert
begin

text \<open>
  src/pkg/pgruntime/fieldselector.go: field selectors as SQL text with numbered parameters. A
  requirement is its field, operator (the string of selection.Operator) and value. Strings are
  built as the source builds them, so that what reaches the database can be read off the
  definitions.
\<close>

record requirement =
  reqField :: string
  reqOperator :: string
  reqValue :: string

datatype fs_error =
    UnsupportedOperator string
  | InvalidSelector string
  | UnsupportedRoot string
  | InvalidSegment string

text \<open>The regular expression for a path segment: a letter or underscore, then letters, digits, underscores.\<close>

definition is_letter :: "char \<Rightarrow> bool" where
  "is_letter c \<longleftrightarrow>
     (let n = (of_char c :: nat) in (65 \<le> n \<and> n \<le> 90) \<or> (97 \<le> n \<and> n \<le> 122) \<or> n = 95)"

fun validPathSegment :: "string \<Rightarrow> bool" where
  "validPathSegment [] = False"
| "validPathSegment (c # cs) = (is_letter c \<and> list_all (\<lambda>d. is_letter d \<or> is_digit d) cs)"

text \<open>strings.Split on one character.\<close>

fun split_on :: "char \<Rightarrow> string \<Rightarrow> string list" where
  "split_on sep [] = [[]]"
| "split_on sep (c # cs) =
     (if c = sep then [] # split_on sep cs
      else (case split_on sep cs of [] \<Rightarrow> [[c]] | p # ps \<Rightarrow> (c # p) # ps))"

definition quoted :: "string \<Rightarrow> string" where
  "quoted s = CHR 0x27 # s @ [CHR 0x27]"

text \<open>The builder loop: every segment but the last by \<open>->\<close>, the last by \<open>->>\<close>.\<close>

fun path_text :: "string list \<Rightarrow> string" where
  "path_text [] = []"
| "path_text [s] = ''->>'' @ quoted s"
| "path_text (s # ss) = ''->'' @ quoted s @ path_text ss"

definition jsonbPathToSQL :: "string \<Rightarrow> string \<Rightarrow> fs_error + string" where
  "jsonbPathToSQL column path =
     (let segments = split_on CHR ''.'' path
      in case find (\<lambda>s. \<not> validPathSegment s) segments of
           Some s \<Rightarrow> Inl (InvalidSegment s)
         | None \<Rightarrow>
             if length segments = 1 then Inr (column @ ''->>'' @ quoted (hd segments))
             else Inr (column @ path_text segments))"

definition metadataFieldToSQL :: "string \<Rightarrow> fs_error + string" where
  "metadataFieldToSQL field =
     (if field = ''name'' then Inr ''name''
      else if field = ''namespace'' then Inr ''namespace''
      else jsonbPathToSQL ''metadata'' field)"

definition fieldPathToSQL :: "string \<Rightarrow> fs_error + string" where
  "fieldPathToSQL field =
     (case SplitN CHR ''.'' 2 field of
        [root, rest] \<Rightarrow>
          if root = ''metadata'' then metadataFieldToSQL rest
          else if root = ''spec'' then jsonbPathToSQL ''spec'' rest
          else if root = ''status'' then jsonbPathToSQL ''status'' rest
          else Inl (UnsupportedRoot root)
      | _ \<Rightarrow> Inl (InvalidSelector field))"

definition selectionOpToSQL :: "string \<Rightarrow> fs_error + string" where
  "selectionOpToSQL op =
     (if op = ''='' \<or> op = ''=='' then Inr ''=''
      else if op = ''!='' then Inr ''!=''
      else Inl (UnsupportedOperator op))"

definition fieldRequirementToSQL :: "string \<Rightarrow> string \<Rightarrow> nat \<Rightarrow> fs_error + string" where
  "fieldRequirementToSQL field op paramIdx =
     (case selectionOpToSQL op of
        Inl e \<Rightarrow> Inl e
      | Inr sqlOp \<Rightarrow>
          (case fieldPathToSQL field of
             Inl e \<Rightarrow> Inl e
           | Inr col \<Rightarrow> Inr (col @ '' '' @ sqlOp @ '' $'' @ dec paramIdx)))"

fun buildFieldSelectorFilter :: "requirement list \<Rightarrow> nat \<Rightarrow> fs_error + (string list \<times> string list)" where
  "buildFieldSelectorFilter [] paramIdx = Inr ([], [])"
| "buildFieldSelectorFilter (q # qs) paramIdx =
     (case fieldRequirementToSQL (reqField q) (reqOperator q) paramIdx of
        Inl e \<Rightarrow> Inl e
      | Inr clause \<Rightarrow>
          (case buildFieldSelectorFilter qs (paramIdx + 1) of
             Inl e \<Rightarrow> Inl e
           | Inr (clauses, args) \<Rightarrow> Inr (clause # clauses, reqValue q # args)))"

section \<open>What the text means\<close>

text \<open>
  The value of the column expression on a row; \<open>jt\<close> is PostgreSQL's text of an array or an
  object. A path step into anything but an object is NULL.
\<close>

fun as_text :: "(json \<Rightarrow> string) \<Rightarrow> json option \<Rightarrow> string option" where
  "as_text jt None = None"
| "as_text jt (Some JNull) = None"
| "as_text jt (Some (JStr s)) = Some s"
| "as_text jt (Some (JBool b)) = Some (if b then ''true'' else ''false'')"
| "as_text jt (Some (JNum n)) = Some (FormatInt n)"
| "as_text jt (Some j) = Some (jt j)"

fun jpath :: "string list \<Rightarrow> json option \<Rightarrow> json option" where
  "jpath [] j = j"
| "jpath (s # ss) None = None"
| "jpath (s # ss) (Some j) = jpath ss (jget s j)"

definition field_value :: "(json \<Rightarrow> string) \<Rightarrow> string \<Rightarrow> resource \<Rightarrow> string option" where
  "field_value jt field r =
     (if field = ''metadata.name'' then Some (Name r)
      else if field = ''metadata.namespace'' then Some (Namespace r)
      else (case split_on CHR ''.'' field of
              root # segs \<Rightarrow>
                as_text jt (jpath segs (Some (if root = ''metadata'' then Metadata r
                                              else if root = ''spec'' then Spec r else Status r)))
            | [] \<Rightarrow> None))"

definition requirement_sql :: "(json \<Rightarrow> string) \<Rightarrow> requirement \<Rightarrow> resource \<Rightarrow> sqlbool" where
  "requirement_sql jt q r =
     (let eq = sql_eq (field_value jt (reqField q) r) (Some (reqValue q))
      in if reqOperator q = ''!='' then sql_not eq else eq)"

section \<open>Safety\<close>

definition safe_column :: "string \<Rightarrow> bool" where
  "safe_column col \<longleftrightarrow>
     col = ''name'' \<or> col = ''namespace'' \<or>
     (\<exists>column segs. column \<in> {''metadata'', ''spec'', ''status''} \<and> segs \<noteq> [] \<and>
        list_all validPathSegment segs \<and> col = column @ path_text segs)"

lemma split_on_nonempty: "split_on sep s \<noteq> []"
  by (cases s) (auto split: list.splits)

lemma jsonbPath_safe:
  assumes "jsonbPathToSQL column path = Inr col" "column \<in> {''metadata'', ''spec'', ''status''}"
  shows "safe_column col"
proof -
  let ?segs = "split_on CHR ''.'' path"
  have "list_all validPathSegment ?segs"
    using assms(1) by (auto simp: jsonbPathToSQL_def Let_def list_all_iff find_None_iff split: option.splits)
  moreover have "col = column @ path_text ?segs"
  proof (cases "length ?segs = 1")
    case True
    then obtain s where "?segs = [s]" by (auto simp: length_Suc_conv)
    then show ?thesis using assms(1) by (auto simp: jsonbPathToSQL_def Let_def split: option.splits if_splits)
  qed (use assms(1) in \<open>auto simp: jsonbPathToSQL_def Let_def split: option.splits\<close>)
  ultimately show ?thesis using assms(2) split_on_nonempty unfolding safe_column_def by blast
qed

lemma safe_simple: "safe_column ''name''" "safe_column ''namespace''"
  by (simp_all add: safe_column_def)

lemma metadataField_safe: "metadataFieldToSQL f = Inr col \<Longrightarrow> safe_column col"
  using jsonbPath_safe [of "''metadata''" f col] safe_simple
  by (simp add: metadataFieldToSQL_def split: if_splits)

lemma fieldPath_safe:
  assumes "fieldPathToSQL field = Inr col"
  shows "safe_column col"
proof -
  obtain root rest where "SplitN CHR ''.'' 2 field = [root, rest]"
    using assms by (cases "SplitN CHR ''.'' 2 field" rule: remdups_adj.cases)
      (auto simp: fieldPathToSQL_def split: list.splits)
  then consider "metadataFieldToSQL rest = Inr col" | "jsonbPathToSQL ''spec'' rest = Inr col"
    | "jsonbPathToSQL ''status'' rest = Inr col"
    using assms by (auto simp: fieldPathToSQL_def split: if_splits)
  then show ?thesis by cases (auto intro: metadataField_safe jsonbPath_safe)
qed

lemma fieldRequirement_safe:
  "fieldRequirementToSQL f op i = Inr c \<Longrightarrow>
     \<exists>col opr. c = col @ '' '' @ opr @ '' $'' @ dec i \<and> opr \<in> {''='', ''!=''} \<and> safe_column col"
  by (auto simp: fieldRequirementToSQL_def selectionOpToSQL_def split: sum.splits if_splits dest: fieldPath_safe)


definition ex_selector :: "requirement list" where
  "ex_selector = [\<lparr>reqField = ''metadata.name'', reqOperator = ''=='', reqValue = ''a''\<rparr>,
     \<lparr>reqField = ''spec.a.b'', reqOperator = ''!='', reqValue = ''1; DROP TABLE x''\<rparr>]"

lemma ex_selector_sql:
  "buildFieldSelectorFilter ex_selector 2 =
     Inr ([''name = $2'', ''spec->'' @ quoted ''a'' @ ''->>'' @ quoted ''b'' @ '' != $3''], [''a'', ''1; DROP TABLE x''])"
  by (simp add: ex_selector_def fieldRequirementToSQL_def selectionOpToSQL_def fieldPathToSQL_def
      metadataFieldToSQL_def jsonbPathToSQL_def is_letter_def Let_def dec.simps digit_def numeral_2_eq_2 char_of_def bit_Suc_0_iff)


end
