(* ===== verification/JsonText.thy ===== *)
theory JsonText
  imports Json ResourceVersion
begin

text \<open>
  The text encoding/json writes for a document (json.Marshal): compact, strings quoted with
  Go's HTML-safe escapes, the keys of a Go map in byte order. Texts are bytes; a byte from 128
  on is copied, which is what Go does for valid UTF-8 other than U+2028 and U+2029. The length
  of the text of an object is the sum of its members', in whatever order the map was filled.
\<close>

section \<open>Strings\<close>

definition u_escape :: "nat \<Rightarrow> string" where
  "u_escape n = CHR 0x5C # ''u00'' @ [hex_digit (n div 16), hex_digit (n mod 16)]"

definition escape_char :: "char \<Rightarrow> string" where
  "escape_char c =
     (let n = (of_char c :: nat) in
      if n = 0x22 \<or> n = 0x5C then [CHR 0x5C, c]
      else if n = 8 then CHR 0x5C # ''b''
      else if n = 12 then CHR 0x5C # ''f''
      else if n = 10 then CHR 0x5C # ''n''
      else if n = 13 then CHR 0x5C # ''r''
      else if n = 9 then CHR 0x5C # ''t''
      else if n < 32 \<or> n = 0x3C \<or> n = 0x3E \<or> n = 0x26 then u_escape n
      else [c])"

definition quote :: "string \<Rightarrow> string" where
  "quote s = CHR 0x22 # concat (map escape_char s) @ [CHR 0x22]"

text \<open>Bytes that are written as they are.\<close>

definition plain_char :: "char \<Rightarrow> bool" where
  "plain_char c \<longleftrightarrow> (let n = (of_char c :: nat) in 32 \<le> n \<and> n \<noteq> 0x22 \<and> n \<noteq> 0x5C \<and> n \<noteq> 0x3C \<and> n \<noteq> 0x3E \<and> n \<noteq> 0x26)"

lemma escape_plain: "plain_char c \<Longrightarrow> escape_char c = [c]"
  by (auto simp: plain_char_def escape_char_def Let_def)

lemma quote_plain: "list_all plain_char s \<Longrightarrow> quote s = CHR 0x22 # s @ [CHR 0x22]"
  by (induction s) (auto simp: quote_def escape_plain)

lemma length_escape: "1 \<le> length (escape_char c)"
  by (simp add: escape_char_def u_escape_def Let_def)

lemma length_quote: "length s + 2 \<le> length (quote s)"
proof -
  have "length s \<le> length (concat (map escape_char s))"
  proof (induction s)
    case (Cons c s)
    then show ?case using length_escape [of c] by simp
  qed simp
  then show ?thesis by (simp add: quote_def)
qed

section \<open>Documents\<close>

fun commas :: "string list \<Rightarrow> string" where
  "commas [] = []"
| "commas [x] = x"
| "commas (x # xs) = x @ '','' @ commas xs"

fun print_json :: "json \<Rightarrow> string" where
  "print_json JNull = ''null''"
| "print_json (JBool b) = (if b then ''true'' else ''false'')"
| "print_json (JNum n) = FormatInt n"
| "print_json (JStr s) = quote s"
| "print_json (JArr xs) = ''['' @ commas (map print_json xs) @ '']''"
| "print_json (JObj kvs) = CHR 0x7B # commas (map (\<lambda>(k, v). quote k @ '':'' @ print_json v) kvs) @ [CHR 0x7D]"

text \<open>json.Marshal of a document made of Go maps: their keys are sorted.\<close>

definition Marshal :: "json \<Rightarrow> string" where
  "Marshal j = print_json (canon j)"

section \<open>Lengths\<close>

lemma length_commas: "length (commas xs) = sum_list (map length xs) + (length xs - 1)"
  by (induction xs rule: commas.induct) auto

text \<open>The text of one member of an object.\<close>

definition member_len :: "string \<times> json \<Rightarrow> nat" where
  "member_len kv = length (quote (fst kv)) + 1 + length (Marshal (snd kv))"

definition map_len :: "(string \<times> json) list \<Rightarrow> nat" where
  "map_len kvs = 2 + sum_list (map member_len kvs) + (length kvs - 1)"

lemma mset_obj_ins: "k \<notin> fst ` set r \<Longrightarrow> mset (obj_ins k v r) = add_mset (k, v) (mset r)"
  by (induction k v r rule: obj_ins.induct) auto

lemma fst_norm_obj: "fst ` set (norm_obj kvs) = fst ` set kvs"
proof (induction kvs rule: rev_induct)
  case (snoc kv kvs)
  then show ?case by (cases kv) (simp add: norm_obj_snoc set_obj_ins)
qed simp

lemma mset_norm_obj: "distinct (map fst kvs) \<Longrightarrow> mset (norm_obj kvs) = mset kvs"
proof (induction kvs rule: rev_induct)
  case (snoc kv kvs)
  then have "fst kv \<notin> fst ` set (norm_obj kvs)" by (simp add: fst_norm_obj)
  with snoc show ?case by (cases kv) (simp add: norm_obj_snoc mset_obj_ins)
qed simp

lemma length_print_obj:
  "length (print_json (JObj kvs)) =
     2 + sum_list (map (\<lambda>(k, v). length (quote k) + 1 + length (print_json v)) kvs) + (length kvs - 1)"
proof -
  have "map length (map (\<lambda>(k, v). quote k @ '':'' @ print_json v) kvs) =
      map (\<lambda>(k, v). length (quote k) + 1 + length (print_json v)) kvs"
    by auto
  then show ?thesis by (simp only: print_json.simps length_append list.size length_commas length_map)
qed

lemma length_Marshal_obj:
  assumes "distinct (map fst kvs)"
  shows "length (Marshal (JObj kvs)) = map_len kvs"
proof -
  let ?m = "map (\<lambda>(k, v). (k, canon v)) kvs"
  let ?len = "\<lambda>(k, v). length (quote k) + 1 + length (print_json v)"
  have "distinct (map fst ?m)" using assms by (simp add: comp_def case_prod_beta)
  then have ms: "mset (norm_obj ?m) = mset ?m" by (rule mset_norm_obj)
  then have "length (norm_obj ?m) = length kvs" using mset_eq_length [of "norm_obj ?m" ?m] by simp
  moreover have "sum_list (map ?len (norm_obj ?m)) = sum_list (map ?len ?m)"
  proof -
    have "sum_list (map ?len xs) = \<Sum>\<^sub># (image_mset ?len (mset xs))" for xs
      by (simp only: mset_map [symmetric] sum_mset_sum_list)
    then show ?thesis by (simp only: ms)
  qed
  moreover have "map ?len ?m = map member_len kvs"
    by (auto simp: member_len_def Marshal_def)
  ultimately show ?thesis
    by (simp only: Marshal_def canon.simps length_print_obj map_len_def)
qed

lemma map_len_Cons: "map_len (kv # kvs) = map_len kvs + member_len kv + (if kvs = [] then 0 else 1)"
  by (cases kvs) (simp_all add: map_len_def)

lemma map_len_snoc: "map_len (kvs @ [kv]) = map_len kvs + member_len kv + (if kvs = [] then 0 else 1)"
  by (cases kvs) (simp_all add: map_len_def)

lemma member_le_map_len: "(k, v) \<in> set kvs \<Longrightarrow> length (Marshal v) \<le> map_len kvs"
proof -
  assume "(k, v) \<in> set kvs"
  then have "member_len (k, v) \<le> sum_list (map member_len kvs)" by (auto intro: member_le_sum_list)
  then show ?thesis by (simp add: map_len_def member_len_def)
qed

lemma Marshal_str: "Marshal (JStr s) = quote s"
  by (simp add: Marshal_def)

end
