(* ===== verification/JsonParse.thy ===== *)
theory JsonParse
  imports JsonText
begin

text \<open>
  encoding/json reading a text: its scanner, a pushdown automaton that takes one byte at a time
  (begin of a value, inside a string, an escape, a number or a literal, end of a value) with a
  stack of the open objects and arrays, at most 10000 deep. A number keeps its literal, as the
  decoder does until it knows the field's type. Strings are read by unquote: escapes, UTF-16
  surrogate pairs as UTF-8, an unpaired surrogate as U+FFFD; bytes from 128 on are valid UTF-8.
  The automaton is structurally recursive in the text, so reading always ends. The last section
  shows that it reads back what json.Marshal writes.
\<close>

section \<open>Values and states\<close>

datatype text_value =
    TNull
  | TBool bool
  | TNum string
  | TStr string
  | TArr "text_value list"
  | TObj "(string \<times> text_value) list"

text \<open>What is open: an object before the colon of a member, an object after it, an array.\<close>

datatype frame =
    ObjectKey "(string \<times> text_value) list"
  | ObjectValue "(string \<times> text_value) list" string
  | ArrayValue "text_value list"

datatype num_state = NumNeg | NumZero | NumInt | NumDot | NumFrac | NumExp | NumExpSign | NumExpInt

datatype scan_state =
    BeginValue
  | BeginValueOrEmpty
  | BeginStringOrEmpty
  | BeginString
  | InString string
  | InStringEsc string
  | InStringEscU string nat
  | InNumber string num_state
  | InLiteral string text_value
  | EndValue text_value

type_synonym scan_conf = "scan_state \<times> frame list"

definition maxNestingDepth :: nat where
  "maxNestingDepth = 10000"

definition isSpace :: "char \<Rightarrow> bool" where
  "isSpace c \<longleftrightarrow> c = CHR 0x20 \<or> c = CHR 0x09 \<or> c = CHR 0x0A \<or> c = CHR 0x0D"

definition hex_val :: "char \<Rightarrow> nat option" where
  "hex_val c =
     (let n = (of_char c :: nat) in
      if 48 \<le> n \<and> n \<le> 57 then Some (n - 48)
      else if 97 \<le> n \<and> n \<le> 102 then Some (n - 87)
      else if 65 \<le> n \<and> n \<le> 70 then Some (n - 55)
      else None)"

section \<open>Strings\<close>

definition utf8 :: "nat \<Rightarrow> string" where
  "utf8 r =
     (if r < 0x80 then [char_of r]
      else if r < 0x800 then [char_of (0xC0 + r div 64), char_of (0x80 + r mod 64)]
      else if r < 0x10000 then
        [char_of (0xE0 + r div 4096), char_of (0x80 + (r div 64) mod 64), char_of (0x80 + r mod 64)]
      else
        [char_of (0xF0 + r div 262144), char_of (0x80 + (r div 4096) mod 64),
         char_of (0x80 + (r div 64) mod 64), char_of (0x80 + r mod 64)])"

text \<open>getu4: the value of an escape \<open>\u\<close> with four digits at the front of a text.\<close>

fun getu4 :: "string \<Rightarrow> nat option" where
  "getu4 (a # b # h1 # h2 # h3 # h4 # r) =
     (if a = CHR 0x5C \<and> b = CHR ''u'' then
        (case (hex_val h1, hex_val h2, hex_val h3, hex_val h4) of
           (Some x1, Some x2, Some x3, Some x4) \<Rightarrow> Some (((x1 * 16 + x2) * 16 + x3) * 16 + x4)
         | _ \<Rightarrow> None)
      else None)"
| "getu4 _ = None"

definition IsSurrogate :: "nat \<Rightarrow> bool" where
  "IsSurrogate r \<longleftrightarrow> 0xD800 \<le> r \<and> r < 0xE000"

text \<open>utf16.DecodeRune, None for the replacement character.\<close>

definition DecodeRune :: "nat \<Rightarrow> nat option \<Rightarrow> nat option" where
  "DecodeRune r1 r2 =
     (case r2 of
        None \<Rightarrow> None
      | Some r \<Rightarrow>
          if 0xD800 \<le> r1 \<and> r1 < 0xDC00 \<and> 0xDC00 \<le> r \<and> r < 0xE000
          then Some ((r1 - 0xD800) * 1024 + (r - 0xDC00) + 0x10000) else None)"

definition unescape :: "char \<Rightarrow> char" where
  "unescape e =
     (if e = CHR ''b'' then CHR 0x08 else if e = CHR ''f'' then CHR 0x0C
      else if e = CHR ''n'' then CHR 0x0A else if e = CHR ''r'' then CHR 0x0D
      else if e = CHR ''t'' then CHR 0x09 else e)"

text \<open>unquote: the string between two quotes that the scanner has accepted.\<close>

fun unquote :: "string \<Rightarrow> string" where
  "unquote [] = []"
| "unquote (c # s) =
     (if c \<noteq> CHR 0x5C then c # unquote s
      else (case s of
              [] \<Rightarrow> []
            | e # r \<Rightarrow>
                if e \<noteq> CHR ''u'' then unescape e # unquote r
                else (case getu4 (c # s) of
                        None \<Rightarrow> []
                      | Some rr \<Rightarrow>
                          if \<not> IsSurrogate rr then utf8 rr @ unquote (drop 4 r)
                          else (case DecodeRune rr (getu4 (drop 4 r)) of
                                  Some d \<Rightarrow> utf8 d @ unquote (drop 10 r)
                                | None \<Rightarrow> utf8 0xFFFD @ unquote (drop 4 r)))))"

section \<open>The scanner\<close>

definition num_next :: "num_state \<Rightarrow> char \<Rightarrow> num_state option" where
  "num_next s c =
     (case s of
        NumNeg \<Rightarrow> if c = CHR ''0'' then Some NumZero else if is_digit c then Some NumInt else None
      | NumZero \<Rightarrow> if c = CHR ''.'' then Some NumDot
                   else if c = CHR ''e'' \<or> c = CHR ''E'' then Some NumExp else None
      | NumInt \<Rightarrow> if is_digit c then Some NumInt else if c = CHR ''.'' then Some NumDot
                  else if c = CHR ''e'' \<or> c = CHR ''E'' then Some NumExp else None
      | NumDot \<Rightarrow> if is_digit c then Some NumFrac else None
      | NumFrac \<Rightarrow> if is_digit c then Some NumFrac
                   else if c = CHR ''e'' \<or> c = CHR ''E'' then Some NumExp else None
      | NumExp \<Rightarrow> if c = CHR ''+'' \<or> c = CHR ''-'' then Some NumExpSign
                  else if is_digit c then Some NumExpInt else None
      | NumExpSign \<Rightarrow> if is_digit c then Some NumExpInt else None
      | NumExpInt \<Rightarrow> if is_digit c then Some NumExpInt else None)"

definition num_final :: "num_state \<Rightarrow> bool" where
  "num_final s \<longleftrightarrow> s = NumZero \<or> s = NumInt \<or> s = NumFrac \<or> s = NumExpInt"

definition pushParseState :: "frame \<Rightarrow> scan_state \<Rightarrow> frame list \<Rightarrow> scan_conf option" where
  "pushParseState f k st = (if length st < maxNestingDepth then Some (k, f # st) else None)"

definition stateBeginValue :: "frame list \<Rightarrow> char \<Rightarrow> scan_conf option" where
  "stateBeginValue st c =
     (if isSpace c then Some (BeginValue, st)
      else if c = CHR 0x7B then pushParseState (ObjectKey []) BeginStringOrEmpty st
      else if c = CHR ''['' then pushParseState (ArrayValue []) BeginValueOrEmpty st
      else if c = CHR 0x22 then Some (InString [], st)
      else if c = CHR ''-'' then Some (InNumber [c] NumNeg, st)
      else if c = CHR ''0'' then Some (InNumber [c] NumZero, st)
      else if c = CHR ''t'' then Some (InLiteral ''rue'' (TBool True), st)
      else if c = CHR ''f'' then Some (InLiteral ''alse'' (TBool False), st)
      else if c = CHR ''n'' then Some (InLiteral ''ull'' TNull, st)
      else if is_digit c then Some (InNumber [c] NumInt, st)
      else None)"

text \<open>stateEndValue and, with nothing open, stateEndTop.\<close>

definition stateEndValue :: "text_value \<Rightarrow> frame list \<Rightarrow> char \<Rightarrow> scan_conf option" where
  "stateEndValue v st c =
     (if isSpace c then Some (EndValue v, st)
      else (case st of
              [] \<Rightarrow> None
            | ObjectKey kvs # r \<Rightarrow>
                (case v of TStr k \<Rightarrow> if c = CHR '':'' then Some (BeginValue, ObjectValue kvs k # r) else None
                         | _ \<Rightarrow> None)
            | ObjectValue kvs k # r \<Rightarrow>
                if c = CHR '','' then Some (BeginString, ObjectKey (kvs @ [(k, v)]) # r)
                else if c = CHR 0x7D then Some (EndValue (TObj (kvs @ [(k, v)])), r) else None
            | ArrayValue xs # r \<Rightarrow>
                if c = CHR '','' then Some (BeginValue, ArrayValue (xs @ [v]) # r)
                else if c = CHR '']'' then Some (EndValue (TArr (xs @ [v])), r) else None))"

definition stateBeginString :: "scan_state \<Rightarrow> frame list \<Rightarrow> char \<Rightarrow> scan_conf option" where
  "stateBeginString k st c =
     (if isSpace c then Some (k, st) else if c = CHR 0x22 then Some (InString [], st) else None)"

fun scan_step :: "scan_state \<Rightarrow> frame list \<Rightarrow> char \<Rightarrow> scan_conf option" where
  "scan_step BeginValue st c = stateBeginValue st c"
| "scan_step BeginValueOrEmpty st c =
     (if isSpace c then Some (BeginValueOrEmpty, st)
      else if c = CHR '']'' then Some (EndValue (TArr []), tl st)
      else stateBeginValue st c)"
| "scan_step BeginStringOrEmpty st c =
     (if c = CHR 0x7D then Some (EndValue (TObj []), tl st) else stateBeginString BeginStringOrEmpty st c)"
| "scan_step BeginString st c = stateBeginString BeginString st c"
| "scan_step (InString a) st c =
     (if c = CHR 0x22 then Some (EndValue (TStr (unquote a)), st)
      else if c = CHR 0x5C then Some (InStringEsc (a @ [c]), st)
      else if (of_char c :: nat) < 0x20 then None
      else Some (InString (a @ [c]), st))"
| "scan_step (InStringEsc a) st c =
     (if c = CHR ''u'' then Some (InStringEscU (a @ [c]) 4, st)
      else if c \<in> {CHR ''b'', CHR ''f'', CHR ''n'', CHR ''r'', CHR ''t'', CHR 0x5C, CHR ''/'', CHR 0x22}
      then Some (InString (a @ [c]), st) else None)"
| "scan_step (InStringEscU a n) st c =
     (case hex_val c of
        None \<Rightarrow> None
      | Some _ \<Rightarrow> Some (if n \<le> 1 then InString (a @ [c]) else InStringEscU (a @ [c]) (n - 1), st))"
| "scan_step (InNumber a s) st c =
     (case num_next s c of
        Some s' \<Rightarrow> Some (InNumber (a @ [c]) s', st)
      | None \<Rightarrow> if num_final s then stateEndValue (TNum a) st c else None)"
| "scan_step (InLiteral w v) st c =
     (if take 1 w = [c] then Some (if tl w = [] then EndValue v else InLiteral (tl w) v, st) else None)"
| "scan_step (EndValue v) st c = stateEndValue v st c"

fun scan :: "string \<Rightarrow> scan_conf \<Rightarrow> scan_conf option" where
  "scan [] q = Some q"
| "scan (c # s) (k, st) = (case scan_step k st c of None \<Rightarrow> None | Some q \<Rightarrow> scan s q)"

text \<open>The whole text: at its end the scanner takes a space and must be past the one value.\<close>

definition parse_text :: "string \<Rightarrow> text_value option" where
  "parse_text s =
     (case scan (s @ [CHR 0x20]) (BeginValue, []) of
        Some (EndValue v, []) \<Rightarrow> Some v
      | _ \<Rightarrow> None)"

section \<open>Reading what was written\<close>

text \<open>The value that the text of a document stands for, and how deep a document nests.\<close>

fun text_of :: "json \<Rightarrow> text_value" where
  "text_of JNull = TNull"
| "text_of (JBool b) = TBool b"
| "text_of (JNum n) = TNum (FormatInt n)"
| "text_of (JStr s) = TStr s"
| "text_of (JArr xs) = TArr (map text_of xs)"
| "text_of (JObj kvs) = TObj (map (\<lambda>(k, v). (k, text_of v)) kvs)"

fun json_depth :: "json \<Rightarrow> nat" where
  "json_depth (JArr xs) = Suc (Max (insert 0 (json_depth ` set xs)))"
| "json_depth (JObj kvs) = Suc (Max (insert 0 ((\<lambda>(k, v). json_depth v) ` set kvs)))"
| "json_depth _ = 0"

subsection \<open>Strings\<close>

lemma code_eq:
  "(of_char c :: nat) = 0x22 \<longleftrightarrow> c = CHR 0x22" "(of_char c :: nat) = 0x5C \<longleftrightarrow> c = CHR 0x5C"
  "(of_char c :: nat) = 8 \<longleftrightarrow> c = CHR 0x08" "(of_char c :: nat) = 12 \<longleftrightarrow> c = CHR 0x0C"
  "(of_char c :: nat) = 10 \<longleftrightarrow> c = CHR 0x0A" "(of_char c :: nat) = 13 \<longleftrightarrow> c = CHR 0x0D"
  "(of_char c :: nat) = 9 \<longleftrightarrow> c = CHR 0x09"
proof -
  have "(of_char c :: nat) = of_char d \<longleftrightarrow> c = d" for d :: char by simp
  from this [of "CHR 0x22"] this [of "CHR 0x5C"] this [of "CHR 0x08"] this [of "CHR 0x0C"]
    this [of "CHR 0x0A"] this [of "CHR 0x0D"] this [of "CHR 0x09"]
  show "(of_char c :: nat) = 0x22 \<longleftrightarrow> c = CHR 0x22" "(of_char c :: nat) = 0x5C \<longleftrightarrow> c = CHR 0x5C"
    "(of_char c :: nat) = 8 \<longleftrightarrow> c = CHR 0x08" "(of_char c :: nat) = 12 \<longleftrightarrow> c = CHR 0x0C"
    "(of_char c :: nat) = 10 \<longleftrightarrow> c = CHR 0x0A" "(of_char c :: nat) = 13 \<longleftrightarrow> c = CHR 0x0D"
    "(of_char c :: nat) = 9 \<longleftrightarrow> c = CHR 0x09"
    by simp_all
qed

lemma hex_val_digit: "n < 16 \<Longrightarrow> hex_val (hex_digit n) = Some n"
  by (auto simp: hex_val_def hex_digit_def Let_def)

lemma utf8_char: "(of_char c :: nat) < 0x80 \<Longrightarrow> utf8 (of_char c) = [c]"
  by (simp add: utf8_def)

text \<open>One character as json.Marshal writes it: plain, a two-character escape, or \<open>\u00\<close> and two digits.\<close>

lemma escape_cases:
  obtains (plain) "escape_char c = [c]" "c \<noteq> CHR 0x22" "c \<noteq> CHR 0x5C" "\<not> (of_char c :: nat) < 0x20"
  | (short) e where "escape_char c = [CHR 0x5C, e]" "unescape e = c" "e \<noteq> CHR ''u''"
      "e \<in> {CHR ''b'', CHR ''f'', CHR ''n'', CHR ''r'', CHR ''t'', CHR 0x5C, CHR ''/'', CHR 0x22}"
  | (long) "escape_char c = u_escape (of_char c)" "(of_char c :: nat) < 0x80"
proof -
  let ?n = "of_char c :: nat"
  have esc: thesis if "escape_char c = [CHR 0x5C, e]" "unescape e = c" "e \<noteq> CHR ''u''"
    "e \<in> {CHR ''b'', CHR ''f'', CHR ''n'', CHR ''r'', CHR ''t'', CHR 0x5C, CHR ''/'', CHR 0x22}" for e
    using that by (rule short)
  show thesis
  proof (cases "?n \<in> {0x22, 0x5C, 8, 12, 10, 13, 9}")
    case True
    then show thesis
      using esc [of c] esc [of "CHR ''b''"] esc [of "CHR ''f''"] esc [of "CHR ''n''"]
        esc [of "CHR ''r''"] esc [of "CHR ''t''"]
      by (auto simp: code_eq escape_char_def unescape_def)
  next
    case False
    then show thesis
    proof (cases "?n < 32 \<or> ?n = 0x3C \<or> ?n = 0x3E \<or> ?n = 0x26")
      case True
      with False show thesis by (intro long) (auto simp: escape_char_def Let_def)
    next
      case no: False
      with False show thesis by (intro plain) (auto simp: escape_char_def Let_def)
    qed
  qed
qed

lemma unquote_escape: "unquote (escape_char c @ s) = c # unquote s"
proof (cases rule: escape_cases [of c])
  case long
  have "hex_val CHR ''0'' = Some 0" by (simp add: hex_val_def)
  with long have "getu4 (u_escape (of_char c) @ s) = Some (of_char c)"
    by (simp add: u_escape_def hex_val_digit)
  moreover from long have "\<not> IsSurrogate (of_char c)" by (simp add: IsSurrogate_def)
  ultimately show ?thesis using long by (simp add: u_escape_def utf8_char del: getu4.simps)
qed auto

lemma unquote_quoted: "unquote (concat (map escape_char s)) = s"
  by (induction s) (simp_all add: unquote_escape)

lemma scan_escape: "scan (escape_char c @ r) (InString a, st) = scan r (InString (a @ escape_char c), st)"
proof (cases rule: escape_cases [of c])
  case long
  have "hex_val CHR ''0'' = Some 0" by (simp add: hex_val_def)
  moreover have "of_char c div 16 < (16 :: nat)" "of_char c mod 16 < (16 :: nat)" using long by simp_all
  ultimately show ?thesis using long by (simp add: u_escape_def hex_val_digit)
qed auto

lemma scan_string:
  "scan (concat (map escape_char s) @ CHR 0x22 # r) (InString a, st) =
     scan r (EndValue (TStr (unquote (a @ concat (map escape_char s)))), st)"
  by (induction s arbitrary: a) (simp_all add: scan_escape)

lemma scan_quote:
  "scan (quote s @ r) (BeginValue, st) = scan r (EndValue (TStr s), st)"
  "scan (quote s @ r) (BeginString, st) = scan r (EndValue (TStr s), st)"
  "scan (quote s @ r) (BeginStringOrEmpty, st) = scan r (EndValue (TStr s), st)"
  by (simp_all add: quote_def scan_string unquote_quoted stateBeginValue_def stateBeginString_def isSpace_def)

subsection \<open>Numbers\<close>

text \<open>The bytes that end a number: what may follow a value, and spaces.\<close>

definition ends_value :: "char \<Rightarrow> bool" where
  "ends_value c \<longleftrightarrow> c \<in> {CHR '','', CHR 0x7D, CHR '']'', CHR 0x20}"

lemma ends_value_num:
  "ends_value c \<Longrightarrow> num_next NumInt c = None \<and> num_next NumZero c = None"
  by (auto simp: ends_value_def num_next_def is_digit_def)

lemma scan_digits:
  assumes "ends_value c" "list_all is_digit ds"
  shows "scan (ds @ c # r) (InNumber a NumInt, st) = scan (c # r) (EndValue (TNum (a @ ds)), st)"
  using assms(2)
proof (induction ds arbitrary: a)
  case Nil
  then show ?case using ends_value_num [OF assms(1)] by (simp add: num_final_def)
next
  case (Cons d ds)
  then have "num_next NumInt d = Some NumInt" by (simp add: num_next_def)
  then show ?case using Cons by simp
qed

lemma dec_form: "dec n = ''0'' \<or> (\<exists>d ds. dec n = d # ds \<and> is_digit d \<and> d \<noteq> CHR ''0'' \<and> list_all is_digit ds)"
proof (induction n rule: dec.induct)
  case (1 n)
  show ?case
  proof (cases "n < 10")
    case True
    have "of_char (digit n) = (of_char CHR ''0'' :: nat)" if "digit n = CHR ''0''" using that by simp
    then have "n = 0" if "digit n = CHR ''0''" using that of_char_digit [OF True] by simp
    moreover have "digit 0 = CHR ''0''" by (simp add: digit_def char_of_def bit_Suc_0_iff)
    moreover have "dec n = [digit n]" using True by (subst dec.simps) simp
    ultimately show ?thesis using True is_digit_digit by (cases "n = 0") auto
  next
    case False
    then have split: "dec n = dec (n div 10) @ [digit (n mod 10)]" by (subst dec.simps) simp
    have "digits_val (dec (n div 10)) \<noteq> 0" using False by (simp add: div_eq_0_iff)
    then have "dec (n div 10) \<noteq> ''0''" by (auto simp: digits_val_def)
    with 1 [OF False] obtain d ds where "dec (n div 10) = d # ds" "is_digit d" "d \<noteq> CHR ''0''" "list_all is_digit ds"
      by auto
    then show ?thesis using split by (auto simp: is_digit_digit)
  qed
qed

lemma digit_not_special:
  "is_digit d \<Longrightarrow> \<not> isSpace d \<and> d \<notin> {CHR 0x7B, CHR ''['', CHR 0x22, CHR ''-'', CHR ''t'', CHR ''f'', CHR ''n''}"
  by (auto simp: is_digit_def isSpace_def)

lemma begin_digit:
  "is_digit d \<Longrightarrow> stateBeginValue st d = Some (InNumber [d] (if d = CHR ''0'' then NumZero else NumInt), st)"
  using digit_not_special [of d] by (simp add: stateBeginValue_def)

lemma scan_dec:
  assumes "ends_value c"
  shows "scan (dec n @ c # r) (BeginValue, st) = scan (c # r) (EndValue (TNum (dec n)), st)"
    and "scan (dec n @ c # r) (InNumber ''-'' NumNeg, st) = scan (c # r) (EndValue (TNum (CHR ''-'' # dec n)), st)"
proof -
  have zero: "is_digit CHR ''0''" by (simp add: is_digit_def)
  consider "dec n = ''0''"
    | d ds where "dec n = d # ds" "is_digit d" "d \<noteq> CHR ''0''" "list_all is_digit ds"
    using dec_form by blast
  then have "scan (dec n @ c # r) (BeginValue, st) = scan (c # r) (EndValue (TNum (dec n)), st) \<and>
      scan (dec n @ c # r) (InNumber ''-'' NumNeg, st) = scan (c # r) (EndValue (TNum (CHR ''-'' # dec n)), st)"
  proof cases
    case 1
    have "num_next NumNeg CHR ''0'' = Some NumZero" by (simp add: num_next_def)
    then show ?thesis
      using 1 ends_value_num [OF assms] by (simp add: begin_digit [OF zero] num_final_def)
  next
    case (2 d ds)
    then have "num_next NumNeg d = Some NumInt" by (simp add: num_next_def)
    then show ?thesis using 2 scan_digits [OF assms] by (simp add: begin_digit)
  qed
  then show "scan (dec n @ c # r) (BeginValue, st) = scan (c # r) (EndValue (TNum (dec n)), st)"
    and "scan (dec n @ c # r) (InNumber ''-'' NumNeg, st) = scan (c # r) (EndValue (TNum (CHR ''-'' # dec n)), st)"
    by simp_all
qed

lemma scan_FormatInt:
  assumes "ends_value c"
  shows "scan (FormatInt i @ c # r) (BeginValue, st) = scan (c # r) (EndValue (TNum (FormatInt i)), st)"
proof -
  have "stateBeginValue st CHR ''-'' = Some (InNumber ''-'' NumNeg, st)"
    by (simp add: stateBeginValue_def isSpace_def)
  then show ?thesis using scan_dec [OF assms] by (simp add: FormatInt_def)
qed

subsection \<open>Documents\<close>

definition reads_back :: "json \<Rightarrow> bool" where
  "reads_back j \<longleftrightarrow> (\<forall>st c r. ends_value c \<longrightarrow> length st + json_depth j \<le> maxNestingDepth \<longrightarrow>
     scan (print_json j @ c # r) (BeginValue, st) = scan (c # r) (EndValue (text_of j), st))"

lemma reads_backD:
  "reads_back j \<Longrightarrow> ends_value c \<Longrightarrow> length st + json_depth j \<le> maxNestingDepth \<Longrightarrow>
     scan (print_json j @ c # r) (BeginValue, st) = scan (c # r) (EndValue (text_of j), st)"
  by (simp add: reads_back_def)

lemma ends_value_simps [simp]: "ends_value CHR '',''" "ends_value CHR 0x7D" "ends_value CHR '']''" "ends_value CHR 0x20"
  by (simp_all add: ends_value_def)

lemma isSpace_simps [simp]:
  "isSpace CHR 0x20" "\<not> isSpace CHR '',''" "\<not> isSpace CHR 0x7D" "\<not> isSpace CHR '']''"
  "\<not> isSpace CHR '':''" "\<not> isSpace CHR ''[''" "\<not> isSpace CHR 0x7B" "\<not> isSpace CHR 0x22"
  by (simp_all add: isSpace_def)

lemma scan_elements:
  assumes "xs \<noteq> []" "\<forall>x \<in> set xs. reads_back x \<and> Suc (length st) + json_depth x \<le> maxNestingDepth"
  shows "scan (commas (map print_json xs) @ CHR '']'' # r) (BeginValue, ArrayValue ys # st) =
     scan r (EndValue (TArr (ys @ map text_of xs)), st)"
  using assms
proof (induction xs arbitrary: ys rule: list_nonempty_induct)
  case (single x)
  then show ?case by (simp add: reads_backD stateEndValue_def)
next
  case (cons x xs)
  then have "commas (map print_json (x # xs)) = print_json x @ CHR '','' # commas (map print_json xs)"
    by (cases xs) simp_all
  then show ?case using cons by (simp add: reads_backD stateEndValue_def)
qed

lemma scan_members:
  assumes "kvs \<noteq> []"
    and "\<forall>(k, v) \<in> set kvs. reads_back v \<and> Suc (length st) + json_depth v \<le> maxNestingDepth"
    and "s = BeginString \<or> s = BeginStringOrEmpty"
  shows "scan (commas (map (\<lambda>(k, v). quote k @ '':'' @ print_json v) kvs) @ CHR 0x7D # r) (s, ObjectKey ys # st) =
     scan r (EndValue (TObj (ys @ map (\<lambda>(k, v). (k, text_of v)) kvs)), st)"
  using assms
proof (induction kvs arbitrary: ys s rule: list_nonempty_induct)
  case (single kv)
  then show ?case
    by (cases kv) (auto simp: scan_quote reads_backD stateEndValue_def)
next
  case (cons kv kvs)
  obtain k v where kv: "kv = (k, v)" by (cases kv)
  have "commas (map (\<lambda>(k, v). quote k @ '':'' @ print_json v) (kv # kvs)) =
      quote k @ CHR '':'' # print_json v @ CHR '','' # commas (map (\<lambda>(k, v). quote k @ '':'' @ print_json v) kvs)"
    using cons.hyps kv by (cases kvs) simp_all
  then show ?case using cons kv by (auto simp: scan_quote reads_backD stateEndValue_def)
qed

lemma print_json_first: "\<exists>c s. print_json j = c # s \<and> \<not> isSpace c \<and> c \<noteq> CHR '']''"
proof (cases j)
  case (JNum n)
  obtain d ds where d: "dec (nat n) = d # ds" using dec_digits by (cases "dec (nat n)") auto
  then have "is_digit d" using dec_digits [of "nat n"] by simp
  then have "\<not> isSpace d" "d \<noteq> CHR '']''" by (auto simp: digit_not_special is_digit_def)
  then show ?thesis using JNum d by (simp add: FormatInt_def isSpace_def)
qed (auto simp: quote_def isSpace_def)

lemma scan_first_element:
  "scan (commas (map print_json (x # xs)) @ r) (BeginValueOrEmpty, st) =
     scan (commas (map print_json (x # xs)) @ r) (BeginValue, st)"
proof -
  obtain c s where "print_json x = c # s" "\<not> isSpace c" "c \<noteq> CHR '']''" using print_json_first by blast
  then obtain t where "commas (map print_json (x # xs)) = c # t" by (cases xs) simp_all
  then show ?thesis using \<open>\<not> isSpace c\<close> \<open>c \<noteq> CHR '']''\<close> by simp
qed

lemma depth_elem:
  assumes "length st + json_depth (JArr xs) \<le> m" "x \<in> set xs"
  shows "Suc (length st) + json_depth x \<le> m"
proof -
  have "json_depth x \<le> Max (insert 0 (json_depth ` set xs))" using assms(2) by simp
  then show ?thesis using assms(1) by simp
qed

lemma depth_member:
  assumes "length st + json_depth (JObj kvs) \<le> m" "(k, v) \<in> set kvs"
  shows "Suc (length st) + json_depth v \<le> m"
proof -
  have "json_depth v \<in> (\<lambda>(k, v). json_depth v) ` set kvs" using assms(2) by force
  then have "json_depth v \<le> Max (insert 0 ((\<lambda>(k, v). json_depth v) ` set kvs))" by simp
  then show ?thesis using assms(1) by simp
qed

lemma reads_back_all: "reads_back j"
proof (induction j)
  case (JNum n)
  show ?case by (simp add: reads_back_def scan_FormatInt)
next
  case (JStr s)
  show ?case by (simp add: reads_back_def scan_quote)
next
  case (JArr xs)
  show ?case unfolding reads_back_def
  proof (intro allI impI)
    fix st :: "frame list" and c r
    assume d: "length st + json_depth (JArr xs) \<le> maxNestingDepth"
    then have push: "length st < maxNestingDepth" by simp
    have "\<forall>x \<in> set xs. reads_back x \<and> Suc (length st) + json_depth x \<le> maxNestingDepth"
      using JArr depth_elem [OF d] by blast
    then have "xs \<noteq> [] \<Longrightarrow> scan (commas (map print_json xs) @ CHR '']'' # c # r) (BeginValueOrEmpty, ArrayValue [] # st) =
        scan (c # r) (EndValue (TArr (map text_of xs)), st)"
      using scan_elements [of xs st "c # r" "[]"] scan_first_element [of "hd xs" "tl xs"] by simp
    then show "scan (print_json (JArr xs) @ c # r) (BeginValue, st) = scan (c # r) (EndValue (text_of (JArr xs)), st)"
      using push by (cases xs) (simp_all add: stateBeginValue_def pushParseState_def)
  qed
next
  case (JObj kvs)
  show ?case unfolding reads_back_def
  proof (intro allI impI)
    fix st :: "frame list" and c r
    assume d: "length st + json_depth (JObj kvs) \<le> maxNestingDepth"
    then have push: "length st < maxNestingDepth" by simp
    have "\<forall>(k, v) \<in> set kvs. reads_back v \<and> Suc (length st) + json_depth v \<le> maxNestingDepth"
      using JObj depth_member [OF d] by (auto simp: snds.simps)
    then have "kvs \<noteq> [] \<Longrightarrow>
        scan (commas (map (\<lambda>(k, v). quote k @ '':'' @ print_json v) kvs) @ CHR 0x7D # c # r)
          (BeginStringOrEmpty, ObjectKey [] # st) =
        scan (c # r) (EndValue (TObj (map (\<lambda>(k, v). (k, text_of v)) kvs)), st)"
      using scan_members [of kvs st BeginStringOrEmpty "c # r" "[]"] by simp
    then show "scan (print_json (JObj kvs) @ c # r) (BeginValue, st) = scan (c # r) (EndValue (text_of (JObj kvs)), st)"
      using push by (cases "kvs = []") (simp_all add: stateBeginValue_def pushParseState_def)
  qed
qed (auto simp: reads_back_def stateBeginValue_def isSpace_def)

text \<open>encoding/json reads back the text it wrote for any document that nests at most 10000 deep.\<close>

lemma parse_print: "json_depth j \<le> maxNestingDepth \<Longrightarrow> parse_text (print_json j) = Some (text_of j)"
  using reads_backD [OF reads_back_all, of "CHR 0x20" "[]" j "[]"]
  by (simp add: parse_text_def stateEndValue_def)

text \<open>One document more than that is refused, so the bound cannot be left out.\<close>

lemma scan_opened:
  "n + length st \<le> maxNestingDepth \<Longrightarrow>
     scan (replicate n CHR ''['' @ r) (BeginValueOrEmpty, st) =
     scan r (BeginValueOrEmpty, replicate n (ArrayValue []) @ st)"
  by (induction n arbitrary: st)
    (simp_all add: stateBeginValue_def pushParseState_def replicate_app_Cons_same)

lemma too_deep: "maxNestingDepth < n \<Longrightarrow> parse_text (replicate n CHR ''['' @ s) = None"
proof -
  assume deep: "maxNestingDepth < n"
  have "0 < maxNestingDepth" by (simp add: maxNestingDepth_def)
  then obtain k where k: "maxNestingDepth = Suc k" by (rule gr0_implies_Suc [THEN exE])
  define m where "m = n - k - 2"
  have n: "n = Suc (k + Suc m)" using deep k by (simp add: m_def)
  have brackets: "replicate n x = x # replicate k x @ x # replicate m x" for x :: char
    by (simp only: n replicate_Suc replicate_add)
  have opens: "stateBeginValue st CHR ''['' = pushParseState (ArrayValue []) BeginValueOrEmpty st" for st
    by (simp add: stateBeginValue_def)
  have "scan (replicate n CHR ''['' @ r) (BeginValue, []) =
      scan (replicate k CHR ''['' @ CHR ''['' # replicate m CHR ''['' @ r) (BeginValueOrEmpty, [ArrayValue []])" for r
    using opens by (simp add: brackets pushParseState_def k)
  then have "scan (replicate n CHR ''['' @ r) (BeginValue, []) = None" for r
    by (simp add: scan_opened k opens pushParseState_def)
  then show ?thesis by (simp add: parse_text_def)
qed

end
