(* ===== verification/ClientList.thy ===== *)
theory ClientList
  imports PgClient FieldSelector Base64 JsonParse
begin

text \<open>
  pgClient.List of src/pkg/pgruntime/pgclient.go: the filter its options build, the continue
  tokens (base64 of the JSON text of an offset), the loop that converts the rows and applies
  the label selector, and the list object with its resource version; at the end a caller that
  pages through a list with the tokens.
\<close>

section \<open>Continue tokens\<close>

text \<open>The JSON text of a continueToken, and json.Unmarshal into one: null keeps the field, a number
  literal must be an int64 in base 10, the key is compared without case, the last one counts.\<close>

definition token_text :: "int \<Rightarrow> string" where
  "token_text offset = CHR 0x7B # CHR 0x22 # ''offset'' @ CHR 0x22 # CHR '':'' # FormatInt offset @ [CHR 0x7D]"

fun int64_of :: "int \<Rightarrow> text_value \<Rightarrow> int option" where
  "int64_of old TNull = Some old"
| "int64_of old (TNum lit) = ParseInt lit"
| "int64_of old _ = None"

fun offset_of :: "(string \<times> text_value) list \<Rightarrow> int \<Rightarrow> int option" where
  "offset_of [] n = Some n"
| "offset_of ((k, v) # kvs) n =
     (if lower k = ''offset'' then (case int64_of n v of None \<Rightarrow> None | Some m \<Rightarrow> offset_of kvs m)
      else offset_of kvs n)"

fun token_of :: "text_value option \<Rightarrow> int option" where
  "token_of (Some (TObj kvs)) = offset_of kvs 0"
| "token_of (Some TNull) = Some 0"
| "token_of _ = None"

definition decodeContinue :: "string \<Rightarrow> string + int" where
  "decodeContinue token =
     (if token = [] then Inr 0
      else (case DecodeString token of
              None \<Rightarrow> Inl ''pgruntime: invalid continue token''
            | Some text \<Rightarrow>
                (case token_of (parse_text text) of
                   None \<Rightarrow> Inl ''pgruntime: invalid continue token''
                 | Some n \<Rightarrow> Inr n)))"

definition encodeContinue :: "int \<Rightarrow> string" where
  "encodeContinue offset = EncodeToString (token_text offset)"

section \<open>List\<close>

record list_options =
  loNamespace :: string
  loFields :: "requirement list"
  loLabels :: "((string \<times> string) list \<Rightarrow> bool) option"
  loLimit :: int
  loContinue :: string

datatype filter_error = BadSelector fs_error | BadToken string

definition buildListFilter ::
  "(json \<Rightarrow> string) \<Rightarrow> list_options \<Rightarrow> filter_error + ListFilter option" where
  "buildListFilter jt opts =
     (let ns = (if loNamespace opts = [] then [] else [\<lambda>r. Some (Namespace r = loNamespace opts)]);
          paramIdx = (if loNamespace opts = [] then 2 else 3);
          sel = (if loFields opts = [] then Inr ([], []) else buildFieldSelectorFilter (loFields opts) paramIdx)
      in case sel of
           Inl e \<Rightarrow> Inl (BadSelector e)
         | Inr _ \<Rightarrow>
             (let wh = ns @ map (requirement_sql jt) (loFields opts) in
              if 0 < loLimit opts then
                (case decodeContinue (loContinue opts) of
                   Inl e \<Rightarrow> Inl (BadToken e)
                 | Inr off \<Rightarrow> Inr (Some \<lparr>WhereClauses = wh, Limit = loLimit opts, Offset = off\<rparr>))
              else if wh = [] then Inr None
              else Inr (Some \<lparr>WhereClauses = wh, Limit = 0, Offset = 0\<rparr>)))"

text \<open>The loop over the rows: conversion of every row, then the label selector.\<close>

fun list_items ::
  "('r \<Rightarrow> string + ('s, 't) object) \<Rightarrow> ((string \<times> string) list \<Rightarrow> bool) option \<Rightarrow> 'r list \<Rightarrow>
     string + ('s, 't) object list" where
  "list_items conv sel [] = Inr []"
| "list_items conv sel (r # rs) =
     (case conv r of
        Inl e \<Rightarrow> Inl e
      | Inr obj \<Rightarrow>
          (case list_items conv sel rs of
             Inl e \<Rightarrow> Inl e
           | Inr objs \<Rightarrow>
               Inr (if (case sel of None \<Rightarrow> True | Some m \<Rightarrow> m (Labels (objMeta obj))) then obj # objs else objs)))"

record ('s, 't) object_list =
  Items :: "('s, 't) object list"
  listRV :: string
  listContinue :: string

datatype list_error = ListPlain string | ListFilterErr filter_error

definition ClientList ::
  "client_env \<Rightarrow> (json \<Rightarrow> bool) \<Rightarrow> (uid \<Rightarrow> string) \<Rightarrow> ('s, 't) codec \<Rightarrow> (gvk \<Rightarrow> string + ('s, 't) object) \<Rightarrow>
     (json \<Rightarrow> string) \<Rightarrow> string + gvk list \<Rightarrow> list_options \<Rightarrow> snapshot \<Rightarrow>
     list_error + ('s, 't) object_list" where
  "ClientList env own us cd new jt kinds opts sn =
     (case resolveGVK kinds of
        Inl e \<Rightarrow> Inl (ListPlain e)
      | Inr lg \<Rightarrow> (case ce_acquire env of
          Some e \<Rightarrow> Inl (ListPlain e)
        | None \<Rightarrow> (case buildListFilter jt opts of
            Inl e \<Rightarrow> Inl (ListFilterErr e)
          | Inr flt \<Rightarrow> (case ce_query env of
              Some e \<Rightarrow> Inl (ListPlain e)
            | None \<Rightarrow>
              (let res = List sn (gvkToString (itemGVKFromListGVK lg)) flt in
               case list_items (resourceToObject own us cd new) (loLabels opts) (Resources res) of
                 Inl e \<Rightarrow> Inl (ListPlain e)
               | Inr items \<Rightarrow> Inr
                   \<lparr>Items = items,
                    listRV = rv_string \<lparr>rvObjectVersion = 0, rvWatermark = Watermark res\<rparr>,
                    listContinue =
                      (if 0 < loLimit opts \<and> int (length (Resources res)) = loLimit opts
                       then encodeContinue ((case decodeContinue (loContinue opts) of Inl _ \<Rightarrow> 0 | Inr n \<Rightarrow> n) + loLimit opts)
                       else [])\<rparr>)))))"

section \<open>Continue tokens round trip\<close>

lemma decode_empty [simp]: "decodeContinue [] = Inr 0"
  by (simp add: decodeContinue_def)

lemma token_text_parses: "token_of (parse_text (token_text n)) = ParseInt (FormatInt n)"
proof -
  have low: "lower ''offset'' = ''offset''"
    by (simp add: lower_def lower_char_def Let_def char_of_def bit_Suc_0_iff)
  have "token_text n = print_json (JObj [(''offset'', JNum n)])"
    by (simp add: token_text_def quote_plain plain_char_def)
  then have "parse_text (token_text n) = Some (TObj [(''offset'', TNum (FormatInt n))])"
    by (simp only:) (subst parse_print, simp_all add: maxNestingDepth_def)
  then show ?thesis by (simp add: low split: option.splits)
qed

lemma encode_not_Nil: "encodeContinue n \<noteq> []"
proof
  assume "encodeContinue n = []"
  then have "Some (token_text n) = Some []"
    using Decode_Encode [of "token_text n"] by (simp add: encodeContinue_def DecodeString_def)
  then show False by (simp add: token_text_def)
qed

lemma decode_encode:
  assumes "- (2 ^ 63) \<le> n" "n < 2 ^ 63"
  shows "decodeContinue (encodeContinue n) = Inr n"
  using encode_not_Nil [of n] ParseInt_FormatInt [OF assms]
  by (simp add: decodeContinue_def encodeContinue_def Decode_Encode token_text_parses)

text \<open>Continue tokens carry the offset: the token a page hands out for any int64 offset decodes,
  through base64 and JSON, to that offset, and two pages with different offsets have different
  tokens.\<close>

theorem continue_token_round_trip:
  assumes "- (2 ^ 63) \<le> n" "n < 2 ^ 63" "- (2 ^ 63) \<le> m" "m < 2 ^ 63"
  shows "decodeContinue (encodeContinue n) = Inr n \<and> (encodeContinue n = encodeContinue m \<longleftrightarrow> n = m)"
  using decode_encode assms by (metis sum.inject(2))

section \<open>Paging through a list\<close>

text \<open>A caller that asks for page after page, passing each page's token on, until a page has none.\<close>

fun list_walk ::
  "nat \<Rightarrow> (list_options \<Rightarrow> list_error + ('s, 't) object_list) \<Rightarrow> list_options \<Rightarrow>
     (list_error + ('s, 't) object list) option" where
  "list_walk 0 page opts = None"
| "list_walk (Suc n) page opts =
     (case page opts of
        Inl e \<Rightarrow> Some (Inl e)
      | Inr l \<Rightarrow>
          if listContinue l = [] then Some (Inr (Items l))
          else (case list_walk n page (opts\<lparr>loContinue := listContinue l\<rparr>) of
                  Some (Inr rest) \<Rightarrow> Some (Inr (Items l @ rest))
                | r \<Rightarrow> r))"

lemma list_items_append:
  "list_items conv sel (xs @ ys) =
     (case list_items conv sel xs of
        Inl e \<Rightarrow> Inl e
      | Inr a \<Rightarrow> (case list_items conv sel ys of Inl e \<Rightarrow> Inl e | Inr b \<Rightarrow> Inr (a @ b)))"
  by (induction xs) (auto split: sum.splits)

text \<open>The rows a list selects, before any limit.\<close>

definition selected :: "snapshot \<Rightarrow> string \<Rightarrow> (resource \<Rightarrow> bool option) list \<Rightarrow> resource list" where
  "selected sn g wh = Resources (List sn g (Some \<lparr>WhereClauses = wh, Limit = 0, Offset = 0\<rparr>))"

lemma List_selected:
  "Resources (List sn g None) = selected sn g []"
  "Resources (List sn g (Some \<lparr>WhereClauses = wh, Limit = 0, Offset = off\<rparr>)) = selected sn g wh"
  "0 < l \<Longrightarrow> Resources (List sn g (Some \<lparr>WhereClauses = wh, Limit = int l, Offset = int k\<rparr>)) =
     take l (drop k (selected sn g wh))"
  by (simp_all add: selected_def List_def Let_def paginate_def)

lemma length_selected: "length (selected sn g wh) \<le> length (rows (s_db sn))"
  by (simp add: selected_def List_def Let_def paginate_def)

definition clauses_of :: "(json \<Rightarrow> string) \<Rightarrow> list_options \<Rightarrow> (resource \<Rightarrow> bool option) list" where
  "clauses_of jt opts =
     (if loNamespace opts = [] then [] else [\<lambda>r. Some (Namespace r = loNamespace opts)]) @
       map (requirement_sql jt) (loFields opts)"

definition selector_error :: "list_options \<Rightarrow> fs_error option" where
  "selector_error opts =
     (if loFields opts = [] then None
      else (case buildFieldSelectorFilter (loFields opts) (if loNamespace opts = [] then 2 else 3) of
              Inl e \<Rightarrow> Some e
            | Inr _ \<Rightarrow> None))"

lemma buildListFilter_cases:
  "buildListFilter jt opts =
     (case selector_error opts of
        Some e \<Rightarrow> Inl (BadSelector e)
      | None \<Rightarrow>
          if 0 < loLimit opts then
            (case decodeContinue (loContinue opts) of
               Inl e \<Rightarrow> Inl (BadToken e)
             | Inr off \<Rightarrow> Inr (Some \<lparr>WhereClauses = clauses_of jt opts, Limit = loLimit opts, Offset = off\<rparr>))
          else if clauses_of jt opts = [] then Inr None
          else Inr (Some \<lparr>WhereClauses = clauses_of jt opts, Limit = 0, Offset = 0\<rparr>))"
  by (simp add: buildListFilter_def clauses_of_def selector_error_def split: sum.splits)

text \<open>What a list answers before it has converted a row: an error, or the rows to convert.\<close>

definition list_rows ::
  "client_env \<Rightarrow> (json \<Rightarrow> string) \<Rightarrow> string + gvk list \<Rightarrow> list_options \<Rightarrow> snapshot \<Rightarrow> list_error + resource list" where
  "list_rows env jt kinds opts sn =
     (case resolveGVK kinds of
        Inl e \<Rightarrow> Inl (ListPlain e)
      | Inr lg \<Rightarrow> (case ce_acquire env of
          Some e \<Rightarrow> Inl (ListPlain e)
        | None \<Rightarrow> (case selector_error opts of
            Some e \<Rightarrow> Inl (ListFilterErr (BadSelector e))
          | None \<Rightarrow> (case ce_query env of
              Some e \<Rightarrow> Inl (ListPlain e)
            | None \<Rightarrow> Inr (selected sn (gvkToString (itemGVKFromListGVK lg)) (clauses_of jt opts))))))"

definition items_of ::
  "(resource \<Rightarrow> string + ('s, 't) object) \<Rightarrow> list_options \<Rightarrow> resource list \<Rightarrow> list_error + ('s, 't) object list" where
  "items_of conv opts rs = map_sum ListPlain id (list_items conv (loLabels opts) rs)"

text \<open>Limit and token do not matter for either.\<close>

lemma paged_opts [simp]:
  "selector_error (opts\<lparr>loLimit := l\<rparr>) = selector_error opts" "clauses_of jt (opts\<lparr>loLimit := l\<rparr>) = clauses_of jt opts"
  "selector_error (opts\<lparr>loContinue := c\<rparr>) = selector_error opts" "clauses_of jt (opts\<lparr>loContinue := c\<rparr>) = clauses_of jt opts"
  "items_of conv (opts\<lparr>loLimit := l\<rparr>) rs = items_of conv opts rs" "items_of conv (opts\<lparr>loContinue := c\<rparr>) rs = items_of conv opts rs"
  by (simp_all add: selector_error_def clauses_of_def items_of_def cong: if_cong)

lemma list_rows_cong [simp]:
  "list_rows env jt kinds (opts\<lparr>loLimit := l\<rparr>) sn = list_rows env jt kinds opts sn"
  "list_rows env jt kinds (opts\<lparr>loContinue := c\<rparr>) sn = list_rows env jt kinds opts sn"
  by (simp_all only: list_rows_def paged_opts)

lemma ClientList_rows:
  assumes "buildListFilter jt opts = (case selector_error opts of Some e \<Rightarrow> Inl (BadSelector e) | None \<Rightarrow> Inr flt)"
  shows "ClientList env own us cd new jt kinds opts sn =
    (case list_rows env jt kinds opts sn of
       Inl e \<Rightarrow> Inl e
     | Inr _ \<Rightarrow>
         (let res = List sn (case resolveGVK kinds of Inr lg \<Rightarrow> gvkToString (itemGVKFromListGVK lg) | Inl _ \<Rightarrow> []) flt in
          case items_of (resourceToObject own us cd new) opts (Resources res) of
            Inl e \<Rightarrow> Inl e
          | Inr its \<Rightarrow> Inr \<lparr>Items = its,
              listRV = rv_string \<lparr>rvObjectVersion = 0, rvWatermark = Watermark res\<rparr>,
              listContinue =
                (if 0 < loLimit opts \<and> int (length (Resources res)) = loLimit opts
                 then encodeContinue ((case decodeContinue (loContinue opts) of Inl _ \<Rightarrow> 0 | Inr n \<Rightarrow> n) + loLimit opts)
                 else [])\<rparr>))"
proof (cases "resolveGVK kinds")
  case (Inr lg)
  then show ?thesis
    by (cases "ce_acquire env"; cases "selector_error opts"; cases "ce_query env")
      (simp_all add: assms ClientList_def list_rows_def items_of_def Let_def split: sum.split)
qed (simp add: ClientList_def list_rows_def)

lemma list_rows_selected:
  "list_rows env jt kinds opts sn = Inr xs \<Longrightarrow>
     xs = selected sn (case resolveGVK kinds of Inr lg \<Rightarrow> gvkToString (itemGVKFromListGVK lg) | Inl _ \<Rightarrow> []) (clauses_of jt opts)"
  by (auto simp: list_rows_def split: sum.splits option.splits)

lemma ClientList_unlimited:
  assumes "loLimit opts = 0"
  shows "map_sum id Items (ClientList env own us cd new jt kinds opts sn) =
    (case list_rows env jt kinds opts sn of
       Inl e \<Rightarrow> Inl e
     | Inr xs \<Rightarrow> items_of (resourceToObject own us cd new) opts xs)"
proof -
  let ?flt = "if clauses_of jt opts = [] then None
              else Some \<lparr>WhereClauses = clauses_of jt opts, Limit = 0, Offset = 0\<rparr>"
  have "buildListFilter jt opts = (case selector_error opts of Some e \<Rightarrow> Inl (BadSelector e) | None \<Rightarrow> Inr ?flt)"
    using assms by (simp add: buildListFilter_cases split: option.split)
  note rows = ClientList_rows [OF this, of env own us cd new kinds sn]
  have sel: "Resources (List sn g ?flt) = selected sn g (clauses_of jt opts)" for g by (simp add: List_selected)
  show ?thesis
  proof (cases "list_rows env jt kinds opts sn")
    case (Inr xs)
    then show ?thesis
      unfolding rows by (simp add: Let_def sel list_rows_selected [OF Inr, symmetric] split: sum.split)
  qed (simp add: rows)
qed

lemma ClientList_page:
  assumes "loLimit opts = int l" "0 < l" "decodeContinue (loContinue opts) = Inr (int k)"
    and "list_rows env jt kinds opts sn = Inr xs"
  shows "case items_of (resourceToObject own us cd new) opts (take l (drop k xs)) of
       Inl e \<Rightarrow> ClientList env own us cd new jt kinds opts sn = Inl e
     | Inr its \<Rightarrow> \<exists>rv. ClientList env own us cd new jt kinds opts sn =
         Inr \<lparr>Items = its, listRV = rv,
              listContinue = (if k + l \<le> length xs then encodeContinue (int (k + l)) else [])\<rparr>"
proof -
  let ?flt = "Some \<lparr>WhereClauses = clauses_of jt opts, Limit = int l, Offset = int k\<rparr>"
  have flt: "buildListFilter jt opts = (case selector_error opts of Some e \<Rightarrow> Inl (BadSelector e) | None \<Rightarrow> Inr ?flt)"
    using assms by (simp add: buildListFilter_cases split: option.split)
  have full: "length (take l (drop k xs)) = l \<longleftrightarrow> k + l \<le> length xs" using assms(2) by auto
  show ?thesis
    unfolding ClientList_rows [OF flt] assms(4)
    by (simp add: Let_def List_selected(3) [OF assms(2)] list_rows_selected [OF assms(4), symmetric] assms(1-3) full
        del: length_take length_drop split: sum.split)
qed

lemma items_of_split:
  "items_of conv opts (drop k xs) =
     (case items_of conv opts (take l (drop k xs)) of
        Inl e \<Rightarrow> Inl e
      | Inr a \<Rightarrow> (case items_of conv opts (drop (k + l) xs) of Inl e \<Rightarrow> Inl e | Inr b \<Rightarrow> Inr (a @ b)))"
proof -
  have "drop k xs = take l (drop k xs) @ drop (k + l) xs"
    by (simp only: add.commute [of k] drop_drop [symmetric] append_take_drop_id)
  then have "list_items conv (loLabels opts) (drop k xs) =
      list_items conv (loLabels opts) (take l (drop k xs) @ drop (k + l) xs)" by simp
  then show ?thesis unfolding items_of_def list_items_append by (simp split: sum.split)
qed

lemma walk_pages:
  assumes "0 < l" "int (length xs) + int l < 2 ^ 63" "list_rows env jt kinds opts sn = Inr xs"
    and "decodeContinue tok = Inr (int k)" "k \<le> length xs" "length xs < k + n * l"
  shows "list_walk n (\<lambda>p. ClientList env own us cd new jt kinds p sn) (opts\<lparr>loLimit := int l, loContinue := tok\<rparr>) =
    Some (items_of (resourceToObject own us cd new) opts (drop k xs))"
  using assms(4-6)
proof (induction n arbitrary: k tok)
  case (Suc n)
  let ?o = "opts\<lparr>loLimit := int l, loContinue := tok\<rparr>" and ?conv = "resourceToObject own us cd new"
  have page: "case items_of ?conv opts (take l (drop k xs)) of
       Inl e \<Rightarrow> ClientList env own us cd new jt kinds ?o sn = Inl e
     | Inr its \<Rightarrow> \<exists>rv. ClientList env own us cd new jt kinds ?o sn =
         Inr \<lparr>Items = its, listRV = rv,
              listContinue = (if k + l \<le> length xs then encodeContinue (int (k + l)) else [])\<rparr>"
    using ClientList_page [of ?o l k env jt kinds sn xs own us cd new] assms(1,3) Suc.prems(1) by simp
  show ?case
  proof (cases "items_of ?conv opts (take l (drop k xs))")
    case (Inl e)
    then show ?thesis using page by (simp add: items_of_split [of _ _ k _ l])
  next
    case its: (Inr its)
    show ?thesis
    proof (cases "k + l \<le> length xs")
      case True
      then have "decodeContinue (encodeContinue (int (k + l))) = Inr (int (k + l))"
        using assms(2) by (intro decode_encode) simp_all
      moreover have "length xs < k + l + n * l" using Suc.prems(3) by simp
      ultimately have "list_walk n (\<lambda>p. ClientList env own us cd new jt kinds p sn)
          (opts\<lparr>loLimit := int l, loContinue := encodeContinue (int (k + l))\<rparr>) =
          Some (items_of ?conv opts (drop (k + l) xs))"
        using Suc.IH True by simp
      then show ?thesis
        using page its True by (auto simp: encode_not_Nil items_of_split [of _ _ k xs l] split: sum.split)
    next
      case False
      then have "take l (drop k xs) = drop k xs" by simp
      then show ?thesis using page its False by auto
    qed
  qed
qed simp

lemma ClientList_refused:
  assumes "list_rows env jt kinds opts sn = Inl e" "0 < loLimit opts" "decodeContinue (loContinue opts) = Inr k"
  shows "ClientList env own us cd new jt kinds opts sn = Inl e"
proof -
  have "buildListFilter jt opts = (case selector_error opts of Some e \<Rightarrow> Inl (BadSelector e)
      | None \<Rightarrow> Inr (Some \<lparr>WhereClauses = clauses_of jt opts, Limit = loLimit opts, Offset = k\<rparr>))"
    using assms(2,3) by (simp add: buildListFilter_cases split: option.split)
  from ClientList_rows [OF this, of env own us cd new kinds sn] show ?thesis using assms(1) by simp
qed

text \<open>C23: Paging is a list in pieces: a caller who asks for pages of any positive limit and passes each
  page's continue token on, over one snapshot, comes to a page without a token within one more
  request than the rows divided by the limit, and has then collected exactly the objects, in the
  same order, that one List without a limit returns under the same selectors, or gets the same
  error. (Rows and limit together stay below 2^63, so that no offset overflows int64; rows that one
  transaction wrote share a stamp and are taken to keep their order between requests.)\<close>

theorem list_walk_complete:
  assumes "0 < lim" "int (length (rows (s_db sn))) + lim < 2 ^ 63" "length (rows (s_db sn)) div nat lim < n"
  shows "list_walk n (\<lambda>p. ClientList env own us cd new jt kinds p sn) (opts\<lparr>loLimit := lim, loContinue := []\<rparr>) =
    Some (map_sum id Items (ClientList env own us cd new jt kinds (opts\<lparr>loLimit := 0\<rparr>) sn))"
proof -
  obtain l where l: "lim = int l" "0 < l" using assms(1) by (metis nat_0_le order.strict_implies_order zero_less_nat_eq)
  have whole: "map_sum id Items (ClientList env own us cd new jt kinds (opts\<lparr>loLimit := 0\<rparr>) sn) =
      (case list_rows env jt kinds opts sn of Inl e \<Rightarrow> Inl e | Inr xs \<Rightarrow> items_of (resourceToObject own us cd new) opts xs)"
    using ClientList_unlimited [of "opts\<lparr>loLimit := 0\<rparr>" env own us cd new jt kinds sn] by (simp split: sum.splits)
  show ?thesis
  proof (cases "list_rows env jt kinds opts sn")
    case (Inl e)
    then have "ClientList env own us cd new jt kinds (opts\<lparr>loLimit := lim, loContinue := []\<rparr>) sn = Inl e"
      using assms(1) by (intro ClientList_refused) simp_all
    then show ?thesis using assms(3) whole Inl by (cases n) simp_all
  next
    case (Inr xs)
    then have le: "length xs \<le> length (rows (s_db sn))" using list_rows_selected length_selected by metis
    have "length (rows (s_db sn)) < n * l" using assms(3) l by (simp add: div_less_iff_less_mult)
    then have "length xs < 0 + n * l" using le by simp
    then show ?thesis
      using walk_pages [OF l(2) _ Inr, of "[]" 0 n own us cd new] assms(2) le whole Inr by (simp add: l(1))
  qed
qed

definition ex_list_snap :: snapshot where
  "ex_list_snap =
     (let r = ex_row\<lparr>GVK := gvkToString ex_gvk\<rparr>
      in \<lparr>s_db = \<lparr>rows = [r, r\<lparr>Name := ''b'', TxidStamp := 4\<rparr>, r\<lparr>Name := ''c'', TxidStamp := 5\<rparr>], horizon = (\<lambda>_. None), next_xid = 6\<rparr>, s_xmin = 6\<rparr>)"

definition ex_list_options :: list_options where
  "ex_list_options = \<lparr>loNamespace = ''n'', loFields = [], loLabels = None, loLimit = 0, loContinue = []\<rparr>"

theorem list_walk_complete_witness:
  "\<exists>its. list_walk 4 (\<lambda>p. ClientList ex_client_env (\<lambda>_. True) uidFromUUID json_codec (\<lambda>_. Inr ex_zero) (\<lambda>_. [])
       (Inr [ex_gvk]) p ex_list_snap) (ex_list_options\<lparr>loLimit := 1, loContinue := []\<rparr>) = Some (Inr its) \<and>
     map objName its = [''a'', ''b'', ''c'']"
proof -
  have "CHR ''/'' \<notin> set (gGroup ex_gvk)" "CHR ''/'' \<notin> set (gVersion ex_gvk)" by (simp_all add: ex_gvk_def)
  then have gvk: "stringToGVK (gvkToString ex_gvk) = Inr ex_gvk" using gvk_round_trip by blast
  have item: "itemGVKFromListGVK ex_gvk = ex_gvk" by (simp add: itemGVKFromListGVK_def ex_gvk_def trim_suffix_def)
  let ?r = "ex_row\<lparr>GVK := gvkToString ex_gvk\<rparr>"
  have rows: "list_rows ex_client_env (\<lambda>_. []) (Inr [ex_gvk]) ex_list_options ex_list_snap =
      Inr [?r, ?r\<lparr>Name := ''b'', TxidStamp := 4\<rparr>, ?r\<lparr>Name := ''c'', TxidStamp := 5\<rparr>]"
    by (simp add: list_rows_def ex_client_env_def ex_list_options_def selector_error_def clauses_of_def item
        selected_def List_def paginate_def ex_list_snap_def Let_def list_filter_iff tombstone_filter_iff)
  have len: "0 < (1 :: int)" "int (length (rows (s_db ex_list_snap))) + 1 < 2 ^ 63"
    "length (rows (s_db ex_list_snap)) div nat 1 < 4"
    by (simp_all add: ex_list_snap_def Let_def)
  have conv: "resourceToObject (\<lambda>_. True) uidFromUUID json_codec (\<lambda>_. Inr ex_zero) (?r\<lparr>Name := n, TxidStamp := x\<rparr>) =
      Inr ((populateObjectMeta (\<lambda>_. True) uidFromUUID (?r\<lparr>Name := n, TxidStamp := x\<rparr>) ex_zero)
        \<lparr>objGVK := ex_gvk, objSpec := Some (JObj [(''x'', JNum 1)])\<rparr>)" for n x
    by (simp add: resourceToObject_def gvk populateObject_def injectSpecStatus_def json_codec_def
        populateObjectMeta_def Let_def ex_zero_def ex_object_def split: option.split)
  have names: "objName (populateObjectMeta own us r obj) = Name r" for own us r and obj :: "(json, json) object"
    by (simp add: populateObjectMeta_def Let_def split: option.split)
  have items: "\<exists>its. items_of (resourceToObject (\<lambda>_. True) uidFromUUID json_codec (\<lambda>_. Inr ex_zero)) ex_list_options
      [?r, ?r\<lparr>Name := ''b'', TxidStamp := 4\<rparr>, ?r\<lparr>Name := ''c'', TxidStamp := 5\<rparr>] = Inr its \<and> map objName its = [''a'', ''b'', ''c'']"
    using conv [of 4 "''b''"] conv [of 5 "''c''"] conv [of 3 "''a''"]
    by (simp add: items_of_def ex_list_options_def names ex_row_def)
  have "map_sum id Items (ClientList ex_client_env (\<lambda>_. True) uidFromUUID json_codec (\<lambda>_. Inr ex_zero) (\<lambda>_. [])
      (Inr [ex_gvk]) (ex_list_options\<lparr>loLimit := 0\<rparr>) ex_list_snap) =
      items_of (resourceToObject (\<lambda>_. True) uidFromUUID json_codec (\<lambda>_. Inr ex_zero)) ex_list_options
        [?r, ?r\<lparr>Name := ''b'', TxidStamp := 4\<rparr>, ?r\<lparr>Name := ''c'', TxidStamp := 5\<rparr>]"
    by (subst ClientList_unlimited) (simp_all add: rows)
  then show ?thesis unfolding list_walk_complete [OF len] using items by simp
qed

end
