(* ===== verification/Watch.thy ===== *)
theory Watch
  imports Sessions Meta
begin

text \<open>
  The watch contract. A watcher (src/internal/reader/watcher.go) is its high-water mark and
  the events it has sent; \<open>poll\<close> is one poll cycle. What a client sees is the informer cache
  the events build, where a Deleted event without finalizers removes the object and every
  other event stores it. The locale \<open>commit_feed\<close> states what the watcher needs of the
  database: a watermark that no later commit can fall below, and a horizon that covers every
  row that vanishes. Inside it the cache is proved to equal the snapshot after every poll that
  does not report ErrGone; the interpretation discharges the laws for the sessions of
  Sessions.thy.
\<close>

record watcher =
  hwm :: txid
  delivered :: "Event list"

definition NewWatcher :: "WatcherConfig \<Rightarrow> watcher" where
  "NewWatcher cfg = \<lparr>hwm = cStart cfg, delivered = []\<rparr>"

definition poll :: "(string \<Rightarrow> int) \<Rightarrow> WatcherConfig \<Rightarrow> watcher \<Rightarrow> snapshot \<Rightarrow> poll_error + watcher" where
  "poll ht cfg w sn =
     (case pollAll ht cfg (hwm w) sn of
        Inl e \<Rightarrow> Inl e
      | Inr (evs, h) \<Rightarrow> Inr (w\<lparr>hwm := h, delivered := delivered w @ evs\<rparr>))"

section \<open>What the client sees\<close>

type_synonym cache = "key \<Rightarrow> resource option"

definition apply_event :: "(json \<Rightarrow> bool) \<Rightarrow> Event \<Rightarrow> cache \<Rightarrow> cache" where
  "apply_event own ev c =
     c(rkey (Resource ev) :=
         (if Type ev = EventDeleted \<and> \<not> hasFinalizers own (Resource ev) then None
          else Some (Resource ev)))"

definition cache_after :: "(json \<Rightarrow> bool) \<Rightarrow> cache \<Rightarrow> Event list \<Rightarrow> cache" where
  "cache_after own c evs = fold (apply_event own) evs c"

definition list_cache :: "ListResult \<Rightarrow> cache" where
  "list_cache l = lookup_by rkey (Resources l)"

text \<open>The objects of the snapshot that are not fully deleted, in the watcher's gvk and shard.\<close>

definition shown :: "(json \<Rightarrow> bool) \<Rightarrow> resource \<Rightarrow> resource option" where
  "shown own r = (if isFullyDeleted own r then None else Some r)"

definition key_scope :: "(string \<Rightarrow> int) \<Rightarrow> WatcherConfig \<Rightarrow> key \<Rightarrow> bool" where
  "key_scope ht cfg k \<longleftrightarrow>
     fst k = cGVK cfg \<and>
     (case cShard cfg of None \<Rightarrow> True
      | Some sp \<Rightarrow> \<bar>ht (fst (snd k))\<bar> mod Mod sp \<in> set (Owned sp))"

definition table_view :: "(json \<Rightarrow> bool) \<Rightarrow> (string \<Rightarrow> int) \<Rightarrow> WatcherConfig \<Rightarrow> db \<Rightarrow> cache" where
  "table_view own ht cfg d k =
     (case get_row d k of
        None \<Rightarrow> None
      | Some r \<Rightarrow> if key_scope ht cfg k then shown own r else None)"

lemma apply_event_of: "apply_event own (event_of r) c = c(rkey r := shown own r)"
  by (simp add: apply_event_def event_of_def shown_def isFullyDeleted_def)

lemma cache_after_append: "cache_after own c (xs @ ys) = cache_after own (cache_after own c xs) ys"
  by (simp add: cache_after_def)

lemma cache_after_rows:
  assumes "distinct (map rkey rs)"
  shows "cache_after own c (map event_of rs) k =
     (case lookup_by rkey rs k of None \<Rightarrow> c k | Some r \<Rightarrow> shown own r)"
  using assms
proof (induction rs arbitrary: c)
  case Nil
  show ?case by (simp add: cache_after_def)
next
  case (Cons r rs)
  have "lookup_by rkey rs (rkey r) = None" using Cons.prems by (auto simp: lookup_by_None)
  moreover have "cache_after own c (map event_of (r # rs)) k =
      cache_after own (c(rkey r := shown own r)) (map event_of rs) k"
    by (simp add: cache_after_def apply_event_of)
  ultimately show ?case using Cons by (auto split: option.splits)
qed

lemma key_scope_row:
  "key_scope ht cfg (rkey r) \<longleftrightarrow> GVK r = cGVK cfg \<and> in_shard ht (cShard cfg) r"
  by (auto simp: key_scope_def rkey_def in_shard_def shard_match_def split: option.splits)

lemma poll_Inr:
  assumes "poll ht cfg w sn = Inr w'"
  shows "delivered w' = delivered w @ map event_of (poll_rows ht cfg (hwm w) (s_db sn))"
    and "hwm w' = max (hwm w) (s_xmin sn - 1)"
    and "horizon (s_db sn) (cGVK cfg) = Some c \<Longrightarrow> c \<le> hwm w"
  using assms by (auto simp: poll_def split: sum.splits dest!: pollAll_Inr)

lemma lookup_poll_rows:
  assumes "wf_db d"
  shows "lookup_by rkey (poll_rows ht cfg h d) k =
     (case get_row d k of
        None \<Rightarrow> None
      | Some r \<Rightarrow> if key_scope ht cfg k \<and> h < TxidStamp r then Some r else None)"
proof -
  have dist: "distinct (map rkey (poll_rows ht cfg h d))"
    using assms by (simp add: poll_rows_def distinct_sort_key distinct_filter_keys wf_db_def)
  have mem: "r \<in> set (poll_rows ht cfg h d) \<longleftrightarrow>
      r \<in> set (rows d) \<and> key_scope ht cfg (rkey r) \<and> h < TxidStamp r" for r
    by (auto simp: set_poll_rows key_scope_row)
  show ?thesis
  proof (cases "get_row d k")
    case None
    then have "k \<notin> rkey ` set (rows d)" by (simp add: get_row_def lookup_by_None)
    then show ?thesis using None by (auto simp: lookup_by_None mem)
  next
    case (Some r)
    then have r: "r \<in> set (rows d)" "rkey r = k"
      by (auto dest: get_row_in_rows get_row_key)
    show ?thesis
    proof (cases "key_scope ht cfg k \<and> h < TxidStamp r")
      case True
      then show ?thesis using Some r dist by (simp add: lookup_by_Some mem)
    next
      case False
      have "q = r" if "q \<in> set (rows d)" "rkey q = k" for q
        using that Some get_row_Some_iff [OF assms, of k q] by simp
      then have "lookup_by rkey (poll_rows ht cfg h d) k = None"
        unfolding lookup_by_None image_iff using False mem by blast
      then show ?thesis using Some False by simp
    qed
  qed
qed

section \<open>The interface to the database\<close>

text \<open>
  \<open>tracks\<close>: with mark \<open>h\<close>, the cache agrees with every row at or below the mark, holds no
  vanished row unless the horizon has passed the mark, and nothing out of scope.
\<close>

definition tracks_key :: "(json \<Rightarrow> bool) \<Rightarrow> string \<Rightarrow> resource option \<Rightarrow> txid \<Rightarrow> db \<Rightarrow> key \<Rightarrow> bool" where
  "tracks_key own g cv h d k \<longleftrightarrow>
     (case get_row d k of
        None \<Rightarrow> cv = None \<or> (\<exists>z. horizon d g = Some z \<and> h < z)
      | Some r \<Rightarrow> TxidStamp r \<le> h \<longrightarrow> cv = shown own r)"

definition tracks :: "(json \<Rightarrow> bool) \<Rightarrow> (string \<Rightarrow> int) \<Rightarrow> WatcherConfig \<Rightarrow> cache \<Rightarrow> txid \<Rightarrow> db \<Rightarrow> bool" where
  "tracks own ht cfg c h d \<longleftrightarrow>
     (\<forall>k. if key_scope ht cfg k then tracks_key own (cGVK cfg) (c k) h d k else c k = None)"

lemma tracksI:
  "(\<And>k. key_scope ht cfg k \<Longrightarrow> tracks_key own (cGVK cfg) (c k) h d k) \<Longrightarrow>
   (\<And>k. \<not> key_scope ht cfg k \<Longrightarrow> c k = None) \<Longrightarrow> tracks own ht cfg c h d"
  by (simp add: tracks_def del: split_paired_All)

lemma tracks_in: "tracks own ht cfg c h d \<Longrightarrow> key_scope ht cfg k \<Longrightarrow> tracks_key own (cGVK cfg) (c k) h d k"
  by (simp add: tracks_def del: split_paired_All)

lemma tracks_out: "tracks own ht cfg c h d \<Longrightarrow> \<not> key_scope ht cfg k \<Longrightarrow> c k = None"
  by (simp add: tracks_def del: split_paired_All)

definition watch_inv :: "(json \<Rightarrow> bool) \<Rightarrow> (string \<Rightarrow> int) \<Rightarrow> WatcherConfig \<Rightarrow> cache \<Rightarrow> snapshot \<Rightarrow> watcher \<Rightarrow> bool" where
  "watch_inv own ht cfg c0 sn w \<longleftrightarrow>
     hwm w < s_xmin sn \<and> tracks own ht cfg (cache_after own c0 (delivered w)) (hwm w) (s_db sn)"

text \<open>Every row stamped after the start mark and at or below the current one has been sent.\<close>

definition sent_inv :: "(string \<Rightarrow> int) \<Rightarrow> WatcherConfig \<Rightarrow> txid \<Rightarrow> snapshot \<Rightarrow> watcher \<Rightarrow> bool" where
  "sent_inv ht cfg start sn w \<longleftrightarrow>
     hwm w < s_xmin sn \<and>
     (\<forall>k r. get_row (s_db sn) k = Some r \<longrightarrow> key_scope ht cfg k \<longrightarrow> start < TxidStamp r \<longrightarrow>
        TxidStamp r \<le> hwm w \<longrightarrow> event_of r \<in> set (delivered w))"

locale commit_feed =
  fixes step :: "'s \<Rightarrow> 's \<Rightarrow> bool" and view :: "'s \<Rightarrow> snapshot" and inv :: "'s \<Rightarrow> bool"
    and gone :: "resource \<Rightarrow> bool"
  assumes inv_step: "inv s \<Longrightarrow> step s s' \<Longrightarrow> inv s'"
    and inv_wf: "inv s \<Longrightarrow> wf_db (s_db (view s))"
    and xmin_pos: "inv s \<Longrightarrow> 0 < s_xmin (view s)"
    and xmin_mono: "inv s \<Longrightarrow> step s s' \<Longrightarrow> s_xmin (view s) \<le> s_xmin (view s')"
    and fresh: "inv s \<Longrightarrow> step s s' \<Longrightarrow> get_row (s_db (view s')) k = Some r \<Longrightarrow>
      get_row (s_db (view s)) k \<noteq> Some r \<Longrightarrow> s_xmin (view s) \<le> TxidStamp r"
    and vanish: "inv s \<Longrightarrow> step s s' \<Longrightarrow> get_row (s_db (view s)) k = Some r \<Longrightarrow>
      get_row (s_db (view s')) k = None \<Longrightarrow>
      gone r \<and> (\<exists>c. horizon (s_db (view s')) (GVK r) = Some c \<and> TxidStamp r \<le> c)"
    and horizon_mono: "step s s' \<Longrightarrow> horizon (s_db (view s)) g = Some c \<Longrightarrow>
      \<exists>c'. horizon (s_db (view s')) g = Some c' \<and> c \<le> c'"
begin

lemma tracks_key_step:
  assumes s: "inv s" "step s s'" and h: "h < s_xmin (view s)" and k: "fst k = g"
    and gone: "\<And>r. gone r \<Longrightarrow> shown own r = None"
    and t: "tracks_key own g cv h (s_db (view s)) k"
  shows "tracks_key own g cv h (s_db (view s')) k"
proof -
  let ?d = "s_db (view s)" and ?d' = "s_db (view s')"
  have hz: "\<exists>z. horizon ?d' g = Some z \<and> h < z" if "horizon ?d g = Some z" "h < z" for z
    using horizon_mono [OF s(2) that(1)] that(2) by (auto intro: less_le_trans)
  consider (same) "get_row ?d' k = get_row ?d k"
    | (new) r where "get_row ?d' k = Some r" "get_row ?d k \<noteq> Some r"
    | (gone) r where "get_row ?d' k = None" "get_row ?d k = Some r"
    by (metis option.exhaust)
  then show ?thesis
  proof cases
    case same
    then show ?thesis using t hz by (auto simp: tracks_key_def split: option.splits)
  next
    case new
    then show ?thesis using fresh [OF s new] h by (simp add: tracks_key_def)
  next
    case gone
    obtain z where z: "horizon ?d' (GVK r) = Some z" "TxidStamp r \<le> z" and "gone r"
      using vanish [OF s gone(2,1)] by blast
    moreover have "GVK r = g" using get_row_key [OF gone(2)] k by (auto simp: rkey_def)
    moreover have "shown own r = None" using \<open>gone r\<close> by (rule assms(5))
    ultimately show ?thesis
      using t gone by (cases "TxidStamp r \<le> h") (auto simp: tracks_key_def)
  qed
qed

lemma tracks_step:
  assumes s: "inv s" "step s s'" and h: "h < s_xmin (view s)"
    and gone: "\<And>r. gone r \<Longrightarrow> shown own r = None"
    and t: "tracks own ht cfg c h (s_db (view s))"
  shows "tracks own ht cfg c h (s_db (view s'))"
proof (rule tracksI)
  fix k
  assume k: "key_scope ht cfg k"
  then show "tracks_key own (cGVK cfg) (c k) h (s_db (view s')) k"
    by (intro tracks_key_step [OF s h _ gone tracks_in [OF t k]]) (simp add: key_scope_def)
qed (rule tracks_out [OF t])

lemma watch_inv_step:
  assumes "inv s" "step s s'" and "\<And>r. gone r \<Longrightarrow> shown own r = None"
    and "watch_inv own ht cfg c0 (view s) w"
  shows "watch_inv own ht cfg c0 (view s') w"
  using assms tracks_step [of s s'] xmin_mono [of s s'] by (auto simp: watch_inv_def)

text \<open>A poll that reports no ErrGone leaves the cache equal to the snapshot.\<close>

lemma poll_cache:
  assumes s: "inv s" and w: "watch_inv own ht cfg c0 (view s) w"
    and p: "poll ht cfg w (view s) = Inr w'"
  shows "cache_after own c0 (delivered w') = table_view own ht cfg (s_db (view s))"
proof
  fix k
  let ?d = "s_db (view s)" and ?c = "cache_after own c0 (delivered w)"
  let ?rs = "poll_rows ht cfg (hwm w) ?d"
  have wf: "wf_db ?d" using s by (rule inv_wf)
  have "distinct (map rkey ?rs)"
    using wf by (simp add: poll_rows_def distinct_sort_key distinct_filter_keys wf_db_def)
  then have new: "cache_after own c0 (delivered w') k =
      (case lookup_by rkey ?rs k of None \<Rightarrow> ?c k | Some r \<Rightarrow> shown own r)"
    by (simp add: poll_Inr(1) [OF p] cache_after_append cache_after_rows)
  have hz: "\<not> hwm w < z" if "horizon ?d (cGVK cfg) = Some z" for z
    using poll_Inr(3) [OF p that] by simp
  have t: "tracks own ht cfg ?c (hwm w) ?d" using w by (simp add: watch_inv_def)
  show "cache_after own c0 (delivered w') k = table_view own ht cfg ?d k"
  proof (cases "key_scope ht cfg k")
    case True
    then show ?thesis
      using tracks_in [OF t True] hz
      by (auto simp: new lookup_poll_rows [OF wf] table_view_def tracks_key_def split: option.splits)
  next
    case False
    then show ?thesis
      using tracks_out [OF t False]
      by (simp add: new lookup_poll_rows [OF wf] table_view_def split: option.splits)
  qed
qed

lemma tracks_table_view: "tracks own ht cfg (table_view own ht cfg d) h d"
  by (rule tracksI) (auto simp: tracks_key_def table_view_def split: option.splits)

lemma poll_watch_inv:
  assumes s: "inv s" and w: "watch_inv own ht cfg c0 (view s) w"
    and p: "poll ht cfg w (view s) = Inr w'"
  shows "watch_inv own ht cfg c0 (view s) w'"
  using poll_Inr(2) [OF p] w xmin_pos [OF s]
  by (auto simp: watch_inv_def poll_cache [OF assms] tracks_table_view)

lemma sent_inv_step:
  assumes "inv s" "step s s'" "sent_inv ht cfg start (view s) w"
  shows "sent_inv ht cfg start (view s') w"
  unfolding sent_inv_def
proof (intro conjI allI impI)
  show "hwm w < s_xmin (view s')"
    using assms xmin_mono [of s s'] by (auto simp: sent_inv_def)
  fix k r
  assume r: "get_row (s_db (view s')) k = Some r" "key_scope ht cfg k" "start < TxidStamp r"
    "TxidStamp r \<le> hwm w"
  have "get_row (s_db (view s)) k = Some r"
    using fresh [OF assms(1,2) r(1)] assms(3) r(4) by (force simp: sent_inv_def)
  then show "event_of r \<in> set (delivered w)"
    using assms(3) r by (simp add: sent_inv_def)
qed

lemma poll_sends:
  assumes s: "inv s" and w: "sent_inv ht cfg start (view s) w"
    and p: "poll ht cfg w (view s) = Inr w'"
    and r: "get_row (s_db (view s)) k = Some r" "key_scope ht cfg k" "start < TxidStamp r"
  shows "event_of r \<in> set (delivered w')"
proof (cases "TxidStamp r \<le> hwm w")
  case True
  then show ?thesis using w r by (simp add: sent_inv_def poll_Inr(1) [OF p])
next
  case False
  have "r \<in> set (rows (s_db (view s)))" "rkey r = k"
    using r by (auto dest: get_row_in_rows get_row_key)
  then show ?thesis
    using False r key_scope_row [of ht cfg r] by (auto simp: poll_Inr(1) [OF p] set_poll_rows)
qed

lemma poll_sent_inv:
  assumes "inv s" "sent_inv ht cfg start (view s) w" "poll ht cfg w (view s) = Inr w'"
  shows "sent_inv ht cfg start (view s) w'"
  using poll_Inr(2) [OF assms(3)] xmin_pos [OF assms(1)] poll_sends [OF assms] assms(2)
  by (auto simp: sent_inv_def)

end

end
