(* ===== verification/WatchLoop.thy ===== *)
theory WatchLoop
  imports Watch
begin

text \<open>
  The scheduler of src/internal/reader/watcher.go: one goroutine that owns all polling, with
  a baseline timer and a debounced doorbell (Run, Stop), the delivery of one poll's events
  (poll), and the goroutine that keeps the LISTEN connection (listenLoop). Times and durations
  are integers in milliseconds; what the select statement picks, the clock, the snapshot a
  poll reads and the faults of the network are inputs.
\<close>

section \<open>One poll cycle\<close>

datatype poll_fault = PollOk | PollBeginFails | PollQueryFails string | PollCommitFails
  | PollCtxDone nat | PollStopped nat | PollDbCancelled bool

datatype run_error = ErrPoll poll_error | ErrDb string | ErrCtx

text \<open>
  poll (watcher.go, 345-383). A query of pollAll that fails leaves the mark; the mark has moved
  when the commit fails or the delivery is interrupted. \<open>PollCtxDone n\<close> and
  \<open>PollStopped n\<close> interrupt the delivery after \<open>n\<close> events. \<open>PollDbCancelled committing\<close>: a database
  call fails because the context was cancelled, so the error wraps the context's.
\<close>

definition pollCycle ::
  "(string \<Rightarrow> int) \<Rightarrow> WatcherConfig \<Rightarrow> poll_fault \<Rightarrow> watcher \<Rightarrow> snapshot \<Rightarrow> watcher \<times> (run_error + nat)" where
  "pollCycle ht cfg fault w sn =
     (case fault of
        PollBeginFails \<Rightarrow> (w, Inl (ErrDb ''poll begin tx''))
      | PollQueryFails e \<Rightarrow> (w, Inl (ErrDb e))
      | PollDbCancelled False \<Rightarrow> (w, Inl ErrCtx)
      | _ \<Rightarrow> case pollAll ht cfg (hwm w) sn of
             Inl e \<Rightarrow> (w, Inl (ErrPoll e))
           | Inr (evs, h) \<Rightarrow>
               (let w' = w\<lparr>hwm := h\<rparr>; sent = (\<lambda>xs. w'\<lparr>delivered := delivered w @ xs\<rparr>) in
                case fault of
                  PollCommitFails \<Rightarrow> (w', Inl (ErrDb ''poll commit''))
                | PollDbCancelled _ \<Rightarrow> (w', Inl ErrCtx)
                | PollCtxDone n \<Rightarrow>
                    if n < length evs then (sent (take n evs), Inl ErrCtx)
                    else (sent evs, Inr (length evs))
                | PollStopped n \<Rightarrow>
                    if n < length evs then (sent (take n evs), Inr 0)
                    else (sent evs, Inr (length evs))
                | _ \<Rightarrow> (sent evs, Inr (length evs))))"

lemma pollCycle_ok:
  "pollCycle ht cfg PollOk w sn =
     (case poll ht cfg w sn of
        Inl e \<Rightarrow> (w, Inl (ErrPoll e))
      | Inr w' \<Rightarrow> (w', Inr (length (poll_rows ht cfg (hwm w) (s_db sn)))))"
  by (auto simp: pollCycle_def poll_def Let_def dest!: pollAll_Inr split: sum.splits)

section \<open>Run\<close>

record run_config =
  rcWatch :: WatcherConfig
  BaselineInterval :: int
  DebounceFloor :: int

text \<open>NewWatcher's defaults: 5 s and 100 ms for zero values.\<close>

definition with_defaults :: "run_config \<Rightarrow> run_config" where
  "with_defaults c =
     (let c1 = (if BaselineInterval c = 0 then c\<lparr>BaselineInterval := 5000\<rparr> else c)
      in if DebounceFloor c1 = 0 then c1\<lparr>DebounceFloor := 100\<rparr> else c1)"

text \<open>The counters of both goroutines, WatchStats in the source.\<close>

record WatchStats =
  ListenErrors :: nat
  Reconnects :: nat
  DoorbellPolls :: nat
  BaselinePolls :: nat
  BaselineCatches :: nat

definition stats0 :: WatchStats where
  "stats0 = \<lparr>ListenErrors = 0, Reconnects = 0, DoorbellPolls = 0, BaselinePolls = 0,
     BaselineCatches = 0\<rparr>"

text \<open>The local variables of Run: \<open>timerDue\<close> is when the timer fires.\<close>

record loop =
  lw :: watcher
  lastPoll :: time
  doorbellPending :: bool
  timerDue :: time
  stats :: WatchStats

datatype wake = CtxDone | StopCh | DoorbellCh | TimerC

text \<open>
  What one iteration sees: the channel select picks, the clock when it wakes and after the
  poll, and the poll's fault and snapshot.
\<close>

record wakeup =
  in_wake :: wake
  in_now :: time
  in_after :: time
  in_fault :: poll_fault
  in_snap :: snapshot

text \<open>
  One iteration of the select loop: on the left the loop has left for shutdown with its
  return value (None is a nil error), on the right it goes on.
\<close>

type_synonym iter_result = "(run_error option \<times> loop) + loop"

definition poll_then ::
  "(string \<Rightarrow> int) \<Rightarrow> run_config \<Rightarrow> wakeup \<Rightarrow> (nat \<Rightarrow> WatchStats \<Rightarrow> WatchStats) \<Rightarrow> loop \<Rightarrow> iter_result" where
  "poll_then ht c i upd l =
     (let (w', res) = pollCycle ht (rcWatch c) (in_fault i) (lw l) (in_snap i); l' = l\<lparr>lw := w'\<rparr>
      in case res of
           Inl e \<Rightarrow> Inl (Some e, l')
         | Inr n \<Rightarrow> Inr (l'\<lparr>lastPoll := in_after i, doorbellPending := False,
                           timerDue := in_after i + BaselineInterval c,
                           stats := upd n (stats l')\<rparr>))"

definition count_doorbell :: "WatchStats \<Rightarrow> WatchStats" where
  "count_doorbell s = s\<lparr>DoorbellPolls := DoorbellPolls s + 1\<rparr>"

definition count_timer :: "bool \<Rightarrow> bool \<Rightarrow> nat \<Rightarrow> WatchStats \<Rightarrow> WatchStats" where
  "count_timer wasDoorbell listenConfigured n s =
     (if wasDoorbell then count_doorbell s
      else s\<lparr>BaselinePolls := BaselinePolls s + 1,
             BaselineCatches := BaselineCatches s + (if 0 < n \<and> listenConfigured then 1 else 0)\<rparr>)"

definition run_iter :: "(string \<Rightarrow> int) \<Rightarrow> run_config \<Rightarrow> bool \<Rightarrow> wakeup \<Rightarrow> loop \<Rightarrow> iter_result" where
  "run_iter ht c listenConfigured i l =
     (case in_wake i of
        CtxDone \<Rightarrow> Inl (Some ErrCtx, l)
      | StopCh \<Rightarrow> Inl (None, l)
      | DoorbellCh \<Rightarrow>
          (let sinceLastPoll = in_now i - lastPoll l in
           if DebounceFloor c \<le> sinceLastPoll then
             poll_then ht c i (\<lambda>n s. s) (l\<lparr>stats := count_doorbell (stats l)\<rparr>)
           else Inr (l\<lparr>doorbellPending := True,
                       timerDue := in_now i + (DebounceFloor c - sinceLastPoll)\<rparr>))
      | TimerC \<Rightarrow> poll_then ht c i (count_timer (doorbellPending l) listenConfigured) l)"

fun run_loop :: "(string \<Rightarrow> int) \<Rightarrow> run_config \<Rightarrow> bool \<Rightarrow> wakeup list \<Rightarrow> loop \<Rightarrow> iter_result" where
  "run_loop ht c lc [] l = Inr l"
| "run_loop ht c lc (i # is) l =
     (case run_iter ht c lc i l of Inl r \<Rightarrow> Inl r | Inr l' \<Rightarrow> run_loop ht c lc is l')"

text \<open>Run: the first poll, then the loop.\<close>

definition Run :: "(string \<Rightarrow> int) \<Rightarrow> run_config \<Rightarrow> bool \<Rightarrow> wakeup \<Rightarrow> wakeup list \<Rightarrow> watcher \<Rightarrow> iter_result" where
  "Run ht c lc i0 is w =
     (case poll_then ht c i0 (\<lambda>n s. s)
             \<lparr>lw = w, lastPoll = in_now i0, doorbellPending = False, timerDue = in_now i0,
              stats = stats0\<rparr> of
        Inl r \<Rightarrow> Inl r
      | Inr l \<Rightarrow> run_loop ht c lc is l)"

section \<open>The LISTEN goroutine\<close>

definition min_backoff :: int where "min_backoff = 100"
definition max_backoff :: int where "max_backoff = 5000"

record listener =
  connected :: bool
  backoff :: int
  lstats :: WatchStats
  doorbell_full :: bool

datatype connect = FactoryFails | ListenFails | ConnectOk

text \<open>
  What an iteration of listenLoop meets: the backoff timer and then the outcome of the factory
  and of LISTEN, a notification, a failed wait, or the end (context or stop channel).
\<close>

datatype listen_event = BackoffOver connect | Notification | WaitFails | ListenDone

definition grow_backoff :: "int \<Rightarrow> int" where
  "grow_backoff b = (if b < max_backoff then min (b * 2) max_backoff else b)"

definition listen_error :: "listener \<Rightarrow> listener" where
  "listen_error l = l\<lparr>lstats := (lstats l)\<lparr>ListenErrors := ListenErrors (lstats l) + 1\<rparr>\<rparr>"

text \<open>The non-blocking send to the channel of capacity one.\<close>

definition notify :: "listener \<Rightarrow> listener" where
  "notify l = l\<lparr>doorbell_full := True\<rparr>"

text \<open>\<open>conn\<close> is None for no connection, else whether LISTEN succeeds on it.\<close>

definition listen_start :: "bool option \<Rightarrow> WatchStats \<Rightarrow> listener" where
  "listen_start conn s =
     (let l = \<lparr>connected = (conn \<noteq> None), backoff = min_backoff, lstats = s, doorbell_full = False\<rparr>
      in if conn = Some False then listen_error (l\<lparr>connected := False\<rparr>) else l)"

text \<open>None when the goroutine returns; an event that cannot happen in a state leaves it.\<close>

definition listen_iter :: "bool \<Rightarrow> listen_event \<Rightarrow> listener \<Rightarrow> listener option" where
  "listen_iter has_factory e l =
     (if \<not> connected l then
        (if \<not> has_factory then None
         else case e of
                ListenDone \<Rightarrow> None
              | BackoffOver ConnectOk \<Rightarrow>
                  Some (notify (l\<lparr>connected := True, backoff := min_backoff,
                    lstats := (lstats l)\<lparr>Reconnects := Reconnects (lstats l) + 1\<rparr>\<rparr>))
              | BackoffOver _ \<Rightarrow> Some (listen_error (l\<lparr>backoff := grow_backoff (backoff l)\<rparr>))
              | _ \<Rightarrow> Some l)
      else case e of
             ListenDone \<Rightarrow> None
           | WaitFails \<Rightarrow> Some (listen_error (l\<lparr>connected := False\<rparr>))
           | Notification \<Rightarrow> Some (notify (l\<lparr>backoff := min_backoff\<rparr>))
           | _ \<Rightarrow> Some l)"

fun listenLoop :: "bool \<Rightarrow> listen_event list \<Rightarrow> listener \<Rightarrow> listener option" where
  "listenLoop hf [] l = Some l"
| "listenLoop hf (e # es) l =
     (case listen_iter hf e l of None \<Rightarrow> None | Some l' \<Rightarrow> listenLoop hf es l')"

text \<open>Stop closes the stop channel once; closing a closed channel would panic.\<close>

definition Stop :: "bool \<Rightarrow> bool" where
  "Stop stop_closed = (if stop_closed then stop_closed else True)"

section \<open>Lemmas\<close>

text \<open>
  Between iterations the timer stands at the last poll plus the floor while a doorbell waits,
  and at the last poll plus the baseline otherwise.
\<close>

definition timer_inv :: "run_config \<Rightarrow> loop \<Rightarrow> bool" where
  "timer_inv c l \<longleftrightarrow>
     timerDue l = lastPoll l + (if doorbellPending l then DebounceFloor c else BaselineInterval c)"

lemma poll_then_inv: "poll_then ht c i upd l = Inr l' \<Longrightarrow> timer_inv c l'"
  by (auto simp: poll_then_def timer_inv_def Let_def split: prod.splits sum.splits)

lemma run_iter_inv: "run_iter ht c lc i l = Inr l' \<Longrightarrow> timer_inv c l'"
  by (auto simp: run_iter_def timer_inv_def Let_def split: wake.splits if_splits
        dest: poll_then_inv[unfolded timer_inv_def])

lemma run_loop_inv:
  "run_loop ht c lc is l = Inr l' \<Longrightarrow> timer_inv c l \<Longrightarrow> timer_inv c l'"
  by (induction "is" arbitrary: l) (auto split: sum.splits dest: run_iter_inv)

lemma grow_backoff_bounds:
  "min_backoff \<le> b \<Longrightarrow> b \<le> max_backoff \<Longrightarrow> min_backoff \<le> grow_backoff b \<and> grow_backoff b \<le> max_backoff"
  by (auto simp: grow_backoff_def min_backoff_def max_backoff_def)

definition listen_inv :: "listener \<Rightarrow> bool" where
  "listen_inv l \<longleftrightarrow> min_backoff \<le> backoff l \<and> backoff l \<le> max_backoff"

lemma listen_start_inv: "listen_inv (listen_start conn s)"
  by (auto simp: listen_inv_def listen_start_def listen_error_def min_backoff_def max_backoff_def
      Let_def)

lemma listen_iter_inv: "listen_iter hf e l = Some l' \<Longrightarrow> listen_inv l \<Longrightarrow> listen_inv l'"
  using grow_backoff_bounds[of "backoff l"]
  by (auto simp: listen_iter_def listen_inv_def listen_error_def notify_def min_backoff_def max_backoff_def
      split: if_splits listen_event.splits connect.splits)

lemma listenLoop_inv: "listenLoop hf es l = Some l' \<Longrightarrow> listen_inv l \<Longrightarrow> listen_inv l'"
  by (induction es arbitrary: l) (auto split: option.splits dest: listen_iter_inv)

section \<open>Properties\<close>

text \<open>
  The select serves the loop within \<open>lag\<close> of the timer: whatever wakes an iteration, it wakes no
  later than that after the timer was due, and the clock does not go back during the poll.
\<close>

fun served_within :: "(string \<Rightarrow> int) \<Rightarrow> run_config \<Rightarrow> bool \<Rightarrow> int \<Rightarrow> wakeup list \<Rightarrow> loop \<Rightarrow> bool" where
  "served_within ht c lc lag [] l = True"
| "served_within ht c lc lag (i # is) l =
     (in_now i \<le> timerDue l + lag \<and> in_now i \<le> in_after i \<and>
      (case run_iter ht c lc i l of Inl r \<Rightarrow> True | Inr l' \<Rightarrow> served_within ht c lc lag is l'))"

definition punctual :: "(string \<Rightarrow> int) \<Rightarrow> run_config \<Rightarrow> bool \<Rightarrow> int \<Rightarrow> wakeup \<Rightarrow> wakeup list \<Rightarrow> watcher \<Rightarrow> bool" where
  "punctual ht c lc lag i0 is w =
     (case Run ht c lc i0 [] w of Inl r \<Rightarrow> True | Inr l \<Rightarrow> served_within ht c lc lag is l)"

abbreviation poll_gap :: "run_config \<Rightarrow> int" where
  "poll_gap c \<equiv> max (DebounceFloor c) (BaselineInterval c)"

lemma run_iter_gap:
  assumes "run_iter ht c lc i l = Inr l'" "timer_inv c l" "in_now i \<le> timerDue l + lag" "in_now i \<le> in_after i"
    and "0 \<le> lag" "0 \<le> BaselineInterval c"
  shows "in_now i \<le> lastPoll l' + poll_gap c + lag"
proof -
  have "lastPoll l' = in_after i \<or> lastPoll l' = lastPoll l"
    using assms(1) by (auto simp: run_iter_def poll_then_def Let_def split: wake.splits if_splits prod.splits sum.splits)
  moreover have "timerDue l \<le> lastPoll l + poll_gap c" using assms(2) by (simp add: timer_inv_def)
  ultimately show ?thesis using assms(3-6) by linarith
qed

lemma run_loop_gap:
  assumes "run_loop ht c lc is l = Inr l'" "timer_inv c l" "served_within ht c lc lag is l" "is \<noteq> []"
    and "0 \<le> lag" "0 \<le> BaselineInterval c"
  shows "in_now (last is) \<le> lastPoll l' + poll_gap c + lag"
  using assms(1-4)
proof (induction "is" arbitrary: l)
  case (Cons i "is")
  then obtain l1 where l1: "run_iter ht c lc i l = Inr l1" "run_loop ht c lc is l1 = Inr l'"
    by (auto split: sum.splits)
  show ?case
  proof (cases "is = []")
    case True
    then show ?thesis using l1 Cons.prems run_iter_gap [OF l1(1) Cons.prems(2) _ _ assms(5,6)] by simp
  next
    case False
    then show ?thesis
      using Cons.IH [OF l1(2) run_iter_inv [OF l1(1)]] Cons.prems(3) l1(1) by simp
  qed
qed simp

text \<open>The watcher is never staler than its configuration allows. If the select serves the loop
  within a lag of the timer, then whenever the loop wakes, however many doorbells arrived and in
  whatever order, the last poll is at most the larger of the debounce floor and the baseline
  interval, plus the lag, in the past; and after the wake-up the timer stands at the last poll
  plus the floor if a doorbell waits, and plus the baseline otherwise.\<close>

theorem poll_gap_bounded:
  assumes "Run ht c lc i0 is w = Inr l" "punctual ht c lc lag i0 is w" "is \<noteq> []"
    and "0 \<le> lag" "0 \<le> BaselineInterval c"
  shows "in_now (last is) \<le> lastPoll l + max (DebounceFloor c) (BaselineInterval c) + lag \<and>
    timerDue l = lastPoll l + (if doorbellPending l then DebounceFloor c else BaselineInterval c)"
proof -
  obtain l0 where l0: "Run ht c lc i0 [] w = Inr l0" "run_loop ht c lc is l0 = Inr l"
    using assms(1) by (auto simp: Run_def split: sum.splits)
  then have "timer_inv c l0" by (auto simp: Run_def split: sum.splits intro: poll_then_inv)
  moreover have "served_within ht c lc lag is l0" using assms(2) l0(1) by (simp add: punctual_def)
  ultimately show ?thesis
    using run_loop_gap [OF l0(2)] run_loop_inv [OF l0(2)] assms(3-5) by (simp add: timer_inv_def)
qed

definition ex_run_config :: run_config where
  "ex_run_config = with_defaults \<lparr>rcWatch = \<lparr>cGVK = ''g'', cStart = 0, cShard = None\<rparr>,
     BaselineInterval = 0, DebounceFloor = 0\<rparr>"

definition ex_wakeup :: "wake \<Rightarrow> time \<Rightarrow> wakeup" where
  "ex_wakeup k t = \<lparr>in_wake = k, in_now = t, in_after = t, in_fault = PollOk, in_snap = ex_snap\<rparr>"

text \<open>
  A poll at 0, doorbells at 40 and 70 inside the floor: the trailing poll is due at 100, and at
  70 the last poll is no older than 5 s.
\<close>

theorem poll_gap_bounded_witness:
  "\<exists>l. Run (\<lambda>_. 0) ex_run_config True (ex_wakeup TimerC 0) [ex_wakeup DoorbellCh 40, ex_wakeup DoorbellCh 70]
        (NewWatcher (rcWatch ex_run_config)) = Inr l \<and> timerDue l = 100 \<and> 70 \<le> lastPoll l + 5000"
proof -
  let ?is = "[ex_wakeup DoorbellCh 40, ex_wakeup DoorbellCh 70]" and ?w = "NewWatcher (rcWatch ex_run_config)"
  have c: "DebounceFloor ex_run_config = 100" "BaselineInterval ex_run_config = 5000"
    by (simp_all add: ex_run_config_def with_defaults_def)
  have "\<exists>w' n. pollCycle (\<lambda>_. 0) (rcWatch ex_run_config) PollOk ?w ex_snap = (w', Inr n)"
    by (simp add: pollCycle_def pollAll_def ex_snap_def Let_def)
  then obtain w' n where p: "pollCycle (\<lambda>_. 0) (rcWatch ex_run_config) PollOk ?w ex_snap = (w', Inr n)" by blast
  have "\<exists>l. Run (\<lambda>_. 0) ex_run_config True (ex_wakeup TimerC 0) ?is ?w = Inr l \<and> doorbellPending l \<and> lastPoll l = 0"
    by (simp add: Run_def poll_then_def ex_wakeup_def p run_iter_def c Let_def)
  then obtain l where l: "Run (\<lambda>_. 0) ex_run_config True (ex_wakeup TimerC 0) ?is ?w = Inr l"
      "doorbellPending l" "lastPoll l = 0" by blast
  have "punctual (\<lambda>_. 0) ex_run_config True 0 (ex_wakeup TimerC 0) ?is ?w"
    by (simp add: punctual_def Run_def poll_then_def ex_wakeup_def p run_iter_def c Let_def)
  from poll_gap_bounded [OF l(1) this] l(2,3) l(1) show ?thesis by (simp add: c ex_wakeup_def)
qed

text \<open>Reconnecting is paced and never silent: through every course of failures, reconnects and
  notifications the LISTEN goroutine's backoff stays between 100 ms and 5 s, and a step that
  connects or receives a notification leaves the doorbell raised, so a poll catches up with
  what was missed.\<close>

theorem listen_paced_and_loud:
  assumes "listenLoop hf es (listen_start conn s) = Some l"
  shows "100 \<le> backoff l \<and> backoff l \<le> 5000 \<and>
    (\<forall>e l'. listen_iter hf e l = Some l' \<longrightarrow>
       ((\<not> connected l \<and> connected l') \<or> (connected l \<and> e = Notification) \<longrightarrow>
          doorbell_full l' \<and> backoff l' = 100) \<and>
       (doorbell_full l \<longrightarrow> doorbell_full l'))"
proof -
  have "listen_inv l" by (rule listenLoop_inv [OF assms listen_start_inv])
  then show ?thesis
    by (auto simp: listen_inv_def min_backoff_def max_backoff_def listen_iter_def notify_def listen_error_def
        split: if_splits listen_event.splits connect.splits)
qed

theorem listen_paced_and_loud_witness:
  "\<exists>l. listenLoop True (replicate 7 (BackoffOver FactoryFails)) (listen_start None stats0) = Some l \<and>
       backoff l \<le> 5000 \<and> ListenErrors (lstats l) = 7"
proof -
  have "\<exists>l. listenLoop True (replicate 7 (BackoffOver FactoryFails)) (listen_start None stats0) = Some l \<and>
       ListenErrors (lstats l) = 7"
    by (simp add: numeral_eq_Suc listen_start_def listen_iter_def listen_error_def stats0_def Let_def)
  then obtain l where "listenLoop True (replicate 7 (BackoffOver FactoryFails)) (listen_start None stats0) = Some l"
    "ListenErrors (lstats l) = 7" by blast
  with listen_paced_and_loud [OF this(1)] show ?thesis by blast
qed

end
