(* ===== verification/WatchPg.thy ===== *)
theory WatchPg
  imports Watch
begin

text \<open>
  The watch contract on the sessions of Sessions.thy: requests whose metadata was encoded by
  extractMetadata, the interpretation of \<open>commit_feed\<close>, an informer that starts from List and
  then polls while other sessions write and compact (\<open>watch_run\<close>), and the properties of the
  whole: nothing is skipped, the cache converges, watermarks are safe.
\<close>

section \<open>Requests from pgruntime\<close>

definition request_ok :: "(json \<Rightarrow> bool) \<Rightarrow> pgargs \<Rightarrow> bool" where
  "request_ok own p \<longleftrightarrow> (case p_metadata p of None \<Rightarrow> True | Some md \<Rightarrow> meta_written own md)"

definition db_meta :: "(json \<Rightarrow> bool) \<Rightarrow> db \<Rightarrow> bool" where
  "db_meta own d \<longleftrightarrow> (\<forall>r \<in> set (rows d). meta_written own (Metadata r))"

definition txn_meta :: "(json \<Rightarrow> bool) \<Rightarrow> txn \<Rightarrow> bool" where
  "txn_meta own x \<longleftrightarrow>
     (t_phase x = Other \<or> request_ok own (t_args x)) \<and>
     (case wrote (t_phase x) of None \<Rightarrow> True | Some r \<Rightarrow> meta_written own (Metadata r))"

definition feed_inv :: "(json \<Rightarrow> bool) \<Rightarrow> sys \<Rightarrow> bool" where
  "feed_inv own s \<longleftrightarrow>
     sys_inv s \<and> db_meta own (committed s) \<and> (\<forall>x \<in> set (running s). txn_meta own x)"

lemma upsert_meta:
  assumes "upsert t u now p cur = Inr r" "request_ok own p"
    "\<And>e. cur = Some e \<Longrightarrow> meta_written own (Metadata e)"
  shows "meta_written own (Metadata r)"
  using assms
  by (auto simp: upsert_def request_ok_def split: if_splits insert_result.splits
      dest!: update_status_Inr update_row_Inr revive_row_Inr insert_row_Inserted)

lemma first_stmt_upsert:
  "first_stmt t u now p cur = Writes r \<Longrightarrow> upsert t u now p cur = Inr r"
  by (auto simp: first_stmt_def upsert_def split: if_splits insert_result.splits sum.splits)

lemma db_meta_get: "db_meta own d \<Longrightarrow> get_row d k = Some e \<Longrightarrow> meta_written own (Metadata e)"
  by (auto simp: db_meta_def dest: get_row_in_rows)

lemma db_meta_put:
  "wf_db d \<Longrightarrow> db_meta own d \<Longrightarrow> meta_written own (Metadata r) \<Longrightarrow> db_meta own (put_row r d)"
  by (auto simp: db_meta_def put_row_def set_put_by wf_db_def)

lemma pg_step_meta:
  assumes "pg_step (request_ok own) s s'" "feed_inv own s"
  shows "db_meta own (committed s') \<and> (\<forall>x \<in> set (running s'). txn_meta own x)"
  using assms
proof (induction rule: pg_step.induct)
  case (upsert_writes x s u now r)
  have "txn_meta own x" "db_meta own (committed s)" "sys_inv s"
    using upsert_writes.prems upsert_writes.hyps(1) by (simp_all add: feed_inv_def)
  moreover have req: "request_ok own (t_args x)"
    using calculation(1) upsert_writes.hyps(2) by (simp add: txn_meta_def)
  have "meta_written own (Metadata r)"
    using first_stmt_upsert [OF upsert_writes.hyps(4)] req db_meta_get [OF calculation(2)]
    by (rule upsert_meta)
  ultimately show ?case
    using upsert_writes.prems req by (auto simp: feed_inv_def set_running_set_phase txn_meta_def)
next
  case (revive x s u now r)
  have "txn_meta own x" "db_meta own (committed s)" "sys_inv s"
    using revive.prems revive.hyps(1) by (simp_all add: feed_inv_def)
  moreover have req: "request_ok own (t_args x)"
    using calculation(1) revive.hyps(2) by (simp add: txn_meta_def)
  have "meta_written own (Metadata r)"
    using revive_row_Inr [OF revive.hyps(4)] req by (auto simp: request_ok_def)
  ultimately show ?case
    using revive.prems req by (auto simp: feed_inv_def set_running_set_phase txn_meta_def)
next
  case (commit x s r)
  then have "meta_written own (Metadata r)" "wf_db (committed s)"
    by (auto simp: feed_inv_def txn_meta_def)
  then show ?case using commit by (auto simp: feed_inv_def db_meta_put)
next
  case (compact s P)
  then show ?case by (auto simp: feed_inv_def db_meta_def compact_rows_def)
qed (auto simp: feed_inv_def set_running_set_phase txn_meta_def db_meta_def)

lemma feed_inv_step: "pg_step (request_ok own) s s' \<Longrightarrow> feed_inv own s \<Longrightarrow> feed_inv own s'"
  using pg_step_meta pg_step_inv unfolding feed_inv_def by blast

lemma feed_inv_init: "wf_db d \<Longrightarrow> db_meta own d \<Longrightarrow> feed_inv own (init_sys d)"
  using sys_inv_init by (auto simp: feed_inv_def init_sys_def)

lemma snap_simps [simp]: "s_db (snap s) = committed s" "s_xmin (snap s) = xmin_of s"
  by (simp_all add: snap_def)

interpretation sess: commit_feed "pg_step (request_ok own)" snap "feed_inv own" "isFullyDeleted own"
  for own
proof unfold_locales
  fix s s' k r
  assume s: "feed_inv own s" "pg_step (request_ok own) s s'"
    and r: "get_row (s_db (snap s)) k = Some r" "get_row (s_db (snap s')) k = None"
  have "sys_inv s" using s by (simp add: feed_inv_def)
  from pg_step_row [OF s(2) this, of k] r
  have "is_true (tombstone_filter r)"
    and hz: "\<exists>c. horizon (committed s') (GVK r) = Some c \<and> TxidStamp r \<le> c" by auto
  moreover have "meta_written own (Metadata r)"
    using s r by (auto simp: feed_inv_def intro: db_meta_get)
  ultimately show "isFullyDeleted own r \<and>
      (\<exists>c. horizon (s_db (snap s')) (GVK r) = Some c \<and> TxidStamp r \<le> c)"
    using hz by (simp add: fully_deleted_iff_tombstone)
qed (auto simp: feed_inv_def xmin_pos intro: xmin_mono step_stamp_fresh pg_step_horizon
       feed_inv_step [unfolded feed_inv_def] dest: pg_step_inv pg_step_meta [unfolded feed_inv_def])


section \<open>An informer: List, then polls among other sessions' steps\<close>

text \<open>
  The ListWatch of pgcache.go: the list with the shard filter, and a watcher that starts at
  the list's resource version.
\<close>

definition informer_list :: "(string \<Rightarrow> int) \<Rightarrow> WatcherConfig \<Rightarrow> snapshot \<Rightarrow> ListResult" where
  "informer_list ht cfg sn = List sn (cGVK cfg) (map_option (ToListFilter ht) (cShard cfg))"

definition informer_watcher :: "(string \<Rightarrow> int) \<Rightarrow> WatcherConfig \<Rightarrow> snapshot \<Rightarrow> watcher" where
  "informer_watcher ht cfg sn = NewWatcher (cfg\<lparr>cStart := Watermark (informer_list ht cfg sn)\<rparr>)"

inductive watch_run :: "(pgargs \<Rightarrow> bool) \<Rightarrow> (string \<Rightarrow> int) \<Rightarrow> WatcherConfig \<Rightarrow> sys \<times> watcher \<Rightarrow>
    sys \<times> watcher \<Rightarrow> bool"
  for ok :: "pgargs \<Rightarrow> bool" and ht :: "string \<Rightarrow> int" and cfg :: WatcherConfig and a :: "sys \<times> watcher"
  where
    run_start: "watch_run ok ht cfg a a"
  | run_server: "watch_run ok ht cfg a (s, w) \<Longrightarrow> pg_step ok s s' \<Longrightarrow> watch_run ok ht cfg a (s', w)"
  | run_poll: "watch_run ok ht cfg a (s, w) \<Longrightarrow> poll ht cfg w (snap s) = Inr w' \<Longrightarrow>
      watch_run ok ht cfg a (s, w')"

lemma set_informer_list:
  "set (Resources (informer_list ht cfg sn)) =
     {r \<in> set (rows (s_db sn)). key_scope ht cfg (rkey r) \<and> \<not> is_true (tombstone_filter r)}"
  by (cases "cShard cfg")
    (auto simp: informer_list_def set_List set_List_shard list_filter_iff key_scope_row in_shard_def)

lemma distinct_informer_list:
  "wf_db (s_db sn) \<Longrightarrow> distinct (map rkey (Resources (informer_list ht cfg sn)))"
  by (cases "cShard cfg")
    (auto simp: informer_list_def List_def Let_def paginate_def ToListFilter_def distinct_sort_key
      distinct_filter_keys wf_db_def)

lemma list_cache_view:
  assumes wf: "wf_db (s_db sn)" and md: "db_meta own (s_db sn)"
  shows "list_cache (informer_list ht cfg sn) = table_view own ht cfg (s_db sn)"
proof
  fix k
  let ?l = "Resources (informer_list ht cfg sn)"
  have look: "lookup_by rkey ?l k = Some r \<longleftrightarrow>
      get_row (s_db sn) k = Some r \<and> key_scope ht cfg k \<and> \<not> isFullyDeleted own r" for r
  proof -
    have "meta_written own (Metadata r)" if "r \<in> set (rows (s_db sn))"
      using md that by (simp add: db_meta_def)
    then show ?thesis
      by (auto simp: lookup_by_Some [OF distinct_informer_list [OF wf]] set_informer_list
          get_row_Some_iff [OF wf] fully_deleted_iff_tombstone)
  qed
  show "list_cache (informer_list ht cfg sn) k = table_view own ht cfg (s_db sn) k"
  proof (cases "lookup_by rkey ?l k")
    case None
    then show ?thesis using look by (auto simp: list_cache_def table_view_def shown_def split: option.splits)
  next
    case (Some r)
    then show ?thesis using look [of r] by (auto simp: list_cache_def table_view_def shown_def)
  qed
qed

lemma informer_hwm: "hwm (informer_watcher ht cfg sn) = s_xmin sn - 1"
  by (simp add: informer_watcher_def NewWatcher_def informer_list_def List_def Let_def watermark_of_def)

lemma informer_delivered: "delivered (informer_watcher ht cfg sn) = []"
  by (simp add: informer_watcher_def NewWatcher_def)

text \<open>The start of an informer satisfies the watch invariant; every run keeps it.\<close>

lemma informer_start_inv:
  assumes "feed_inv own s"
  shows "watch_inv own ht cfg (list_cache (informer_list ht cfg (snap s))) (snap s)
           (informer_watcher ht cfg (snap s))"
proof -
  have "wf_db (committed s)" "db_meta own (committed s)" "0 < xmin_of s"
    using assms by (auto simp: feed_inv_def xmin_pos)
  then show ?thesis
    by (simp add: watch_inv_def informer_hwm informer_delivered cache_after_def list_cache_view
        sess.tracks_table_view)
qed

lemma watch_run_inv:
  assumes "watch_run (request_ok own) ht cfg a b" "feed_inv own (fst a)"
    "watch_inv own ht cfg c0 (snap (fst a)) (snd a)"
  shows "feed_inv own (fst b) \<and> watch_inv own ht cfg c0 (snap (fst b)) (snd b)"
  using assms
proof (induction rule: watch_run.induct)
  case (run_server s w s')
  moreover have "shown own r = None" if "isFullyDeleted own r" for r
    using that by (simp add: shown_def)
  ultimately show ?case
    using feed_inv_step sess.watch_inv_step [of own s s' own ht cfg c0 w] by auto
next
  case (run_poll s w w')
  then show ?case using sess.poll_watch_inv [of own s own ht cfg c0 w w'] by auto
qed auto

lemma watch_run_sent:
  assumes "watch_run (request_ok own) ht cfg a b" "feed_inv own (fst a)"
    "sent_inv ht cfg start (snap (fst a)) (snd a)"
  shows "feed_inv own (fst b) \<and> sent_inv ht cfg start (snap (fst b)) (snd b)"
  using assms
proof (induction rule: watch_run.induct)
  case (run_server s w s')
  then show ?case
    using feed_inv_step sess.sent_inv_step [of own s s' ht cfg start w] by auto
next
  case (run_poll s w w')
  then show ?case using sess.poll_sent_inv [of own s ht cfg start w w'] by auto
qed auto

section \<open>Properties\<close>

lemma reachable_feed_inv:
  "reachable (request_ok own) s0 s \<Longrightarrow> feed_inv own s0 \<Longrightarrow> feed_inv own s"
  by (induction rule: reachable.induct) (auto intro: feed_inv_step)

lemma informer_start:
  assumes "wf_db d" "db_meta own d" "reachable (request_ok own) (init_sys d) s0"
  shows "feed_inv own s0"
  using reachable_feed_inv [OF assms(3)] feed_inv_init [OF assms(1,2)] .

text \<open>The concrete run of Sessions.thy, seen by an informer of gvk g.\<close>

definition ex_cfg :: WatcherConfig where
  "ex_cfg = \<lparr>cGVK = ''g'', cStart = 0, cShard = None\<rparr>"

lemma meta_written_empty [simp]: "meta_written own (JObj [])"
proof -
  have "sm_ok own empty_meta" "JObj [] = canon (encode_meta empty_meta)"
    by (simp_all add: sm_ok_def empty_meta_def canon_encode_meta omit_def)
  then show ?thesis unfolding meta_written_def by blast
qed

lemma ex_request_ok [simp]: "request_ok own ex_args"
  by (simp add: request_ok_def ex_args_def)

lemma ex_db_meta [simp]: "db_meta own ex_db"
  by (simp add: db_meta_def)

lemma ex_reach: "reachable (request_ok own) (init_sys ex_db) ex_sys"
  by (rule ex_sys_reachable) simp

definition ex_polled :: "watcher \<Rightarrow> watcher" where
  "ex_polled w = w\<lparr>hwm := max (hwm w) 4, delivered := delivered w @ [event_of ex_updated_row]\<rparr>"

lemma ex_poll:
  assumes "hwm w < 4"
  shows "poll ht ex_cfg w (snap ex_sys') = Inr (ex_polled w)"
proof -
  have "rows (committed ex_sys') = [ex_updated_row]"
    by (simp add: ex_sys'_def end_txn_def ex_sys_def put_row_def put_by_def rkey_def ex_updated_row_def)
  then have "poll_rows ht ex_cfg (hwm w) (committed ex_sys') = [ex_updated_row]"
    using assms by (simp add: poll_rows_def ex_cfg_def in_shard_def ex_updated_row_def)
  then show ?thesis
    using assms by (simp add: poll_def pollAll_def ex_cfg_def ex_polled_def)
qed

lemma ex_run:
  "watch_run (request_ok own) ht ex_cfg (ex_sys, w) (ex_sys', w)"
  by (rule run_server [OF run_start ex_sys_commit])

lemma converges:
  assumes "wf_db d" "db_meta own d" "reachable (request_ok own) (init_sys d) s0"
    and "watch_run (request_ok own) ht cfg (s0, informer_watcher ht cfg (snap s0)) (s, w)"
    and "poll ht cfg w (snap s) = Inr w'"
  shows "cache_after own (list_cache (informer_list ht cfg (snap s0))) (delivered w') =
    table_view own ht cfg (committed s)"
proof -
  have inv: "feed_inv own s0" by (rule informer_start [OF assms(1-3)])
  have "feed_inv own s \<and> watch_inv own ht cfg (list_cache (informer_list ht cfg (snap s0))) (snap s) w"
    using watch_run_inv [OF assms(4), simplified] inv informer_start_inv [OF inv] by blast
  then show ?thesis using sess.poll_cache [of own s own ht cfg _ w w'] assms(5) by simp
qed

text \<open>C2: The informer converges: start from List at any moment, let any number of sessions write,
  abort and compact, poll any number of times in between, and the cache built from the list and
  the events sent equals, after every poll that does not report ErrGone, exactly the objects
  of the gvk and shard that the table then holds and that are not fully deleted.\<close>

theorem informer_converges:
  assumes "wf_db d" "db_meta own d" "reachable (request_ok own) (init_sys d) s0"
    and "watch_run (request_ok own) ht cfg (s0, informer_watcher ht cfg (snap s0)) (s, w)"
    and "poll ht cfg w (snap s) = Inr w'"
  shows "cache_after own (list_cache (informer_list ht cfg (snap s0))) (delivered w') =
    table_view own ht cfg (committed s)"
  using assms by (rule converges)

theorem informer_converges_witness:
  "cache_after (\<lambda>_. True) (list_cache (informer_list (\<lambda>_. 0) ex_cfg (snap ex_sys)))
     (delivered (ex_polled (informer_watcher (\<lambda>_. 0) ex_cfg (snap ex_sys)))) (''g'', ''n'', ''a'') =
     Some ex_updated_row"
proof -
  let ?w = "informer_watcher (\<lambda>_. 0) ex_cfg (snap ex_sys)"
  have "hwm ?w < 4" by (simp add: informer_hwm)
  from informer_converges [OF wf_ex_db ex_db_meta ex_reach ex_run ex_poll [OF this]]
  show ?thesis
    by (simp add: table_view_def key_scope_def ex_cfg_def shown_def isFullyDeleted_def ex_updated_row_def)
qed

text \<open>C5: No change is missed: a watcher that starts at a mark below the oldest running transaction
  has sent, after every successful poll, the current state of every row in scope stamped above
  that mark, however its polls interleaved with the sessions' steps.\<close>

theorem no_event_lost:
  assumes "wf_db d" "db_meta own d" "reachable (request_ok own) (init_sys d) s0"
    and "watch_run (request_ok own) ht cfg (s0, NewWatcher cfg) (s, w)" "cStart cfg < xmin_of s0"
    and "poll ht cfg w (snap s) = Inr w'"
  shows "\<forall>k r. get_row (committed s) k = Some r \<longrightarrow> key_scope ht cfg k \<longrightarrow> cStart cfg < TxidStamp r \<longrightarrow>
    event_of r \<in> set (delivered w')"
proof -
  have inv: "feed_inv own s0" by (rule informer_start [OF assms(1-3)])
  have "sent_inv ht cfg (cStart cfg) (snap s0) (NewWatcher cfg)"
    using assms(5) by (auto simp: sent_inv_def NewWatcher_def)
  then have "feed_inv own s \<and> sent_inv ht cfg (cStart cfg) (snap s) w"
    using watch_run_sent [OF assms(4)] inv by simp
  then show ?thesis using sess.poll_sends [of own s ht cfg "cStart cfg" w w'] assms(6) by auto
qed

theorem no_event_lost_witness:
  "event_of ex_updated_row \<in> set (delivered (ex_polled (NewWatcher ex_cfg)))"
proof -
  have "cStart ex_cfg < xmin_of ex_sys" "hwm (NewWatcher ex_cfg) < 4"
    by (simp_all add: ex_cfg_def NewWatcher_def)
  from no_event_lost [OF wf_ex_db ex_db_meta [of "\<lambda>_. True"] ex_reach ex_run this(1) ex_poll [OF this(2)],
      rule_format, of "(''g'', ''n'', ''a'')" ex_updated_row]
  show ?thesis by (simp add: key_scope_def ex_cfg_def)
qed

lemma watch_run_hwm: "watch_run ok ht cfg a b \<Longrightarrow> hwm (snd a) \<le> hwm (snd b)"
  by (induction rule: watch_run.induct) (auto dest: poll_Inr(2))

text \<open>C8: The high-water mark is safe: it never moves back, it stays below every transaction that is
  still running, and whatever commits next is stamped above it, so the query for rows above the
  mark cannot step over a change.\<close>

theorem mark_is_safe:
  assumes "wf_db d" "db_meta own d" "reachable (request_ok own) (init_sys d) s0"
    and "watch_run (request_ok own) ht cfg (s0, NewWatcher cfg) (s, w)" "cStart cfg < xmin_of s0"
  shows "cStart cfg \<le> hwm w \<and> (\<forall>x \<in> set (running s). hwm w < t_xid x) \<and>
    (\<forall>s' k r. pg_step (request_ok own) s s' \<longrightarrow> get_row (committed s') k = Some r \<longrightarrow>
       get_row (committed s) k \<noteq> Some r \<longrightarrow> hwm w < TxidStamp r)"
proof -
  have inv: "feed_inv own s0" by (rule informer_start [OF assms(1-3)])
  have "sent_inv ht cfg (cStart cfg) (snap s0) (NewWatcher cfg)"
    using assms(5) by (auto simp: sent_inv_def NewWatcher_def)
  then have s: "sys_inv s" and w: "hwm w < xmin_of s"
    using watch_run_sent [OF assms(4)] inv by (auto simp: sent_inv_def feed_inv_def)
  have "cStart cfg \<le> hwm w" using watch_run_hwm [OF assms(4)] by (simp add: NewWatcher_def)
  moreover have "hwm w < TxidStamp r"
    if "pg_step (request_ok own) s s'" "get_row (committed s') k = Some r" "get_row (committed s) k \<noteq> Some r" for s' k r
    using step_stamp_fresh [OF that(1) s that(2,3)] w by simp
  ultimately show ?thesis using w xmin_le_running [of _ s] by (auto intro: less_le_trans)
qed

theorem mark_is_safe_witness: "hwm (NewWatcher ex_cfg) < TxidStamp ex_updated_row"
proof -
  have "cStart ex_cfg < xmin_of ex_sys" by (simp add: ex_cfg_def)
  from mark_is_safe [OF wf_ex_db ex_db_meta [of "\<lambda>_. True"] ex_reach run_start this, THEN conjunct2, THEN conjunct2, rule_format, OF ex_sys_commit, of "(''g'', ''n'', ''a'')"]
  show ?thesis by simp
qed

text \<open>A transaction that stays open while another session's tombstone is compacted.\<close>

definition ex_open :: txn where
  "ex_open = \<lparr>t_xid = 4, t_args = ex_args, t_phase = Other\<rparr>"

definition ex_dead_row :: resource where
  "ex_dead_row = ex_row\<lparr>TxidStamp := 5, ObjectVersion := 2, DeletionTimestamp := Some 5, UpdatedAt := 5\<rparr>"

definition ex_deleting :: "phase \<Rightarrow> sys" where
  "ex_deleting ph = \<lparr>committed = ex_db\<lparr>next_xid := 6\<rparr>,
     running = [ex_open, \<lparr>t_xid = 5, t_args = ex_delete, t_phase = ph\<rparr>]\<rparr>"

definition ex_compacted :: sys where
  "ex_compacted = \<lparr>committed = \<lparr>rows = [], horizon = [''g'' \<mapsto> 5], next_xid = 7\<rparr>, running = [ex_open]\<rparr>"

lemma ex_deleting_start: "reachable (request_ok own) (init_sys ex_db) (ex_deleting Began)"
proof -
  let ?s1 = "\<lparr>committed = ex_db\<lparr>next_xid := 5\<rparr>, running = [ex_open]\<rparr>"
  have "start_txn ex_args Other (init_sys ex_db) = ?s1"
    by (simp add: start_txn_def init_sys_def ex_open_def)
  then have "reachable (request_ok own) (init_sys ex_db) ?s1"
    using reach_step [OF reach_refl begin_other [of "request_ok own" "init_sys ex_db" ex_args]] by simp
  moreover have "request_ok own ex_delete"
    by (simp add: request_ok_def ex_delete_def ex_args_def)
  moreover have "start_txn ex_delete Began ?s1 = ex_deleting Began"
    by (simp add: start_txn_def ex_deleting_def)
  ultimately show ?thesis using reach_step begin_write by metis
qed

lemma ex_deleting_check: "pg_step ok (ex_deleting Began) (ex_deleting Checked)"
proof -
  let ?x = "\<lparr>t_xid = 5, t_args = ex_delete, t_phase = Began\<rparr>"
  have "pg_step ok (ex_deleting Began) (set_phase ?x Checked (ex_deleting Began))"
    by (rule check_go)
      (simp_all add: ex_deleting_def suppression_check_def suppressed_iff ex_delete_def ex_args_def p_key_def)
  then show ?thesis by (simp add: set_phase_def put_by_def ex_deleting_def ex_open_def)
qed

lemma ex_deleting_write: "pg_step ok (ex_deleting Checked) (ex_deleting (Wrote ex_dead_row))"
proof -
  let ?x = "\<lparr>t_xid = 5, t_args = ex_delete, t_phase = Checked\<rparr>"
  have "pg_step ok (ex_deleting Checked) (set_phase ?x (Wrote ex_dead_row) (ex_deleting Checked))"
    by (rule upsert_writes [where u = 9 and now = 5])
      (simp_all add: ex_deleting_def locked_def ex_open_def first_stmt_def upsert_def update_row_def
        bigint_succ_def ex_delete_def ex_args_def p_key_def ex_dead_row_def)
  then show ?thesis by (simp add: set_phase_def put_by_def ex_deleting_def ex_open_def)
qed

lemma ex_deleting_end: "reachable ok (ex_deleting (Wrote ex_dead_row)) ex_compacted"
proof -
  let ?x = "\<lparr>t_xid = 5, t_args = ex_delete, t_phase = Wrote ex_dead_row\<rparr>"
  let ?s = "ex_deleting (Wrote ex_dead_row)"
  let ?d = "\<lparr>rows = [ex_dead_row], horizon = (\<lambda>_. None), next_xid = 6\<rparr>"
  let ?c = "\<lparr>committed = ?d, running = [ex_open]\<rparr>"
  have key: "rkey ex_dead_row = (''g'', ''n'', ''a'')" "GVK ex_dead_row = ''g''" "TxidStamp ex_dead_row = 5"
    by (simp_all add: ex_dead_row_def rkey_def)
  have "put_row ex_dead_row (ex_db\<lparr>next_xid := 6\<rparr>) = ?d"
    by (simp add: put_row_def put_by_def key) (simp add: ex_db_def)
  then have "end_txn (t_xid ?x) (?s\<lparr>committed := put_row ex_dead_row (committed ?s)\<rparr>) = ?c"
    by (simp add: end_txn_def ex_deleting_def ex_open_def)
  moreover have "pg_step ok ?s (end_txn (t_xid ?x) (?s\<lparr>committed := put_row ex_dead_row (committed ?s)\<rparr>))"
    by (rule commit) (simp_all add: ex_deleting_def)
  ultimately have "pg_step ok ?s ?c" by simp
  moreover have "pg_step ok ?c (?c\<lparr>committed := (compact_rows (\<lambda>_. True) (committed ?c))\<lparr>next_xid := next_xid (committed ?c) + 1\<rparr>\<rparr>)"
    by (rule compact) (simp add: tombstone_filter_iff ex_dead_row_def locked_def ex_open_def)
  moreover have "(compact_rows (\<lambda>_. True) ?d)\<lparr>next_xid := 7\<rparr> = committed ex_compacted"
    by (auto simp: compact_rows_def ex_compacted_def raise_horizon_def key fun_eq_iff)
  ultimately show ?thesis
    using reach_step [OF reach_step [OF reach_refl]] by (simp add: ex_compacted_def)
qed

text \<open>Relisting may not clear ErrGone: there is a reachable state in which one transaction has been
  open for long and a younger tombstone has been compacted. A fresh List then hands out a
  watermark below the horizon, so the first poll of the new watch reports ErrGone at once, and
  it does so for every List until the old transaction ends.\<close>

theorem relist_stays_gone:
  "\<exists>s. reachable (request_ok own) (init_sys ex_db) s \<and>
     poll ht ex_cfg (informer_watcher ht ex_cfg (snap s)) (snap s) = Inl (ErrGone 3 5)"
proof -
  have "reachable (request_ok own) (init_sys ex_db) (ex_deleting (Wrote ex_dead_row))"
    by (rule reach_step [OF reach_step [OF ex_deleting_start ex_deleting_check] ex_deleting_write])
  then have "reachable (request_ok own) (init_sys ex_db) ex_compacted"
    by (rule reachable_trans [OF ex_deleting_end])
  moreover have "poll ht ex_cfg (informer_watcher ht ex_cfg (snap ex_compacted)) (snap ex_compacted) = Inl (ErrGone 3 5)"
    by (simp add: poll_def pollAll_def informer_hwm ex_cfg_def ex_compacted_def xmin_of_def ex_open_def)
  ultimately show ?thesis by blast
qed

end
