(* ===== verification/PgWatch.thy ===== *)
theory PgWatch
  imports Convert WatchLoop WatchPg
begin

text \<open>
  src/pkg/pgruntime/pgwatch.go: the relay from a watcher's events to the watch.Interface that
  the client-go reflector reads. It converts the row to an object, stamps a composite resource
  version, names the event, and turns the watcher's final error into a Status. What the select
  statements pick is the input list.
\<close>

section \<open>relay\<close>

datatype k8s_event_type = WAdded | WModified | WDeleted | WError

datatype status_reason = Expired | InternalError string

datatype ('s, 't) watch_event =
    WatchObject k8s_event_type "('s, 't) object"
  | WatchError status_reason

record ('s, 't) pgWatcher =
  currentRV :: RV
  result_ch :: "('s, 't) watch_event list"
  relaying :: bool
  source_stopped :: bool
  done_closed :: bool

definition newPgWatcher :: "RV \<Rightarrow> ('s, 't) pgWatcher" where
  "newPgWatcher startRV =
     \<lparr>currentRV = \<lparr>rvObjectVersion = 0, rvWatermark = rvWatermark startRV\<rparr>, result_ch = [],
      relaying = True, source_stopped = False, done_closed = False\<rparr>"

definition eventType :: "(json \<Rightarrow> bool) \<Rightarrow> Event \<Rightarrow> k8s_event_type" where
  "eventType own ev =
     (case Type ev of
        EventAdded \<Rightarrow> WAdded
      | EventModified \<Rightarrow> WModified
      | EventDeleted \<Rightarrow> if hasFinalizers own (Resource ev) then WModified else WDeleted)"

text \<open>
  sendError: no event for a nil error or a cancelled context; ErrGone becomes Expired.
  \<open>ConvertFailed\<close> is the relay's own error.
\<close>

datatype relay_error = RunError run_error | ConvertFailed string

fun error_event :: "relay_error option \<Rightarrow> status_reason option" where
  "error_event None = None"
| "error_event (Some (RunError ErrCtx)) = None"
| "error_event (Some (RunError (ErrPoll _))) = Some Expired"
| "error_event (Some (RunError (ErrDb e))) = Some (InternalError e)"
| "error_event (Some (ConvertFailed e)) = Some (InternalError e)"

text \<open>
  What an iteration meets. \<open>SourceEvent ev taken\<close>: an event, and whether the reader took the
  result (else the watch was stopped while sending); \<open>SourceClosed e taken\<close>: the end of the
  source's Run with its error.
\<close>

datatype relay_input = SourceEvent Event bool | SourceClosed "run_error option" bool | WatchDone | WatchCtxDone

definition stop_relay :: "('s, 't) pgWatcher \<Rightarrow> ('s, 't) pgWatcher" where
  "stop_relay pw = pw\<lparr>relaying := False, source_stopped := True\<rparr>"

definition send_error :: "relay_error option \<Rightarrow> bool \<Rightarrow> ('s, 't) pgWatcher \<Rightarrow> ('s, 't) pgWatcher" where
  "send_error e taken pw =
     (case error_event e of
        None \<Rightarrow> pw
      | Some r \<Rightarrow> if taken then pw\<lparr>result_ch := result_ch pw @ [WatchError r]\<rparr> else pw)"

definition stampRV :: "Event \<Rightarrow> RV \<Rightarrow> RV" where
  "stampRV ev rv =
     (let r = Resource ev;
          rv1 = (if rvWatermark rv < TxidStamp r then rv\<lparr>rvWatermark := TxidStamp r\<rparr> else rv)
      in rv1\<lparr>rvObjectVersion := ObjectVersion r\<rparr>)"

definition relay_step ::
  "(json \<Rightarrow> bool) \<Rightarrow> (uid \<Rightarrow> string) \<Rightarrow> ('s, 't) codec \<Rightarrow> (gvk \<Rightarrow> string + ('s, 't) object) \<Rightarrow>
     relay_input \<Rightarrow> ('s, 't) pgWatcher \<Rightarrow> ('s, 't) pgWatcher" where
  "relay_step own us cd new i pw =
     (if \<not> relaying pw then pw
      else case i of
             WatchDone \<Rightarrow> stop_relay pw
           | WatchCtxDone \<Rightarrow> stop_relay pw
           | SourceClosed e taken \<Rightarrow> (send_error (map_option RunError e) taken pw)\<lparr>relaying := False\<rparr>
           | SourceEvent ev taken \<Rightarrow>
               (case resourceToObject own us cd new (Resource ev) of
                  Inl e \<Rightarrow> send_error (Some (ConvertFailed e)) taken (stop_relay pw)
                | Inr obj \<Rightarrow>
                    (let rv = stampRV ev (currentRV pw); pw1 = pw\<lparr>currentRV := rv\<rparr>;
                         out = WatchObject (eventType own ev) (obj\<lparr>objRV := rv_string rv\<rparr>)
                     in if taken then pw1\<lparr>result_ch := result_ch pw1 @ [out]\<rparr> else stop_relay pw1)))"

definition relay ::
  "(json \<Rightarrow> bool) \<Rightarrow> (uid \<Rightarrow> string) \<Rightarrow> ('s, 't) codec \<Rightarrow> (gvk \<Rightarrow> string + ('s, 't) object) \<Rightarrow>
     relay_input list \<Rightarrow> ('s, 't) pgWatcher \<Rightarrow> ('s, 't) pgWatcher" where
  "relay own us cd new = fold (relay_step own us cd new)"

definition StopWatch :: "('s, 't) pgWatcher \<Rightarrow> ('s, 't) pgWatcher" where
  "StopWatch pw = (if done_closed pw then pw else pw\<lparr>done_closed := True\<rparr>)"

section \<open>Lemmas\<close>

text \<open>The stamped versions: the row's own version, and the largest stamp so far.\<close>

fun object_rvs :: "('s, 't) watch_event list \<Rightarrow> string list" where
  "object_rvs [] = []"
| "object_rvs (WatchObject _ obj # es) = objRV obj # object_rvs es"
| "object_rvs (WatchError _ # es) = object_rvs es"

lemma object_rvs_append: "object_rvs (xs @ ys) = object_rvs xs @ object_rvs ys"
  by (induction xs rule: object_rvs.induct) auto

lemma stampRV_simps [simp]:
  "rvObjectVersion (stampRV ev rv) = ObjectVersion (Resource ev)"
  "rvWatermark (stampRV ev rv) = max (rvWatermark rv) (TxidStamp (Resource ev))"
  by (auto simp: stampRV_def Let_def)

text \<open>What the relay sends for a list of events that all convert and are all taken.\<close>

fun expected_rvs :: "txid \<Rightarrow> Event list \<Rightarrow> RV list" where
  "expected_rvs wm [] = []"
| "expected_rvs wm (ev # evs) =
     (let m = max wm (TxidStamp (Resource ev))
      in \<lparr>rvObjectVersion = ObjectVersion (Resource ev), rvWatermark = m\<rparr> # expected_rvs m evs)"

lemma relay_events:
  assumes "\<forall>ev \<in> set evs. \<exists>obj. resourceToObject own us cd new (Resource ev) = Inr obj" "relaying pw"
  shows "relaying (relay own us cd new (map (\<lambda>ev. SourceEvent ev True) evs) pw) \<and>
    object_rvs (result_ch (relay own us cd new (map (\<lambda>ev. SourceEvent ev True) evs) pw)) =
      object_rvs (result_ch pw) @ map rv_string (expected_rvs (rvWatermark (currentRV pw)) evs)"
  using assms
proof (induction evs arbitrary: pw)
  case (Cons ev evs)
  obtain obj where obj: "resourceToObject own us cd new (Resource ev) = Inr obj" using Cons.prems(1) by auto
  let ?rv = "stampRV ev (currentRV pw)"
  let ?pw = "pw\<lparr>currentRV := ?rv, result_ch := result_ch pw @ [WatchObject (eventType own ev) (obj\<lparr>objRV := rv_string ?rv\<rparr>)]\<rparr>"
  have step: "relay_step own us cd new (SourceEvent ev True) pw = ?pw"
    using obj Cons.prems(2) by (simp add: relay_step_def Let_def)
  have go: "relay own us cd new (map (\<lambda>ev. SourceEvent ev True) (ev # evs)) pw =
      relay own us cd new (map (\<lambda>ev. SourceEvent ev True) evs) ?pw"
    by (simp only: relay_def list.map fold_simps step)
  have rv: "?rv = \<lparr>rvObjectVersion = ObjectVersion (Resource ev),
      rvWatermark = max (rvWatermark (currentRV pw)) (TxidStamp (Resource ev))\<rparr>"
    by (rule RV.equality) simp_all
  have "object_rvs (result_ch ?pw) = object_rvs (result_ch pw) @ [rv_string ?rv]"
    by (simp add: object_rvs_append)
  moreover have "expected_rvs (rvWatermark (currentRV pw)) (ev # evs) = ?rv # expected_rvs (rvWatermark ?rv) evs"
    by (simp add: rv Let_def)
  moreover have "relaying ?pw" "currentRV ?pw = ?rv" using Cons.prems(2) by simp_all
  ultimately show ?case
    using Cons.IH [of ?pw] Cons.prems(1) unfolding go by simp
qed (simp add: relay_def)

section \<open>Properties\<close>

text \<open>Stamped resource versions are usable and never go back: when every event converts and is
  taken, the n-th object carries exactly its row's own version, from which a client can write,
  and a watermark that is the largest of the start and the stamps relayed so far.\<close>

theorem relay_stamps:
  assumes "\<forall>ev \<in> set evs. \<exists>obj. resourceToObject own us cd new (Resource ev) = Inr obj"
    and "\<forall>ev \<in> set evs. 0 < ObjectVersion (Resource ev) \<and> ObjectVersion (Resource ev) < 2 ^ 63 \<and> TxidStamp (Resource ev) < 2 ^ 64"
    and "rvWatermark start < 2 ^ 64"
  shows "map Parse (object_rvs (result_ch (relay own us cd new (map (\<lambda>ev. SourceEvent ev True) evs) (newPgWatcher start)))) =
      map Inr (expected_rvs (rvWatermark start) evs) \<and>
    sorted (map rvWatermark (expected_rvs (rvWatermark start) evs))"
proof -
  have bounds: "\<forall>ev \<in> set evs. 0 < ObjectVersion (Resource ev) \<and> ObjectVersion (Resource ev) < 2 ^ 63 \<and> TxidStamp (Resource ev) < 2 ^ 64 \<Longrightarrow>
      wm < 2 ^ 64 \<Longrightarrow> rv \<in> set (expected_rvs wm evs) \<Longrightarrow>
      0 \<le> rvObjectVersion rv \<and> rvObjectVersion rv < 2 ^ 63 \<and> rvWatermark rv < 2 ^ 64" for rv wm evs
    by (induction evs arbitrary: wm) (auto simp: Let_def max_def split: if_splits)
  have parse: "map Parse (map rv_string (expected_rvs (rvWatermark start) evs)) = map Inr (expected_rvs (rvWatermark start) evs)"
    using bounds [OF assms(2,3)] by (auto intro!: Parse_rv_string)
  have ge: "x \<in> set (expected_rvs wm evs) \<Longrightarrow> wm \<le> rvWatermark x" for wm x evs
    by (induction evs arbitrary: wm) (auto simp: Let_def, fastforce)
  have "sorted (map rvWatermark (expected_rvs wm evs))" for wm
    by (induction evs arbitrary: wm) (auto simp: Let_def dest: ge)
  moreover have "object_rvs (result_ch (relay own us cd new (map (\<lambda>ev. SourceEvent ev True) evs) (newPgWatcher start :: ('a, 'b) pgWatcher))) =
      map rv_string (expected_rvs (rvWatermark start) evs)"
    using relay_events [OF assms(1), of "newPgWatcher start"] by (simp add: newPgWatcher_def)
  ultimately show ?thesis using parse by simp
qed

definition ex_new :: "gvk \<Rightarrow> string + (json, json) object" where
  "ex_new g = Inr ex_object"

theorem relay_stamps_witness:
  "map Parse (object_rvs (result_ch (relay (\<lambda>_. True) (\<lambda>_. []) json_codec ex_new
      (map (\<lambda>ev. SourceEvent ev True) [event_of (ex_row\<lparr>GVK := ''g/v/K''\<rparr>)])
      (newPgWatcher \<lparr>rvObjectVersion = 0, rvWatermark = 7\<rparr>)))) =
   [Inr \<lparr>rvObjectVersion = 1, rvWatermark = 7\<rparr>]"
proof -
  let ?r = "ex_row\<lparr>GVK := ''g/v/K''\<rparr>"
  have "\<exists>obj. resourceToObject (\<lambda>_. True) (\<lambda>_. []) json_codec ex_new ?r = Inr obj"
    by (simp add: resourceToObject_def stringToGVK_def numeral_3_eq_3 ex_new_def populateObject_def
        injectSpecStatus_def json_codec_def split: option.splits)
  then show ?thesis
    using relay_stamps [of "[event_of ?r]" "\<lambda>_. True" "\<lambda>_. []" json_codec ex_new "\<lparr>rvObjectVersion = 0, rvWatermark = 7\<rparr>"]
    by (simp add: event_of_def Let_def)
qed

text \<open>Transaction 4 has created b and not yet committed when transaction 5 commits an update of a.\<close>

definition ex_create_b :: pgargs where
  "ex_create_b = ex_recreate\<lparr>p_name := ''b''\<rparr>"

definition ex_row_b :: resource where
  "ex_row_b = \<lparr>GVK = ''g'', Namespace = ''n'', Name = ''b'', UID = 9, TxidStamp = 4, ObjectVersion = 1,
     Spec = JObj [(''x'', JNum 3)], Status = JObj [], Metadata = JObj [], DeletionTimestamp = None,
     CreatedAt = 5, UpdatedAt = 5\<rparr>"

definition ex_row_a :: resource where
  "ex_row_a = ex_row\<lparr>TxidStamp := 5, ObjectVersion := 2, Spec := JObj [(''x'', JNum 2)], UpdatedAt := 5\<rparr>"

definition ex_creator :: "phase \<Rightarrow> txn" where
  "ex_creator ph = \<lparr>t_xid = 4, t_args = ex_create_b, t_phase = ph\<rparr>"

definition ex_updater :: "phase \<Rightarrow> txn" where
  "ex_updater ph = \<lparr>t_xid = 5, t_args = ex_args, t_phase = ph\<rparr>"

definition ex_one :: "phase \<Rightarrow> sys" where
  "ex_one ph = \<lparr>committed = ex_db\<lparr>next_xid := 5\<rparr>, running = [ex_creator ph]\<rparr>"

definition ex_two :: "phase \<Rightarrow> sys" where
  "ex_two ph = \<lparr>committed = ex_db\<lparr>next_xid := 6\<rparr>, running = [ex_creator (Wrote ex_row_b), ex_updater ph]\<rparr>"

definition ex_skew :: sys where
  "ex_skew = \<lparr>committed = \<lparr>rows = [ex_row_a], horizon = (\<lambda>_. None), next_xid = 6\<rparr>, running = [ex_creator (Wrote ex_row_b)]\<rparr>"

definition ex_late :: sys where
  "ex_late = \<lparr>committed = \<lparr>rows = [ex_row_a, ex_row_b], horizon = (\<lambda>_. None), next_xid = 6\<rparr>, running = []\<rparr>"

lemmas ex_skew_defs = ex_creator_def ex_updater_def ex_one_def ex_two_def ex_create_b_def ex_recreate_def
  ex_args_def p_key_def

lemma ex_keys [simp]:
  "rkey ex_row_a = (''g'', ''n'', ''a'')" "rkey ex_row_b = (''g'', ''n'', ''b'')"
  "TxidStamp ex_row_a = 5" "TxidStamp ex_row_b = 4" "GVK ex_row_a = ''g''" "GVK ex_row_b = ''g''"
  "ObjectVersion ex_row_a = 2"
  by (simp_all add: ex_row_a_def ex_row_b_def rkey_def)

lemma ex_one_reach: "reachable (request_ok own) (init_sys ex_db) (ex_one (Wrote ex_row_b))"
proof -
  have "request_ok own ex_create_b" by (simp add: request_ok_def ex_skew_defs)
  moreover have "start_txn ex_create_b Began (init_sys ex_db) = ex_one Began"
    by (simp add: start_txn_def init_sys_def ex_one_def ex_creator_def)
  ultimately have "reachable (request_ok own) (init_sys ex_db) (ex_one Began)"
    using reach_step [OF reach_refl begin_write] by metis
  moreover have "pg_step (request_ok own) (ex_one Began) (set_phase (ex_creator Began) Checked (ex_one Began))"
    by (rule check_go) (simp_all add: ex_skew_defs suppression_check_def)
  moreover have "set_phase (ex_creator Began) Checked (ex_one Began) = ex_one Checked"
    by (simp add: set_phase_def put_by_def ex_one_def ex_creator_def)
  moreover have "pg_step (request_ok own) (ex_one Checked) (set_phase (ex_creator Checked) (Wrote ex_row_b) (ex_one Checked))"
    by (rule upsert_writes [where u = 9 and now = 5])
      (simp_all add: ex_skew_defs locked_def first_stmt_def insert_row_def ex_row_b_def)
  moreover have "set_phase (ex_creator Checked) (Wrote ex_row_b) (ex_one Checked) = ex_one (Wrote ex_row_b)"
    by (simp add: set_phase_def put_by_def ex_one_def ex_creator_def)
  ultimately show ?thesis using reach_step by metis
qed

lemma ex_two_reach: "reachable (request_ok own) (init_sys ex_db) (ex_two (Wrote ex_row_a))"
proof -
  have "start_txn ex_args Began (ex_one (Wrote ex_row_b)) = ex_two Began"
    by (simp add: start_txn_def ex_one_def ex_two_def ex_updater_def)
  then have "reachable (request_ok own) (init_sys ex_db) (ex_two Began)"
    using reach_step [OF ex_one_reach begin_write [of "request_ok own" ex_args]] ex_request_ok by metis
  moreover have "pg_step (request_ok own) (ex_two Began) (set_phase (ex_updater Began) Checked (ex_two Began))"
    by (rule check_go) (simp_all add: ex_two_def ex_updater_def ex_args_def p_key_def suppression_check_def suppressed_iff)
  moreover have "set_phase (ex_updater Began) Checked (ex_two Began) = ex_two Checked"
    by (simp add: set_phase_def put_by_def ex_two_def ex_updater_def ex_creator_def)
  moreover have "pg_step (request_ok own) (ex_two Checked) (set_phase (ex_updater Checked) (Wrote ex_row_a) (ex_two Checked))"
    by (rule upsert_writes [where u = 9 and now = 5])
      (simp_all add: ex_two_def ex_updater_def ex_creator_def ex_args_def p_key_def locked_def first_stmt_def
        upsert_def update_row_def bigint_succ_def ex_row_a_def)
  moreover have "set_phase (ex_updater Checked) (Wrote ex_row_a) (ex_two Checked) = ex_two (Wrote ex_row_a)"
    by (simp add: set_phase_def put_by_def ex_two_def ex_updater_def ex_creator_def)
  ultimately show ?thesis using reach_step by metis
qed

lemma ex_skew_reach: "reachable (request_ok own) (init_sys ex_db) ex_skew"
proof -
  let ?s = "ex_two (Wrote ex_row_a)"
  have "pg_step (request_ok own) ?s (end_txn (t_xid (ex_updater (Wrote ex_row_a))) (?s\<lparr>committed := put_row ex_row_a (committed ?s)\<rparr>))"
    by (rule commit) (simp_all add: ex_two_def ex_updater_def)
  moreover have "put_row ex_row_a (ex_db\<lparr>next_xid := 6\<rparr>) = \<lparr>rows = [ex_row_a], horizon = (\<lambda>_. None), next_xid = 6\<rparr>"
    by (simp add: put_row_def put_by_def) (simp add: ex_db_def)
  then have "end_txn (t_xid (ex_updater (Wrote ex_row_a))) (?s\<lparr>committed := put_row ex_row_a (committed ?s)\<rparr>) = ex_skew"
    by (simp add: end_txn_def ex_two_def ex_skew_def ex_updater_def ex_creator_def)
  ultimately show ?thesis using reach_step [OF ex_two_reach] by metis
qed

lemma ex_late_step: "pg_step ok ex_skew ex_late"
proof -
  have "pg_step ok ex_skew (end_txn (t_xid (ex_creator (Wrote ex_row_b))) (ex_skew\<lparr>committed := put_row ex_row_b (committed ex_skew)\<rparr>))"
    by (rule commit) (simp_all add: ex_skew_def ex_creator_def)
  then show ?thesis
    by (simp add: end_txn_def ex_skew_def ex_late_def ex_creator_def put_row_def put_by_def)
qed

text \<open>The resource version the relay stamps is not a safe place to resume from. A poll delivers
  the update of a, stamped 5, while transaction 4 is still open; the relay stamps it with
  watermark 5, above the snapshot's safe mark 3. When transaction 4 then commits b, a watch
  resumed from the stamped version polls successfully and never sends b, while the original
  watcher does.\<close>

theorem resume_from_stamp_skips:
  "\<exists>s s' r w1 w2 w3. reachable (request_ok own) (init_sys ex_db) s \<and> pg_step (request_ok own) s s' \<and>
     get_row (committed s') (''g'', ''n'', ''b'') = Some r \<and>
     poll ht ex_cfg (NewWatcher (ex_cfg\<lparr>cStart := 3\<rparr>)) (snap s) = Inr w1 \<and>
     map rvWatermark (expected_rvs 3 (delivered w1)) = [5] \<and>
     poll ht ex_cfg (NewWatcher (ex_cfg\<lparr>cStart := 5\<rparr>)) (snap s') = Inr w2 \<and> delivered w2 = [] \<and>
     poll ht ex_cfg w1 (snap s') = Inr w3 \<and> event_of r \<in> set (delivered w3)"
proof -
  let ?w1 = "\<lparr>hwm = 3, delivered = [event_of ex_row_a]\<rparr>"
  have x: "xmin_of ex_skew = 4" "xmin_of ex_late = 6"
    by (simp_all add: xmin_of_def ex_skew_def ex_late_def ex_creator_def)
  have 1: "poll ht ex_cfg (NewWatcher (ex_cfg\<lparr>cStart := 3\<rparr>)) (snap ex_skew) = Inr ?w1"
    by (simp add: poll_def pollAll_def poll_rows_def NewWatcher_def ex_cfg_def in_shard_def x)
      (simp add: ex_skew_def poll_rows_def in_shard_def xmin_of_def ex_creator_def)
  have 2: "poll ht ex_cfg (NewWatcher (ex_cfg\<lparr>cStart := 5\<rparr>)) (snap ex_late) = Inr \<lparr>hwm = 5, delivered = []\<rparr>"
    by (simp add: poll_def pollAll_def poll_rows_def NewWatcher_def ex_cfg_def in_shard_def x)
      (simp add: ex_late_def poll_rows_def in_shard_def xmin_of_def)
  have 3: "poll ht ex_cfg ?w1 (snap ex_late) =
      Inr \<lparr>hwm = 5, delivered = [event_of ex_row_a, event_of ex_row_b, event_of ex_row_a]\<rparr>"
    by (simp add: poll_def pollAll_def poll_rows_def NewWatcher_def ex_cfg_def in_shard_def x)
      (simp add: ex_late_def poll_rows_def in_shard_def xmin_of_def)
  have "get_row (committed ex_late) (''g'', ''n'', ''b'') = Some ex_row_b"
    by (simp add: ex_late_def get_row_def)
  moreover have "map rvWatermark (expected_rvs 3 (delivered ?w1)) = [5]"
    by (simp add: event_of_def Let_def)
  ultimately show ?thesis
    using ex_skew_reach ex_late_step 1 2 3 by (metis (no_types, lifting) list.set_intros watcher.select_convs(2))
qed

end
