(* ===== verification/Manager.thy ===== *)
theory Manager
  imports ClientList PgWatch
begin

text \<open>
  src/pkg/pgruntime/pgcache.go, pgmanager.go and tracer.go: the cache that makes one informer
  per kind and wires its List and Watch to the table, the constructors NewManager and NewClient
  with their checks, the pool's settings, the health endpoints, the REST mapper's kinds and the
  slow-query tracer. Schemes, connections and the client-go informer are third-party code: an
  informer here is what the cache gives it.
\<close>

section \<open>The cache\<close>

record informer =
  infGVK :: gvk
  infShard :: "ShardSpec option"
  infRunning :: bool

record pgCache =
  shard :: "ShardSpec option"
  unsharded :: "gvk list"
  informers :: "(gvk \<times> informer) list"
  started :: bool

definition gvk_shard :: "pgCache \<Rightarrow> gvk \<Rightarrow> ShardSpec option" where
  "gvk_shard c g = (if shard c \<noteq> None \<and> g \<notin> set (unsharded c) then shard c else None)"

text \<open>\<open>new\<close> is scheme.New for the example object; its error leaves the cache as it was.\<close>

definition getOrCreateInformer ::
  "(gvk \<Rightarrow> string + ('s, 't) object) \<Rightarrow> gvk \<Rightarrow> pgCache \<Rightarrow> pgCache \<times> (string + informer)" where
  "getOrCreateInformer new g c =
     (case map_of (informers c) g of
        Some ifm \<Rightarrow> (c, Inr ifm)
      | None \<Rightarrow>
          (case new g of
             Inl e \<Rightarrow> (c, Inl (''scheme.New: '' @ e))
           | Inr _ \<Rightarrow>
               (let ifm = \<lparr>infGVK = g, infShard = gvk_shard c g, infRunning = started c\<rparr>
                in (c\<lparr>informers := (g, ifm) # informers c\<rparr>, Inr ifm))))"

definition StartCache :: "pgCache \<Rightarrow> pgCache" where
  "StartCache c = c\<lparr>started := True, informers := map (\<lambda>(g, ifm). (g, ifm\<lparr>infRunning := True\<rparr>)) (informers c)\<rparr>"

text \<open>
  The cache's Get and List run the client's statements on a connection of the same pool, with
  no shard.
\<close>

definition CacheGet ::
  "client_env \<Rightarrow> (json \<Rightarrow> bool) \<Rightarrow> (uid \<Rightarrow> string) \<Rightarrow> ('s, 't) codec \<Rightarrow> string + gvk list \<Rightarrow> db \<Rightarrow>
     string \<times> string \<Rightarrow> ('s, 't) object \<Rightarrow> ('s, 't) object \<times> api_err option" where
  "CacheGet = Get"

definition CacheList ::
  "client_env \<Rightarrow> (json \<Rightarrow> bool) \<Rightarrow> (uid \<Rightarrow> string) \<Rightarrow> ('s, 't) codec \<Rightarrow> (gvk \<Rightarrow> string + ('s, 't) object) \<Rightarrow>
     (json \<Rightarrow> string) \<Rightarrow> string + gvk list \<Rightarrow> list_options \<Rightarrow> snapshot \<Rightarrow>
     list_error + ('s, 't) object_list" where
  "CacheList = ClientList"

text \<open>
  The ListWatch of an informer. The failures it can meet outside the model are arguments: the
  connection, the query, scheme.New for the list kind, and setting the list's items (the type
  assertion included). Error texts are cut to their fixed part.
\<close>

definition list_func ::
  "(json \<Rightarrow> bool) \<Rightarrow> (uid \<Rightarrow> string) \<Rightarrow> ('s, 't) codec \<Rightarrow> (gvk \<Rightarrow> string + ('s, 't) object) \<Rightarrow>
     (string \<Rightarrow> int) \<Rightarrow> string option \<Rightarrow> string option \<Rightarrow> string option \<Rightarrow> string option \<Rightarrow> informer \<Rightarrow>
     snapshot \<Rightarrow> string + ('s, 't) object list \<times> string" where
  "list_func own us cd new ht acquire query newList setItems ifm sn =
     (case acquire of
        Some e \<Rightarrow> Inl (''list connect: '' @ e)
      | None \<Rightarrow>
          (case query of
             Some e \<Rightarrow> Inl (''list: '' @ e)
           | None \<Rightarrow>
               (let res = List sn (gvkToString (infGVK ifm)) (map_option (ToListFilter ht) (infShard ifm))
                in case newList of
                     Some e \<Rightarrow> Inl (''scheme.New: '' @ e)
                   | None \<Rightarrow>
                       (case list_items (resourceToObject own us cd new) None (Resources res) of
                          Inl e \<Rightarrow> Inl e
                        | Inr items \<Rightarrow>
                            (case setItems of
                               Some e \<Rightarrow> Inl e
                             | None \<Rightarrow> Inr (items, rv_string \<lparr>rvObjectVersion = 0, rvWatermark = Watermark res\<rparr>))))))"

text \<open>
  The second acquisition's failure closes the first connection. The watcher gets a LISTEN
  connection and no ListenConnFactory (the False of \<open>listen_iter\<close>).
\<close>

definition watch_func ::
  "string option \<Rightarrow> string option \<Rightarrow> informer \<Rightarrow> string \<Rightarrow> string + (WatcherConfig \<times> RV \<times> bool)" where
  "watch_func acquire_poll acquire_listen ifm optsRV =
     (case (if optsRV = [] then Inr \<lparr>rvObjectVersion = 0, rvWatermark = 0\<rparr> else Parse optsRV) of
        Inl _ \<Rightarrow> Inl ''parse resourceVersion''
      | Inr startRV \<Rightarrow>
          (case acquire_poll of
             Some e \<Rightarrow> Inl (''watch poll connect: '' @ e)
           | None \<Rightarrow>
               (case acquire_listen of
                  Some e \<Rightarrow> Inl (''watch listen connect: '' @ e)
                | None \<Rightarrow> Inr (\<lparr>cGVK = gvkToString (infGVK ifm), cStart = rvWatermark startRV,
                                cShard = infShard ifm\<rparr>, startRV, False))))"

section \<open>Constructors\<close>

record shard_config =
  scMod :: int
  scOwned :: "int list"
  UnshardedGVKs :: "gvk list"

record options =
  has_scheme :: bool
  DSN :: string
  oShard :: "shard_config option"
  MaxPoolConns :: int
  MinPoolConns :: int
  SlowQueryThreshold :: int

text \<open>What the outside does: parsing the DSN and connecting, acquiring, migrating.\<close>

record setup_env =
  pool_result :: "string option"
  acquire_result :: "string option"
  migrate_result :: "string option"

datatype setup_error =
    SchemeRequired | DSNRequired | BadShard shard_error | PoolError string | AcquireError string | MigrationError string

record pool_config =
  MaxConns :: int
  MinConns :: int
  statement_timeout :: string
  tracer_threshold :: "int option"

text \<open>createPool on the parsed DSN's defaults.\<close>

definition createPool :: "pool_config \<Rightarrow> options \<Rightarrow> pool_config" where
  "createPool dsn opts =
     (let c1 = (if 0 < MaxPoolConns opts then dsn\<lparr>MaxConns := MaxPoolConns opts\<rparr> else dsn);
          c2 = (if 0 < MinPoolConns opts then c1\<lparr>MinConns := MinPoolConns opts\<rparr> else c1);
          c3 = c2\<lparr>statement_timeout := ''30000''\<rparr>
      in if 0 < SlowQueryThreshold opts then c3\<lparr>tracer_threshold := Some (SlowQueryThreshold opts)\<rparr> else c3)"

text \<open>On an error after the pool exists the pool is closed (the flag says that a pool is left open).\<close>

definition connect_and_migrate :: "setup_env \<Rightarrow> setup_error option \<times> bool" where
  "connect_and_migrate env =
     (case pool_result env of
        Some e \<Rightarrow> (Some (PoolError e), False)
      | None \<Rightarrow>
          (case acquire_result env of
             Some e \<Rightarrow> (Some (AcquireError e), False)
           | None \<Rightarrow>
               (case migrate_result env of
                  Some e \<Rightarrow> (Some (MigrationError e), False)
                | None \<Rightarrow> (None, True))))"

definition NewManager :: "setup_env \<Rightarrow> options \<Rightarrow> setup_error + pgCache" where
  "NewManager env opts =
     (if \<not> has_scheme opts then Inl SchemeRequired
      else if DSN opts = [] then Inl DSNRequired
      else (let spec = map_option (\<lambda>s. \<lparr>Mod = scMod s, Owned = scOwned s\<rparr>) (oShard opts);
                bad = (case spec of None \<Rightarrow> None | Some s \<Rightarrow> Validate s)
            in case bad of
                 Some e \<Rightarrow> Inl (BadShard e)
               | None \<Rightarrow>
                   (case fst (connect_and_migrate env) of
                      Some e \<Rightarrow> Inl e
                    | None \<Rightarrow> Inr \<lparr>shard = spec,
                        unsharded = (case oShard opts of None \<Rightarrow> [] | Some s \<Rightarrow> UnshardedGVKs s),
                        informers = [], started = False\<rparr>)))"

definition NewClient :: "setup_env \<Rightarrow> options \<Rightarrow> setup_error option" where
  "NewClient env opts =
     (if \<not> has_scheme opts then Some SchemeRequired
      else if DSN opts = [] then Some DSNRequired
      else fst (connect_and_migrate env))"

section \<open>Health checks, REST mapper, tracer\<close>

text \<open>
  The health probes: the status code and, for a 500, the failing check and its error (the body's
  text is not kept). A Go map is ranged in any order, so the list is one such order.
\<close>

fun runChecks :: "(string \<times> string option) list \<Rightarrow> nat \<times> (string \<times> string) option" where
  "runChecks [] = (200, None)"
| "runChecks ((name, None) # cs) = runChecks cs"
| "runChecks ((name, Some e) # cs) = (500, Some (name, e))"

lemma runChecks_iff:
  "fst (runChecks cs) = (if \<forall>(name, e) \<in> set cs. e = None then 200 else 500) \<and>
   (\<forall>name e. snd (runChecks cs) = Some (name, e) \<longrightarrow> (name, Some e) \<in> set cs)"
  by (induction cs rule: runChecks.induct) auto

record pgManager =
  mCache :: pgCache
  runnables :: "string list"
  healthzChecks :: "(string \<times> string option) list"
  readyzChecks :: "(string \<times> string option) list"

definition AddRunnable :: "string \<Rightarrow> pgManager \<Rightarrow> pgManager" where
  "AddRunnable r m = m\<lparr>runnables := runnables m @ [r]\<rparr>"

definition AddHealthzCheck :: "string \<Rightarrow> string option \<Rightarrow> pgManager \<Rightarrow> pgManager" where
  "AddHealthzCheck name check m = m\<lparr>healthzChecks := put_by fst (name, check) (healthzChecks m)\<rparr>"

definition AddReadyzCheck :: "string \<Rightarrow> string option \<Rightarrow> pgManager \<Rightarrow> pgManager" where
  "AddReadyzCheck name check m = m\<lparr>readyzChecks := put_by fst (name, check) (readyzChecks m)\<rparr>"

definition serve_probe :: "pgManager \<Rightarrow> string \<Rightarrow> nat \<times> (string \<times> string) option" where
  "serve_probe m path =
     (if path = ''/healthz'' then runChecks (healthzChecks m)
      else if path = ''/readyz'' then runChecks (readyzChecks m)
      else (404, None))"

text \<open>
  Start, as the things it sets going in order, and its error. \<open>has_synced\<close> is client-go's answer
  for each informer when WaitForCacheSync returns; the pool is closed once the context is done
  and every runnable has returned.
\<close>

datatype mgr_action = ServeProbes string | RunCache | RunRunnable string | ClosePool

definition WaitForCacheSync :: "(informer \<Rightarrow> bool) \<Rightarrow> pgCache \<Rightarrow> bool" where
  "WaitForCacheSync has_synced c = list_all (\<lambda>(g, i). has_synced i) (informers c)"

definition StartManager :: "string \<Rightarrow> (informer \<Rightarrow> bool) \<Rightarrow> pgManager \<Rightarrow> mgr_action list \<times> string option" where
  "StartManager addr has_synced m =
     (let up = (if addr = [] then [] else [ServeProbes addr]) @ [RunCache]
      in if \<not> WaitForCacheSync has_synced (mCache m) then (up, Some ''pgruntime: cache sync failed'')
         else (up @ map RunRunnable (runnables m) @ [ClosePool], None))"

definition rest_mapper_kinds :: "gvk list \<Rightarrow> gvk list" where
  "rest_mapper_kinds ks =
     filter (\<lambda>g. \<not> (trim_suffix ''List'' (gKind g) \<noteq> gKind g \<or> gKind g = [])) ks"

text \<open>TraceQueryEnd: the query is logged when it took at least the threshold.\<close>

definition trace_logged :: "int \<Rightarrow> time option \<Rightarrow> time \<Rightarrow> bool" where
  "trace_logged threshold start now =
     (case start of None \<Rightarrow> False | Some t \<Rightarrow> \<not> now - t < threshold)"

section \<open>Properties\<close>

text \<open>
  The caches a manager reaches: informers are made on demand, before or after the start. Every
  one of them follows its kind and the filter its kind has in the cache.
\<close>

inductive cache_reach :: "(gvk \<Rightarrow> string + ('s, 't) object) \<Rightarrow> pgCache \<Rightarrow> bool" for new where
  built: "NewManager env opts = Inr c \<Longrightarrow> cache_reach new c"
| informer: "cache_reach new c \<Longrightarrow> cache_reach new (fst (getOrCreateInformer new g c))"
| start: "cache_reach new c \<Longrightarrow> cache_reach new (StartCache c)"

definition wired :: "pgCache \<Rightarrow> bool" where
  "wired c \<longleftrightarrow> (\<forall>s. shard c = Some s \<longrightarrow> Validate s = None) \<and>
     (\<forall>g i. (g, i) \<in> set (informers c) \<longrightarrow> infGVK i = g \<and> infShard i = gvk_shard c g)"

lemma NewManager_wired: "NewManager env opts = Inr c \<Longrightarrow> wired c"
  by (auto simp: NewManager_def wired_def Let_def split: if_splits option.splits)

lemma getOrCreateInformer_cases:
  obtains (same) "fst (getOrCreateInformer new g c) = c"
  | (made) "fst (getOrCreateInformer new g c) =
      c\<lparr>informers := (g, \<lparr>infGVK = g, infShard = gvk_shard c g, infRunning = started c\<rparr>) # informers c\<rparr>"
  by (cases "map_of (informers c) g"; cases "new g") (auto simp: getOrCreateInformer_def Let_def)

lemma getOrCreateInformer_wired: "wired c \<Longrightarrow> wired (fst (getOrCreateInformer new g c))"
  by (cases rule: getOrCreateInformer_cases [of new g c]) (auto simp: wired_def gvk_shard_def)

lemma StartCache_wired: "wired c \<Longrightarrow> wired (StartCache c)"
  by (auto simp: wired_def StartCache_def gvk_shard_def)

lemma cache_reach_wired: "cache_reach new c \<Longrightarrow> wired c"
  by (induction rule: cache_reach.induct) (auto intro: NewManager_wired getOrCreateInformer_wired StartCache_wired)

lemma wired_informer:
  assumes "wired c" "getOrCreateInformer new g c = (c', Inr i)"
  shows "infGVK i = g" "infShard i = gvk_shard c g"
  using assms by (auto simp: getOrCreateInformer_def wired_def Let_def split: option.splits sum.splits dest!: map_of_SomeD)

text \<open>The informer is wired as the convergence theorem needs. In a manager that was built,
  after any requests for informers and whether or not it was started, the list and the watch of
  every kind use the same filter: the validated shard, or none for a kind that opted out or when
  no shard is set; and the watch that the reflector starts from the list's resource version
  begins exactly at the list's watermark, with the list's kind and shard.\<close>

theorem informer_wiring:
  assumes "cache_reach new c" "getOrCreateInformer new g c = (c', Inr i)"
    and "list_func own us cd new ht None None None None i sn = Inr (items, rv)" "s_xmin sn < 2 ^ 64"
  shows "infGVK i = g \<and> infShard i = gvk_shard c g \<and>
    (\<forall>s. gvk_shard c g = Some s \<longrightarrow> Validate s = None \<and> g \<notin> set (unsharded c)) \<and>
    (\<exists>cfg srv. watch_func None None i rv = Inr (cfg, srv, False) \<and> cShard cfg = infShard i \<and>
       NewWatcher cfg = informer_watcher ht \<lparr>cGVK = gvkToString g, cStart = 0, cShard = infShard i\<rparr> sn)"
proof -
  have c: "wired c" using assms(1) by (rule cache_reach_wired)
  note i = wired_informer [OF c assms(2)]
  let ?cfg0 = "\<lparr>cGVK = gvkToString g, cStart = 0, cShard = infShard i\<rparr>"
  let ?wm = "s_xmin sn - 1"
  have rv: "rv = rv_string \<lparr>rvObjectVersion = 0, rvWatermark = ?wm\<rparr>"
    using assms(3) by (auto simp: list_func_def Let_def List_def watermark_of_def split: sum.splits)
  have "Parse rv = Inr \<lparr>rvObjectVersion = 0, rvWatermark = ?wm\<rparr>"
    unfolding rv by (rule Parse_rv_string) (use assms(4) in simp_all)
  moreover have "rv \<noteq> []" using dec_digits by (simp add: rv rv_string_def)
  ultimately have w: "watch_func None None i rv =
      Inr (\<lparr>cGVK = gvkToString g, cStart = ?wm, cShard = infShard i\<rparr>, \<lparr>rvObjectVersion = 0, rvWatermark = ?wm\<rparr>, False)"
    by (simp add: watch_func_def i(1))
  have "NewWatcher \<lparr>cGVK = gvkToString g, cStart = ?wm, cShard = infShard i\<rparr> = informer_watcher ht ?cfg0 sn"
    by (simp add: informer_watcher_def NewWatcher_def informer_list_def List_def Let_def watermark_of_def)
  with w i c show ?thesis by (auto simp: gvk_shard_def wired_def split: if_splits)
qed

definition ex_options :: options where
  "ex_options = \<lparr>has_scheme = True, DSN = ''postgres://'', oShard = Some \<lparr>scMod = 2, scOwned = [1], UnshardedGVKs = []\<rparr>,
     MaxPoolConns = 0, MinPoolConns = 0, SlowQueryThreshold = 0\<rparr>"

definition ex_setup :: setup_env where
  "ex_setup = \<lparr>pool_result = None, acquire_result = None, migrate_result = None\<rparr>"

theorem informer_wiring_witness:
  "\<exists>cfg srv. watch_func None None \<lparr>infGVK = ex_gvk, infShard = Some \<lparr>Mod = 2, Owned = [1]\<rparr>, infRunning = False\<rparr>
      (rv_string \<lparr>rvObjectVersion = 0, rvWatermark = 3\<rparr>) = Inr (cfg, srv, False) \<and>
     NewWatcher cfg = informer_watcher (\<lambda>_. 0) \<lparr>cGVK = gvkToString ex_gvk, cStart = 0, cShard = Some \<lparr>Mod = 2, Owned = [1]\<rparr>\<rparr> ex_snap"
proof -
  let ?c = "\<lparr>shard = Some \<lparr>Mod = 2, Owned = [1]\<rparr>, unsharded = [], informers = [], started = False\<rparr>"
  let ?ifm = "\<lparr>infGVK = ex_gvk, infShard = Some \<lparr>Mod = 2, Owned = [1]\<rparr>, infRunning = False\<rparr>"
  have m: "NewManager ex_setup ex_options = Inr ?c"
    by (simp add: NewManager_def ex_options_def ex_setup_def connect_and_migrate_def Validate_def)
  have i: "getOrCreateInformer ex_new ex_gvk ?c = (fst (getOrCreateInformer ex_new ex_gvk ?c), Inr ?ifm)"
    by (simp add: getOrCreateInformer_def ex_new_def gvk_shard_def Let_def)
  have "gvkToString ex_gvk \<noteq> ''g''" by (simp add: gvkToString_def ex_gvk_def)
  then have l: "list_func (\<lambda>_. True) uidFromUUID json_codec ex_new (\<lambda>_. 0) None None None None ?ifm ex_snap =
      Inr ([], rv_string \<lparr>rvObjectVersion = 0, rvWatermark = 3\<rparr>)"
    by (simp add: list_func_def List_def ex_snap_def Let_def ToListFilter_def paginate_def watermark_of_def)
  have "s_xmin ex_snap < 2 ^ 64" by (simp add: ex_snap_def)
  from informer_wiring [OF cache_reach.built [OF m] i l this] show ?thesis by auto
qed

end
