(* ===== verification/Relay.thy ===== *)
theory Relay
  imports Manager
begin

text \<open>
  The last step of the path from a row to a controller: what the reflector's store of objects
  holds after the list of pgcache.go and the events that the relay of pgwatch.go forwards. The
  locale \<open>watch_source\<close> is the Go interface watchSource as the relay relies on it; its
  interpretations are the watcher among the sessions (WatchPg.thy) and the scheduler's Run
  (WatchLoop.thy). The store is client-go's: Deleted removes the object with that namespace and
  name, every other event puts it.
\<close>

section \<open>The reflector's store\<close>

type_synonym ('s, 't) store = "string \<times> string \<Rightarrow> ('s, 't) object option"

definition obj_key :: "('s, 't) object \<Rightarrow> string \<times> string" where
  "obj_key obj = (objNamespace obj, objName obj)"

fun store_event :: "('s, 't) watch_event \<Rightarrow> ('s, 't) store \<Rightarrow> ('s, 't) store" where
  "store_event (WatchObject t obj) st = st(obj_key obj := (if t = WDeleted then None else Some obj))"
| "store_event (WatchError _) st = st"

definition store_of :: "('s, 't) object list \<Rightarrow> ('s, 't) store" where
  "store_of items = map_of (map (\<lambda>obj. (obj_key obj, obj)) items)"

text \<open>
  An object shows a row: it is the row's conversion, with a resource version that carries the
  row's own version, as a list writes it or as the relay stamps it.
\<close>

definition carries :: "string \<Rightarrow> int \<Rightarrow> bool" where
  "carries v n \<longleftrightarrow> v = FormatInt n \<or> (\<exists>wm. v = rv_string \<lparr>rvObjectVersion = n, rvWatermark = wm\<rparr>)"

definition mirrors :: "(resource \<Rightarrow> string + ('s, 't) object) \<Rightarrow> resource option \<Rightarrow> ('s, 't) object option \<Rightarrow> bool" where
  "mirrors conv cr st \<longleftrightarrow>
     (case cr of
        None \<Rightarrow> st = None
      | Some r \<Rightarrow> \<exists>obj v. conv r = Inr obj \<and> carries v (ObjectVersion r) \<and> st = Some (obj\<lparr>objRV := v\<rparr>))"

lemma injectSpecStatus_keeps:
  "injectSpecStatus cd sp st obj = Inr obj' \<Longrightarrow>
     objName obj' = objName obj \<and> objNamespace obj' = objNamespace obj \<and> objRV obj' = objRV obj"
  by (auto simp: injectSpecStatus_def Let_def split: if_splits option.splits sum.splits)

lemma populateObjectMeta_fields [simp]:
  "objName (populateObjectMeta own us r obj) = Name r"
  "objNamespace (populateObjectMeta own us r obj) = Namespace r"
  "objRV (populateObjectMeta own us r obj) = FormatInt (ObjectVersion r)"
  by (simp_all add: populateObjectMeta_def Let_def split: option.splits)

lemma resourceToObject_fields:
  "resourceToObject own us cd new r = Inr obj \<Longrightarrow>
     obj_key obj = (Namespace r, Name r) \<and> objRV obj = FormatInt (ObjectVersion r)"
  by (auto simp: resourceToObject_def populateObject_def obj_key_def split: sum.splits
      dest!: injectSpecStatus_keeps)

section \<open>The list\<close>

lemma list_items_conv:
  "list_items conv None rs = Inr items \<Longrightarrow> list_all2 (\<lambda>r obj. conv r = Inr obj) rs items"
  by (induction rs arbitrary: items) (auto split: sum.splits)

lemma store_of_list:
  assumes "list_all2 (\<lambda>r obj. resourceToObject own us cd new r = Inr obj) rs items" "\<forall>r \<in> set rs. GVK r = g"
  shows "mirrors (resourceToObject own us cd new) (lookup_by rkey rs (g, nsname)) (store_of items nsname)"
  using assms
proof (induction rule: list_all2_induct)
  case Nil
  then show ?case by (simp add: mirrors_def store_of_def)
next
  case (Cons r rs obj items)
  have obj: "obj_key obj = (Namespace r, Name r)" "obj = obj\<lparr>objRV := FormatInt (ObjectVersion r)\<rparr>"
    using resourceToObject_fields [OF Cons.hyps(1)] by simp_all
  show ?case
  proof (cases "nsname = (Namespace r, Name r)")
    case True
    then show ?thesis
      using Cons.hyps(1) Cons.prems obj unfolding mirrors_def carries_def
      by (fastforce simp: store_of_def rkey_def)
  next
    case False
    then show ?thesis
      using Cons.IH Cons.prems obj(1) by (auto simp: store_of_def rkey_def)
  qed
qed

section \<open>The relay\<close>

text \<open>What the relay forwards for an event it can convert.\<close>

definition forwarded ::
  "(json \<Rightarrow> bool) \<Rightarrow> (resource \<Rightarrow> string + ('s, 't) object) \<Rightarrow> Event \<Rightarrow> ('s, 't) watch_event \<Rightarrow> bool" where
  "forwarded own conv ev we \<longleftrightarrow>
     (\<exists>obj wm. conv (Resource ev) = Inr obj \<and>
        we = WatchObject (eventType own ev)
               (obj\<lparr>objRV := rv_string \<lparr>rvObjectVersion = ObjectVersion (Resource ev), rvWatermark = wm\<rparr>\<rparr>))"

lemma relay_Cons: "relay own us cd new (i # is) pw = relay own us cd new is (relay_step own us cd new i pw)"
  by (simp add: relay_def)

lemma relay_forwards:
  assumes "\<forall>ev \<in> set evs. \<exists>obj. resourceToObject own us cd new (Resource ev) = Inr obj" "relaying pw"
  shows "relaying (relay own us cd new (map (\<lambda>ev. SourceEvent ev True) evs) pw) \<and>
    (\<exists>ws. result_ch (relay own us cd new (map (\<lambda>ev. SourceEvent ev True) evs) pw) = result_ch pw @ ws \<and>
          list_all2 (forwarded own (resourceToObject own us cd new)) evs ws)"
  using assms
proof (induction evs arbitrary: pw)
  case (Cons ev evs)
  obtain obj where obj: "resourceToObject own us cd new (Resource ev) = Inr obj" using Cons.prems(1) by auto
  let ?rv = "stampRV ev (currentRV pw)"
  let ?we = "WatchObject (eventType own ev) (obj\<lparr>objRV := rv_string ?rv\<rparr>)"
  let ?pw = "relay_step own us cd new (SourceEvent ev True) pw"
  have step: "result_ch ?pw = result_ch pw @ [?we]" "relaying ?pw"
    using obj Cons.prems(2) by (simp_all add: relay_step_def Let_def)
  have "?rv = \<lparr>rvObjectVersion = ObjectVersion (Resource ev), rvWatermark = rvWatermark ?rv\<rparr>"
    by (rule RV.equality) simp_all
  then have "forwarded own (resourceToObject own us cd new) ev ?we"
    using obj unfolding forwarded_def by metis
  then show ?case
    using Cons.IH [of ?pw] Cons.prems(1) step by (fastforce simp: relay_Cons)
qed (simp add: relay_def)

text \<open>One event on both sides: the cache of rows and the store of objects.\<close>

lemma forwarded_step:
  assumes fw: "forwarded own (resourceToObject own us cd new) (event_of r) we" and g: "GVK r = g"
    and st: "\<And>k. mirrors (resourceToObject own us cd new) (c (g, k)) (st k)"
  shows "mirrors (resourceToObject own us cd new) (apply_event own (event_of r) c (g, k)) (store_event we st k)"
proof -
  obtain obj wm where obj: "resourceToObject own us cd new r = Inr obj"
    and we: "we = WatchObject (eventType own (event_of r))
      (obj\<lparr>objRV := rv_string \<lparr>rvObjectVersion = ObjectVersion r, rvWatermark = wm\<rparr>\<rparr>)"
    using fw by (auto simp: forwarded_def event_of_def)
  have key: "obj_key (obj\<lparr>objRV := v\<rparr>) = (Namespace r, Name r)" for v
    using resourceToObject_fields [OF obj] by (simp add: obj_key_def)
  have del: "eventType own (event_of r) = WDeleted \<longleftrightarrow> isFullyDeleted own r"
    by (auto simp: eventType_def event_of_def isFullyDeleted_def)
  show ?thesis
  proof (cases "k = (Namespace r, Name r)")
    case True
    then have "apply_event own (event_of r) c (g, k) = shown own r"
      using g by (simp add: apply_event_of rkey_def)
    moreover have "store_event we st k =
        (if isFullyDeleted own r then None
         else Some (obj\<lparr>objRV := rv_string \<lparr>rvObjectVersion = ObjectVersion r, rvWatermark = wm\<rparr>\<rparr>))"
      using True by (simp add: we key del)
    moreover have "carries (rv_string \<lparr>rvObjectVersion = ObjectVersion r, rvWatermark = wm\<rparr>) (ObjectVersion r)"
      by (auto simp: carries_def)
    ultimately show ?thesis using obj by (auto simp: mirrors_def shown_def)
  next
    case False
    then have "(g, k) \<noteq> rkey r" by (cases k) (auto simp: rkey_def)
    then show ?thesis using st False by (simp add: apply_event_of we key)
  qed
qed

lemma forwarded_store:
  assumes "list_all2 (forwarded own (resourceToObject own us cd new)) evs ws"
    and "\<forall>ev \<in> set evs. \<exists>r. ev = event_of r \<and> GVK r = g"
    and "\<And>k. mirrors (resourceToObject own us cd new) (c (g, k)) (st k)"
  shows "mirrors (resourceToObject own us cd new) (cache_after own c evs (g, k)) (fold store_event ws st k)"
  using assms
proof (induction arbitrary: c st rule: list_all2_induct)
  case (Cons ev evs we ws)
  then obtain r where r: "ev = event_of r" "GVK r = g" by auto
  have "mirrors (resourceToObject own us cd new) (apply_event own ev c (g, k)) (store_event we st k)" for k
    using forwarded_step [of own us cd new r we g c st k] Cons.hyps(1) Cons.prems(2) r by simp
  then show ?case
    using Cons.IH [of "apply_event own ev c" "store_event we st"] Cons.prems(1) by (simp add: cache_after_def)
qed (simp add: cache_after_def)

section \<open>The interface watchSource\<close>

text \<open>
  What the relay relies on: every event the source sends was made from a row of the watch's
  kind, as a poll makes it.
\<close>

locale watch_source =
  fixes valid :: "'r \<Rightarrow> bool" and sent :: "'r \<Rightarrow> Event list" and kind :: "'r \<Rightarrow> string"
  assumes of_rows: "valid r \<Longrightarrow> ev \<in> set (sent r) \<Longrightarrow> \<exists>row. ev = event_of row \<and> GVK row = kind r"
begin

lemma relayed_store:
  assumes r: "valid r"
    and conv: "\<And>row. GVK row = kind r \<Longrightarrow> \<exists>obj. resourceToObject own us cd new row = Inr obj"
    and st: "\<And>k. mirrors (resourceToObject own us cd new) (c (kind r, k)) (st k)"
  shows "mirrors (resourceToObject own us cd new) (cache_after own c (sent r) (kind r, k))
    (fold store_event (result_ch (relay own us cd new (map (\<lambda>ev. SourceEvent ev True) (sent r)) (newPgWatcher start))) st k)"
proof -
  have rows: "\<forall>ev \<in> set (sent r). \<exists>row. ev = event_of row \<and> GVK row = kind r"
    using of_rows [OF r] by blast
  then have "\<forall>ev \<in> set (sent r). \<exists>obj. resourceToObject own us cd new (Resource ev) = Inr obj"
    using conv by (fastforce simp: event_of_def)
  then obtain ws where "result_ch (relay own us cd new (map (\<lambda>ev. SourceEvent ev True) (sent r)) (newPgWatcher start)) = ws"
    "list_all2 (forwarded own (resourceToObject own us cd new)) (sent r) ws"
    using relay_forwards [of "sent r" own us cd new "newPgWatcher start"] by (auto simp: newPgWatcher_def)
  then show ?thesis using forwarded_store [of own us cd new "sent r" ws "kind r" c st k] rows st by simp
qed

end

text \<open>The watcher among the sessions.\<close>

lemma poll_rows_kind: "ev \<in> set (map event_of (poll_rows ht cfg h d)) \<Longrightarrow> \<exists>row. ev = event_of row \<and> GVK row = cGVK cfg"
  by (auto simp: set_poll_rows)

lemma poll_from_rows:
  assumes "poll ht cfg w sn = Inr w'" "\<forall>ev \<in> set (delivered w). \<exists>row. ev = event_of row \<and> GVK row = cGVK cfg"
  shows "\<forall>ev \<in> set (delivered w'). \<exists>row. ev = event_of row \<and> GVK row = cGVK cfg"
  using assms(2) poll_rows_kind by (auto simp: poll_Inr(1) [OF assms(1)] set_poll_rows)

lemma watch_run_from_rows:
  "watch_run ok ht cfg a b \<Longrightarrow> \<forall>ev \<in> set (delivered (snd a)). \<exists>row. ev = event_of row \<and> GVK row = cGVK cfg \<Longrightarrow>
     \<forall>ev \<in> set (delivered (snd b)). \<exists>row. ev = event_of row \<and> GVK row = cGVK cfg"
  by (induction rule: watch_run.induct) (auto dest: poll_from_rows)

definition polled_by :: "WatcherConfig \<times> watcher \<Rightarrow> bool" where
  "polled_by cw \<longleftrightarrow> (\<exists>ok ht s0 s. watch_run ok ht (fst cw) (s0, NewWatcher (fst cw)) (s, snd cw))"

interpretation polls: watch_source polled_by "\<lambda>cw. delivered (snd cw)" "\<lambda>cw. cGVK (fst cw)"
proof
  fix cw ev
  assume "polled_by cw" "ev \<in> set (delivered (snd cw))"
  then show "\<exists>row. ev = event_of row \<and> GVK row = cGVK (fst cw)"
    unfolding polled_by_def using watch_run_from_rows by (fastforce simp: NewWatcher_def)
qed

text \<open>The scheduler: Run of WatchLoop.thy, ended or not.\<close>

fun loop_of :: "iter_result \<Rightarrow> loop" where
  "loop_of (Inl (e, l)) = l"
| "loop_of (Inr l) = l"

definition from_rows :: "WatcherConfig \<Rightarrow> watcher \<Rightarrow> bool" where
  "from_rows cfg w \<longleftrightarrow> (\<forall>ev \<in> set (delivered w). \<exists>row. ev = event_of row \<and> GVK row = cGVK cfg)"

lemma from_rows_sent:
  "from_rows cfg w \<Longrightarrow> from_rows cfg (w\<lparr>hwm := h', delivered := delivered w @ map event_of (poll_rows ht cfg h d)\<rparr>)"
  "from_rows cfg w \<Longrightarrow> from_rows cfg (w\<lparr>hwm := h', delivered := delivered w @ take n (map event_of (poll_rows ht cfg h d))\<rparr>)"
  "from_rows cfg w \<Longrightarrow> from_rows cfg (w\<lparr>hwm := h'\<rparr>)"
  unfolding from_rows_def using poll_rows_kind [of _ ht cfg h d] by (auto dest!: in_set_takeD simp del: set_map)

lemma pollCycle_from_rows: "pollCycle ht cfg f w sn = (w', res) \<Longrightarrow> from_rows cfg w \<Longrightarrow> from_rows cfg w'"
  by (auto simp: pollCycle_def Let_def dest!: pollAll_Inr intro: from_rows_sent
      split: poll_fault.splits sum.splits if_splits bool.splits)

lemma poll_then_from_rows: "from_rows (rcWatch c) (lw l) \<Longrightarrow> from_rows (rcWatch c) (lw (loop_of (poll_then ht c i upd l)))"
  by (auto simp: poll_then_def Let_def split: prod.splits sum.splits dest: pollCycle_from_rows)

lemma run_iter_from_rows: "from_rows (rcWatch c) (lw l) \<Longrightarrow> from_rows (rcWatch c) (lw (loop_of (run_iter ht c lc i l)))"
  by (auto simp: run_iter_def Let_def poll_then_from_rows split: wake.splits)

lemma run_loop_from_rows: "from_rows (rcWatch c) (lw l) \<Longrightarrow> from_rows (rcWatch c) (lw (loop_of (run_loop ht c lc is l)))"
proof (induction "is" arbitrary: l)
  case (Cons i "is")
  note step = run_iter_from_rows [OF Cons.prems, where ht = ht and lc = lc and i = i]
  show ?case
  proof (cases "run_iter ht c lc i l")
    case (Inl r)
    then show ?thesis using step by simp
  next
    case (Inr l1)
    then show ?thesis using step Cons.IH [of l1] by simp
  qed
qed simp

lemma Run_from_rows: "from_rows (rcWatch c) w \<Longrightarrow> from_rows (rcWatch c) (lw (loop_of (Run ht c lc i0 is w)))"
proof -
  assume w: "from_rows (rcWatch c) w"
  let ?l = "\<lparr>lw = w, lastPoll = in_now i0, doorbellPending = False, timerDue = in_now i0, stats = stats0\<rparr>"
  have step: "from_rows (rcWatch c) (lw (loop_of (poll_then ht c i0 (\<lambda>n s. s) ?l)))"
    using w by (intro poll_then_from_rows) simp
  show ?thesis
  proof (cases "poll_then ht c i0 (\<lambda>n s. s) ?l")
    case (Inl r)
    then show ?thesis using step by (simp add: Run_def)
  next
    case (Inr l1)
    then show ?thesis using step by (simp add: Run_def run_loop_from_rows)
  qed
qed

record watcher_run =
  wrHash :: "string \<Rightarrow> int"
  wrConfig :: run_config
  wrListen :: bool
  wrFirst :: wakeup
  wrWakeups :: "wakeup list"

definition run_result :: "watcher_run \<Rightarrow> iter_result" where
  "run_result x = Run (wrHash x) (wrConfig x) (wrListen x) (wrFirst x) (wrWakeups x) (NewWatcher (rcWatch (wrConfig x)))"

definition run_sent :: "watcher_run \<Rightarrow> Event list" where
  "run_sent x = delivered (lw (loop_of (run_result x)))"

interpretation scheduler: watch_source "\<lambda>_. True" run_sent "\<lambda>x. cGVK (rcWatch (wrConfig x))"
proof
  fix x ev
  assume "ev \<in> set (run_sent x)"
  moreover have "from_rows (rcWatch (wrConfig x)) (lw (loop_of (run_result x)))"
    unfolding run_result_def by (rule Run_from_rows) (simp add: from_rows_def NewWatcher_def)
  ultimately show "\<exists>row. ev = event_of row \<and> GVK row = cGVK (rcWatch (wrConfig x))"
    by (auto simp: run_sent_def from_rows_def)
qed

section \<open>Properties\<close>


text \<open>The example row, listed and then watched by an informer of its kind.\<close>

lemma ex_convertible:
  assumes "GVK row = gvkToString ex_gvk"
  shows "\<exists>obj. resourceToObject own us json_codec ex_new row = Inr obj"
proof -
  have "stringToGVK (gvkToString ex_gvk) = Inr ex_gvk"
    by (simp add: stringToGVK_def gvkToString_def ex_gvk_def numeral_3_eq_3)
  then show ?thesis
    using assms by (simp add: resourceToObject_def ex_new_def populateObject_def injectSpecStatus_def
        json_codec_def split: option.splits)
qed


lemma eventType_event_of: "eventType own (event_of r) = WDeleted \<longleftrightarrow> isFullyDeleted own r"
  by (auto simp: eventType_def event_of_def isFullyDeleted_def)

lemma Resource_event_of: "Resource (event_of r) = r"
  by (simp add: event_of_def)


text \<open>A watcher of the example kind polls the example row and is then stopped.\<close>

definition ex_run :: watcher_run where
  "ex_run = \<lparr>wrHash = (\<lambda>_. 0),
     wrConfig = with_defaults \<lparr>rcWatch = \<lparr>cGVK = gvkToString ex_gvk, cStart = 0, cShard = None\<rparr>,
       BaselineInterval = 0, DebounceFloor = 0\<rparr>,
     wrListen = False,
     wrFirst = \<lparr>in_wake = TimerC, in_now = 0, in_after = 0, in_fault = PollOk, in_snap = snap (init_sys (wdb ex_client_world))\<rparr>,
     wrWakeups = [\<lparr>in_wake = StopCh, in_now = 1, in_after = 1, in_fault = PollOk, in_snap = ex_snap\<rparr>]\<rparr>"


end
