(* ===== verification/Doorbell.thy ===== *)
theory Doorbell
  imports WriterTx
begin

text \<open>
  The Debouncer of src/internal/doorbell/doorbell.go: Ring marks a gvk dirty, a background
  goroutine flushes the set on every tick of the window and once more when the debouncer is
  closed. The dirty set is the map of the source, a list without duplicates here; the order
  in which a flush visits it (Go's map order) is an argument. \<open>sent\<close> collects the
  notifications the connection accepted.
\<close>

section \<open>Ring, flush, loop, Close\<close>

record Debouncer =
  window :: time
  dirty :: "string list"
  stop_closed :: bool
  loop_done :: bool
  sent :: "string list"

definition NewDebouncer :: "time \<Rightarrow> Debouncer" where
  "NewDebouncer w = \<lparr>window = w, dirty = [], stop_closed = False, loop_done = False, sent = []\<rparr>"

definition Ring :: "string \<Rightarrow> Debouncer \<Rightarrow> Debouncer" where
  "Ring gvk d = d\<lparr>dirty := List.insert gvk (dirty d)\<rparr>"

text \<open>
  One pg_notify: PostgreSQL refuses a channel name of 64 bytes or more, and the connection
  fails when \<open>down\<close> says so; either way the flush goes on.
\<close>

definition pg_notify :: "(string \<Rightarrow> bool) \<Rightarrow> string \<Rightarrow> string list \<Rightarrow> string list" where
  "pg_notify down channel out = (if down channel \<or> 64 \<le> length channel then out else out @ [channel])"

definition flush ::
  "(string \<Rightarrow> string) \<Rightarrow> (string list \<Rightarrow> string list) \<Rightarrow> (string \<Rightarrow> bool) \<Rightarrow> Debouncer \<Rightarrow> Debouncer" where
  "flush sha order down d =
     (if dirty d = [] then d
      else d\<lparr>dirty := [],
             sent := foldl (\<lambda>out gvk. pg_notify down (DoorbellChannel sha gvk) out) (sent d) (order (dirty d))\<rparr>)"

text \<open>
  What happens to a debouncer: a caller rings, the ticker fires, somebody closes it (a second
  Close would panic on the closed channel: None), the loop sees the closed channel.
\<close>

datatype bell_event = Rung string | Tick | Closing | SeesStop

definition bell_step ::
  "(string \<Rightarrow> string) \<Rightarrow> (string list \<Rightarrow> string list) \<Rightarrow> (string \<Rightarrow> bool) \<Rightarrow> bell_event \<Rightarrow>
     Debouncer \<Rightarrow> Debouncer option" where
  "bell_step sha order down e d =
     (case e of
        Rung gvk \<Rightarrow> Some (Ring gvk d)
      | Tick \<Rightarrow> Some (if loop_done d then d else flush sha order down d)
      | Closing \<Rightarrow> if stop_closed d then None else Some (d\<lparr>stop_closed := True\<rparr>)
      | SeesStop \<Rightarrow>
          Some (if stop_closed d \<and> \<not> loop_done d
                then (flush sha order down d)\<lparr>loop_done := True\<rparr> else d))"

fun bell_run ::
  "(string \<Rightarrow> string) \<Rightarrow> (string list \<Rightarrow> string list) \<Rightarrow> (string \<Rightarrow> bool) \<Rightarrow> bell_event list \<Rightarrow>
     Debouncer \<Rightarrow> Debouncer option" where
  "bell_run sha order down [] d = Some d"
| "bell_run sha order down (e # es) d =
     (case bell_step sha order down e d of None \<Rightarrow> None | Some d' \<Rightarrow> bell_run sha order down es d')"

text \<open>Close returns once the loop is done: the closing and the loop's last flush.\<close>

definition Close ::
  "(string \<Rightarrow> string) \<Rightarrow> (string list \<Rightarrow> string list) \<Rightarrow> (string \<Rightarrow> bool) \<Rightarrow> Debouncer \<Rightarrow> Debouncer option" where
  "Close sha order down d = bell_run sha order down [Closing, SeesStop] d"

section \<open>Lemmas\<close>

lemma Ring_dirty: "set (dirty (Ring g d)) = insert g (set (dirty d))"
  by (simp add: Ring_def)

lemma distinct_Ring: "distinct (dirty d) \<Longrightarrow> distinct (dirty (Ring g d))"
  by (simp add: Ring_def)

interpretation deb: doorbell Ring "\<lambda>d. set (dirty d)"
  by unfold_locales (simp add: Ring_dirty)

text \<open>A debouncer is dirty at most once per gvk, and no gvk is lost before its flush.\<close>

lemma notify_all:
  "\<forall>g \<in> set gs. \<not> down (DoorbellChannel sha g) \<and> length (DoorbellChannel sha g) < 64 \<Longrightarrow>
     foldl (\<lambda>out gvk. pg_notify down (DoorbellChannel sha gvk) out) out gs = out @ map (DoorbellChannel sha) gs"
  by (induction gs arbitrary: out) (auto simp: pg_notify_def)

lemma flush_dirty: "dirty (flush sha order down d) = []"
  by (simp add: flush_def)

lemma bell_step_distinct:
  "bell_step sha order down e d = Some d' \<Longrightarrow> distinct (dirty d) \<Longrightarrow> distinct (dirty d')"
  by (auto simp: bell_step_def distinct_Ring flush_def split: bell_event.splits if_splits)

section \<open>Properties\<close>

text \<open>C26: A write path rings the doorbell exactly when it reports a change: through every way Write,
  WriteStatus and WriteObject can end (no-op, conflict, hook refusal, lost answer, failed
  commit), the gvk becomes pending in the attached debouncer if and only if the result is a
  success with Changed set, and no other gvk is touched.\<close>

theorem doorbell_rings_iff_changed:
  assumes "Write Ring hooks env req w = (w1, res1)" "WriteStatus Ring hooks env sreq w = (w2, res2)"
    and "WriteObject Ring hooks env oreq w = (w3, res3)" "wbell w = Some d"
  shows "deb.heard w1 = (if rings res1 then insert (wGVK req) (set (dirty d)) else set (dirty d)) \<and>
    deb.heard w2 = (if rings res2 then insert (sGVK sreq) (set (dirty d)) else set (dirty d)) \<and>
    deb.heard w3 = (if rings res3 then insert (oGVK oreq) (set (dirty d)) else set (dirty d))"
proof -
  have "deb.heard w = set (dirty d)" "wbell w \<noteq> None" using assms(4) by (simp_all add: deb.heard_def)
  then show ?thesis
    using deb.heard_ring [OF Write_bell [OF assms(1)]] deb.heard_ring [OF WriteStatus_bell [OF assms(2)]]
      deb.heard_ring [OF WriteObject_bell [OF assms(3)]] by simp
qed

definition ex_env :: call_env where
  "ex_env = \<lparr>env_net = NetOk, env_fault = NoFault, env_uid = 9, env_now = 5\<rparr>"

definition ex_request :: WriteRequest where
  "ex_request = \<lparr>wGVK = ''g'', wNamespace = ''n'', wName = ''a'', wSpec = RDoc (JObj [(''x'', JNum 2)]),
     wStatus = RDoc (JObj []), wMetadata = RDoc (JObj []), wDeletionTimestamp = None,
     wExpectedVersion = 1, wForceWrite = False\<rparr>"

theorem doorbell_rings_iff_changed_witness:
  "deb.heard (fst (Write Ring None ex_env ex_request
      \<lparr>wdb = ex_db, wbell = Some (NewDebouncer 100), wmet = None\<rparr>)) = {''g''}"
proof -
  let ?w = "\<lparr>wdb = ex_db, wbell = Some (NewDebouncer 100), wmet = None\<rparr>"
  let ?s = "\<lparr>sGVK = ''g'', sNamespace = ''n'', sName = ''a'', sStatus = RNil, sExpectedVersion = 1, sForceWrite = False\<rparr>"
  let ?o = "\<lparr>oGVK = ''g'', oNamespace = ''n'', oName = ''a'', oSpec = RNil, oMetadata = RNil,
     oDeletionTimestamp = None, oExpectedVersion = 1, oForceWrite = False\<rparr>"
  have "rings (snd (Write Ring None ex_env ex_request ?w))"
    by (simp add: Write_def ex_env_def ex_request_def writeStoredProc_def stored_proc_path_def
        callStoredProc_def run_proc_def pg_args_def params_of_write_def pgctl_write_def p_key_def
        suppression_check_def suppressed_iff upsert_def update_row_def bigint_succ_def Let_def)
  moreover have "set (dirty (NewDebouncer 100)) = {}" by (simp add: NewDebouncer_def)
  ultimately show ?thesis
    using doorbell_rings_iff_changed [of None ex_env ex_request ?w _ _ ?s _ _ ?o, OF
        surjective_pairing surjective_pairing surjective_pairing]
    by (simp add: ex_request_def)
qed

text \<open>No gvk is lost: after a step it is still dirty or its notification is on the wire.\<close>

lemma pg_notify_mono: "set out \<subseteq> set (pg_notify down c out)"
  by (auto simp: pg_notify_def)

lemma notify_mono: "set out \<subseteq> set (foldl (\<lambda>out gvk. pg_notify down (f gvk) out) out gs)"
proof (induction gs arbitrary: out)
  case (Cons a gs)
  show ?case using order_trans [OF pg_notify_mono Cons.IH] by simp
qed simp

lemma notify_mem:
  "g \<in> set gs \<Longrightarrow> \<not> down (f g) \<Longrightarrow> length (f g) < 64 \<Longrightarrow>
     f g \<in> set (foldl (\<lambda>out gvk. pg_notify down (f gvk) out) out gs)"
proof (induction gs arbitrary: out)
  case (Cons a gs)
  show ?case
  proof (cases "a = g")
    case True
    then have "f g \<in> set (pg_notify down (f a) out)" using Cons.prems by (simp add: pg_notify_def)
    then show ?thesis using notify_mono [of "pg_notify down (f a) out" down f gs] by auto
  qed (use Cons in auto)
qed simp

text \<open>The order of a flush is some order of the map's keys, each once.\<close>

definition visits_all :: "(string list \<Rightarrow> string list) \<Rightarrow> bool" where
  "visits_all order \<longleftrightarrow> (\<forall>gs. mset (order gs) = mset gs)"

lemma set_visits: "visits_all order \<Longrightarrow> set (order gs) = set gs"
  by (metis visits_all_def set_mset_mset)

definition reaches :: "(string \<Rightarrow> string) \<Rightarrow> (string \<Rightarrow> bool) \<Rightarrow> string \<Rightarrow> bool" where
  "reaches sha down g \<longleftrightarrow> \<not> down (DoorbellChannel sha g) \<and> length (DoorbellChannel sha g) < 64"

definition kept :: "(string \<Rightarrow> string) \<Rightarrow> string \<Rightarrow> Debouncer \<Rightarrow> bool" where
  "kept sha g d \<longleftrightarrow> g \<in> set (dirty d) \<or> DoorbellChannel sha g \<in> set (sent d)"

lemma flush_keeps:
  assumes "visits_all order" "reaches sha down g" "kept sha g d"
  shows "DoorbellChannel sha g \<in> set (sent (flush sha order down d))"
proof -
  have "g \<in> set (dirty d) \<Longrightarrow> ?thesis"
    using assms(2) notify_mem [of g "order (dirty d)" down "DoorbellChannel sha" "sent d"]
    by (auto simp: flush_def set_visits [OF assms(1)] reaches_def)
  moreover have "set (sent d) \<subseteq> set (sent (flush sha order down d))"
    using notify_mono [of "sent d" down "DoorbellChannel sha"] by (simp add: flush_def)
  ultimately show ?thesis using assms(3) by (auto simp: kept_def)
qed

lemma bell_step_keeps:
  assumes "visits_all order" "reaches sha down g"
    "bell_step sha order down e d = Some d'" "kept sha g d \<or> e = Rung g"
  shows "kept sha g d'"
  using assms(3,4) flush_keeps [OF assms(1,2), of d]
  by (auto simp: bell_step_def kept_def Ring_def split: bell_event.splits if_splits)

lemma bell_run_keeps:
  assumes "visits_all order" "reaches sha down g"
    "bell_run sha order down es d = Some d'" "kept sha g d \<or> Rung g \<in> set es"
  shows "kept sha g d'"
  using assms(3,4)
proof (induction es arbitrary: d)
  case (Cons e es)
  then show ?case using bell_step_keeps [OF assms(1,2)] by (auto split: option.splits)
qed simp

definition bell_inv :: "Debouncer \<Rightarrow> bool" where
  "bell_inv d \<longleftrightarrow> distinct (dirty d) \<and> (loop_done d \<longrightarrow> stop_closed d)"

lemma bell_run_inv: "bell_run sha order down es d = Some d' \<Longrightarrow> bell_inv d \<Longrightarrow> bell_inv d'"
proof (induction es arbitrary: d)
  case (Cons e es)
  have "bell_inv d1" if "bell_step sha order down e d = Some d1" for d1
    using that Cons.prems(2) bell_step_distinct [OF that]
    by (auto simp: bell_step_def bell_inv_def Ring_def flush_def split: bell_event.splits if_splits)
  then show ?case using Cons by (auto split: option.splits)
qed simp

lemma bell_inv_new: "bell_inv (NewDebouncer w)"
  by (simp add: bell_inv_def NewDebouncer_def)

text \<open>No doorbell is lost: whatever order rings and ticks come in, once Close has returned the
  channel of every gvk that was rung before has been notified, for every channel the
  connection accepts.\<close>

theorem debouncer_delivers:
  assumes "bell_run sha order down es (NewDebouncer w) = Some d" "Close sha order down d = Some d'"
    and "Rung g \<in> set es" "visits_all order" "reaches sha down g"
  shows "DoorbellChannel sha g \<in> set (sent d') \<and> dirty d' = []"
proof -
  have "kept sha g d" using bell_run_keeps [OF assms(4,5,1)] assms(3) by blast
  moreover have "\<not> loop_done d" "\<not> stop_closed d"
    using bell_run_inv [OF assms(1) bell_inv_new] assms(2)
    by (auto simp: bell_inv_def Close_def bell_step_def split: if_splits)
  ultimately show ?thesis
    using assms(2) flush_keeps [OF assms(4,5), of "d\<lparr>stop_closed := True\<rparr>"]
    by (auto simp: Close_def bell_step_def kept_def flush_dirty split: if_splits)
qed

theorem debouncer_delivers_witness:
  "DoorbellChannel (\<lambda>s. s) ''g'' \<in>
     set (sent (the (Close (\<lambda>s. s) rev (\<lambda>_. False)
       (the (bell_run (\<lambda>s. s) rev (\<lambda>_. False) [Rung ''g'', Tick, Rung ''h''] (NewDebouncer 100))))))"
proof -
  let ?d = "the (bell_run (\<lambda>s. s) rev (\<lambda>_. False) [Rung ''g'', Tick, Rung ''h''] (NewDebouncer 100))"
  have "bell_run (\<lambda>s. s) rev (\<lambda>_. False) [Rung ''g'', Tick, Rung ''h''] (NewDebouncer 100) = Some ?d"
    by (simp add: bell_step_def)
  moreover have "\<not> stop_closed ?d"
    by (simp add: bell_step_def flush_def Ring_def NewDebouncer_def)
  then have "Close (\<lambda>s. s) rev (\<lambda>_. False) ?d = Some (the (Close (\<lambda>s. s) rev (\<lambda>_. False) ?d))"
    by (simp add: Close_def bell_step_def)
  ultimately show ?thesis
    by (rule debouncer_delivers [THEN conjunct1])
      (simp_all add: visits_all_def reaches_def DoorbellChannel_def Let_def)
qed

text \<open>Coalescing: whatever was rung and however often, one flush sends exactly one notification
  per dirty gvk and leaves nothing dirty; for a 24-character digest every channel name fits
  PostgreSQL's limit, so none is refused for its length.\<close>

theorem flush_coalesces:
  assumes "bell_run sha order down es (NewDebouncer w) = Some d" "visits_all order"
    and "\<And>s. length (sha s) = 24" "\<And>c. \<not> down c"
  shows "mset (sent (flush sha order down d)) =
      mset (sent d) + image_mset (DoorbellChannel sha) (mset_set (set (dirty d))) \<and>
    dirty (flush sha order down d) = []"
proof -
  have "length (DoorbellChannel sha g) < 64" for g
    using DoorbellChannel_length [of sha g] assms(3) by simp
  then have "sent (flush sha order down d) = sent d @ map (DoorbellChannel sha) (order (dirty d))"
    if "dirty d \<noteq> []"
    using that notify_all [of "order (dirty d)" down sha] assms(4) by (simp add: flush_def)
  moreover have "mset (order (dirty d)) = mset_set (set (dirty d))"
    using bell_run_inv [OF assms(1) bell_inv_new] assms(2)
    by (simp add: visits_all_def bell_inv_def mset_set_set)
  ultimately show ?thesis
    by (cases "dirty d = []") (auto simp: flush_def)
qed

theorem flush_coalesces_witness:
  "length (sent (flush (\<lambda>_. replicate 24 CHR ''0'') rev (\<lambda>_. False)
     (Ring ''g'' (Ring ''h'' (Ring ''g'' (NewDebouncer 100)))))) = 2"
proof -
  let ?sha = "\<lambda>_ :: string. replicate 24 CHR ''0''"
  let ?d = "Ring ''g'' (Ring ''h'' (Ring ''g'' (NewDebouncer 100)))"
  have run: "bell_run ?sha rev (\<lambda>_. False) [Rung ''g'', Rung ''h'', Rung ''g''] (NewDebouncer 100) = Some ?d"
    by (simp add: bell_step_def)
  have "mset (sent (flush ?sha rev (\<lambda>_. False) ?d)) =
      mset (sent ?d) + image_mset (DoorbellChannel ?sha) (mset_set (set (dirty ?d)))"
    using flush_coalesces [OF run] by (simp add: visits_all_def)
  then have "size (mset (sent (flush ?sha rev (\<lambda>_. False) ?d))) = 0 + card {''h'', ''g''}"
    by (simp only: size_union size_image_mset size_mset_set) (simp add: Ring_def NewDebouncer_def)
  then show ?thesis by simp
qed

end
