(* ===== verification/Delivery.thy ===== *)
theory Delivery
  imports WatchPg WatchLoop Doorbell
begin

text \<open>
  The way of a change from a write to an informer, in time: the sessions of Sessions.thy, the
  writer's Debouncer (src/internal/doorbell/doorbell.go), the notifications that are on their way,
  the LISTEN goroutine and the scheduler of the watcher (src/internal/reader/watcher.go), as one
  step relation. Every component moves by the steps of its own theory, in any interleaving; the
  clock moves on its own, but not past the moment by which a component that is ready has been
  served. A \<open>delivery_env\<close> holds the arguments of the components and says how late that is: for goroutines
  and timers (\<open>uLag\<close>), for one poll (\<open>uPoll\<close>), and for a notification between the servers
  (\<open>uTransit\<close>). \<open>uFactory\<close> says that the watcher has a ListenConnFactory, \<open>uLossy\<close> allows the faults
  of the notification path: sends that fail, connections that drop. The watcher is one that is
  configured to listen. The theorems bound how stale an informer can be.
\<close>

section \<open>The joint state\<close>

record delivery_env =
  uHash :: "string \<Rightarrow> int"
  uSha :: "string \<Rightarrow> string"
  uOrder :: "string list \<Rightarrow> string list"
  uConfig :: run_config
  uFactory :: bool
  uLossy :: bool
  uLag :: time
  uPoll :: time
  uTransit :: time

text \<open>
  Where Run stands: not yet called; woken (None for the poll before the loop) at a time; in a poll
  whose transaction has its snapshot; in the select statement; returned.
\<close>

datatype run_phase = Starting | Woken "wake option" time | Reading "wake option" time snapshot | Selecting | Returned

text \<open>
  \<open>nTick\<close> is when the debouncer's ticker fires next, \<open>nFlight\<close> the notifications under way with the
  time by which they arrive, \<open>nListen\<close> the LISTEN goroutine once Run has started it, \<open>nFull\<close> the
  time since which the doorbell channel has held a value.
\<close>

record net =
  nTime :: time
  nSys :: sys
  nBell :: Debouncer
  nTick :: time
  nFlight :: "(string \<times> time) list"
  nListen :: "listener option"
  nFull :: time
  nLoop :: loop
  nPhase :: run_phase

definition full :: "net \<Rightarrow> bool" where
  "full n = (case nListen n of None \<Rightarrow> False | Some l \<Rightarrow> doorbell_full l)"

definition listening :: "net \<Rightarrow> bool" where
  "listening n = (case nListen n of None \<Rightarrow> False | Some l \<Rightarrow> connected l)"

definition empty_doorbell :: "net \<Rightarrow> net" where
  "empty_doorbell n = n\<lparr>nListen := map_option (\<lambda>l. l\<lparr>doorbell_full := False\<rparr>) (nListen n)\<rparr>"

text \<open>The LISTEN goroutine takes an event; a value that is already in the channel stays the one.\<close>

definition hear :: "delivery_env \<Rightarrow> listen_event \<Rightarrow> net \<Rightarrow> net" where
  "hear u e n =
     (case nListen n of
        None \<Rightarrow> n
      | Some l \<Rightarrow>
          (case listen_iter (uFactory u) e l of
             None \<Rightarrow> n\<lparr>nListen := Some (l\<lparr>connected := False\<rparr>)\<rparr>
           | Some l' \<Rightarrow> n\<lparr>nListen := Some l', nFull := (if full n then nFull n else nTime n)\<rparr>))"

text \<open>PostgreSQL delivers a notification to the sessions that listen on its channel.\<close>

definition arrive :: "delivery_env \<Rightarrow> string \<Rightarrow> net \<Rightarrow> net" where
  "arrive u ch n =
     (if listening n \<and> ch = DoorbellChannel (uSha u) (cGVK (rcWatch (uConfig u))) then hear u Notification n else n)"

section \<open>Time and steps\<close>

definition may_wait :: "delivery_env \<Rightarrow> net \<Rightarrow> time \<Rightarrow> bool" where
  "may_wait u n t \<longleftrightarrow>
     (\<not> loop_done (nBell n) \<longrightarrow> t \<le> nTick n + uLag u) \<and>
     (\<forall>(ch, due) \<in> set (nFlight n). t \<le> due) \<and>
     (case nPhase n of
        Starting \<Rightarrow> True
      | Woken _ t0 \<Rightarrow> t \<le> t0 + uPoll u
      | Reading _ t0 _ \<Rightarrow> t \<le> t0 + uPoll u
      | Selecting \<Rightarrow> t \<le> timerDue (nLoop n) + uLag u \<and> (full n \<longrightarrow> t \<le> max (nFull n) (lastPoll (nLoop n)) + uLag u)
      | Returned \<Rightarrow> True)"

text \<open>The select statement can pick a case that is ready.\<close>

definition ready :: "wake \<Rightarrow> net \<Rightarrow> bool" where
  "ready wk n = (case wk of DoorbellCh \<Rightarrow> full n | TimerC \<Rightarrow> timerDue (nLoop n) \<le> nTime n | _ \<Rightarrow> True)"

definition picked :: "wake \<Rightarrow> net \<Rightarrow> net" where
  "picked wk n = (if wk = DoorbellCh then empty_doorbell n else n)"

definition woken_at :: "wake \<Rightarrow> time \<Rightarrow> time \<Rightarrow> poll_fault \<Rightarrow> snapshot \<Rightarrow> wakeup" where
  "woken_at wk t0 t1 f sn = \<lparr>in_wake = wk, in_now = t0, in_after = t1, in_fault = f, in_snap = sn\<rparr>"

text \<open>The poll before the loop, or the iteration of the loop that \<open>wk\<close> has woken.\<close>

definition iteration ::
  "delivery_env \<Rightarrow> wake option \<Rightarrow> time \<Rightarrow> time \<Rightarrow> poll_fault \<Rightarrow> snapshot \<Rightarrow> loop \<Rightarrow> iter_result" where
  "iteration u wk t0 t1 f sn l =
     (case wk of
        None \<Rightarrow> poll_then (uHash u) (uConfig u) (woken_at TimerC t0 t1 f sn) (\<lambda>n s. s) l
      | Some k \<Rightarrow> run_iter (uHash u) (uConfig u) True (woken_at k t0 t1 f sn) l)"

text \<open>A doorbell inside the debounce floor only sets the timer; everything else but the ends polls.\<close>

definition polls :: "delivery_env \<Rightarrow> wake \<Rightarrow> net \<Rightarrow> bool" where
  "polls u wk n = (case wk of DoorbellCh \<Rightarrow> DebounceFloor (uConfig u) \<le> nTime n - lastPoll (nLoop n) | TimerC \<Rightarrow> True | _ \<Rightarrow> False)"

text \<open>
  The steps. A poll that the stop channel interrupts is left out: nobody stops the watcher.
\<close>

inductive net_step ::
  "(pgargs \<Rightarrow> bool) \<Rightarrow> delivery_env \<Rightarrow> net \<Rightarrow> net \<Rightarrow> bool" for ok :: "pgargs \<Rightarrow> bool" and u :: delivery_env
  where
    elapse: "nTime n \<le> t \<Longrightarrow> may_wait u n t \<Longrightarrow> net_step ok u n (n\<lparr>nTime := t\<rparr>)"
  | server: "pg_step ok (nSys n) s \<Longrightarrow> net_step ok u n (n\<lparr>nSys := s\<rparr>)"
  | rung: "net_step ok u n (n\<lparr>nBell := Ring g (nBell n)\<rparr>)"
  | ticks: "nTick n \<le> nTime n \<Longrightarrow> nTime n < t \<Longrightarrow> t \<le> nTime n + window (nBell n) \<Longrightarrow>
      bell_step (uSha u) (uOrder u) down Tick (nBell n) = Some b \<Longrightarrow> uLossy u \<or> down = (\<lambda>ch. False) \<Longrightarrow>
      net_step ok u n
        (n\<lparr>nBell := b, nTick := t,
           nFlight := nFlight n @ map (\<lambda>ch. (ch, nTime n + uTransit u)) (drop (length (sent (nBell n))) (sent b))\<rparr>)"
  | arrives: "nFlight n = xs @ (ch, due) # ys \<Longrightarrow>
      net_step ok u n (arrive u ch (n\<lparr>nFlight := xs @ ys\<rparr>))"
  | listens: "nListen n = None \<Longrightarrow> (\<exists>wk t. nPhase n = Woken (Some wk) t) \<or> nPhase n = Selecting \<Longrightarrow>
      net_step ok u n (n\<lparr>nListen := Some (listen_start conn stats0)\<rparr>)"
  | listen_fault: "uLossy u \<Longrightarrow> e \<noteq> Notification \<Longrightarrow> net_step ok u n (hear u e n)"
  | starts: "nPhase n = Starting \<Longrightarrow> net_step ok u n (n\<lparr>nPhase := Woken None (nTime n)\<rparr>)"
  | picks: "nPhase n = Selecting \<Longrightarrow> ready wk n \<Longrightarrow> polls u wk n \<Longrightarrow>
      net_step ok u n ((picked wk n)\<lparr>nPhase := Woken (Some wk) (nTime n)\<rparr>)"
  | postpones: "nPhase n = Selecting \<Longrightarrow> ready wk n \<Longrightarrow> \<not> polls u wk n \<Longrightarrow>
      run_iter (uHash u) (uConfig u) True (woken_at wk (nTime n) (nTime n) PollOk (snap (nSys n))) (nLoop n) = Inr l \<Longrightarrow>
      net_step ok u n ((picked wk n)\<lparr>nLoop := l\<rparr>)"
  | leaves: "nPhase n = Selecting \<Longrightarrow> ready wk n \<Longrightarrow> \<not> polls u wk n \<Longrightarrow>
      run_iter (uHash u) (uConfig u) True (woken_at wk (nTime n) (nTime n) PollOk (snap (nSys n))) (nLoop n) = Inl (res, l) \<Longrightarrow>
      net_step ok u n ((picked wk n)\<lparr>nLoop := l, nPhase := Returned\<rparr>)"
  | snapshots: "nPhase n = Woken wk t \<Longrightarrow>
      net_step ok u n (n\<lparr>nPhase := Reading wk t (snap (nSys n))\<rparr>)"
  | polled: "nPhase n = Reading wk t sn \<Longrightarrow> (\<And>k. f \<noteq> PollStopped k) \<Longrightarrow>
      iteration u wk t (nTime n) f sn (nLoop n) = Inr l \<Longrightarrow>
      net_step ok u n (n\<lparr>nLoop := l, nPhase := Selecting\<rparr>)"
  | fails: "nPhase n = Reading wk t sn \<Longrightarrow> (\<And>k. f \<noteq> PollStopped k) \<Longrightarrow>
      iteration u wk t (nTime n) f sn (nLoop n) = Inl (res, l) \<Longrightarrow>
      net_step ok u n (n\<lparr>nLoop := l, nPhase := Returned\<rparr>)"

inductive net_steps ::
  "(pgargs \<Rightarrow> bool) \<Rightarrow> delivery_env \<Rightarrow> net \<Rightarrow> net \<Rightarrow> bool" for ok :: "pgargs \<Rightarrow> bool" and u :: delivery_env and n0 :: net
  where
    net_refl: "net_steps ok u n0 n0"
  | net_more: "net_steps ok u n0 n \<Longrightarrow>
      net_step ok u n n' \<Longrightarrow> net_steps ok u n0 n'"

text \<open>An informer that has listed and is about to run its watcher.\<close>

definition net_start :: "delivery_env \<Rightarrow> time \<Rightarrow> sys \<Rightarrow> Debouncer \<Rightarrow> net" where
  "net_start u now s b =
     \<lparr>nTime = now, nSys = s, nBell = b, nTick = now + window b, nFlight = [], nListen = None, nFull = now,
      nLoop = \<lparr>lw = informer_watcher (uHash u) (rcWatch (uConfig u)) (snap s), lastPoll = now, doorbellPending = False,
        timerDue = now, stats = stats0\<rparr>, nPhase = Starting\<rparr>"

text \<open>What the informer's cache holds, and that it is what the table held in a given state.\<close>

definition cache_of :: "(json \<Rightarrow> bool) \<Rightarrow> cache \<Rightarrow> net \<Rightarrow> cache" where
  "cache_of own c0 n = cache_after own c0 (delivered (lw (nLoop n)))"

definition view_at :: "(json \<Rightarrow> bool) \<Rightarrow> delivery_env \<Rightarrow> net \<Rightarrow> cache" where
  "view_at own u n = table_view own (uHash u) (rcWatch (uConfig u)) (committed (nSys n))"

text \<open>The watcher has made its first poll and has not returned.\<close>

definition synced :: "net \<Rightarrow> bool" where
  "synced n = (case nPhase n of Selecting \<Rightarrow> True | Woken (Some _) _ \<Rightarrow> True | Reading (Some _) _ _ \<Rightarrow> True | _ \<Rightarrow> False)"

section \<open>Lemmas\<close>

definition nonneg :: "delivery_env \<Rightarrow> bool" where
  "nonneg u \<longleftrightarrow> 0 \<le> uLag u \<and> 0 \<le> uPoll u \<and> 0 \<le> DebounceFloor (uConfig u) \<and> 0 \<le> BaselineInterval (uConfig u)"

lemma hear_frame [simp]:
  "nTime (hear u e n) = nTime n" "nSys (hear u e n) = nSys n" "nLoop (hear u e n) = nLoop n"
  "nPhase (hear u e n) = nPhase n" "nBell (hear u e n) = nBell n" "nTick (hear u e n) = nTick n"
  "nFlight (hear u e n) = nFlight n"
  by (simp_all add: hear_def split: option.splits)

lemma arrive_frame [simp]:
  "nTime (arrive u ch n) = nTime n" "nSys (arrive u ch n) = nSys n" "nLoop (arrive u ch n) = nLoop n"
  "nPhase (arrive u ch n) = nPhase n" "nBell (arrive u ch n) = nBell n" "nTick (arrive u ch n) = nTick n"
  "nFlight (arrive u ch n) = nFlight n"
  by (simp_all add: arrive_def)

lemma picked_frame [simp]:
  "nTime (picked wk n) = nTime n" "nSys (picked wk n) = nSys n" "nLoop (picked wk n) = nLoop n"
  "nPhase (picked wk n) = nPhase n" "nBell (picked wk n) = nBell n" "nTick (picked wk n) = nTick n"
  "nFlight (picked wk n) = nFlight n"
  by (simp_all add: picked_def empty_doorbell_def)

lemma pollCycle_poll:
  "pollCycle ht cfg f w sn = (w', Inr k) \<Longrightarrow> (\<And>j. f \<noteq> PollStopped j) \<Longrightarrow> poll ht cfg w sn = Inr w'"
  by (auto simp: pollCycle_def poll_def Let_def split: poll_fault.splits bool.splits sum.splits prod.splits if_splits)

lemma woken_at_simps [simp]:
  "in_wake (woken_at wk t0 t1 f sn) = wk" "in_now (woken_at wk t0 t1 f sn) = t0" "in_after (woken_at wk t0 t1 f sn) = t1"
  "in_fault (woken_at wk t0 t1 f sn) = f" "in_snap (woken_at wk t0 t1 f sn) = sn"
  by (simp_all add: woken_at_def)

definition polled_to :: "run_config \<Rightarrow> (string \<Rightarrow> int) \<Rightarrow> time \<Rightarrow> snapshot \<Rightarrow> loop \<Rightarrow> loop \<Rightarrow> bool" where
  "polled_to c ht t sn l l' \<longleftrightarrow> poll ht (rcWatch c) (lw l) sn = Inr (lw l') \<and> lastPoll l' = t \<and> \<not> doorbellPending l' \<and>
     timerDue l' = t + BaselineInterval c"

lemma poll_then_poll:
  assumes "poll_then ht c i upd l = Inr l'" "\<And>j. in_fault i \<noteq> PollStopped j"
  shows "polled_to c ht (in_after i) (in_snap i) l l'"
  using assms pollCycle_poll [of ht "rcWatch c" "in_fault i" "lw l" "in_snap i"]
  by (auto simp: polled_to_def poll_then_def Let_def split: prod.splits sum.splits)

text \<open>An iteration that was woken to poll has polled the snapshot.\<close>

lemma iteration_polls:
  assumes "iteration u wk t0 t1 f sn l = Inr l'" "\<And>j. f \<noteq> PollStopped j"
    and "wk = Some DoorbellCh \<Longrightarrow> DebounceFloor (uConfig u) \<le> t0 - lastPoll l"
    and "wk \<noteq> Some CtxDone" "wk \<noteq> Some StopCh"
  shows "polled_to (uConfig u) (uHash u) t1 sn l l'"
proof (cases wk)
  case None
  then show ?thesis using assms(1) poll_then_poll [of _ _ _ _ l l'] assms(2) by (fastforce simp: iteration_def)
next
  case (Some k)
  let ?i = "woken_at k t0 t1 f sn"
  obtain upd l1 where "poll_then (uHash u) (uConfig u) ?i upd l1 = Inr l'" "lw l1 = lw l" "lastPoll l1 = lastPoll l"
    using assms(1,3-5) Some by (cases k) (auto simp: iteration_def run_iter_def)
  then show ?thesis using poll_then_poll [of _ _ ?i upd l1 l'] assms(2) by (simp add: polled_to_def)
qed

lemma postponed:
  assumes "run_iter ht c lc (woken_at wk t t f sn) l = Inr l'" "wk = DoorbellCh \<longrightarrow> \<not> DebounceFloor c \<le> t - lastPoll l"
    and "wk \<noteq> TimerC"
  shows "wk = DoorbellCh \<and> lw l' = lw l \<and> lastPoll l' = lastPoll l \<and> doorbellPending l' \<and>
    timerDue l' = lastPoll l + DebounceFloor c \<and> t < timerDue l'"
  using assms by (cases wk) (auto simp: run_iter_def)

lemma steps_trans: "net_steps ok u n1 n2 \<Longrightarrow> net_steps ok u n0 n1 \<Longrightarrow> net_steps ok u n0 n2"
  by (induction rule: net_steps.induct) (auto intro: net_more)

lemma step_sys: "net_step ok u n n' \<Longrightarrow> nSys n' = nSys n \<or> pg_step ok (nSys n) (nSys n')"
  by (induction rule: net_step.induct) simp_all

lemma step_time: "net_step ok u n n' \<Longrightarrow> nTime n \<le> nTime n'"
  by (induction rule: net_step.induct) simp_all

lemma steps_time: "net_steps ok u n n' \<Longrightarrow> nTime n \<le> nTime n'"
  by (induction rule: net_steps.induct) (auto dest: step_time)

lemma steps_feed:
  "net_steps (request_ok own) u n n' \<Longrightarrow> feed_inv own (nSys n) \<Longrightarrow> feed_inv own (nSys n')"
proof (induction rule: net_steps.induct)
  case (net_more n1 n2)
  then show ?case using step_sys [OF net_more.hyps(2)] by (auto dest: feed_inv_step)
qed

lemma watch_inv_later:
  assumes "net_steps (request_ok own) u m n" "feed_inv own (nSys m)" "watch_inv own ht cfg c0 (snap (nSys m)) w"
  shows "watch_inv own ht cfg c0 (snap (nSys n)) w"
  using assms
proof (induction rule: net_steps.induct)
  case (net_more n1 n2)
  have f: "feed_inv own (nSys n1)" by (rule steps_feed [OF net_more.hyps(1) net_more.prems(1)])
  have "shown own r = None" if "isFullyDeleted own r" for r using that by (simp add: shown_def)
  then show ?case
    using step_sys [OF net_more.hyps(2)] net_more.IH [OF net_more.prems] f
      sess.watch_inv_step [of own "nSys n1" "nSys n2" own ht cfg c0 w] by auto
qed

section \<open>What the informer knows\<close>

definition woken_ok :: "delivery_env \<Rightarrow> wake option \<Rightarrow> time \<Rightarrow> loop \<Rightarrow> bool" where
  "woken_ok u wk t l \<longleftrightarrow> (wk = Some DoorbellCh \<longrightarrow> DebounceFloor (uConfig u) \<le> t - lastPoll l) \<and>
     wk \<noteq> Some CtxDone \<and> wk \<noteq> Some StopCh"

definition knows :: "(json \<Rightarrow> bool) \<Rightarrow> delivery_env \<Rightarrow> cache \<Rightarrow> snapshot \<Rightarrow> net \<Rightarrow> bool" where
  "knows own u c0 sn n \<longleftrightarrow> watch_inv own (uHash u) (rcWatch (uConfig u)) c0 sn (lw (nLoop n))"

text \<open>The cache is the table as it was at the snapshot of the last poll, which was no longer than a poll before its end.\<close>

definition past :: "(json \<Rightarrow> bool) \<Rightarrow> delivery_env \<Rightarrow> cache \<Rightarrow> net \<Rightarrow> net \<Rightarrow> bool" where
  "past own u c0 n0 n \<longleftrightarrow> timer_inv (uConfig u) (nLoop n) \<and> lastPoll (nLoop n) \<le> nTime n \<and>
     (\<exists>m. net_steps (request_ok own) u n0 m \<and> net_steps (request_ok own) u m n \<and>
        cache_of own c0 n = view_at own u m \<and> lastPoll (nLoop n) \<le> nTime m + uPoll u)"

text \<open>A poll that is under way will be of a state the system has been in.\<close>

definition read_at :: "(json \<Rightarrow> bool) \<Rightarrow> delivery_env \<Rightarrow> net \<Rightarrow> time \<Rightarrow> snapshot \<Rightarrow> net \<Rightarrow> bool" where
  "read_at own u n0 t sn n \<longleftrightarrow>
     (\<exists>m. net_steps (request_ok own) u n0 m \<and> net_steps (request_ok own) u m n \<and> snap (nSys m) = sn \<and> t \<le> nTime m)"

definition polling :: "(json \<Rightarrow> bool) \<Rightarrow> delivery_env \<Rightarrow> cache \<Rightarrow> net \<Rightarrow> net \<Rightarrow> wake option \<Rightarrow> time \<Rightarrow> bool" where
  "polling own u c0 n0 n wk t \<longleftrightarrow> woken_ok u wk t (nLoop n) \<and> t \<le> nTime n \<and> nTime n \<le> t + uPoll u \<and>
     (wk \<noteq> None \<longrightarrow> past own u c0 n0 n \<and> t \<le> timerDue (nLoop n) + uLag u)"

definition informed :: "(json \<Rightarrow> bool) \<Rightarrow> delivery_env \<Rightarrow> cache \<Rightarrow> net \<Rightarrow> net \<Rightarrow> bool" where
  "informed own u c0 n0 n \<longleftrightarrow>
     (case nPhase n of
        Starting \<Rightarrow> knows own u c0 (snap (nSys n)) n
      | Woken wk t \<Rightarrow> knows own u c0 (snap (nSys n)) n \<and> polling own u c0 n0 n wk t
      | Reading wk t sn \<Rightarrow> knows own u c0 sn n \<and> polling own u c0 n0 n wk t \<and> read_at own u n0 t sn n
      | Selecting \<Rightarrow> knows own u c0 (snap (nSys n)) n \<and> past own u c0 n0 n \<and> nTime n \<le> timerDue (nLoop n) + uLag u
      | Returned \<Rightarrow> True)"

lemma past_step:
  "past own u c0 n0 n \<Longrightarrow> net_step (request_ok own) u n n' \<Longrightarrow> nLoop n' = nLoop n \<Longrightarrow> past own u c0 n0 n'"
  unfolding past_def cache_of_def using step_time by (fastforce intro: net_more)

lemma read_at_step: "read_at own u n0 t sn n \<Longrightarrow> net_step (request_ok own) u n n' \<Longrightarrow> read_at own u n0 t sn n'"
  unfolding read_at_def by (blast intro: net_more)

lemma knows_step:
  assumes "net_step (request_ok own) u n n'" "feed_inv own (nSys n)" "knows own u c0 (snap (nSys n)) n" "nLoop n' = nLoop n"
  shows "knows own u c0 (snap (nSys n')) n'"
  using watch_inv_later [OF net_more [OF net_refl assms(1)] assms(2)] assms(3,4) by (simp add: knows_def)

text \<open>Steps of the others, and the passing of time.\<close>

lemma informed_quiet:
  assumes "net_step (request_ok own) u n n'" "informed own u c0 n0 n" "feed_inv own (nSys n)"
    and "nPhase n' = nPhase n" "nLoop n' = nLoop n" "nTime n' = nTime n \<or> may_wait u n (nTime n')"
  shows "informed own u c0 n0 n'"
proof -
  note keep = past_step [OF _ assms(1,5)] knows_step [OF assms(1,3) _ assms(5)] read_at_step [OF _ assms(1)]
  have t: "nTime n \<le> nTime n'" by (rule step_time [OF assms(1)])
  have poll: "polling own u c0 n0 n' wk t" if "polling own u c0 n0 n wk t" "nPhase n = Woken wk t \<or> nPhase n = Reading wk t sn" for wk t sn
    using that t assms(5,6) keep(1) by (auto simp: polling_def may_wait_def)
  show ?thesis
  proof (cases "nPhase n")
    case (Reading wk t sn)
    then show ?thesis
      using assms(2,4,5) poll [of wk t sn] keep(3) by (auto simp: informed_def knows_def)
  next
    case (Woken wk t)
    then show ?thesis using assms(2,4) poll [of wk t] keep(2) by (auto simp: informed_def)
  next
    case Selecting
    then have "nTime n' \<le> timerDue (nLoop n') + uLag u" using assms(2,5,6) by (auto simp: informed_def may_wait_def)
    then show ?thesis using Selecting assms(2,4) keep(1,2) by (auto simp: informed_def)
  qed (use assms(2,4) keep in \<open>auto simp: informed_def\<close>)
qed

text \<open>The end of a poll.\<close>

lemma informed_polled:
  assumes "net_step (request_ok own) u n n'" "informed own u c0 n0 n" "feed_inv own (nSys n0)" "nonneg u"
    and "nPhase n = Reading wk t sn" "polled_to (uConfig u) (uHash u) (nTime n) sn (nLoop n) (nLoop n')"
    and "nPhase n' = Selecting" "nTime n' = nTime n" "nSys n' = nSys n"
  shows "informed own u c0 n0 n'"
proof -
  let ?cfg = "rcWatch (uConfig u)"
  obtain m where m: "net_steps (request_ok own) u n0 m" "net_steps (request_ok own) u m n" "snap (nSys m) = sn" "t \<le> nTime m"
    using assms(2,5) by (auto simp: informed_def read_at_def)
  have k: "watch_inv own (uHash u) ?cfg c0 (snap (nSys m)) (lw (nLoop n))" "nTime n \<le> t + uPoll u"
    using assms(2,5) m(3) by (auto simp: informed_def knows_def polling_def)
  have p: "poll (uHash u) ?cfg (lw (nLoop n)) (snap (nSys m)) = Inr (lw (nLoop n'))"
    using assms(6) m(3) by (simp add: polled_to_def)
  have f: "feed_inv own (nSys m)" by (rule steps_feed [OF m(1) assms(3)])
  have "cache_of own c0 n' = view_at own u m"
    using sess.poll_cache [OF f k(1) p] by (simp add: cache_of_def view_at_def)
  moreover have "net_steps (request_ok own) u m n'" by (rule net_more [OF m(2) assms(1)])
  ultimately have "past own u c0 n0 n'"
    using m(1,4) k(2) assms(6,8) by (auto simp: past_def timer_inv_def polled_to_def)
  moreover have "knows own u c0 (snap (nSys n')) n'"
    using watch_inv_later [OF m(2) f sess.poll_watch_inv [OF f k(1) p]] assms(9) by (simp add: knows_def)
  ultimately show ?thesis using assms(4,6-8) by (auto simp: informed_def polled_to_def nonneg_def)
qed

lemma informed_step:
  assumes "net_step (request_ok own) u n n'" "informed own u c0 n0 n" "net_steps (request_ok own) u n0 n"
    and "feed_inv own (nSys n0)" "nonneg u"
  shows "informed own u c0 n0 n'"
proof -
  have f: "feed_inv own (nSys n)" by (rule steps_feed [OF assms(3,4)])
  note quiet = informed_quiet [OF assms(1,2) f]
  from assms(1) show ?thesis
  proof cases
    case starts
    then show ?thesis using assms(2,5) by (simp add: informed_def knows_def polling_def woken_ok_def nonneg_def)
  next
    case (picks wk)
    have l: "nLoop n' = nLoop n" "nTime n' = nTime n" "nSys n' = nSys n" by (simp_all add: picks)
    have "woken_ok u (Some wk) (nTime n) (nLoop n')" using picks(4) l by (cases wk) (auto simp: woken_ok_def polls_def)
    moreover have "past own u c0 n0 n'" "knows own u c0 (snap (nSys n')) n'" "nTime n \<le> timerDue (nLoop n') + uLag u"
      using assms(2) picks(2) past_step [OF _ assms(1) l(1)] knows_step [OF assms(1) f _ l(1)] l by (auto simp: informed_def)
    ultimately show ?thesis using picks(1) l assms(5) by (simp add: informed_def polling_def nonneg_def)
  next
    case (postpones wk l)
    have wk: "wk \<noteq> TimerC" "wk = DoorbellCh \<longrightarrow> \<not> DebounceFloor (uConfig u) \<le> nTime n - lastPoll (nLoop n)"
      using postpones(4) by (auto simp: polls_def split: wake.splits)
    have l: "lw l = lw (nLoop n)" "lastPoll l = lastPoll (nLoop n)" "doorbellPending l"
      "timerDue l = lastPoll l + DebounceFloor (uConfig u)" "nTime n < timerDue l"
      using postponed [OF postpones(5) wk(2,1)] by simp_all
    have "past own u c0 n0 n" using assms(2) postpones(2) by (simp add: informed_def)
    then obtain m where "net_steps (request_ok own) u n0 m" "net_steps (request_ok own) u m n"
      "cache_of own c0 n = view_at own u m" "lastPoll (nLoop n) \<le> nTime m + uPoll u" "lastPoll (nLoop n) \<le> nTime n"
      by (auto simp: past_def)
    then have "past own u c0 n0 n'"
      using net_more [OF _ assms(1), of m] postpones(1) l by (auto simp: past_def cache_of_def timer_inv_def)
    then show ?thesis
      using assms(2,5) postpones(1,2) l by (auto simp: informed_def knows_def nonneg_def)
  next
    case (snapshots wk t)
    have "read_at own u n0 t (snap (nSys n)) n'"
      using assms(2) snapshots net_more [OF net_refl assms(1)] assms(3)
      unfolding read_at_def by (intro exI [of _ n]) (auto simp: informed_def polling_def)
    moreover have "polling own u c0 n0 n' wk t"
      using assms(2) snapshots past_step [OF _ assms(1)] by (auto simp: informed_def polling_def)
    ultimately show ?thesis using assms(2) snapshots by (auto simp: informed_def knows_def)
  next
    case (polled wk t sn fl l)
    have "woken_ok u wk t (nLoop n)" using assms(2) polled(2) by (simp add: informed_def polling_def)
    then have "polled_to (uConfig u) (uHash u) (nTime n) sn (nLoop n) l"
      by (intro iteration_polls [OF polled(4,3)]) (auto simp: woken_ok_def)
    then show ?thesis using polled by (intro informed_polled [OF assms(1,2,4,5) polled(2)]) simp_all
  next
    case (elapse t)
    then show ?thesis using quiet by simp
  next
    case leaves
    then show ?thesis by (simp add: informed_def)
  next
    case fails
    then show ?thesis by (simp add: informed_def)
  qed (rule quiet; simp)+
qed

lemma informed_start:
  assumes "feed_inv own s"
  shows "informed own u (list_cache (informer_list (uHash u) (rcWatch (uConfig u)) (snap s))) n0 (net_start u now s b)"
  using informer_start_inv [OF assms] by (simp add: informed_def knows_def net_start_def)

lemma informed_steps:
  assumes "net_steps (request_ok own) u n0 n" "informed own u c0 n0 n0" "feed_inv own (nSys n0)" "nonneg u"
  shows "informed own u c0 n0 n"
  using assms by (induction rule: net_steps.induct) (auto intro: informed_step)

section \<open>A doorbell on its way\<close>

text \<open>
  After a ring at \<open>T\<close> with window \<open>W\<close>: the notification is heard by \<open>heard_by\<close>, the loop has taken it
  by \<open>taken_by\<close>, and has woken to poll by \<open>woken_by\<close>.
\<close>

definition heard_by :: "delivery_env \<Rightarrow> time \<Rightarrow> time \<Rightarrow> time" where
  "heard_by u T W = T + W + uLag u + uTransit u"

definition taken_by :: "delivery_env \<Rightarrow> time \<Rightarrow> time \<Rightarrow> time" where
  "taken_by u T W = max (heard_by u T W) (T + uPoll u) + uLag u"

definition woken_by :: "delivery_env \<Rightarrow> time \<Rightarrow> time \<Rightarrow> time" where
  "woken_by u T W = max (taken_by u T W) (T + uPoll u + DebounceFloor (uConfig u) + uLag u)"

definition chan :: "delivery_env \<Rightarrow> string" where
  "chan u = DoorbellChannel (uSha u) (cGVK (rcWatch (uConfig u)))"

text \<open>The ring is pending in the debouncer, under way, or in the doorbell channel.\<close>

definition signal :: "delivery_env \<Rightarrow> time \<Rightarrow> time \<Rightarrow> net \<Rightarrow> bool" where
  "signal u T W n \<longleftrightarrow>
     cGVK (rcWatch (uConfig u)) \<in> set (dirty (nBell n)) \<and> nTick n \<le> T + W \<and> nTime n \<le> T + W + uLag u \<or>
     (\<exists>due. (chan u, due) \<in> set (nFlight n) \<and> nTime n \<le> due \<and> due \<le> heard_by u T W) \<or>
     full n \<and> nFull n \<le> heard_by u T W"

text \<open>The debouncer runs, the watcher listens, and the clocks are in order.\<close>

definition path_up :: "time \<Rightarrow> net \<Rightarrow> bool" where
  "path_up W n \<longleftrightarrow> \<not> loop_done (nBell n) \<and> listening n \<and> window (nBell n) = W \<and> nFull n \<le> nTime n"

definition sends_ok :: "delivery_env \<Rightarrow> bool" where
  "sends_ok u \<longleftrightarrow> visits_all (uOrder u) \<and> (\<forall>s. length (uSha u s) = 24) \<and> 0 \<le> uTransit u"

text \<open>The same environment with a notification path that does not fail; its steps are steps of \<open>u\<close>.\<close>

definition faultless :: "delivery_env \<Rightarrow> delivery_env" where
  "faultless u = u\<lparr>uLossy := False\<rparr>"

lemma faultless_simps [simp]:
  "uLossy (faultless u) = False" "uConfig (faultless u) = uConfig u" "uSha (faultless u) = uSha u"
  "uOrder (faultless u) = uOrder u" "uHash (faultless u) = uHash u" "uTransit (faultless u) = uTransit u"
  "uLag (faultless u) = uLag u" "uPoll (faultless u) = uPoll u" "uFactory (faultless u) = uFactory u"
  by (simp_all add: faultless_def)

lemma faultless_same [simp]:
  "may_wait (faultless u) = may_wait u" "hear (faultless u) = hear u" "arrive (faultless u) = arrive u"
  "iteration (faultless u) = iteration u" "polls (faultless u) = polls u"
  by (intro ext; simp add: may_wait_def hear_def arrive_def iteration_def polls_def cong: option.case_cong run_phase.case_cong split: wake.split)+

lemma faultless_step: "net_step ok (faultless u) n n' \<Longrightarrow> net_step ok u n n'"
  by (induction rule: net_step.induct) (auto intro: net_step.intros)

lemma faultless_steps: "net_steps ok (faultless u) n n' \<Longrightarrow> net_steps ok u n n'"
  by (induction rule: net_steps.induct) (auto intro: net_steps.intros faultless_step)

lemma flush_sends:
  assumes "visits_all order" "reaches sha down g" "g \<in> set (dirty d)"
  shows "DoorbellChannel sha g \<in> set (drop (length (sent d)) (sent (flush sha order down d)))"
proof -
  have "\<exists>new. foldl (\<lambda>out gvk. pg_notify down (DoorbellChannel sha gvk) out) out gs = out @ new \<and>
      (g \<in> set gs \<longrightarrow> DoorbellChannel sha g \<in> set new)" for out gs
  proof (induction gs arbitrary: out)
    case (Cons a gs)
    let ?x = "pg_notify down (DoorbellChannel sha a) []"
    have "pg_notify down (DoorbellChannel sha a) out = out @ ?x" "a = g \<Longrightarrow> ?x = [DoorbellChannel sha g]"
      using assms(2) by (auto simp: pg_notify_def reaches_def)
    then show ?case using Cons [of "out @ ?x"] by auto
  qed simp
  from this [of "sent d" "order (dirty d)"] show ?thesis
    using assms(3) set_visits [OF assms(1)] by (auto simp: flush_def)
qed

lemma Ring_fields [simp]: "loop_done (Ring g d) = loop_done d" "window (Ring g d) = window d" "sent (Ring g d) = sent d"
  by (simp_all add: Ring_def)

lemma flush_fields [simp]:
  "loop_done (flush sha order down d) = loop_done d" "window (flush sha order down d) = window d"
  by (simp_all add: flush_def)

lemma listening_hears:
  assumes "listening n"
  shows "listening (hear u Notification n)" "full (hear u Notification n)"
    "nFull (hear u Notification n) = (if full n then nFull n else nTime n)"
  using assms by (auto simp: listening_def hear_def listen_iter_def notify_def full_def split: option.splits)

lemma arrive_cases:
  assumes "listening n"
  shows "listening (arrive u ch n) \<and> (full n \<longrightarrow> full (arrive u ch n)) \<and> (ch = chan u \<longrightarrow> full (arrive u ch n)) \<and>
    nFull (arrive u ch n) = (if ch = chan u \<and> \<not> full n then nTime n else nFull n)"
  using assms listening_hears [OF assms] by (auto simp: arrive_def chan_def)

lemma listen_fields [simp]:
  "listening (n\<lparr>nTime := t\<rparr>) = listening n" "listening (n\<lparr>nSys := s\<rparr>) = listening n"
  "listening (n\<lparr>nBell := b\<rparr>) = listening n" "listening (n\<lparr>nTick := t\<rparr>) = listening n"
  "listening (n\<lparr>nFlight := fs\<rparr>) = listening n"
  "listening (n\<lparr>nLoop := l\<rparr>) = listening n" "listening (n\<lparr>nPhase := ph\<rparr>) = listening n"
  "full (n\<lparr>nTime := t\<rparr>) = full n" "full (n\<lparr>nSys := s\<rparr>) = full n"
  "full (n\<lparr>nBell := b\<rparr>) = full n" "full (n\<lparr>nTick := t\<rparr>) = full n"
  "full (n\<lparr>nFlight := fs\<rparr>) = full n"
  "full (n\<lparr>nLoop := l\<rparr>) = full n" "full (n\<lparr>nPhase := ph\<rparr>) = full n"
  by (simp_all add: listening_def full_def)

lemma picked_listening [simp]: "listening (picked wk n) = listening n" "nFull (picked wk n) = nFull n"
  by (auto simp: picked_def empty_doorbell_def listening_def split: option.splits)

lemma path_up_step:
  assumes "net_step ok (faultless u) n n'" "path_up W n"
  shows "path_up W n'"
  using assms
proof cases
  case (ticks t down b)
  then show ?thesis using assms(2) by (auto simp: path_up_def bell_step_def)
next
  case (arrives xs ch due ys)
  have "listening (n\<lparr>nFlight := xs @ ys\<rparr>)" using assms(2) by (simp add: path_up_def)
  from arrive_cases [OF this, of u ch] show ?thesis using arrives(1) assms(2) by (auto simp: path_up_def)
next
  case (listens conn)
  then show ?thesis using assms(2) by (simp add: path_up_def listening_def)
qed (auto simp: path_up_def)

text \<open>What the steps of the others, and of the clock, make of a signal.\<close>

lemma signal_step:
  assumes "net_step ok (faultless u) n n'" "signal u T W n" "path_up W n" "sends_ok u"
    and "full n \<Longrightarrow> full n'" "nFull n' \<le> nFull n \<or> \<not> full n"
    and "nTime n' = nTime n \<or> may_wait u n (nTime n')"
  shows "signal u T W n'"
  using assms(1)
proof cases
  case (elapse t)
  then show ?thesis using assms(2,3,7) by (force simp: signal_def may_wait_def path_up_def)
next
  case (ticks t down b)
  have b: "b = flush (uSha u) (uOrder u) down (nBell n)" "down = (\<lambda>ch. False)" "visits_all (uOrder u)"
    using ticks(5,6) assms(3,4) by (auto simp: bell_step_def path_up_def sends_ok_def)
  have "reaches (uSha u) down (cGVK (rcWatch (uConfig u)))"
    using b(2) DoorbellChannel_length [of "uSha u" "cGVK (rcWatch (uConfig u))"] assms(4) by (simp add: reaches_def sends_ok_def)
  from flush_sends [OF b(3) this, of "nBell n"]
  have new: "cGVK (rcWatch (uConfig u)) \<in> set (dirty (nBell n)) \<Longrightarrow> (chan u, nTime n + uTransit u) \<in> set (nFlight n')"
    using ticks(1) b(1) by (auto simp: chan_def)
  have old: "set (nFlight n) \<subseteq> set (nFlight n')" "full n' = full n" "nFull n' = nFull n" "nTime n' = nTime n"
    using ticks(1) by auto
  from assms(2) consider (dirty) "cGVK (rcWatch (uConfig u)) \<in> set (dirty (nBell n))" "nTime n \<le> T + W + uLag u"
    | (flight) due where "(chan u, due) \<in> set (nFlight n)" "nTime n \<le> due" "due \<le> heard_by u T W"
    | (full) "full n" "nFull n \<le> heard_by u T W" unfolding signal_def by blast
  then show ?thesis
  proof cases
    case dirty
    then have "nTime n + uTransit u \<le> heard_by u T W" "nTime n \<le> nTime n + uTransit u"
      using assms(4) by (simp_all add: heard_by_def sends_ok_def)
    then show ?thesis using new [OF dirty(1)] old(4) unfolding signal_def by auto
  qed (use old in \<open>auto simp: signal_def\<close>)
next
  case (arrives xs ch due ys)
  let ?n = "n\<lparr>nFlight := xs @ ys\<rparr>"
  have "listening ?n" using assms(3) by (simp add: path_up_def)
  have n': "n' = arrive u ch ?n" using arrives(1) by simp
  note a = arrive_cases [OF \<open>listening ?n\<close>, of u ch, folded n']
  have n: "full ?n = full n" "nFull ?n = nFull n" "nFull n \<le> nTime n" using assms(3) by (simp_all add: path_up_def)
  from assms(2) consider (dirty) "cGVK (rcWatch (uConfig u)) \<in> set (dirty (nBell n))" "nTick n \<le> T + W" "nTime n \<le> T + W + uLag u"
    | (flight) d where "(chan u, d) \<in> set (nFlight n)" "nTime n \<le> d" "d \<le> heard_by u T W"
    | (full) "full n" "nFull n \<le> heard_by u T W" unfolding signal_def by blast
  then show ?thesis
  proof cases
    case flight
    show ?thesis
    proof (cases "(chan u, d) \<in> set (xs @ ys)")
      case True
      then show ?thesis using flight arrives(1) unfolding signal_def by auto
    next
      case False
      then have "ch = chan u" using flight(1) arrives(2) by auto
      then show ?thesis using a n flight(2,3) unfolding signal_def by (auto split: if_splits)
    qed
  qed (use a n arrives(1) in \<open>auto simp: signal_def\<close>)
next
  case (rung g)
  then show ?thesis using assms(2) by (auto simp: signal_def Ring_dirty)
next
  case (listens conn)
  then show ?thesis using assms(3) by (simp add: path_up_def listening_def)
next
  case (listen_fault e)
  then show ?thesis by simp
qed (use assms(2,5,6) in \<open>auto simp: signal_def\<close>)

text \<open>
  Until a poll has seen the state of the ring at \<open>n1\<close> or a later one, the signal is on its way, or
  the timer stands for it, or the poll for it has begun; \<open>caught\<close> says that one has.
\<close>

definition told :: "(json \<Rightarrow> bool) \<Rightarrow> delivery_env \<Rightarrow> net \<Rightarrow> net \<Rightarrow> bool" where
  "told own u n1 n \<longleftrightarrow>
     (let T = nTime n1; W = window (nBell n1) in
      case nPhase n of
        Starting \<Rightarrow> False
      | Woken wk t \<Rightarrow> t \<le> woken_by u T W
      | Reading wk t sn \<Rightarrow> read_at own u n1 t sn n \<and> t \<le> woken_by u T W \<or> t \<le> T \<and> signal u T W n
      | Selecting \<Rightarrow> lastPoll (nLoop n) \<le> T + uPoll u \<and>
          (signal u T W n \<and> nTime n \<le> taken_by u T W \<or>
           nTime n \<le> timerDue (nLoop n) + uLag u \<and> timerDue (nLoop n) + uLag u \<le> woken_by u T W)
      | Returned \<Rightarrow> True)"

definition caught :: "(json \<Rightarrow> bool) \<Rightarrow> delivery_env \<Rightarrow> cache \<Rightarrow> net \<Rightarrow> net \<Rightarrow> bool" where
  "caught own u c0 n1 n \<longleftrightarrow> nPhase n = Returned \<or>
     (\<exists>m. net_steps (request_ok own) u n1 m \<and> net_steps (request_ok own) u m n \<and> cache_of own c0 n = view_at own u m) \<and>
     (\<forall>wk t sn. nPhase n = Reading wk t sn \<longrightarrow> read_at own u n1 t sn n)"

lemma polled_catches:
  assumes "net_step (request_ok own) u n n'" "knows own u c0 sn n" "feed_inv own (nSys n1)"
    and "read_at own u n1 t sn n" "polled_to (uConfig u) (uHash u) t1 sn (nLoop n) (nLoop n')" "nPhase n' = Selecting"
  shows "caught own u c0 n1 n'"
proof -
  obtain m where m: "net_steps (request_ok own) u n1 m" "net_steps (request_ok own) u m n" "snap (nSys m) = sn"
    using assms(4) by (auto simp: read_at_def)
  have "cache_of own c0 n' = view_at own u m"
    using sess.poll_cache [OF steps_feed [OF m(1) assms(3)]] assms(2,5) m(3)
    by (auto simp: knows_def polled_to_def cache_of_def view_at_def)
  then show ?thesis using m(1) net_more [OF m(2) assms(1)] assms(6) unfolding caught_def by auto
qed

lemma reading_polled:
  assumes "nPhase n = Reading wk t sn" "iteration u wk t (nTime n) f sn (nLoop n) = Inr l" "\<And>k. f \<noteq> PollStopped k"
    and "informed own u c0 n0 n"
  shows "polled_to (uConfig u) (uHash u) (nTime n) sn (nLoop n) l"
proof -
  have "woken_ok u wk t (nLoop n)" using assms(1,4) by (simp add: informed_def polling_def)
  then show ?thesis by (intro iteration_polls [OF assms(2,3)]) (auto simp: woken_ok_def)
qed

text \<open>A step that leaves the scheduler where it is.\<close>

lemma caught_quiet:
  assumes "net_step (request_ok own) u n n'" "caught own u c0 n1 n"
    and "lw (nLoop n') = lw (nLoop n)" "\<And>wk t sn. nPhase n' = Reading wk t sn \<Longrightarrow> nPhase n = Reading wk t sn \<or> read_at own u n1 t sn n'"
    and "nPhase n = Returned \<Longrightarrow> nPhase n' = Returned"
  shows "caught own u c0 n1 n'"
proof -
  have "cache_of own c0 n' = cache_of own c0 n" using assms(3) by (simp add: cache_of_def)
  then show ?thesis
    using assms(2,5) read_at_step [OF _ assms(1)] net_more [OF _ assms(1)] assms(4) unfolding caught_def by metis
qed

lemma caught_step:
  assumes "net_step (request_ok own) u n n'" "caught own u c0 n1 n" "informed own u c0 n0 n"
    and "net_steps (request_ok own) u n1 n" "feed_inv own (nSys n1)"
  shows "caught own u c0 n1 n'"
  using assms(1)
proof cases
  case (polled wk t sn f l)
  have "knows own u c0 sn n" using assms(3) polled(2) by (simp add: informed_def)
  moreover have "read_at own u n1 t sn n" using assms(2) polled(2) by (simp add: caught_def)
  ultimately show ?thesis
    using polled_catches [OF assms(1) _ assms(5)] reading_polled [OF polled(2,4,3) assms(3)] polled(1) by simp
next
  case (snapshots wk t)
  have "read_at own u n1 t (snap (nSys n)) n'"
    using assms(3,4) snapshots net_more [OF net_refl assms(1)] unfolding read_at_def
    by (intro exI [of _ n]) (auto simp: informed_def polling_def)
  then show ?thesis using snapshots by (intro caught_quiet [OF assms(1,2)]) auto
next
  case (postpones wk l)
  have "lw l = lw (nLoop n)"
    using postponed [OF postpones(5)] postpones(4) by (auto simp: polls_def split: wake.splits)
  then show ?thesis using postpones(1,2) by (intro caught_quiet [OF assms(1,2)]) auto
next
  case (fails wk t sn f res l)
  then show ?thesis by (simp add: caught_def)
next
  case (leaves wk res l)
  then show ?thesis by (simp add: caught_def)
qed (intro caught_quiet [OF assms(1,2)]; simp)+


text \<open>The bounds in terms of one another.\<close>

lemma bounds_order:
  assumes "nonneg u" "0 \<le> uTransit u" "0 \<le> W"
  shows "T + W + uLag u \<le> heard_by u T W" "heard_by u T W + uLag u \<le> taken_by u T W"
    "T + uPoll u \<le> taken_by u T W" "T + uPoll u + uLag u \<le> taken_by u T W" "taken_by u T W \<le> woken_by u T W" "T \<le> woken_by u T W"
    "T + uPoll u + DebounceFloor (uConfig u) + uLag u \<le> woken_by u T W"
  using assms by (auto simp: nonneg_def heard_by_def taken_by_def woken_by_def)

lemma waiting_signal:
  assumes "signal u T W n" "may_wait u n t" "nPhase n = Selecting" "lastPoll (nLoop n) \<le> T + uPoll u" "path_up W n"
    and "nonneg u" "0 \<le> uTransit u" "0 \<le> W"
  shows "t \<le> taken_by u T W"
proof -
  note b = bounds_order [OF assms(6-8), of T]
  from assms(1) consider "nTick n \<le> T + W" | due where "(chan u, due) \<in> set (nFlight n)" "due \<le> heard_by u T W"
    | "full n" "nFull n \<le> heard_by u T W" unfolding signal_def by blast
  then show ?thesis
  proof cases
    case 1
    then have "t \<le> T + W + uLag u" using assms(2,5) by (auto simp: may_wait_def path_up_def)
    then show ?thesis using b(1,2) assms(6) by (simp add: nonneg_def)
  next
    case 2
    then have "t \<le> due" using assms(2) by (auto simp: may_wait_def)
    then show ?thesis using b(2) 2(2) assms(6) by (simp add: nonneg_def)
  next
    case 3
    then have "t \<le> max (nFull n) (lastPoll (nLoop n)) + uLag u" using assms(2,3) by (auto simp: may_wait_def)
    also have "\<dots> \<le> max (heard_by u T W) (T + uPoll u) + uLag u" using 3(2) assms(4) by (auto simp: max_def)
    finally show ?thesis by (simp add: taken_by_def)
  qed
qed

lemma told_quiet:
  assumes "net_step (request_ok own) (faultless u) n n'" "told own u n1 n" "path_up (window (nBell n1)) n" "sends_ok u" "nonneg u"
    and "nLoop n' = nLoop n" "nPhase n' = nPhase n" "0 \<le> window (nBell n1)"
    and "full n \<Longrightarrow> full n'" "nFull n' \<le> nFull n \<or> \<not> full n" "nTime n' = nTime n \<or> may_wait u n (nTime n')"
  shows "told own u n1 n'"
proof -
  note step = faultless_step [OF assms(1)]
  let ?T = "nTime n1" and ?W = "window (nBell n1)"
  have sig: "signal u ?T ?W n'" if "signal u ?T ?W n"
    by (rule signal_step [OF assms(1) that assms(3,4,9,10,11)])
  have tr: "0 \<le> uTransit u" using assms(4) by (simp add: sends_ok_def)
  show ?thesis
  proof (cases "nPhase n")
    case Selecting
    then have l: "lastPoll (nLoop n) \<le> ?T + uPoll u" using assms(2) by (simp add: told_def Let_def)
    have "nTime n' \<le> taken_by u ?T ?W" if "signal u ?T ?W n" "nTime n \<le> taken_by u ?T ?W"
      using that(2) assms(11) waiting_signal [OF that(1) _ Selecting l assms(3,5) tr assms(8)] by auto
    moreover have "nTime n' \<le> timerDue (nLoop n) + uLag u" if "nTime n \<le> timerDue (nLoop n) + uLag u"
      using that assms(11) Selecting by (auto simp: may_wait_def)
    ultimately show ?thesis using assms(2,6,7) Selecting sig by (auto simp: told_def Let_def)
  next
    case (Reading wk t sn)
    then show ?thesis using assms(2,7) sig read_at_step [OF _ step] by (auto simp: told_def Let_def)
  qed (use assms(2,7) in \<open>auto simp: told_def Let_def\<close>)
qed

lemma told_step:
  assumes "net_step (request_ok own) (faultless u) n n'" "told own u n1 n" "path_up (window (nBell n1)) n" "sends_ok u" "nonneg u"
    and "informed own u c0 n0 n" "net_steps (request_ok own) u n1 n" "feed_inv own (nSys n1)" "0 \<le> window (nBell n1)"
  shows "told own u n1 n' \<or> caught own u c0 n1 n'"
proof -
  note step = faultless_step [OF assms(1)]
  let ?T = "nTime n1" and ?W = "window (nBell n1)"
  have tr: "0 \<le> uTransit u" using assms(4) by (simp add: sends_ok_def)
  note b = bounds_order [OF assms(5) tr assms(9), of ?T]
  note quiet = told_quiet [OF assms(1-5) _ _ assms(9)]
  have up: "listening n" "nFull n \<le> nTime n" using assms(3) by (simp_all add: path_up_def)
  from assms(1) show ?thesis
  proof cases
    case (arrives xs ch due ys)
    have "listening (n\<lparr>nFlight := xs @ ys\<rparr>)" using up by simp
    from arrive_cases [OF this, of u ch] show ?thesis using arrives(1) quiet by (auto split: if_splits)
  next
    case (listens conn)
    then show ?thesis using up by (simp add: listening_def)
  next
    case (listen_fault e)
    then show ?thesis by simp
  next
    case starts
    then show ?thesis using assms(2) by (simp add: told_def Let_def)
  next
    case (picks wk)
    then have "nTime n \<le> woken_by u ?T ?W" using assms(2) b(5) by (auto simp: told_def Let_def)
    then show ?thesis using picks by (simp add: told_def Let_def)
  next
    case (postpones wk l)
    have "timerDue l = lastPoll (nLoop n) + DebounceFloor (uConfig u)" "nTime n < timerDue l" "lastPoll l = lastPoll (nLoop n)"
      using postponed [OF postpones(5)] postpones(4) by (auto simp: polls_def split: wake.splits)
    then show ?thesis using assms(2,5) postpones(1,2) b(7) by (simp add: told_def Let_def nonneg_def)
  next
    case (leaves wk res l)
    then show ?thesis by (simp add: caught_def)
  next
    case (snapshots wk t)
    have "read_at own u n1 t (snap (nSys n)) n'"
      using assms(6,7) snapshots net_more [OF net_refl step] unfolding read_at_def
      by (intro exI [of _ n]) (auto simp: informed_def polling_def)
    then show ?thesis using assms(2) snapshots by (auto simp: told_def Let_def)
  next
    case (polled wk t sn f l)
    note p = reading_polled [OF polled(2) polled(4) [unfolded faultless_same] polled(3) assms(6)]
    have k: "knows own u c0 sn n" "nTime n \<le> t + uPoll u" using assms(6) polled(2) by (simp_all add: informed_def polling_def)
    show ?thesis
    proof (cases "read_at own u n1 t sn n")
      case True
      then show ?thesis using polled_catches [OF step k(1) assms(8) True] p polled(1) by simp
    next
      case False
      then have s: "t \<le> ?T" "signal u ?T ?W n" using assms(2) polled(2) by (simp_all add: told_def Let_def)
      then have "signal u ?T ?W n'" using polled(1) signal_step [OF assms(1) s(2) assms(3,4)] by simp
      then show ?thesis using s(1) k(2) b(3) p polled(1) by (simp add: told_def Let_def polled_to_def)
    qed
  next
    case (fails wk t sn f res l)
    then show ?thesis by (simp add: caught_def)
  next
    case (elapse t)
    then show ?thesis using quiet by simp
  qed (rule disjI1, rule quiet; simp)+
qed


text \<open>The ticker is never further away than a window, and the doorbell channel has its value from the past.\<close>

definition clocks_ok :: "net \<Rightarrow> bool" where
  "clocks_ok n \<longleftrightarrow> nTick n \<le> nTime n + window (nBell n) \<and> nFull n \<le> nTime n"

lemma clocks_step: "net_step ok u n n' \<Longrightarrow> clocks_ok n \<Longrightarrow> clocks_ok n' \<and> window (nBell n') = window (nBell n)"
proof (induction rule: net_step.induct)
  case (ticks n t down b)
  then show ?case by (auto simp: clocks_ok_def bell_step_def split: if_splits)
qed (auto simp: clocks_ok_def arrive_def hear_def split: option.splits)

lemma clocks_steps: "net_steps ok u n n' \<Longrightarrow> clocks_ok n \<Longrightarrow> clocks_ok n' \<and> window (nBell n') = window (nBell n)"
proof (induction rule: net_steps.induct)
  case (net_more n1 n2)
  then show ?case using clocks_step [OF net_more.hyps(2)] by simp
qed simp

text \<open>From the ring on.\<close>

lemma told_or_caught:
  assumes "net_steps (request_ok own) (faultless u) n1 n" "told own u n1 n1" "path_up (window (nBell n1)) n1"
    and "sends_ok u" "nonneg u" "informed own u c0 n0 n1" "net_steps (request_ok own) u n0 n1" "feed_inv own (nSys n0)"
    and "0 \<le> window (nBell n1)"
  shows "(told own u n1 n \<or> caught own u c0 n1 n) \<and> path_up (window (nBell n1)) n \<and> informed own u c0 n0 n"
  using assms(1)
proof induction
  case (net_more n n')
  note step = faultless_step [OF net_more.hyps(2)] and before = faultless_steps [OF net_more.hyps(1)]
  note f = steps_feed [OF assms(7,8)] and i = net_more.IH [THEN conjunct2, THEN conjunct2]
  have "informed own u c0 n0 n'" by (rule informed_step [OF step i steps_trans [OF before assms(7)] assms(8,5)])
  moreover have "path_up (window (nBell n1)) n'" using path_up_step [OF net_more.hyps(2)] net_more.IH by simp
  moreover have "told own u n1 n' \<or> caught own u c0 n1 n'"
    using net_more.IH told_step [OF net_more.hyps(2) _ _ assms(4,5) i before f assms(9)] caught_step [OF step _ i before f] by blast
  ultimately show ?case by blast
qed (use assms in simp)

section \<open>Properties\<close>

lemma net_start_informed:
  assumes "wf_db d" "db_meta own d" "reachable (request_ok own) (init_sys d) s"
    and "c0 = list_cache (informer_list (uHash u) (rcWatch (uConfig u)) (snap s))" "nonneg u"
    and "net_steps (request_ok own) u (net_start u now s b) n"
  shows "informed own u c0 (net_start u now s b) n" "feed_inv own (nSys (net_start u now s b))"
proof -
  have s: "feed_inv own s" by (rule informer_start [OF assms(1-3)])
  then show f: "feed_inv own (nSys (net_start u now s b))" by (simp add: net_start_def)
  show "informed own u c0 (net_start u now s b) n"
    unfolding assms(4) by (rule informed_steps [OF assms(6) informed_start [OF s] f assms(5)])
qed

text \<open>C7: Bounded staleness: an informer lists, runs its watcher, and anything happens: sessions write,
  abort and compact, doorbells ring and are lost, connections drop, polls take their time. In
  every state after the first poll and before the watcher returns, what the informer holds is
  exactly what the table held at some moment of the run, and that moment is no longer ago than
  the larger of debounce floor and baseline interval, plus the lag, plus the time of two polls.
  Doorbells only make it sooner; losing them all loses nothing.\<close>

theorem bounded_staleness:
  assumes "wf_db d" "db_meta own d" "reachable (request_ok own) (init_sys d) s" "nonneg u"
    and "net_steps (request_ok own) u (net_start u now s b) n" "synced n"
    and "c0 = list_cache (informer_list (uHash u) (rcWatch (uConfig u)) (snap s))"
  shows "\<exists>m. net_steps (request_ok own) u (net_start u now s b) m \<and> net_steps (request_ok own) u m n \<and>
    cache_of own c0 n = view_at own u m \<and>
    nTime n \<le> nTime m + max (DebounceFloor (uConfig u)) (BaselineInterval (uConfig u)) + uLag u + 2 * uPoll u"
proof -
  note i = net_start_informed(1) [OF assms(1-3,7,4,5)]
  have due: "timerDue (nLoop n) \<le> lastPoll (nLoop n) + max (DebounceFloor (uConfig u)) (BaselineInterval (uConfig u))"
    if "past own u c0 (net_start u now s b) n" using that by (auto simp: past_def timer_inv_def)
  have "past own u c0 (net_start u now s b) n \<and> nTime n \<le> timerDue (nLoop n) + uLag u + uPoll u"
    using i assms(4,6) by (auto simp: informed_def synced_def polling_def nonneg_def split: run_phase.splits option.splits)
  then show ?thesis using due unfolding past_def by fastforce
qed

text \<open>C11: A doorbell brings the change: ring the gvk of a watcher that listens, while the notification
  path has no fault, and as soon as the window, the transit, the debounce floor, two lags and two
  polls have passed, whatever else happens, the informer holds what the table held at a moment
  not before the ring; so it holds every change that was committed before it was rung. The
  baseline interval is not part of the bound.\<close>

theorem doorbell_staleness:
  assumes "wf_db d" "db_meta own d" "reachable (request_ok own) (init_sys d) s" "nonneg u" "sends_ok u"
    and "net_steps (request_ok own) u (net_start u now s b) n1" "synced n1" "0 \<le> window b"
    and "cGVK (rcWatch (uConfig u)) \<in> set (dirty (nBell n1))" "\<not> loop_done (nBell n1)" "listening n1"
    and "net_steps (request_ok own) (faultless u) n1 n2" "synced n2"
    and "nTime n1 + window b + uTransit u + DebounceFloor (uConfig u) + 2 * uLag u + 2 * uPoll u < nTime n2"
    and "c0 = list_cache (informer_list (uHash u) (rcWatch (uConfig u)) (snap s))"
  shows "\<exists>m. net_steps (request_ok own) u n1 m \<and> net_steps (request_ok own) u m n2 \<and>
    cache_of own c0 n2 = view_at own u m"
proof -
  let ?n0 = "net_start u now s b" and ?T = "nTime n1" and ?W = "window b"
  note i = net_start_informed [OF assms(1-3,15,4,6)]
  have "clocks_ok ?n0" by (simp add: clocks_ok_def net_start_def)
  from clocks_steps [OF assms(6) this] have c: "nTick n1 \<le> ?T + ?W" "nFull n1 \<le> ?T" "window (nBell n1) = ?W"
    by (simp_all add: clocks_ok_def net_start_def)
  have tr: "0 \<le> uTransit u" using assms(5) by (simp add: sends_ok_def)
  note bnd = bounds_order [OF assms(4) tr assms(8), of ?T]
  have sig: "signal u ?T ?W n1"
    using assms(4,8,9) c by (auto simp: signal_def nonneg_def)
  then have start: "told own u n1 n1"
    using i(1) assms(4,7) c(3) bnd
    by (auto simp: told_def informed_def synced_def polling_def past_def nonneg_def Let_def split: run_phase.splits option.splits)
  have up: "path_up (window (nBell n1)) n1" using assms(10,11) c by (simp add: path_up_def)
  have "0 \<le> window (nBell n1)" using assms(8) c(3) by simp
  note final = told_or_caught [OF assms(12) start up assms(5,4) i(1) assms(6) i(2) this]
  have "\<not> told own u n1 n2"
  proof
    assume "told own u n1 n2"
    moreover have "woken_by u ?T ?W + uPoll u < nTime n2" "?T + uPoll u < nTime n2"
      using assms(4,8,14) tr by (auto simp: woken_by_def taken_by_def heard_by_def nonneg_def)
    ultimately show False
      using final assms(4,13) bnd c(3)
      by (auto simp: told_def informed_def synced_def polling_def nonneg_def Let_def split: run_phase.splits option.splits)
  qed
  then show ?thesis using final assms(13) by (auto simp: caught_def synced_def)
qed


section \<open>A concrete run\<close>

text \<open>
  The update of Sessions.thy commits at 0, after the first poll; the doorbell rings, the debouncer's
  ticker fires at 50, the notification arrives, and the watcher polls again.
\<close>

definition ex_delivery :: delivery_env where
  "ex_delivery = \<lparr>uHash = (\<lambda>_. 0), uSha = (\<lambda>_. replicate 24 CHR ''0''), uOrder = rev,
     uConfig = \<lparr>rcWatch = ex_cfg, BaselineInterval = 5000, DebounceFloor = 10\<rparr>, uFactory = True, uLossy = True,
     uLag = 0, uPoll = 0, uTransit = 0\<rparr>"

definition ex_start :: net where
  "ex_start = net_start ex_delivery 0 ex_sys (NewDebouncer 50)"

lemma ex_delivery_simps [simp]:
  "uHash ex_delivery = (\<lambda>_. 0)" "uConfig ex_delivery = \<lparr>rcWatch = ex_cfg, BaselineInterval = 5000, DebounceFloor = 10\<rparr>"
  "uLag ex_delivery = 0" "uPoll ex_delivery = 0" "uTransit ex_delivery = 0" "uOrder ex_delivery = rev" "uFactory ex_delivery = True"
  by (simp_all add: ex_delivery_def)

lemma ex_delivery_ok: "nonneg ex_delivery" "sends_ok ex_delivery"
  by (simp_all add: nonneg_def sends_ok_def visits_all_def ex_delivery_def)

lemma iteration_ok:
  assumes "poll (uHash u) (rcWatch (uConfig u)) (lw l) sn = Inr w'"
    and "wk = None \<or> wk = Some TimerC \<or> wk = Some DoorbellCh \<and> DebounceFloor (uConfig u) \<le> t0 - lastPoll l"
  shows "\<exists>st. iteration u wk t0 t1 PollOk sn l =
    Inr (l\<lparr>lw := w', lastPoll := t1, doorbellPending := False, timerDue := t1 + BaselineInterval (uConfig u), stats := st\<rparr>)"
  using assms(2)
proof (elim disjE)
  assume "wk = None"
  then show ?thesis
    using assms(1) by (intro exI [of _ "stats l"]) (simp add: iteration_def poll_then_def pollCycle_ok Let_def)
qed (use assms(1) in \<open>auto simp: iteration_def run_iter_def poll_then_def pollCycle_ok Let_def\<close>)

lemma ex_first_poll:
  "poll (\<lambda>_. 0) ex_cfg (informer_watcher (\<lambda>_. 0) ex_cfg (snap ex_sys)) (snap ex_sys) =
     Inr (informer_watcher (\<lambda>_. 0) ex_cfg (snap ex_sys))"
proof -
  have "poll_rows (\<lambda>_. 0) ex_cfg 3 (committed ex_sys) = []" by (simp add: poll_rows_def)
  then show ?thesis by (simp add: poll_def pollAll_def ex_cfg_def informer_hwm informer_delivered)
qed

text \<open>After the first poll: the watcher listens, the update has committed, and its gvk has been rung.\<close>

lemma ex_rung:
  "\<exists>n st. net_steps (request_ok own) ex_delivery ex_start n \<and> nTime n = 0 \<and> nSys n = ex_sys' \<and> nPhase n = Selecting \<and>
     nListen n = Some (listen_start (Some True) stats0) \<and> nBell n = Ring ''g'' (NewDebouncer 50) \<and> nTick n = 50 \<and>
     nFlight n = [] \<and> nFull n = 0 \<and>
     nLoop n = \<lparr>lw = informer_watcher (\<lambda>_. 0) ex_cfg (snap ex_sys), lastPoll = 0, doorbellPending = False,
       timerDue = 5000, stats = st\<rparr>"
proof -
  let ?w = "informer_watcher (\<lambda>_. 0) ex_cfg (snap ex_sys)"
  let ?a = "ex_start\<lparr>nPhase := Woken None 0\<rparr>" and ?b = "ex_start\<lparr>nPhase := Reading None 0 (snap ex_sys)\<rparr>"
  have start: "nPhase ex_start = Starting" "nTime ex_start = 0" "nSys ex_start = ex_sys" "nListen ex_start = None"
    "nBell ex_start = NewDebouncer 50" "nTick ex_start = 50" "nFlight ex_start = []" "nFull ex_start = 0"
    "nLoop ex_start = \<lparr>lw = ?w, lastPoll = 0, doorbellPending = False, timerDue = 0, stats = stats0\<rparr>"
    by (simp_all add: ex_start_def net_start_def NewDebouncer_def)
  obtain st where "iteration ex_delivery None 0 0 PollOk (snap ex_sys) (nLoop ex_start) =
      Inr (nLoop ex_start\<lparr>lw := ?w, lastPoll := 0, doorbellPending := False, timerDue := 5000, stats := st\<rparr>)"
    using iteration_ok [of ex_delivery "nLoop ex_start" "snap ex_sys" ?w None 0 0] ex_first_poll by (auto simp: start)
  note it = this
  let ?l = "nLoop ex_start\<lparr>lw := ?w, lastPoll := 0, doorbellPending := False, timerDue := 5000, stats := st\<rparr>"
  let ?c = "?b\<lparr>nLoop := ?l, nPhase := Selecting\<rparr>"
  let ?d = "?c\<lparr>nListen := Some (listen_start (Some True) stats0)\<rparr>" and ?ok = "request_ok own"
  have "net_step ?ok ex_delivery ex_start ?a" using starts [of ex_start ?ok ex_delivery] start by simp
  moreover have "net_step ?ok ex_delivery ?a ?b" using snapshots [of ?a None 0 ?ok ex_delivery] start by simp
  moreover have "net_step ?ok ex_delivery ?b ?c"
    using polled [of ?b None 0 "snap ex_sys" PollOk ex_delivery ?l ?ok] start(2) it by simp
  moreover have "net_step ?ok ex_delivery ?c ?d" by (rule listens) (simp_all add: start)
  moreover have "net_step ?ok ex_delivery ?d (?d\<lparr>nSys := ex_sys'\<rparr>)"
    by (rule server) (use ex_sys_commit in \<open>simp add: start\<close>)
  moreover have "net_step ?ok ex_delivery (?d\<lparr>nSys := ex_sys'\<rparr>) (?d\<lparr>nSys := ex_sys', nBell := Ring ''g'' (NewDebouncer 50)\<rparr>)"
    using rung [of ?ok ex_delivery "?d\<lparr>nSys := ex_sys'\<rparr>" "''g''"] by (simp add: start)
  ultimately have "net_steps ?ok ex_delivery ex_start (?d\<lparr>nSys := ex_sys', nBell := Ring ''g'' (NewDebouncer 50)\<rparr>)"
    by (meson net_refl net_more)
  then show ?thesis
    by (intro exI [of _ "?d\<lparr>nSys := ex_sys', nBell := Ring ''g'' (NewDebouncer 50)\<rparr>"] exI [of _ st]) (simp add: start)
qed

theorem bounded_staleness_witness:
  "\<exists>n m. net_steps (request_ok (\<lambda>_. True)) ex_delivery ex_start n \<and> nSys n = ex_sys' \<and>
     cache_of (\<lambda>_. True) (list_cache (informer_list (\<lambda>_. 0) ex_cfg (snap ex_sys))) n = view_at (\<lambda>_. True) ex_delivery m \<and>
     nTime n \<le> nTime m + 5000"
proof -
  obtain n where n: "net_steps (request_ok (\<lambda>_. True)) ex_delivery ex_start n" "nSys n = ex_sys'" "nPhase n = Selecting"
    using ex_rung by blast
  have "synced n" using n(3) by (simp add: synced_def)
  from bounded_staleness [OF wf_ex_db ex_db_meta ex_reach ex_delivery_ok(1) n(1) [unfolded ex_start_def] this refl] n(1,2)
  show ?thesis by auto
qed


text \<open>From the ring to the poll that it brings.\<close>

lemma ex_heard:
  assumes "nTime n = 0" "nSys n = ex_sys'" "nPhase n = Selecting" "nListen n = Some (listen_start (Some True) stats0)"
    and "nBell n = Ring ''g'' (NewDebouncer 50)" "nTick n = 50" "nFlight n = []"
    and "nLoop n = \<lparr>lw = informer_watcher (\<lambda>_. 0) ex_cfg (snap ex_sys), lastPoll = 0, doorbellPending = False,
       timerDue = 5000, stats = st\<rparr>"
  shows "\<exists>n2. net_steps (request_ok own) (faultless ex_delivery) n n2 \<and> nTime n2 = 100 \<and> synced n2"
proof -
  let ?ok = "request_ok own" and ?u = "faultless ex_delivery" and ?ch = "DoorbellChannel (uSha ex_delivery) ''g''"
  let ?bell = "flush (uSha ex_delivery) rev (\<lambda>_. False) (Ring ''g'' (NewDebouncer 50))"
  let ?L = "listen_start (Some True) stats0"
  have ls: "connected ?L" "\<not> doorbell_full ?L" by (simp_all add: listen_start_def Let_def)
  have "length ?ch < 64" using DoorbellChannel_length [of "uSha ex_delivery" "''g''"] by (simp add: ex_delivery_def)
  then have bell: "sent (NewDebouncer 50) = []" "sent ?bell = [?ch]" "loop_done (NewDebouncer 50) = False" "window (NewDebouncer 50) = 50"
    by (simp_all add: flush_def Ring_def NewDebouncer_def pg_notify_def)
  let ?a = "n\<lparr>nTime := 50\<rparr>"
  let ?b = "?a\<lparr>nBell := ?bell, nTick := 100, nFlight := [(?ch, 50)]\<rparr>"
  let ?c = "?a\<lparr>nBell := ?bell, nTick := 100, nFlight := [], nListen := Some (notify (?L\<lparr>backoff := min_backoff\<rparr>)), nFull := 50\<rparr>"
  let ?d = "?c\<lparr>nListen := Some (notify (?L\<lparr>backoff := min_backoff\<rparr>)\<lparr>doorbell_full := False\<rparr>), nPhase := Woken (Some DoorbellCh) 50\<rparr>"
  let ?e = "?d\<lparr>nPhase := Reading (Some DoorbellCh) 50 (snap ex_sys')\<rparr>"
  have full: "\<not> full n" using assms(4) ls by (simp add: full_def)
  have a: "net_step ?ok ?u n ?a"
    by (rule elapse) (use assms bell full in \<open>simp_all add: may_wait_def\<close>)
  have b: "net_step ?ok ?u ?a ?b"
    using ticks [of ?a 100 ?u "\<lambda>_. False" ?bell ?ok] assms bell by (simp add: bell_step_def)
  have "arrive ?u ?ch (?b\<lparr>nFlight := []\<rparr>) = ?c"
    using assms(4) ls full by (simp add: arrive_def hear_def listening_def listen_iter_def ex_cfg_def full_def)
  then have c: "net_step ?ok ?u ?b ?c" using arrives [of ?b "[]" ?ch 50 "[]" ?ok ?u] by simp
  have "picked DoorbellCh ?c\<lparr>nPhase := Woken (Some DoorbellCh) 50\<rparr> = ?d" by (simp add: picked_def empty_doorbell_def)
  then have d: "net_step ?ok ?u ?c ?d"
    using picks [of ?c DoorbellCh ?u ?ok] assms by (simp add: ready_def polls_def full_def notify_def)
  have e: "net_step ?ok ?u ?d ?e" using snapshots [of ?d "Some DoorbellCh" 50 ?ok ?u] assms(2) by simp
  have "poll (\<lambda>_. 0) ex_cfg (lw (nLoop n)) (snap ex_sys') = Inr (ex_polled (lw (nLoop n)))"
    by (rule ex_poll) (simp add: assms(8) informer_hwm)
  from iteration_ok [of ?u "nLoop n" "snap ex_sys'" "ex_polled (lw (nLoop n))" "Some DoorbellCh" 50 50] this
  obtain st' where it: "iteration ?u (Some DoorbellCh) 50 50 PollOk (snap ex_sys') (nLoop n) =
      Inr (nLoop n\<lparr>lw := ex_polled (lw (nLoop n)), lastPoll := 50, doorbellPending := False, timerDue := 5050, stats := st'\<rparr>)"
    using assms(8) by auto
  let ?f = "?e\<lparr>nLoop := nLoop n\<lparr>lw := ex_polled (lw (nLoop n)), lastPoll := 50, doorbellPending := False, timerDue := 5050,
      stats := st'\<rparr>, nPhase := Selecting\<rparr>"
  have f: "net_step ?ok ?u ?e ?f"
    using polled [of ?e "Some DoorbellCh" 50 "snap ex_sys'" PollOk ?u _ ?ok] it by simp
  have g: "net_step ?ok ?u ?f (?f\<lparr>nTime := 100\<rparr>)"
    by (rule elapse) (use bell in \<open>simp_all add: may_wait_def full_def notify_def\<close>)
  have "net_steps ?ok ?u n (?f\<lparr>nTime := 100\<rparr>)" using a b c d e f g by (meson net_refl net_more)
  then show ?thesis by (intro exI [of _ "?f\<lparr>nTime := 100\<rparr>"]) (simp add: synced_def)
qed

theorem doorbell_staleness_witness:
  "\<exists>n1 n2 m. nSys n1 = ex_sys' \<and> nTime n1 = 0 \<and> nTime n2 = 100 \<and> net_steps (request_ok (\<lambda>_. True)) ex_delivery n1 m \<and>
     cache_of (\<lambda>_. True) (list_cache (informer_list (\<lambda>_. 0) ex_cfg (snap ex_sys))) n2 = view_at (\<lambda>_. True) ex_delivery m"
proof -
  let ?c0 = "list_cache (informer_list (\<lambda>_. 0) ex_cfg (snap ex_sys))"
  obtain n1 st where n1: "net_steps (request_ok (\<lambda>_. True)) ex_delivery ex_start n1" "nTime n1 = 0" "nSys n1 = ex_sys'"
      "nPhase n1 = Selecting" "nListen n1 = Some (listen_start (Some True) stats0)" "nBell n1 = Ring ''g'' (NewDebouncer 50)"
      "nTick n1 = 50" "nFlight n1 = []"
      "nLoop n1 = \<lparr>lw = informer_watcher (\<lambda>_. 0) ex_cfg (snap ex_sys), lastPoll = 0, doorbellPending = False,
         timerDue = 5000, stats = st\<rparr>"
    using ex_rung by blast
  obtain n2 where n2: "net_steps (request_ok (\<lambda>_. True)) (faultless ex_delivery) n1 n2" "nTime n2 = 100" "synced n2"
    using ex_heard [OF n1(2-9)] by blast
  have bell: "window (NewDebouncer 50) = 50" "loop_done (NewDebouncer 50) = False" by (simp_all add: NewDebouncer_def)
  have "listening n1" using n1(5) by (simp add: listening_def listen_start_def Let_def)
  moreover have "synced n1" using n1(4) by (simp add: synced_def)
  ultimately have "\<exists>m. net_steps (request_ok (\<lambda>_. True)) ex_delivery n1 m \<and> net_steps (request_ok (\<lambda>_. True)) ex_delivery m n2 \<and>
      cache_of (\<lambda>_. True) ?c0 n2 = view_at (\<lambda>_. True) ex_delivery m"
    using n1 n2 bell
    by (intro doorbell_staleness [where now = 0 and b = "NewDebouncer 50", OF wf_ex_db ex_db_meta ex_reach ex_delivery_ok])
      (simp_all add: ex_start_def Ring_dirty ex_cfg_def)
  then show ?thesis using n1(2,3) n2(2) by blast
qed

end
