(* ===== verification/GreetingTypes.thy ===== *)
theory GreetingTypes
  imports Convert
begin

text \<open>
  The types of the example controller, src/examples/greeting-controller/greeting/types.go: their
  JSON form, the scheme, and the deep copies that every cache relies on, over an explicit heap.
  DeepCopyInto of ObjectMeta and ListMeta is Kubernetes code, an argument.
\<close>

section \<open>The types and their JSON\<close>

record GreetingSpec =
  gsName :: string

record GreetingStatus =
  gsMessage :: string
  gsPhase :: string
  gsCardRef :: string

record GreetingCardSpec =
  csGreetingName :: string
  csMessage :: string

record GreetingPolicySpec =
  psPrefix :: string

text \<open>
  Decoding a struct of string fields: names match without regard to case, null leaves a field,
  unknown names are ignored, any other value is an error. The table gives the field's setter.
\<close>

fun dec_fields :: "(string \<times> (string \<Rightarrow> 'a \<Rightarrow> 'a)) list \<Rightarrow> (string \<times> json) list \<Rightarrow> 'a \<Rightarrow> string + 'a" where
  "dec_fields fs [] x = Inr x"
| "dec_fields fs ((k, v) # kvs) x =
     (case map_of fs (lower k) of
        None \<Rightarrow> dec_fields fs kvs x
      | Some setter \<Rightarrow>
          (case v of
             JStr s \<Rightarrow> dec_fields fs kvs (setter s x)
           | JNull \<Rightarrow> dec_fields fs kvs x
           | _ \<Rightarrow> Inl ''cannot unmarshal into Go struct field of type string''))"

fun dec_struct :: "(string \<times> (string \<Rightarrow> 'a \<Rightarrow> 'a)) list \<Rightarrow> json \<Rightarrow> 'a \<Rightarrow> string + 'a" where
  "dec_struct fs (JObj kvs) x = dec_fields fs kvs x"
| "dec_struct fs JNull x = Inr x"
| "dec_struct fs _ x = Inl ''cannot unmarshal into Go struct''"

definition greeting_codec :: "(GreetingSpec, GreetingStatus) codec" where
  "greeting_codec =
     \<lparr>enc_spec = (\<lambda>s. Inr (JObj [(''name'', JStr (gsName s))])),
      dec_spec = dec_struct [(''name'', \<lambda>v s. s\<lparr>gsName := v\<rparr>)],
      enc_status = (\<lambda>t. Inr (JObj
        (omit (gsMessage t = []) ''message'' (JStr (gsMessage t)) @
         omit (gsPhase t = []) ''phase'' (JStr (gsPhase t)) @
         omit (gsCardRef t = []) ''cardRef'' (JStr (gsCardRef t))))),
      dec_status = dec_struct
        [(''message'', \<lambda>v t. t\<lparr>gsMessage := v\<rparr>), (''phase'', \<lambda>v t. t\<lparr>gsPhase := v\<rparr>),
         (''cardref'', \<lambda>v t. t\<lparr>gsCardRef := v\<rparr>)]\<rparr>"

text \<open>Cards and policies have no Status field, so their status functions are never called.\<close>

definition card_codec :: "(GreetingCardSpec, unit) codec" where
  "card_codec =
     \<lparr>enc_spec = (\<lambda>s. Inr (JObj [(''greetingName'', JStr (csGreetingName s)), (''message'', JStr (csMessage s))])),
      dec_spec = dec_struct
        [(''greetingname'', \<lambda>v s. s\<lparr>csGreetingName := v\<rparr>), (''message'', \<lambda>v s. s\<lparr>csMessage := v\<rparr>)],
      enc_status = (\<lambda>_. Inl ''no Status field''), dec_status = (\<lambda>_ _. Inl ''no Status field'')\<rparr>"

definition policy_codec :: "(GreetingPolicySpec, unit) codec" where
  "policy_codec =
     \<lparr>enc_spec = (\<lambda>s. Inr (JObj [(''prefix'', JStr (psPrefix s))])),
      dec_spec = dec_struct [(''prefix'', \<lambda>v s. s\<lparr>psPrefix := v\<rparr>)],
      enc_status = (\<lambda>_. Inl ''no Status field''), dec_status = (\<lambda>_ _. Inl ''no Status field'')\<rparr>"

section \<open>The scheme\<close>

definition GroupVersion :: "string \<times> string" where
  "GroupVersion = (''greeting.example.com'', ''v1alpha1'')"

text \<open>The Go types that init registers; a registered type is known under its own name.\<close>

definition SchemeBuilder :: "string list" where
  "SchemeBuilder =
     [''Greeting'', ''GreetingList''] @ [''GreetingCard'', ''GreetingCardList''] @
     [''GreetingPolicy'', ''GreetingPolicyList'']"

definition Scheme :: "string \<Rightarrow> string + gvk list" where
  "Scheme ty =
     (if ty \<in> set SchemeBuilder
      then Inr [\<lparr>gGroup = fst GroupVersion, gVersion = snd GroupVersion, gKind = ty\<rparr>]
      else Inl ''no kind is registered for the type'')"

definition zero_object :: "'s option \<Rightarrow> 't option \<Rightarrow> ('s, 't) object" where
  "zero_object s t = \<lparr>objName = [], objNamespace = [], objUID = [], objRV = [], objCreated = 0, objDeletion = None,
     objMeta = empty_meta, objGVK = \<lparr>gGroup = [], gVersion = [], gKind = []\<rparr>, objSpec = s, objStatus = t\<rparr>"

type_synonym greeting = "(GreetingSpec, GreetingStatus) object"
type_synonym card = "(GreetingCardSpec, unit) object"
type_synonym policy = "(GreetingPolicySpec, unit) object"

definition zero_greeting :: greeting where
  "zero_greeting = zero_object (Some \<lparr>gsName = []\<rparr>) (Some \<lparr>gsMessage = [], gsPhase = [], gsCardRef = []\<rparr>)"

definition zero_card :: card where
  "zero_card = zero_object (Some \<lparr>csGreetingName = [], csMessage = []\<rparr>) None"

definition zero_policy :: policy where
  "zero_policy = zero_object (Some \<lparr>psPrefix = []\<rparr>) None"

section \<open>The codecs decode what they encode\<close>

lemma lower_fields [simp]:
  "lower ''name'' = ''name''" "lower ''message'' = ''message''" "lower ''phase'' = ''phase''"
  "lower ''cardRef'' = ''cardref''" "lower ''greetingName'' = ''greetingname''" "lower ''prefix'' = ''prefix''"
  by (simp_all add: lower_def lower_char_def Let_def char_of_def bit_Suc_0_iff)

lemma greeting_spec_round:
  "enc_spec greeting_codec s = Inr j \<Longrightarrow> j \<noteq> JObj [] \<and> canon j = j \<and> dec_spec greeting_codec j s0 = Inr s"
  by (cases s; cases s0) (auto simp: greeting_codec_def norm_obj_def)

lemma greeting_status_round:
  "enc_status greeting_codec t = Inr j \<Longrightarrow> gsMessage t \<noteq> [] \<Longrightarrow> gsPhase t \<noteq> [] \<Longrightarrow> gsCardRef t \<noteq> [] \<Longrightarrow>
     canon j \<noteq> JObj [] \<and> dec_status greeting_codec (canon j) t0 = Inr t"
  by (cases t; cases t0) (auto simp: greeting_codec_def omit_def norm_obj_def)

lemma card_spec_round:
  "enc_spec card_codec s = Inr j \<Longrightarrow> j \<noteq> JObj [] \<and> canon j = j \<and> dec_spec card_codec j s0 = Inr s"
  by (cases s; cases s0) (auto simp: card_codec_def norm_obj_def)

section \<open>Deep copies\<close>

text \<open>
  A heap of metadata and slices. One address stands for everything an ObjectMeta or ListMeta
  refers to (maps, slices, pointers); TypeMeta and the specs hold no references.
\<close>

datatype ('m, 'o) cell = MetaCell 'm | SliceCell "'o list"

record ('m, 'o) go_heap =
  cells :: "nat \<Rightarrow> ('m, 'o) cell option"
  unused :: nat

record ('s, 't) go_obj =
  TypeMeta :: "string \<times> string"
  ObjectMeta :: nat
  goSpec :: 's
  goStatus :: 't

record go_list =
  lTypeMeta :: "string \<times> string"
  ListMeta :: nat
  lItems :: "nat option"

type_synonym ('m, 'o) meta_copy = "('m, 'o) go_heap \<Rightarrow> nat \<Rightarrow> ('m, 'o) go_heap \<times> nat"

definition slice_of :: "('m, 'o) go_heap \<Rightarrow> nat \<Rightarrow> 'o list" where
  "slice_of h a = (case cells h a of Some (SliceCell xs) \<Rightarrow> xs | _ \<Rightarrow> [])"

definition put_cell :: "nat \<Rightarrow> ('m, 'o) cell \<Rightarrow> ('m, 'o) go_heap \<Rightarrow> ('m, 'o) go_heap" where
  "put_cell a c h = h\<lparr>cells := (cells h)(a \<mapsto> c)\<rparr>"

definition make_slice :: "'o \<Rightarrow> nat \<Rightarrow> ('m, 'o) go_heap \<Rightarrow> ('m, 'o) go_heap \<times> nat" where
  "make_slice zero n h = ((put_cell (unused h) (SliceCell (replicate n zero)) h)\<lparr>unused := unused h + 1\<rparr>, unused h)"

definition Greeting_DeepCopyInto ::
  "('m, (GreetingSpec, GreetingStatus) go_obj) meta_copy \<Rightarrow> (GreetingSpec, GreetingStatus) go_obj \<Rightarrow>
     (GreetingSpec, GreetingStatus) go_obj \<Rightarrow> ('m, (GreetingSpec, GreetingStatus) go_obj) go_heap \<Rightarrow>
     ('m, (GreetingSpec, GreetingStatus) go_obj) go_heap \<times> (GreetingSpec, GreetingStatus) go_obj" where
  "Greeting_DeepCopyInto dc inp out h =
     (let out1 = inp\<lparr>TypeMeta := TypeMeta inp\<rparr>;
          (h1, m) = dc h (ObjectMeta inp);
          out2 = out1\<lparr>ObjectMeta := m\<rparr>
      in (h1, out2\<lparr>goSpec := goSpec inp, goStatus := goStatus inp\<rparr>))"

definition GreetingCard_DeepCopyInto ::
  "('m, (GreetingCardSpec, unit) go_obj) meta_copy \<Rightarrow> (GreetingCardSpec, unit) go_obj \<Rightarrow>
     (GreetingCardSpec, unit) go_obj \<Rightarrow> ('m, (GreetingCardSpec, unit) go_obj) go_heap \<Rightarrow>
     ('m, (GreetingCardSpec, unit) go_obj) go_heap \<times> (GreetingCardSpec, unit) go_obj" where
  "GreetingCard_DeepCopyInto dc inp out h =
     (let out1 = inp\<lparr>TypeMeta := TypeMeta inp\<rparr>; (h1, m) = dc h (ObjectMeta inp)
      in (h1, out1\<lparr>ObjectMeta := m, goSpec := goSpec inp\<rparr>))"

definition GreetingPolicy_DeepCopyInto ::
  "('m, (GreetingPolicySpec, unit) go_obj) meta_copy \<Rightarrow> (GreetingPolicySpec, unit) go_obj \<Rightarrow>
     (GreetingPolicySpec, unit) go_obj \<Rightarrow> ('m, (GreetingPolicySpec, unit) go_obj) go_heap \<Rightarrow>
     ('m, (GreetingPolicySpec, unit) go_obj) go_heap \<times> (GreetingPolicySpec, unit) go_obj" where
  "GreetingPolicy_DeepCopyInto dc inp out h =
     (let out1 = inp\<lparr>TypeMeta := TypeMeta inp\<rparr>; (h1, m) = dc h (ObjectMeta inp)
      in (h1, out1\<lparr>ObjectMeta := m, goSpec := goSpec inp\<rparr>))"

text \<open>The loop \<open>for i := range in.Items\<close> with the items' own copy \<open>cp\<close>.\<close>

fun copy_items ::
  "('o \<Rightarrow> 'o \<Rightarrow> ('m, 'o) go_heap \<Rightarrow> ('m, 'o) go_heap \<times> 'o) \<Rightarrow> nat \<Rightarrow> nat \<Rightarrow> nat list \<Rightarrow> ('m, 'o) go_heap \<Rightarrow> ('m, 'o) go_heap" where
  "copy_items cp src dst [] h = h"
| "copy_items cp src dst (i # is) h =
     (let (h1, x) = cp (slice_of h src ! i) (slice_of h dst ! i) h
      in copy_items cp src dst is (put_cell dst (SliceCell ((slice_of h1 dst)[i := x])) h1))"

definition copy_list ::
  "('m, 'o) meta_copy \<Rightarrow> ('o \<Rightarrow> 'o \<Rightarrow> ('m, 'o) go_heap \<Rightarrow> ('m, 'o) go_heap \<times> 'o) \<Rightarrow> 'o \<Rightarrow> go_list \<Rightarrow> ('m, 'o) go_heap \<Rightarrow>
     ('m, 'o) go_heap \<times> go_list" where
  "copy_list lc cp zero inp h =
     (let out1 = inp\<lparr>lTypeMeta := lTypeMeta inp\<rparr>;
          (h1, m) = lc h (ListMeta inp);
          out2 = out1\<lparr>ListMeta := m\<rparr>
      in case lItems inp of
           None \<Rightarrow> (h1, out2)
         | Some src \<Rightarrow>
             (let n = length (slice_of h1 src); (h2, dst) = make_slice zero n h1
              in (copy_items cp src dst [0..<n] h2, out2\<lparr>lItems := Some dst\<rparr>)))"

definition zero_go :: "'s \<Rightarrow> 't \<Rightarrow> ('s, 't) go_obj" where
  "zero_go s t = \<lparr>TypeMeta = ([], []), ObjectMeta = 0, goSpec = s, goStatus = t\<rparr>"

definition Greeting_DeepCopyObject where
  "Greeting_DeepCopyObject dc inp h =
     Greeting_DeepCopyInto dc inp (zero_go \<lparr>gsName = []\<rparr> \<lparr>gsMessage = [], gsPhase = [], gsCardRef = []\<rparr>) h"

definition GreetingCard_DeepCopyObject where
  "GreetingCard_DeepCopyObject dc inp h =
     GreetingCard_DeepCopyInto dc inp (zero_go \<lparr>csGreetingName = [], csMessage = []\<rparr> ()) h"

definition GreetingPolicy_DeepCopyObject where
  "GreetingPolicy_DeepCopyObject dc inp h = GreetingPolicy_DeepCopyInto dc inp (zero_go \<lparr>psPrefix = []\<rparr> ()) h"

text \<open>DeepCopyInto of the lists, into the new list of DeepCopyObject.\<close>

definition GreetingList_DeepCopyInto where
  "GreetingList_DeepCopyInto dc lc inp h =
     copy_list lc (Greeting_DeepCopyInto dc) (zero_go \<lparr>gsName = []\<rparr> \<lparr>gsMessage = [], gsPhase = [], gsCardRef = []\<rparr>) inp h"

definition GreetingCardList_DeepCopyInto where
  "GreetingCardList_DeepCopyInto dc lc inp h =
     copy_list lc (GreetingCard_DeepCopyInto dc) (zero_go \<lparr>csGreetingName = [], csMessage = []\<rparr> ()) inp h"

definition GreetingPolicyList_DeepCopyInto where
  "GreetingPolicyList_DeepCopyInto dc lc inp h =
     copy_list lc (GreetingPolicy_DeepCopyInto dc) (zero_go \<lparr>psPrefix = []\<rparr> ()) inp h"

section \<open>Copies are equal and independent\<close>

text \<open>What a deep copy of metadata promises: the same contents at an address that nothing used.\<close>

definition copies_meta :: "('m, 'o) meta_copy \<Rightarrow> bool" where
  "copies_meta dc \<longleftrightarrow> (\<forall>h a h' b m. dc h a = (h', b) \<longrightarrow> cells h a = Some (MetaCell m) \<longrightarrow>
     cells h' b = Some (MetaCell m) \<and> unused h \<le> b \<and> b < unused h' \<and> (\<forall>x < unused h. cells h' x = cells h x))"

definition ok_obj :: "('m, ('s, 't) go_obj) go_heap \<Rightarrow> ('s, 't) go_obj \<Rightarrow> bool" where
  "ok_obj h x \<longleftrightarrow> ObjectMeta x < unused h \<and> (\<exists>m. cells h (ObjectMeta x) = Some (MetaCell m))"

definition ok_list :: "('m, ('s, 't) go_obj) go_heap \<Rightarrow> go_list \<Rightarrow> bool" where
  "ok_list h l \<longleftrightarrow> ListMeta l < unused h \<and> (\<exists>m. cells h (ListMeta l) = Some (MetaCell m)) \<and>
     (\<forall>a. lItems l = Some a \<longrightarrow> a < unused h \<and> (\<exists>xs. cells h a = Some (SliceCell xs) \<and> list_all (ok_obj h) xs))"

text \<open>What a reader of an object or of a list sees.\<close>

definition view_obj :: "('m, ('s, 't) go_obj) go_heap \<Rightarrow> ('s, 't) go_obj \<Rightarrow> (string \<times> string) \<times> ('m, ('s, 't) go_obj) cell option \<times> 's \<times> 't" where
  "view_obj h x = (TypeMeta x, cells h (ObjectMeta x), goSpec x, goStatus x)"

definition view_list where
  "view_list h l = (lTypeMeta l, cells h (ListMeta l),
     map_option (\<lambda>a. map (view_obj h) (slice_of h a)) (lItems l))"

text \<open>Every address a list leads to.\<close>

definition reach :: "('m, ('s, 't) go_obj) go_heap \<Rightarrow> go_list \<Rightarrow> nat set" where
  "reach h l = insert (ListMeta l)
     (case lItems l of None \<Rightarrow> {} | Some a \<Rightarrow> insert a (ObjectMeta ` set (slice_of h a)))"

text \<open>What the loop needs of the copy of one item.\<close>

definition copies_item :: "(('s, 't) go_obj \<Rightarrow> ('s, 't) go_obj \<Rightarrow> ('m, ('s, 't) go_obj) go_heap \<Rightarrow> ('m, ('s, 't) go_obj) go_heap \<times> ('s, 't) go_obj) \<Rightarrow> bool" where
  "copies_item cp \<longleftrightarrow> (\<forall>x old h h' y. cp x old h = (h', y) \<longrightarrow> ok_obj h x \<longrightarrow>
     view_obj h' y = view_obj h x \<and> unused h \<le> ObjectMeta y \<and> ok_obj h' y \<and> (\<forall>a < unused h. cells h' a = cells h a))"

lemma copies_items:
  "copies_meta dc \<Longrightarrow> copies_item (Greeting_DeepCopyInto dc)"
  "copies_meta dc' \<Longrightarrow> copies_item (GreetingCard_DeepCopyInto dc')"
  "copies_meta dc'' \<Longrightarrow> copies_item (GreetingPolicy_DeepCopyInto dc'')"
  by (fastforce simp: copies_item_def copies_meta_def ok_obj_def view_obj_def Greeting_DeepCopyInto_def
      GreetingCard_DeepCopyInto_def GreetingPolicy_DeepCopyInto_def Let_def split: prod.splits)+


text \<open>What the loop has done up to item \<open>k\<close>; \<open>u\<close> separates the old addresses from the new ones.\<close>

definition copied :: "nat \<Rightarrow> ('m, ('s, 't) go_obj) go_heap \<Rightarrow> ('s, 't) go_obj list \<Rightarrow> ('s, 't) go_obj list \<Rightarrow> nat \<Rightarrow> bool" where
  "copied u h xs ys k \<longleftrightarrow> length ys = length xs \<and>
     (\<forall>i < k. view_obj h (ys ! i) = view_obj h (xs ! i) \<and> ok_obj h (ys ! i) \<and> u \<le> ObjectMeta (ys ! i))"

lemma copy_step:
  assumes "copies_item cp" "cells h src = Some (SliceCell xs)" "src < u" "u \<le> dst" "dst < unused h"
    and "\<forall>x \<in> set xs. ok_obj h x \<and> ObjectMeta x < u" "cells h dst = Some (SliceCell ys)" "copied u h xs ys k"
    and "k < length xs" "cp (slice_of h src ! k) (slice_of h dst ! k) h = (h1, y)"
    and "h2 = put_cell dst (SliceCell ((slice_of h1 dst)[k := y])) h1"
  shows "cells h2 src = Some (SliceCell xs) \<and> dst < unused h2 \<and> (\<forall>x \<in> set xs. ok_obj h2 x \<and> ObjectMeta x < u) \<and>
    cells h2 dst = Some (SliceCell (ys[k := y])) \<and> copied u h2 xs (ys[k := y]) (Suc k) \<and> (\<forall>a < u. cells h2 a = cells h a)"
proof -
  have x: "slice_of h src ! k = xs ! k" "ok_obj h (xs ! k)" "ObjectMeta (xs ! k) < u"
    using assms(2,6,9) by (simp_all add: slice_of_def)
  then have y: "view_obj h1 y = view_obj h (xs ! k)" "unused h \<le> ObjectMeta y" "ok_obj h1 y"
    "\<forall>a < unused h. cells h1 a = cells h a"
    using assms(1,10) unfolding copies_item_def by auto
  have u1: "unused h < unused h1" using y(2,3) by (auto simp: ok_obj_def)
  have d: "cells h1 dst = Some (SliceCell ys)" "slice_of h1 dst = ys" using y(4) assms(5,7) by (simp_all add: slice_of_def)
  have c2: "cells h2 a = (if a = dst then Some (SliceCell (ys[k := y])) else cells h1 a)" "unused h2 = unused h1" for a
    by (simp_all add: assms(11) put_cell_def d(2))
  have keep: "\<forall>a < unused h. a \<noteq> dst \<longrightarrow> cells h2 a = cells h a" using c2 y(4) by simp
  have ok2: "ok_obj h2 z \<and> view_obj h2 z = view_obj h z" if okz: "ok_obj h z" for z
  proof -
    obtain m where m: "cells h (ObjectMeta z) = Some (MetaCell m)" "ObjectMeta z < unused h"
      using okz by (auto simp: ok_obj_def)
    then have "ObjectMeta z \<noteq> dst" using assms(7) by auto
    then show ?thesis using m keep u1 c2(2) by (simp add: ok_obj_def view_obj_def)
  qed
  have "ObjectMeta y \<noteq> dst" using y(2) assms(5) by simp
  then have y2: "ok_obj h2 y" "view_obj h2 y = view_obj h (xs ! k)" "u \<le> ObjectMeta y"
    using y(1-3) c2 assms(4,5) by (auto simp: ok_obj_def view_obj_def)
  have old: "\<forall>x \<in> set xs. ok_obj h2 x \<and> view_obj h2 x = view_obj h x \<and> ObjectMeta x < u" using assms(6) ok2 by blast
  have "copied u h2 xs (ys[k := y]) (Suc k)"
    using assms(8,9) y2 ok2 old by (auto simp: copied_def nth_list_update less_Suc_eq)
  then show ?thesis using old keep assms(2-5) c2 u1 by auto
qed

lemma copy_items_correct:
  assumes "copies_item cp" "cells h src = Some (SliceCell xs)" "src < u" "u \<le> dst" "dst < unused h"
    and "\<forall>x \<in> set xs. ok_obj h x \<and> ObjectMeta x < u" "cells h dst = Some (SliceCell ys)" "copied u h xs ys k"
    and "k \<le> length xs"
  shows "\<exists>zs. cells (copy_items cp src dst [k..<length xs] h) dst = Some (SliceCell zs) \<and>
    copied u (copy_items cp src dst [k..<length xs] h) xs zs (length xs) \<and>
    (\<forall>a < u. cells (copy_items cp src dst [k..<length xs] h) a = cells h a)"
  using assms(2,5-9)
proof (induction "length xs - k" arbitrary: k h ys)
  case 0
  then show ?case by simp
next
  case (Suc n)
  then have k: "k < length xs" by simp
  obtain h1 y where cp: "cp (slice_of h src ! k) (slice_of h dst ! k) h = (h1, y)" by fastforce
  let ?h2 = "put_cell dst (SliceCell ((slice_of h1 dst)[k := y])) h1"
  have step: "cells ?h2 src = Some (SliceCell xs)" "dst < unused ?h2" "\<forall>x \<in> set xs. ok_obj ?h2 x \<and> ObjectMeta x < u"
    "cells ?h2 dst = Some (SliceCell (ys[k := y]))" "copied u ?h2 xs (ys[k := y]) (Suc k)" "\<forall>a < u. cells ?h2 a = cells h a"
    using copy_step [OF assms(1) Suc.prems(1) assms(3,4) Suc.prems(2-5) k cp refl] by blast+
  have "copy_items cp src dst [k..<length xs] h = copy_items cp src dst [Suc k..<length xs] ?h2"
    by (simp add: upt_conv_Cons k cp)
  then show ?case using Suc.hyps(1) [OF _ step(1-5)] Suc.hyps(2) k step(6) by auto
qed

lemma view_list_cong:
  assumes "ok_list h l" "\<forall>a < unused h. cells h' a = cells h a"
  shows "view_list h' l = view_list h l"
proof -
  have "map (view_obj h') (slice_of h' a) = map (view_obj h) (slice_of h a)" if a: "lItems l = Some a" for a
  proof -
    obtain xs where xs: "a < unused h" "cells h a = Some (SliceCell xs)" "list_all (ok_obj h) xs"
      using assms(1) a by (auto simp: ok_list_def)
    then show ?thesis using assms(2) by (auto simp: slice_of_def list_all_iff ok_obj_def view_obj_def)
  qed
  then show ?thesis using assms by (cases "lItems l") (auto simp: view_list_def ok_list_def)
qed

lemma copy_list_correct:
  assumes "copies_item cp" "copies_meta lc" "ok_list h l" "copy_list lc cp zero l h = (h', l')"
  shows "view_list h' l' = view_list h l \<and> (\<forall>a < unused h. cells h' a = cells h a) \<and> (\<forall>a \<in> reach h' l'. unused h \<le> a)"
proof -
  obtain h1 m where m: "lc h (ListMeta l) = (h1, m)" by fastforce
  obtain mc where mc: "cells h (ListMeta l) = Some (MetaCell mc)" "ListMeta l < unused h" using assms(3) by (auto simp: ok_list_def)
  have h1: "cells h1 m = Some (MetaCell mc)" "unused h \<le> m" "m < unused h1" "\<forall>x < unused h. cells h1 x = cells h x"
    using assms(2) m mc(1) unfolding copies_meta_def by blast+
  show ?thesis
  proof (cases "lItems l")
    case None
    then show ?thesis using assms(4) m mc h1 by (auto simp: copy_list_def view_list_def reach_def)
  next
    case (Some src)
    then obtain xs where xs: "cells h src = Some (SliceCell xs)" "src < unused h" "list_all (ok_obj h) xs"
      using assms(3) by (auto simp: ok_list_def)
    define ys where "ys = replicate (length xs) zero"
    define h2 where "h2 = (put_cell (unused h1) (SliceCell ys) h1)\<lparr>unused := unused h1 + 1\<rparr>"
    have c2: "cells h2 a = (if a = unused h1 then Some (SliceCell ys) else cells h1 a)" "unused h2 = Suc (unused h1)" for a
      by (simp_all add: h2_def put_cell_def)
    have src: "slice_of h1 src = xs" using h1(4) xs by (simp add: slice_of_def)
    have ok2: "ok_obj h2 x \<and> ObjectMeta x < unused h \<and> view_obj h2 x = view_obj h x" if "x \<in> set xs" for x
      using that xs(3) h1(2-4) c2 by (force simp: list_all_iff ok_obj_def view_obj_def)
    let ?h3 = "copy_items cp src (unused h1) [0..<length xs] h2"
    have res: "h' = ?h3" "l' = l\<lparr>ListMeta := m, lItems := Some (unused h1)\<rparr>"
      using assms(4) m Some src by (simp_all add: copy_list_def make_slice_def Let_def h2_def ys_def)
    have pre: "\<forall>x \<in> set xs. ok_obj h2 x \<and> ObjectMeta x < Suc m" using ok2 h1(2) by fastforce
    have src2: "cells h2 src = Some (SliceCell xs)" "src < Suc m" using xs h1 c2 by auto
    have dst2: "Suc m \<le> unused h1" "unused h1 < unused h2" "cells h2 (unused h1) = Some (SliceCell ys)"
      "copied (Suc m) h2 xs ys 0" using h1 c2 by (simp_all add: copied_def ys_def)
    obtain zs where zs: "cells ?h3 (unused h1) = Some (SliceCell zs)" "copied (Suc m) ?h3 xs zs (length xs)"
      "\<forall>a < Suc m. cells ?h3 a = cells h2 a"
      using copy_items_correct [OF assms(1) src2 dst2(1,2) pre dst2(3,4)] by blast
    have z: "length zs = length xs" "view_obj ?h3 (zs ! i) = view_obj ?h3 (xs ! i)" "m < ObjectMeta (zs ! i)" if "i < length xs" for i
      using zs(2) that by (auto simp: copied_def)
    have len: "length zs = length xs" using zs(2) by (simp add: copied_def)
    have old: "cells ?h3 a = cells h a" if "a < unused h" for a using zs(3) that h1 c2 by auto
    have ox: "view_obj ?h3 x = view_obj h x" if "x \<in> set xs" for x
      using that xs(3) old by (auto simp: list_all_iff ok_obj_def view_obj_def)
    have "map (view_obj ?h3) zs = map (view_obj h) xs"
      by (rule nth_equalityI) (use len z ox in auto)
    moreover have "cells ?h3 m = Some (MetaCell mc)" using zs(3) c2 h1 by simp
    moreover have "unused h \<le> ObjectMeta x" if "x \<in> set zs" for x
      using that z len h1(2) by (metis in_set_conv_nth less_imp_le order.trans)
    ultimately show ?thesis
      using res zs(1) Some xs old ox mc h1
      by (auto simp: view_list_def reach_def slice_of_def)
  qed
qed

text \<open>DeepCopy separates: a copy of a GreetingList shows what the list shows, and whatever is written
  afterwards through the copy (to its slice, its items or their metadata) the original shows as
  before, so a controller may change what the cache hands out.\<close>

theorem greeting_list_copy_separate:
  assumes "copies_meta dc" "copies_meta lc" "ok_list h l" "GreetingList_DeepCopyInto dc lc l h = (h', l')"
    and "\<And>a. a \<notin> reach h' l' \<Longrightarrow> cells h'' a = cells h' a"
  shows "view_list h' l' = view_list h l \<and> view_list h'' l = view_list h l"
proof -
  have c: "view_list h' l' = view_list h l" "\<forall>a < unused h. cells h' a = cells h a" "\<forall>a \<in> reach h' l'. unused h \<le> a"
    using copy_list_correct [OF copies_items(1) [OF assms(1)] assms(2,3)] assms(4)
    unfolding GreetingList_DeepCopyInto_def by blast+
  have "\<forall>a < unused h. cells h'' a = cells h a"
    using c(2,3) assms(5) by (metis not_le)
  then show ?thesis using c(1) view_list_cong [OF assms(3)] by blast
qed

lemma card_and_policy_lists_copy:
  "copies_meta dc \<Longrightarrow> copies_meta lc \<Longrightarrow> ok_list h l \<Longrightarrow> GreetingCardList_DeepCopyInto dc lc l h = (h', l') \<Longrightarrow>
     view_list h' l' = view_list h l"
  "copies_meta dc' \<Longrightarrow> copies_meta lc' \<Longrightarrow> ok_list k m \<Longrightarrow> GreetingPolicyList_DeepCopyInto dc' lc' m k = (k', m') \<Longrightarrow>
     view_list k' m' = view_list k m"
  unfolding GreetingCardList_DeepCopyInto_def GreetingPolicyList_DeepCopyInto_def
  using copy_list_correct copies_items(2,3) by blast+

text \<open>A heap with a list of one greeting, and a copy that allocates.\<close>

definition ex_meta_copy :: "(string, 'o) meta_copy" where
  "ex_meta_copy h a = (case cells h a of
     Some c \<Rightarrow> ((put_cell (unused h) c h)\<lparr>unused := unused h + 1\<rparr>, unused h) | None \<Rightarrow> (h, a))"

definition ex_go_greeting :: "(GreetingSpec, GreetingStatus) go_obj" where
  "ex_go_greeting = (zero_go \<lparr>gsName = ''Ann''\<rparr> \<lparr>gsMessage = [], gsPhase = [], gsCardRef = []\<rparr>)\<lparr>ObjectMeta := 1\<rparr>"

definition ex_store :: "(string, (GreetingSpec, GreetingStatus) go_obj) go_heap" where
  "ex_store = \<lparr>cells = [0 \<mapsto> MetaCell ''list'', 1 \<mapsto> MetaCell ''labels'', 2 \<mapsto> SliceCell [ex_go_greeting]], unused = 3\<rparr>"

definition ex_go_list :: go_list where
  "ex_go_list = \<lparr>lTypeMeta = ([], []), ListMeta = 0, lItems = Some 2\<rparr>"

theorem greeting_list_copy_separate_witness:
  "let (h, l) = GreetingList_DeepCopyInto ex_meta_copy ex_meta_copy ex_go_list ex_store
   in view_list (put_cell 4 (SliceCell []) h) ex_go_list = view_list ex_store ex_go_list"
proof -
  have c: "copies_meta ex_meta_copy"
    by (auto simp: copies_meta_def ex_meta_copy_def put_cell_def split: option.splits)
  have ok: "ok_list ex_store ex_go_list"
    by (simp add: ok_list_def ex_store_def ex_go_list_def ok_obj_def ex_go_greeting_def)
  obtain h l where r: "GreetingList_DeepCopyInto ex_meta_copy ex_meta_copy ex_go_list ex_store = (h, l)" by fastforce
  have "4 \<in> reach h l"
    using r by (auto simp: GreetingList_DeepCopyInto_def copy_list_def ex_meta_copy_def ex_store_def ex_go_list_def
        make_slice_def put_cell_def slice_of_def reach_def Let_def split: prod.splits)
  then have "cells (put_cell 4 (SliceCell []) h) a = cells h a" if "a \<notin> reach h l" for a
    using that by (auto simp: put_cell_def)
  with greeting_list_copy_separate [OF c c ok r] show ?thesis by (simp add: r)
qed

end
