(* ===== verification/ClientEffects.thy ===== *)
theory ClientEffects
  imports PgClient
begin

text \<open>
  What the operations of the client do to the committed rows, as a controller relies on it: a
  successful Get has decoded the row, a successful status update changes the status only, every
  write keeps the table's invariant, and an update or status update whose content is stored
  already changes nothing.
\<close>

section \<open>Reading\<close>

lemma Get_success:
  assumes "Get env own us cd kinds d nsname obj = (got, None)" "resolveGVK kinds = Inr g"
  obtains r where "get_row d (gvkToString g, nsname) = Some r" "\<not> isFullyDeleted own r"
    "populateObject own us cd r g obj = Inr got"
  using assms
  by (auto simp: Get_def query_row_def populate_into_def split: option.splits sum.splits if_splits)

lemma Get_finds:
  assumes "resolveGVK kinds = Inr g" "ce_acquire env = None" "ce_query env = None"
    "get_row d (gvkToString g, nsname) = Some r" "\<not> isFullyDeleted own r"
    "populateObject own us cd r g obj = Inr got"
  shows "Get env own us cd kinds d nsname obj = (got, None)"
  using assms by (simp add: Get_def query_row_def populate_into_def)

lemma readCurrent_finds:
  "ce_query env = None \<Longrightarrow> get_row d k = Some r \<Longrightarrow> \<not> is_true (tombstone_filter r) \<Longrightarrow>
     readCurrentResource env d k = Inr (Some r)"
  by (auto simp: readCurrentResource_def query_row_def tombstone_filter_iff sql_simps)

section \<open>Writing\<close>

lemma stored_proc_path_wf:
  "wf_db (wdb w) \<Longrightarrow> stored_proc_path ring nt u now p w = (w', res) \<Longrightarrow> wf_db (wdb w')"
  using run_proc_wf [of "wdb w" u now p]
  by (auto simp: stored_proc_path_def callStoredProc_def Let_def split: net.splits prod.splits sum.splits if_splits)

lemma fst_stored_proc_path_wf:
  "wf_db (wdb w) \<Longrightarrow> wf_db (wdb (fst (stored_proc_path ring nt u now p w)))"
  by (metis prod.collapse stored_proc_path_wf)

lemma Create_wf:
  assumes "wf_db (wdb w)" "Create env own us cd kinds dryRun gn obj w = (w', obj', err)"
  shows "wf_db (wdb w')"
proof -
  have "wf_db (wdb (fst (Create env own us cd kinds dryRun gn obj w)))"
    using assms(1)
    by (auto simp: Create_def Let_def Write_production stored_proc_path_wf split: option.split sum.split prod.split)
  then show ?thesis by (simp add: assms(2))
qed

lemma Update_wf:
  assumes "wf_db (wdb w)" "Update env own us cd kinds dryRun obj w = (w', obj', err)"
  shows "wf_db (wdb w')"
proof -
  have "wf_db (wdb w1)" if "WriteObject (\<lambda>g b. b) None e req w = (w1, x)" for e req w1 x
    using that assms(1) stored_proc_path_wf
    by (auto simp: WriteObject_def writeObjectStoredProc_def split: if_splits)
  then have "wf_db (wdb (fst (Update env own us cd kinds dryRun obj w)))"
    using assms(1) by (auto simp: Update_def Let_def split: option.split sum.split prod.split)
  then show ?thesis by (simp add: assms(2))
qed

text \<open>Whatever happens to it, a write of the client changes the rows at its own key only.\<close>

definition one_row :: "key \<Rightarrow> db \<Rightarrow> db \<Rightarrow> bool" where
  "one_row k d d' \<longleftrightarrow> rows d' = rows d \<or> (\<exists>r. rkey r = k \<and> rows d' = put_by rkey r (rows d))"

lemma one_row_refl [simp]: "one_row k d d"
  by (simp add: one_row_def)

lemma one_row_get: "one_row k d d' \<Longrightarrow> k' \<noteq> k \<Longrightarrow> get_row d' k' = get_row d k'"
  by (auto simp: one_row_def get_row_def lookup_by_put)

lemma one_row_get_trans:
  "one_row a d d1 \<Longrightarrow> one_row b d1 d2 \<Longrightarrow> k \<noteq> a \<Longrightarrow> k \<noteq> b \<Longrightarrow> get_row d2 k = get_row d k"
  by (simp add: one_row_get)

lemma filter_put_by:
  assumes "\<And>y. f y = f x \<Longrightarrow> \<not> P y"
  shows "filter P (put_by f x xs) = filter P xs"
proof -
  have "filter P (map (\<lambda>y. if f y = f x then x else y) xs) = filter P xs"
    by (induction xs) (use assms in auto)
  then show ?thesis using assms [of x] by (simp add: put_by_def)
qed

lemma one_row_filter:
  "one_row k d d' \<Longrightarrow> (\<And>r. rkey r = k \<Longrightarrow> \<not> P r) \<Longrightarrow> filter P (rows d') = filter P (rows d)"
  by (auto simp: one_row_def intro!: filter_put_by)

text \<open>A version is positive and fits its column.\<close>

definition version_fits :: "key \<Rightarrow> db \<Rightarrow> bool" where
  "version_fits k d \<longleftrightarrow> (\<forall>r. get_row d k = Some r \<longrightarrow> 0 < ObjectVersion r \<and> ObjectVersion r < 2 ^ 63)"

lemma stored_proc_path_version_fits:
  assumes "version_fits k (wdb w)"
  shows "version_fits k (wdb (fst (stored_proc_path ring nt u now p w)))"
proof -
  have fits: "version_fits k d'" if "pgctl_write u now a (wdb w) = (d', res)" for a d' res
    using that
  proof (cases rule: pgctl_write_cases)
    case (written r)
    have "rkey r = p_key a" using upsert_row_key(1) [OF written(2)] .
    moreover have "0 < ObjectVersion r \<and> ObjectVersion r < 2 ^ 63" if "k = p_key a"
      using written(2) assms that
      by (auto simp: upsert_def branch_defs version_fits_def split: branch_splits insert_result.splits)
    ultimately show ?thesis using assms unfolding written(3) by (auto simp: version_fits_def get_row_put)
  qed (use assms in \<open>simp_all add: version_fits_def\<close>)
  then have "version_fits k (fst (run_proc u now p (wdb w)))"
    using assms by (cases "pg_args p") (simp_all add: run_proc_def fits [OF surjective_pairing])
  then show ?thesis
    using assms
    by (auto simp: stored_proc_path_def callStoredProc_def Let_def version_fits_def split: net.split prod.split sum.split)
qed

lemma stored_proc_path_one_row: "one_row (wp_key p) (wdb w) (wdb (fst (stored_proc_path ring nt u now p w)))"
proof -
  have "one_row (wp_key p) (wdb w) (fst (run_proc u now p (wdb w)))"
  proof (cases "pg_args p")
    case (Inr a)
    then have k: "p_key a = wp_key p" using pg_args_fields by blast
    have "one_row (p_key a) (wdb w) d'" if "pgctl_write u now a (wdb w) = (d', res)" for d' res
      using that
      by (cases rule: pgctl_write_cases) (auto simp: one_row_def put_row_def dest: upsert_row_key(1))
    then show ?thesis using Inr k by (cases "pgctl_write u now a (wdb w)") (simp add: run_proc_def)
  qed (simp add: run_proc_def)
  then show ?thesis
    by (auto simp: stored_proc_path_def callStoredProc_def Let_def split: net.split prod.split sum.split)
qed

lemma Create_one_row:
  assumes "Create env own us cd kinds dryRun gn obj w = (w', obj', err)" "resolveGVK kinds = Inr g"
  shows "one_row (gvkToString g, objNamespace obj, objName obj) (wdb w) (wdb w')"
proof -
  have "one_row (wp_key p) (wdb w) (wdb w1)"
    if "stored_proc_path ring nt u now p w = (w1, x)" for ring :: "string \<Rightarrow> unit \<Rightarrow> unit" and nt u now p w1 x
    using stored_proc_path_one_row [of p w ring nt u now] that by simp
  then have "one_row (gvkToString g, objNamespace obj, objName obj) (wdb w)
      (wdb (fst (Create env own us cd kinds dryRun gn obj w)))"
    using assms(2)
    by (fastforce simp: Create_def Let_def Write_production params_of_write_def wp_key_def
        split: option.split sum.split prod.split)
  then show ?thesis by (simp add: assms(1))
qed

lemma Update_one_row:
  assumes "Update env own us cd kinds dryRun obj w = (w', obj', err)" "resolveGVK kinds = Inr g"
  shows "one_row (gvkToString g, objNamespace obj, objName obj) (wdb w) (wdb w')"
proof (cases "parseResourceVersion obj")
  case (Inr v)
  from Update_world [OF assms Inr] show ?thesis
  proof (elim disjE exE conjE)
    fix req res
    assume req: "WriteObject (\<lambda>g b. b) None (ce_call env) req w = (w', res)"
      "(oGVK req, oNamespace req, oName req) = (gvkToString g, objNamespace obj, objName obj)"
    show ?thesis
    proof (cases "oExpectedVersion req = 0")
      case False
      then show ?thesis
        using stored_proc_path_one_row [of "params_of_object req" w "\<lambda>g b. b"] req
        by (metis WriteObject_production fst_conv params_of_object_def wp_key_def writeParams.select_convs(2-4))
    qed (use req in \<open>simp add: WriteObject_def\<close>)
  qed simp
next
  case (Inl e)
  then show ?thesis using assms by (auto simp: Update_def split: option.splits)
qed

text \<open>A status update runs the procedure at most once, on its own key.\<close>

lemma StatusUpdate_path:
  assumes "StatusUpdate env own us cd kinds dryRun obj w = (w', obj', err)" "resolveGVK kinds = Inr g"
  shows "wdb w' = wdb w \<or> (\<exists>p. wp_key p = (gvkToString g, objNamespace obj, objName obj) \<and>
    wdb w' = wdb (fst (stored_proc_path (\<lambda>g b. b) (env_net (ce_call env)) (env_uid (ce_call env)) (env_now (ce_call env)) p w)))"
    (is "?ran (wdb w')")
proof -
  have "?ran (wdb w1)"
    if "WriteStatus (\<lambda>g b. b) None (ce_call env)
      \<lparr>sGVK = gvkToString g, sNamespace = objNamespace obj, sName = objName obj, sStatus = st, sExpectedVersion = v,
       sForceWrite = False\<rparr> w = (w1, x)" for st v w1 x
    using that
    by (auto simp: WriteStatus_def writeStatusStoredProc_def params_of_status_def wp_key_def split: if_splits)
      (metis fst_conv writeParams.select_convs(2-4))
  then have "?ran (wdb (fst (StatusUpdate env own us cd kinds dryRun obj w)))"
    using assms(2) by (auto simp: StatusUpdate_def split: option.split sum.split prod.split)
  then show ?thesis by (simp add: assms(1))
qed

lemma StatusUpdate_one_row:
  assumes "StatusUpdate env own us cd kinds dryRun obj w = (w', obj', err)" "resolveGVK kinds = Inr g"
  shows "one_row (gvkToString g, objNamespace obj, objName obj) (wdb w) (wdb w')"
  using StatusUpdate_path [OF assms] by (metis one_row_refl stored_proc_path_one_row)

lemma StatusUpdate_version_fits:
  assumes "StatusUpdate env own us cd kinds dryRun obj w = (w', obj', err)" "resolveGVK kinds = Inr g" "version_fits k (wdb w)"
  shows "version_fits k (wdb w')"
  using StatusUpdate_path [OF assms(1,2)] assms(3) by (metis stored_proc_path_version_fits)

lemma StatusUpdate_success:
  assumes "wf_db (wdb w)" "StatusUpdate env own us cd kinds dryRun obj w = (w', obj', None)"
    and "resolveGVK kinds = Inr g" "k = (gvkToString g, objNamespace obj, objName obj)"
  obtains e st r where "extractStatus cd obj = Inr st" "get_row (wdb w) k = Some e" "get_row (wdb w') k = Some r"
    "Status r = canon st" "Spec r = Spec e" "Metadata r = Metadata e" "UID r = UID e"
    "DeletionTimestamp r = DeletionTimestamp e" "objRV obj' = FormatInt (ObjectVersion r)" "wf_db (wdb w')"
    "\<forall>k'. k' \<noteq> k \<longrightarrow> get_row (wdb w') k' = get_row (wdb w) k'"
proof -
  have ok: "rejectDryRun dryRun = None" "ce_acquire env = None"
    using assms(2,3) by (auto simp: StatusUpdate_def split: option.splits sum.splits)
  obtain ver where ver: "parseResourceVersion obj = Inr ver"
    using assms(2,3) ok by (auto simp: StatusUpdate_def split: sum.splits)
  obtain st where st: "extractStatus cd obj = Inr st"
    using assms(2,3) ok ver by (auto simp: StatusUpdate_def split: sum.splits)
  let ?req = "\<lparr>sGVK = gvkToString g, sNamespace = objNamespace obj, sName = objName obj, sStatus = RDoc st,
     sExpectedVersion = ver, sForceWrite = False\<rparr>"
  have upd: "StatusUpdate env own us cd kinds dryRun obj w =
      (case WriteStatus (\<lambda>g b. b) None (ce_call env) ?req w of
         (w1, Inl err) \<Rightarrow> after_write_error env own us cd w1 err g (objName obj) obj
       | (w1, Inr res) \<Rightarrow> (w1, obj\<lparr>objRV := FormatInt (resVersion res)\<rparr>, None))"
    using ok ver st assms(3) by (simp add: StatusUpdate_def)
  have v0: "ver \<noteq> 0"
    using upd assms(2) by (auto simp: WriteStatus_def after_write_error_def mapWriteError_def Let_def)
  let ?path = "stored_proc_path (\<lambda>g b. b) (env_net (ce_call env)) (env_uid (ce_call env))
      (env_now (ce_call env)) (params_of_status ?req) w"
  have path: "WriteStatus (\<lambda>g b. b) None (ce_call env) ?req w = ?path"
    using v0 by (simp add: WriteStatus_def writeStatusStoredProc_def)
  obtain res where res: "?path = (w', Inr res)" "obj' = obj\<lparr>objRV := FormatInt (resVersion res)\<rparr>"
  proof (cases ?path)
    case (Pair w1 x)
    show ?thesis
    proof (cases x)
      case (Inl err)
      have "(w', obj', None) = after_write_error env own us cd w1 err g (objName obj) obj"
        using upd assms(2) Pair Inl path by simp
      then have "snd (snd (after_write_error env own us cd w1 err g (objName obj) obj)) = None"
        by (metis snd_conv)
      then show ?thesis
        using after_write_error_Some [OF assms(1), of _ _ _ _ _ w1 err] Pair Inl by blast
    next
      case (Inr y)
      then show ?thesis using that upd assms(2) Pair path by simp
    qed
  qed
  obtain a out where a: "pg_args (params_of_status ?req) = Inr a"
    and out: "pgctl_write (env_uid (ce_call env)) (env_now (ce_call env)) a (wdb w) = (wdb w', Inr out)"
    and rv: "resVersion res = out_version out"
    by (rule stored_proc_path_ok [OF res(1)])
  have f: "p_status_only a" "p_key a = k" "p_expected_version a \<noteq> 0" "p_status a = Some (canon st)"
    using pg_args_fields [OF a] assms(4) v0 by (auto simp: params_of_status_def wp_key_def)
  obtain r e where "get_row (wdb w') k = Some r" "out_version out = ObjectVersion r" "Status r = canon st"
    "get_row (wdb w) k = Some e" "UID r = UID e" "Spec r = Spec e" "Metadata r = Metadata e"
    "DeletionTimestamp r = DeletionTimestamp e"
    using pgctl_write_stores [OF out] f by (metis option.distinct(1) option.inject)
  then show ?thesis
    using that [OF st] res(2) rv pgctl_write_frame [OF assms(1) out] f(2) by auto
qed

section \<open>Writing what is stored\<close>

text \<open>A call whose content the row holds already is suppressed, over a network that works.\<close>

lemma stored_proc_path_suppressed:
  assumes "pg_args p = Inr a" "get_row (wdb w) (p_key a) = Some e" "\<not> p_force_write a" "suppressed a e"
  obtains w' where "stored_proc_path ring NetOk u now p w =
      (w', Inr \<lparr>Txid = 0, resVersion = ObjectVersion e, resUID = UID e, Changed = False\<rparr>)"
    "rows (wdb w') = rows (wdb w)"
proof -
  have "stored_proc_path ring NetOk u now p w =
      (observeResult (wp_gvk p) (Inr \<lparr>Txid = 0, resVersion = ObjectVersion e, resUID = UID e, Changed = False\<rparr>)
         (w\<lparr>wdb := (wdb w)\<lparr>next_xid := next_xid (wdb w) + 1\<rparr>\<rparr>),
       Inr \<lparr>Txid = 0, resVersion = ObjectVersion e, resUID = UID e, Changed = False\<rparr>)"
    using assms by (simp add: stored_proc_path_def callStoredProc_def run_proc_def pgctl_write_def suppression_check_def Let_def)
  then show ?thesis by (rule that) (simp add: observeResult_def)
qed

definition quiet :: "client_env \<Rightarrow> bool" where
  "quiet env \<longleftrightarrow> ce_acquire env = None \<and> ce_query env = None \<and> env_net (ce_call env) = NetOk"

lemma StatusUpdate_unchanged:
  assumes "quiet env" "resolveGVK kinds = Inr g" "parseResourceVersion obj = Inr v" "v \<noteq> 0"
    and "extractStatus cd obj = Inr st" "get_row (wdb w) (gvkToString g, objNamespace obj, objName obj) = Some e"
    and "Status e = canon st"
  obtains w' where "StatusUpdate env own us cd kinds [] obj w = (w', obj\<lparr>objRV := FormatInt (ObjectVersion e)\<rparr>, None)"
    "rows (wdb w') = rows (wdb w)"
proof -
  let ?p = "params_of_status \<lparr>sGVK = gvkToString g, sNamespace = objNamespace obj, sName = objName obj,
     sStatus = RDoc st, sExpectedVersion = v, sForceWrite = False\<rparr>"
  obtain a where a: "pg_args ?p = Inr a" by (simp add: pg_args_def params_of_status_def)
  have f: "p_status_only a" "p_key a = (gvkToString g, objNamespace obj, objName obj)" "\<not> p_force_write a"
    "p_status a = Some (canon st)"
    using pg_args_fields [OF a] by (auto simp: params_of_status_def wp_key_def)
  have "suppressed a e" using f assms(7) by (simp add: suppressed_iff)
  with f assms(6) obtain w' where w': "stored_proc_path (\<lambda>g b. b) NetOk (env_uid (ce_call env)) (env_now (ce_call env)) ?p w =
      (w', Inr \<lparr>Txid = 0, resVersion = ObjectVersion e, resUID = UID e, Changed = False\<rparr>)"
    "rows (wdb w') = rows (wdb w)" using stored_proc_path_suppressed [OF a] by metis
  have "StatusUpdate env own us cd kinds [] obj w = (w', obj\<lparr>objRV := FormatInt (ObjectVersion e)\<rparr>, None)"
    using assms(1-5) w'(1)
    by (simp add: StatusUpdate_def rejectDryRun_def quiet_def WriteStatus_def writeStatusStoredProc_def)
  then show ?thesis using that w'(2) by blast
qed

section \<open>Writes that succeed\<close>

text \<open>Over a network that works, a call the procedure accepts is a success of the client.\<close>

lemma stored_proc_path_accepted:
  assumes "pg_args p = Inr a" "pgctl_write u now a (wdb w) = (d', Inr out)"
  obtains w' res where "stored_proc_path ring NetOk u now p w = (w', Inr res)"
  using that assms
  by (cases "out_changed out") (simp_all add: stored_proc_path_def callStoredProc_def run_proc_def Let_def)

lemma Create_accepted:
  assumes "quiet env" "resolveGVK kinds = Inr g" "extractSpecStatus cd obj = Inr (sp, st)"
    and "\<And>e. get_row (wdb w) (gvkToString g, objNamespace obj, objName obj) = Some e \<Longrightarrow> is_true (tombstone_filter e)"
  obtains w' obj' where "Create env own us cd kinds [] [] obj w = (w', obj', None)"
proof -
  let ?o = "set_generation 1 obj"
  let ?p = "params_of_write \<lparr>wGVK = gvkToString g, wNamespace = objNamespace obj, wName = objName obj, wSpec = RDoc sp,
     wStatus = RDoc st, wMetadata = RDoc (extractMetadata ?o), wDeletionTimestamp = None, wExpectedVersion = 0,
     wForceWrite = False\<rparr>"
  obtain a where a: "pg_args ?p = Inr a" by (simp add: pg_args_def params_of_write_def)
  have f: "\<not> p_status_only a" "p_key a = (gvkToString g, objNamespace obj, objName obj)" "p_expected_version a = 0"
    "p_spec a = Some (canon sp)" "p_status a = Some (canon st)" "p_metadata a = Some (canon (extractMetadata ?o))" "p_deletion_ts a = None"
    using pg_args_fields [OF a] by (auto simp: params_of_write_def wp_key_def)
  have "\<exists>d' out. pgctl_write (env_uid (ce_call env)) (env_now (ce_call env)) a (wdb w) = (d', Inr out)"
    using f assms(4)
    by (cases "get_row (wdb w) (p_key a)")
      (auto simp: pgctl_write_def Let_def suppression_check_def suppressed_iff upsert_def insert_row_def revive_row_def
         tombstone_filter_iff)
  then obtain w' res where "stored_proc_path (\<lambda>g b. b) NetOk (env_uid (ce_call env)) (env_now (ce_call env)) ?p w = (w', Inr res)"
    using stored_proc_path_accepted [OF a] by metis
  then show ?thesis
    using that assms(1-3) by (simp add: Create_def rejectDryRun_def quiet_def Let_def Write_production)
qed

lemma pgctl_write_accepts_version:
  assumes "get_row d (p_key a) = Some e" "ObjectVersion e = p_expected_version a" "p_expected_version a \<noteq> 0"
    and "ObjectVersion e + 1 < 2 ^ 63" "if p_status_only a then p_status a \<noteq> None else p_spec a \<noteq> None \<and> p_metadata a \<noteq> None"
  shows "\<exists>d' out. pgctl_write u now a d = (d', Inr out)"
  using assms
  by (auto simp: pgctl_write_def Let_def upsert_def update_status_def update_row_def bigint_succ_def split: option.split if_splits)

lemma Update_accepted:
  assumes "quiet env" "resolveGVK kinds = Inr g" "parseResourceVersion obj = Inr (ObjectVersion e)" "ObjectVersion e \<noteq> 0"
    and "extractSpec cd obj = Inr sp" "get_row (wdb w) (gvkToString g, objNamespace obj, objName obj) = Some e"
    and "\<not> is_true (tombstone_filter e)" "ObjectVersion e + 1 < 2 ^ 63"
  obtains w' obj' where "Update env own us cd kinds [] obj w = (w', obj', None)"
proof -
  let ?o = "update_object own e sp obj"
  let ?q = "\<lparr>oGVK = gvkToString g, oNamespace = objNamespace obj, oName = objName obj, oSpec = RDoc sp,
     oMetadata = RDoc (extractMetadata ?o), oDeletionTimestamp = DeletionTimestamp e, oExpectedVersion = ObjectVersion e,
     oForceWrite = False\<rparr>"
  obtain a where a: "pg_args (params_of_object ?q) = Inr a" by (simp add: pg_args_def params_of_object_def)
  have f: "\<not> p_status_only a" "p_key a = (gvkToString g, objNamespace obj, objName obj)" "p_spec a = Some (canon sp)"
    "p_metadata a = Some (canon (extractMetadata ?o))" "p_expected_version a = ObjectVersion e"
    using pg_args_fields [OF a] by (auto simp: params_of_object_def wp_key_def)
  have "\<exists>d' out. pgctl_write (env_uid (ce_call env)) (env_now (ce_call env)) a (wdb w) = (d', Inr out)"
    by (rule pgctl_write_accepts_version [of _ _ e]) (use f assms(4,6,8) in simp_all)
  then obtain w' res where path: "stored_proc_path (\<lambda>g b. b) NetOk (env_uid (ce_call env)) (env_now (ce_call env))
      (params_of_object ?q) w = (w', Inr res)"
    using stored_proc_path_accepted [OF a] by metis
  have cur: "readCurrentResource env (wdb w) (gvkToString g, objNamespace obj, objName obj) = Inr (Some e)"
    using readCurrent_finds assms(1,6,7) by (auto simp: quiet_def)
  have names: "objNamespace ?o = objNamespace obj" "objName ?o = objName obj" by (simp_all add: update_object_def)
  have "Update env own us cd kinds [] obj w = (w', ?o\<lparr>objRV := FormatInt (resVersion res)\<rparr>, None)"
    using assms(1-5) cur path names
    by (simp add: Update_def rejectDryRun_def quiet_def WriteObject_production update_object_def [symmetric] Let_def)
  then show ?thesis by (rule that)
qed

lemma StatusUpdate_accepted:
  assumes "quiet env" "resolveGVK kinds = Inr g" "parseResourceVersion obj = Inr (ObjectVersion e)" "ObjectVersion e \<noteq> 0"
    and "extractStatus cd obj = Inr st" "get_row (wdb w) (gvkToString g, objNamespace obj, objName obj) = Some e"
    and "ObjectVersion e + 1 < 2 ^ 63"
  obtains w' obj' where "StatusUpdate env own us cd kinds [] obj w = (w', obj', None)"
proof -
  let ?p = "params_of_status \<lparr>sGVK = gvkToString g, sNamespace = objNamespace obj, sName = objName obj,
     sStatus = RDoc st, sExpectedVersion = ObjectVersion e, sForceWrite = False\<rparr>"
  obtain a where a: "pg_args ?p = Inr a" by (simp add: pg_args_def params_of_status_def)
  have f: "p_status_only a" "p_key a = (gvkToString g, objNamespace obj, objName obj)" "p_status a = Some (canon st)"
    "p_expected_version a = ObjectVersion e"
    using pg_args_fields [OF a] by (auto simp: params_of_status_def wp_key_def)
  have "\<exists>d' out. pgctl_write (env_uid (ce_call env)) (env_now (ce_call env)) a (wdb w) = (d', Inr out)"
    by (rule pgctl_write_accepts_version [of _ _ e]) (use f assms(4,6,7) in simp_all)
  then obtain w' res where "stored_proc_path (\<lambda>g b. b) NetOk (env_uid (ce_call env)) (env_now (ce_call env)) ?p w = (w', Inr res)"
    using stored_proc_path_accepted [OF a] by metis
  then have "StatusUpdate env own us cd kinds [] obj w = (w', obj\<lparr>objRV := FormatInt (resVersion res)\<rparr>, None)"
    using assms(1-5) by (simp add: StatusUpdate_def rejectDryRun_def quiet_def WriteStatus_def writeStatusStoredProc_def)
  then show ?thesis by (rule that)
qed

end
