(* ===== verification/Runtime.thy ===== *)
theory Runtime
  imports Manager
begin

text \<open>
  The smaller operations of src/pkg/pgruntime: setListItems of convert.go, which fills the Items
  field of a typed list by reflection, and the List that ends in it; the scope of a kind, the
  subresource clients and the label set of pgclient.go; the informer accessors of pgcache.go; the
  accessors of pgmanager.go that panic.
\<close>

section \<open>Typed lists\<close>

text \<open>
  What reflection sees: the type of a value, and the Items field of the list type. An item of
  pointer type is represented by what it points to.
\<close>

datatype go_type = Named string | Ptr go_type

datatype items_field = NoItems | NotSlice | SliceOf go_type

datatype set_items_error = NoItemsField string | ItemsNotSlice string | ItemMismatch go_type go_type

fun append_items :: "go_type \<Rightarrow> (go_type \<times> 'v) list \<Rightarrow> 'v list \<Rightarrow> set_items_error + 'v list" where
  "append_items elem [] slice = Inr slice"
| "append_items elem ((ty, v) # items) slice =
     (case ty of
        Ptr pointed \<Rightarrow> if pointed = elem then append_items elem items (slice @ [v]) else Inl (ItemMismatch ty elem)
      | _ \<Rightarrow> if ty = elem then append_items elem items (slice @ [v]) else Inl (ItemMismatch ty elem))"

record 'v typed_list =
  tlType :: string
  tlField :: items_field
  tlItems :: "'v list"
  tlRV :: string
  tlContinue :: string

definition setListItems :: "(go_type \<times> 'v) list \<Rightarrow> 'v typed_list \<Rightarrow> 'v typed_list \<times> set_items_error option" where
  "setListItems items l =
     (case tlField l of
        NoItems \<Rightarrow> (l, Some (NoItemsField (tlType l)))
      | NotSlice \<Rightarrow> (l, Some (ItemsNotSlice (tlType l)))
      | SliceOf elem \<Rightarrow>
          (case append_items elem items [] of
             Inl e \<Rightarrow> (l, Some e)
           | Inr slice \<Rightarrow> (l\<lparr>tlItems := slice\<rparr>, None)))"

datatype list_into_error = ListErr list_error | SetItems set_items_error

text \<open>List into the caller's list; \<open>ty\<close> is the type of the objects that scheme.New makes.\<close>

definition ListInto ::
  "client_env \<Rightarrow> (json \<Rightarrow> bool) \<Rightarrow> (uid \<Rightarrow> string) \<Rightarrow> ('s, 't) codec \<Rightarrow> (gvk \<Rightarrow> string + ('s, 't) object) \<Rightarrow>
     (json \<Rightarrow> string) \<Rightarrow> string + gvk list \<Rightarrow> list_options \<Rightarrow> snapshot \<Rightarrow> go_type \<Rightarrow>
     ('s, 't) object typed_list \<Rightarrow> ('s, 't) object typed_list \<times> list_into_error option" where
  "ListInto env own us cd new jt kinds opts sn ty l =
     (case ClientList env own us cd new jt kinds opts sn of
        Inl e \<Rightarrow> (l, Some (ListErr e))
      | Inr res \<Rightarrow>
          (case setListItems (map (Pair ty) (Items res)) l of
             (l', Some e) \<Rightarrow> (l', Some (SetItems e))
           | (l', None) \<Rightarrow>
               (l'\<lparr>tlRV := listRV res, tlContinue := (if listContinue res = [] then tlContinue l' else listContinue res)\<rparr>, None)))"

section \<open>The client\<close>

definition GroupVersionKindFor :: "string + gvk list \<Rightarrow> string + gvk" where
  "GroupVersionKindFor kinds = resolveGVK kinds"

text \<open>The REST mapping of a kind is an error or its scope; a kind without a mapping counts as namespaced.\<close>

datatype rest_scope = NamespaceScope | RootScope

definition IsObjectNamespaced :: "(gvk \<Rightarrow> string + rest_scope) \<Rightarrow> string + gvk list \<Rightarrow> bool \<times> string option" where
  "IsObjectNamespaced mapping kinds =
     (case resolveGVK kinds of
        Inl e \<Rightarrow> (True, Some e)
      | Inr g \<Rightarrow> (case mapping g of Inl e \<Rightarrow> (True, None) | Inr scope \<Rightarrow> (scope = NamespaceScope, None)))"

text \<open>SubResource: a client that has a status writer, or none; Status is the writer itself.\<close>

datatype sub_client = WithStatusWriter | WithoutWriter

definition SubResource :: "string \<Rightarrow> sub_client" where
  "SubResource sub = (if sub = ''status'' then WithStatusWriter else WithoutWriter)"

text \<open>The label set that selectors match on: a missing label reads as the empty string.\<close>

definition labelHas :: "(string \<times> string) list \<Rightarrow> string \<Rightarrow> bool" where
  "labelHas ls k = (map_of ls k \<noteq> None)"

definition labelGet :: "(string \<times> string) list \<Rightarrow> string \<Rightarrow> string" where
  "labelGet ls k = (case map_of ls k of None \<Rightarrow> [] | Some v \<Rightarrow> v)"

definition labelLookup :: "(string \<times> string) list \<Rightarrow> string \<Rightarrow> string \<times> bool" where
  "labelLookup ls k = (labelGet ls k, labelHas ls k)"

section \<open>The cache and the manager\<close>

definition GetInformer ::
  "(gvk \<Rightarrow> string + ('s, 't) object) \<Rightarrow> string + gvk list \<Rightarrow> pgCache \<Rightarrow> pgCache \<times> (string + informer)" where
  "GetInformer new kinds c =
     (case resolveGVK kinds of Inl e \<Rightarrow> (c, Inl e) | Inr g \<Rightarrow> getOrCreateInformer new g c)"

definition GetInformerForKind ::
  "(gvk \<Rightarrow> string + ('s, 't) object) \<Rightarrow> gvk \<Rightarrow> pgCache \<Rightarrow> pgCache \<times> (string + informer)" where
  "GetInformerForKind new g c = getOrCreateInformer new g c"

text \<open>RemoveInformer and IndexField report success and do nothing.\<close>

definition RemoveInformer :: "pgCache \<Rightarrow> pgCache \<times> string option" where
  "RemoveInformer c = (c, None)"

definition IndexField :: "string \<Rightarrow> pgCache \<Rightarrow> pgCache \<times> string option" where
  "IndexField field c = (c, None)"

datatype 'a accessor = Value 'a | Panics string

datatype mgr_accessor = GetHTTPClient | GetConfig | GetWebhookServer | GetCache | GetScheme | GetClient
  | GetFieldIndexer | GetRESTMapper | GetAPIReader

datatype mgr_part = CachePart | ClientPart | SchemePart | MapperPart

fun mgr_get :: "mgr_accessor \<Rightarrow> mgr_part accessor" where
  "mgr_get GetHTTPClient = Panics ''pgruntime: no HTTP client''"
| "mgr_get GetConfig = Panics ''pgruntime: no rest.Config''"
| "mgr_get GetWebhookServer = Panics ''pgruntime: webhooks not supported''"
| "mgr_get GetCache = Value CachePart"
| "mgr_get GetScheme = Value SchemePart"
| "mgr_get GetFieldIndexer = Value CachePart"
| "mgr_get GetRESTMapper = Value MapperPart"
| "mgr_get GetClient = Value ClientPart"
| "mgr_get GetAPIReader = Value ClientPart"

section \<open>Lemmas\<close>

definition fits :: "go_type \<Rightarrow> go_type \<Rightarrow> bool" where
  "fits elem ty \<longleftrightarrow> ty = Ptr elem \<or> (ty = elem \<and> (\<forall>t. ty \<noteq> Ptr t))"

lemma append_items_step:
  "append_items elem ((ty, v) # items) slice =
     (if fits elem ty then append_items elem items (slice @ [v]) else Inl (ItemMismatch ty elem))"
  by (cases ty) (auto simp: fits_def)

lemma append_items_iff:
  "append_items elem items slice =
     (case find (\<lambda>(ty, v). \<not> fits elem ty) items of
        None \<Rightarrow> Inr (slice @ map snd items)
      | Some (ty, v) \<Rightarrow> Inl (ItemMismatch ty elem))"
proof (induction items arbitrary: slice)
  case (Cons a items)
  obtain ty v where "a = (ty, v)" by (cases a)
  then show ?case using Cons by (simp del: append_items.simps(2) add: append_items_step split: option.split)
qed simp

text \<open>setListItems fills the list or leaves it.\<close>

lemma setListItems_cases:
  assumes "tlField l = SliceOf elem"
  shows "setListItems items l =
     (if \<forall>(ty, v) \<in> set items. fits elem ty then (l\<lparr>tlItems := map snd items\<rparr>, None)
      else (l, snd (setListItems items l))) \<and>
    (snd (setListItems items l) = None \<longleftrightarrow> (\<forall>(ty, v) \<in> set items. fits elem ty))"
proof (cases "find (\<lambda>(ty, v). \<not> fits elem ty) items")
  case None
  then have "\<forall>(ty, v) \<in> set items. fits elem ty" by (auto simp: find_None_iff)
  then show ?thesis using assms None by (simp add: setListItems_def append_items_iff)
next
  case (Some a)
  then have "a \<in> set items \<and> \<not> fits elem (fst a)" by (auto simp: find_Some_iff in_set_conv_nth)
  then have "\<not> (\<forall>(ty, v) \<in> set items. fits elem ty)" by (cases a) fastforce
  then show ?thesis using assms Some by (cases a) (simp add: setListItems_def append_items_iff)
qed

section \<open>Properties\<close>

text \<open>A typed List is the List: into a list type whose items are of the type that the scheme makes
  for the kind, it stores exactly the objects, resource version and continue token of the query,
  and a failure of the query or of the conversion leaves the caller's list as it was.\<close>

theorem typed_list_exact:
  assumes "tlField l = SliceOf elem" "ListInto env own us cd new jt kinds opts sn (Ptr elem) l = (l', err)"
  shows "case ClientList env own us cd new jt kinds opts sn of
      Inl e \<Rightarrow> l' = l \<and> err = Some (ListErr e)
    | Inr res \<Rightarrow> err = None \<and> tlItems l' = Items res \<and> tlRV l' = listRV res \<and>
        (listContinue res \<noteq> [] \<longrightarrow> tlContinue l' = listContinue res)"
proof (cases "ClientList env own us cd new jt kinds opts sn")
  case (Inr res)
  have "setListItems (map (Pair (Ptr elem)) (Items res)) l = (l\<lparr>tlItems := Items res\<rparr>, None)"
    using setListItems_cases [OF assms(1), of "map (Pair (Ptr elem)) (Items res)"] by (auto simp: fits_def comp_def)
  then show ?thesis using assms(2) Inr by (auto simp: ListInto_def)
qed (use assms(2) in \<open>auto simp: ListInto_def\<close>)

text \<open>A list type whose items are pointers is never filled: it works on an empty table and fails on the first object.\<close>

theorem pointer_lists_fail:
  assumes "tlField l = SliceOf (Ptr (Named T))"
  shows "snd (setListItems (map (Pair (Ptr (Named T))) objs) l) = None \<longleftrightarrow> objs = []"
  using setListItems_cases [OF assms, of "map (Pair (Ptr (Named T))) objs"] by (cases objs) (auto simp: fits_def)

text \<open>A cache that is asked for an informer by object or by kind keeps its wiring; RemoveInformer keeps the informer.\<close>

lemma GetInformer_wired: "wired c \<Longrightarrow> wired (fst (GetInformer new kinds c))"
  by (auto simp: GetInformer_def getOrCreateInformer_wired split: sum.splits)

end
