(* ===== verification/GreetingController.thy ===== *)
theory GreetingController
  imports GreetingTypes ClientEffects Runtime
begin

text \<open>
  The reconciler of src/examples/greeting-controller/greeting/controller.go over the client of
  pgruntime: Reconcile, getPrefix, policyToGreetings and what SetupWithManager watches.
  CreateOrUpdate and SetControllerReference of controller-runtime are arguments, with their
  documented behaviour as \<open>create_or_update_law\<close> and \<open>owner_law\<close>. Each call has its own
  \<open>client_env\<close>, so any of them can fail, and what other writers commit between two calls is a
  function of the environment. Logging is left out.
\<close>

section \<open>What the reconciler is given\<close>

record card_client =
  cGet :: "string \<times> string \<Rightarrow> card \<Rightarrow> unit world \<Rightarrow> card \<times> api_err option"
  cCreate :: "card \<Rightarrow> unit world \<Rightarrow> unit world \<times> card \<times> api_err option"
  cUpdate :: "card \<Rightarrow> unit world \<Rightarrow> unit world \<times> card \<times> api_err option"

datatype operation_result = OperationResultNone | OperationResultCreated | OperationResultUpdated

record greeting_lib =
  gl_own :: "json \<Rightarrow> bool"
  gl_uuid :: "uid \<Rightarrow> string"
  gl_text :: "json \<Rightarrow> string"
  gl_setref :: "string \<times> string \<times> string \<Rightarrow> json list \<Rightarrow> string + json list"
  gl_cou :: "card_client \<Rightarrow> (card \<Rightarrow> string + card) \<Rightarrow> card \<Rightarrow> unit world \<Rightarrow>
               unit world \<times> card \<times> (api_err + operation_result)"

text \<open>
  The environments of the five calls, the list's xmin, and what others commit before the List,
  before CreateOrUpdate reads, before it writes, and before the status update.
\<close>

record reconcile_env =
  reGet :: client_env
  reList :: client_env
  reCardGet :: client_env
  reCardWrite :: client_env
  reStatus :: client_env
  reXmin :: txid
  reBeforeList :: "unit world \<Rightarrow> unit world"
  reBeforeCard :: "unit world \<Rightarrow> unit world"
  reBeforeWrite :: "unit world \<Rightarrow> unit world"
  reBeforeStatus :: "unit world \<Rightarrow> unit world"

definition card_ops :: "greeting_lib \<Rightarrow> reconcile_env \<Rightarrow> card_client" where
  "card_ops L env =
     \<lparr>cGet = (\<lambda>nsname obj w. Get (reCardGet env) (gl_own L) (gl_uuid L) card_codec (Scheme ''GreetingCard'') (wdb w) nsname obj),
      cCreate = (\<lambda>obj w. Create (reCardWrite env) (gl_own L) (gl_uuid L) card_codec (Scheme ''GreetingCard'') [] [] obj (reBeforeWrite env w)),
      cUpdate = (\<lambda>obj w. Update (reCardWrite env) (gl_own L) (gl_uuid L) card_codec (Scheme ''GreetingCard'') [] obj (reBeforeWrite env w))\<rparr>"

section \<open>Lists\<close>

definition in_namespace :: "string \<Rightarrow> list_options" where
  "in_namespace ns = \<lparr>loNamespace = ns, loFields = [], loLabels = None, loLimit = 0, loContinue = []\<rparr>"

text \<open>scheme.New for the kind of a type.\<close>

definition new_of :: "string \<Rightarrow> ('s, 't) object \<Rightarrow> gvk \<Rightarrow> string + ('s, 't) object" where
  "new_of ty zero g = (if resolveGVK (Scheme ty) = Inr g then Inr zero else Inl ''no kind is registered'')"

definition empty_list :: "string \<Rightarrow> string \<Rightarrow> 'v typed_list" where
  "empty_list ty elem = \<lparr>tlType = ty, tlField = SliceOf (Named elem), tlItems = [], tlRV = [], tlContinue = []\<rparr>"

definition list_policies ::
  "greeting_lib \<Rightarrow> client_env \<Rightarrow> txid \<Rightarrow> string \<Rightarrow> db \<Rightarrow> policy typed_list \<times> list_into_error option" where
  "list_policies L env xmin ns d =
     ListInto env (gl_own L) (gl_uuid L) policy_codec (new_of ''GreetingPolicy'' zero_policy) (gl_text L)
       (Scheme ''GreetingPolicyList'') (in_namespace ns) \<lparr>s_db = d, s_xmin = xmin\<rparr> (Ptr (Named ''GreetingPolicy''))
       (empty_list ''GreetingPolicyList'' ''GreetingPolicy'')"

definition list_greetings ::
  "greeting_lib \<Rightarrow> client_env \<Rightarrow> txid \<Rightarrow> string \<Rightarrow> db \<Rightarrow> greeting typed_list \<times> list_into_error option" where
  "list_greetings L env xmin ns d =
     ListInto env (gl_own L) (gl_uuid L) greeting_codec (new_of ''Greeting'' zero_greeting) (gl_text L)
       (Scheme ''GreetingList'') (in_namespace ns) \<lparr>s_db = d, s_xmin = xmin\<rparr> (Ptr (Named ''Greeting''))
       (empty_list ''GreetingList'' ''Greeting'')"

definition prefix_of :: "policy \<Rightarrow> string" where
  "prefix_of p = (case objSpec p of None \<Rightarrow> [] | Some s \<Rightarrow> psPrefix s)"

definition getPrefix :: "greeting_lib \<Rightarrow> client_env \<Rightarrow> txid \<Rightarrow> string \<Rightarrow> db \<Rightarrow> string" where
  "getPrefix L env xmin ns d =
     (case list_policies L env xmin ns d of
        (_, Some e) \<Rightarrow> ''Hello''
      | (policies, None) \<Rightarrow>
          (case tlItems policies of
             [] \<Rightarrow> ''Hello''
           | p # _ \<Rightarrow> if prefix_of p \<noteq> [] then prefix_of p else ''Hello''))"

section \<open>Reconcile\<close>

definition greeting_name :: "greeting \<Rightarrow> string" where
  "greeting_name g = (case objSpec g of None \<Rightarrow> [] | Some s \<Rightarrow> gsName s)"

definition greeting_message :: "string \<Rightarrow> greeting \<Rightarrow> string" where
  "greeting_message prefix g = prefix @ '', '' @ greeting_name g @ ''!''"

definition ready_status :: "string \<Rightarrow> greeting \<Rightarrow> GreetingStatus" where
  "ready_status prefix g =
     \<lparr>gsMessage = greeting_message prefix g, gsPhase = ''Ready'', gsCardRef = objName g @ ''-card''\<rparr>"

definition SetControllerReference :: "greeting_lib \<Rightarrow> greeting \<Rightarrow> card \<Rightarrow> string + card" where
  "SetControllerReference L g c =
     (case gl_setref L (objNamespace g, objName g, objUID g) (OwnerReferences (objMeta c)) of
        Inl e \<Rightarrow> Inl e
      | Inr refs \<Rightarrow> Inr (c\<lparr>objMeta := (objMeta c)\<lparr>OwnerReferences := refs\<rparr>\<rparr>))"

definition mutate_card :: "greeting_lib \<Rightarrow> string \<Rightarrow> greeting \<Rightarrow> card \<Rightarrow> string + card" where
  "mutate_card L message g c =
     SetControllerReference L g (c\<lparr>objSpec := Some \<lparr>csGreetingName = objName g, csMessage = message\<rparr>\<rparr>)"

datatype reconcile_error = GetFailed api_err | CardFailed api_err | StatusFailed api_err

fun is_not_found :: "api_err \<Rightarrow> bool" where
  "is_not_found (NotFound _ _ _) = True"
| "is_not_found _ = False"

definition Reconcile ::
  "greeting_lib \<Rightarrow> reconcile_env \<Rightarrow> string \<times> string \<Rightarrow> unit world \<Rightarrow> unit world \<times> reconcile_error option" where
  "Reconcile L env req w =
     (case Get (reGet env) (gl_own L) (gl_uuid L) greeting_codec (Scheme ''Greeting'') (wdb w) req zero_greeting of
        (_, Some e) \<Rightarrow> (w, if is_not_found e then None else Some (GetFailed e))
      | (greeting, None) \<Rightarrow>
          if objDeletion greeting \<noteq> None then (w, None)
          else
            (let w0 = reBeforeList env w;
                 prefix = getPrefix L (reList env) (reXmin env) (objNamespace greeting) (wdb w0);
                 message = greeting_message prefix greeting;
                 card = zero_card\<lparr>objName := objName greeting @ ''-card'', objNamespace := objNamespace greeting\<rparr>
             in case gl_cou L (card_ops L env) (mutate_card L message greeting) card (reBeforeCard env w0) of
                  (w1, _, Inl e) \<Rightarrow> (w1, Some (CardFailed e))
                | (w1, _, Inr result) \<Rightarrow>
                    (case StatusUpdate (reStatus env) (gl_own L) (gl_uuid L) greeting_codec (Scheme ''Greeting'') []
                            (greeting\<lparr>objStatus := Some (ready_status prefix greeting)\<rparr>) (reBeforeStatus env w1) of
                       (w2, _, Some e) \<Rightarrow> (w2, Some (StatusFailed e))
                     | (w2, _, None) \<Rightarrow> (w2, None))))"

section \<open>What wakes the reconciler\<close>

definition policyToGreetings :: "greeting_lib \<Rightarrow> client_env \<Rightarrow> txid \<Rightarrow> policy \<Rightarrow> db \<Rightarrow> (string \<times> string) list" where
  "policyToGreetings L env xmin p d =
     (case list_greetings L env xmin (objNamespace p) d of
        (_, Some e) \<Rightarrow> []
      | (greetings, None) \<Rightarrow> map (\<lambda>g. (objNamespace g, objName g)) (tlItems greetings))"

text \<open>
  SetupWithManagerNamed: For, Owns and Watches; \<open>owner\<close> is controller-runtime's handler for owned
  objects, from a card's owner references to the requests for their owners.
\<close>

datatype watched = ForGreeting greeting | OwnsCard card | WatchesPolicy policy

fun requests_for ::
  "greeting_lib \<Rightarrow> (json list \<Rightarrow> string list) \<Rightarrow> client_env \<Rightarrow> txid \<Rightarrow> watched \<Rightarrow> db \<Rightarrow> (string \<times> string) list" where
  "requests_for L owner env xmin (ForGreeting g) d = [(objNamespace g, objName g)]"
| "requests_for L owner env xmin (OwnsCard c) d = map (\<lambda>n. (objNamespace c, n)) (owner (OwnerReferences (objMeta c)))"
| "requests_for L owner env xmin (WatchesPolicy p) d = policyToGreetings L env xmin p d"

section \<open>The laws of controller-runtime\<close>

text \<open>
  CreateOrUpdate: gets the object; if there is none, applies the function and creates it; if there
  is one, applies the function and updates it, or leaves it if the function changed nothing; an
  error of any step is returned.
\<close>

definition keeps_key :: "(card \<Rightarrow> string + card) \<Rightarrow> bool" where
  "keeps_key f \<longleftrightarrow> (\<forall>c c'. f c = Inr c' \<longrightarrow> objName c' = objName c \<and> objNamespace c' = objNamespace c)"

text \<open>Owner references are documents, the same reference if they agree in canonical form.\<close>

definition canon_owners :: "card \<Rightarrow> card" where
  "canon_owners c = c\<lparr>objMeta := (objMeta c)\<lparr>OwnerReferences := map canon (OwnerReferences (objMeta c))\<rparr>\<rparr>"

definition same_card :: "card \<Rightarrow> card \<Rightarrow> bool" where
  "same_card a b \<longleftrightarrow> canon_owners a = canon_owners b"

definition cou_result ::
  "operation_result \<Rightarrow> unit world \<times> card \<times> api_err option \<Rightarrow> unit world \<times> card \<times> (api_err + operation_result)" where
  "cou_result op r = (case r of (w, c, Some e) \<Rightarrow> (w, c, Inl e) | (w, c, None) \<Rightarrow> (w, c, Inr op))"

definition create_or_update_law ::
  "(card_client \<Rightarrow> (card \<Rightarrow> string + card) \<Rightarrow> card \<Rightarrow> unit world \<Rightarrow> unit world \<times> card \<times> (api_err + operation_result)) \<Rightarrow> bool" where
  "create_or_update_law cou \<longleftrightarrow> (\<forall>ops f c w. keeps_key f \<longrightarrow>
     (case cGet ops (objNamespace c, objName c) c w of
        (got, Some e) \<Rightarrow>
          if is_not_found e then
            (case f got of
               Inl m \<Rightarrow> \<exists>c'. cou ops f c w = (w, c', Inl (Plain m))
             | Inr c1 \<Rightarrow> cou ops f c w = cou_result OperationResultCreated (cCreate ops c1 w))
          else cou ops f c w = (w, got, Inl e)
      | (got, None) \<Rightarrow>
          (case f got of
             Inl m \<Rightarrow> \<exists>c'. cou ops f c w = (w, c', Inl (Plain m))
           | Inr c1 \<Rightarrow>
               cou ops f c w =
                 (if same_card got c1 then (w, c1, Inr OperationResultNone)
                  else cou_result OperationResultUpdated (cUpdate ops c1 w)))))"

text \<open>
  SetControllerReference adds or updates one owner reference: the references it leaves are
  acceptable when those it finds are, and setting it again finds it there.
\<close>

definition owner_law :: "greeting_lib \<Rightarrow> bool" where
  "owner_law L \<longleftrightarrow> (\<forall>ow refs refs'. gl_setref L ow refs = Inr refs' \<longrightarrow> list_all (\<lambda>j. gl_own L (canon j)) refs \<longrightarrow>
     list_all (\<lambda>j. gl_own L (canon j)) refs' \<and>
     (\<exists>refs''. gl_setref L ow (map canon refs') = Inr refs'' \<and> map canon refs'' = map canon refs'))"


section \<open>What the laws give on the client\<close>

definition greeting_gvk :: gvk where
  "greeting_gvk = \<lparr>gGroup = ''greeting.example.com'', gVersion = ''v1alpha1'', gKind = ''Greeting''\<rparr>"

definition card_gvk :: gvk where
  "card_gvk = \<lparr>gGroup = ''greeting.example.com'', gVersion = ''v1alpha1'', gKind = ''GreetingCard''\<rparr>"

lemma scheme_kinds [simp]:
  "resolveGVK (Scheme ''Greeting'') = Inr greeting_gvk" "resolveGVK (Scheme ''GreetingCard'') = Inr card_gvk"
  by (simp_all add: Scheme_def SchemeBuilder_def GroupVersion_def greeting_gvk_def card_gvk_def)

definition greeting_key :: "string \<times> string \<Rightarrow> key" where
  "greeting_key nsname = (gvkToString greeting_gvk, nsname)"

definition card_key :: "string \<times> string \<Rightarrow> key" where
  "card_key nsname = (gvkToString card_gvk, fst nsname, snd nsname @ ''-card'')"

lemma keys_differ [simp]: "greeting_key a \<noteq> card_key b" "card_key b \<noteq> greeting_key a"
  by (simp_all add: greeting_key_def card_key_def gvkToString_def greeting_gvk_def card_gvk_def)

lemma populate_names:
  "populateObject own us cd r g obj = Inr got \<Longrightarrow> objName got = Name r \<and> objNamespace got = Namespace r"
  by (auto simp: populateObject_def injectSpecStatus_def populateObjectMeta_def Let_def
      split: if_splits option.splits sum.splits)

lemma populate_uid:
  "populateObject own us cd r g obj = Inr got \<Longrightarrow> objUID got = us (UID r)"
  by (auto simp: populateObject_def injectSpecStatus_def populateObjectMeta_def Let_def
      split: if_splits option.splits sum.splits)

lemma populate_key:
  assumes "populateObject own us cd r g obj = Inr got" "get_row d (x, ns, n) = Some r"
  shows "objName got = n \<and> objNamespace got = ns \<and> objRV got = FormatInt (ObjectVersion r) \<and> objUID got = us (UID r)"
proof -
  have "Name r = n" "Namespace r = ns" using get_row_key [OF assms(2)] by (simp_all add: rkey_def)
  then show ?thesis
    using assms(1)
    by (auto simp: populateObject_def injectSpecStatus_def populateObjectMeta_def Let_def
        split: if_splits option.splits sum.splits)
qed

lemma populate_deletion:
  "populateObject own us cd r g obj = Inr got \<Longrightarrow> objDeletion obj = None \<Longrightarrow> objDeletion got = DeletionTimestamp r"
  by (auto simp: populateObject_def injectSpecStatus_def populateObjectMeta_def Let_def
      split: if_splits option.splits sum.splits)

lemma populate_meta:
  "populateObject own us cd r g obj = Inr got \<Longrightarrow>
     objMeta got = (case decode_meta own (Metadata r) of None \<Rightarrow> objMeta obj | Some sm \<Rightarrow> sm)"
  by (auto simp: populateObject_def injectSpecStatus_def populateObjectMeta_def Let_def
      split: if_splits option.splits sum.splits)

definition card_spec :: "string \<Rightarrow> greeting \<Rightarrow> GreetingCardSpec" where
  "card_spec prefix g = \<lparr>csGreetingName = objName g, csMessage = greeting_message prefix g\<rparr>"

lemma enc_card: "\<exists>sp. enc_spec card_codec s = Inr sp" by (simp add: card_codec_def)

text \<open>Reading a card into a zero card of its name.\<close>

lemma card_reads:
  assumes "Spec c = canon sp" "enc_spec card_codec s = Inr sp" "objSpec obj \<noteq> None" "objStatus obj = None"
  shows "\<exists>got. populateObject own us card_codec c card_gvk obj = Inr got \<and> objSpec got = Some s"
proof -
  have sp: "canon sp = sp" "sp \<noteq> JObj []" "\<And>s0. dec_spec card_codec sp s0 = Inr s"
    using card_spec_round [OF assms(2)] by blast+
  obtain s0 where "objSpec obj = Some s0" using assms(3) by blast
  then show ?thesis
    using sp assms(1,4)
    by (auto simp: populateObject_def injectSpecStatus_def populateObjectMeta_def Let_def split: option.splits)
qed

section \<open>The other writers\<close>

text \<open>
  What others commit between two calls of a reconciliation: anything that keeps the table's
  invariant and leaves the greeting and its card alone.
\<close>

definition spares :: "(unit world \<Rightarrow> unit world) \<Rightarrow> string \<times> string \<Rightarrow> bool" where
  "spares f req \<longleftrightarrow> (\<forall>w. (wf_db (wdb w) \<longrightarrow> wf_db (wdb (f w))) \<and>
     get_row (wdb (f w)) (greeting_key req) = get_row (wdb w) (greeting_key req) \<and>
     get_row (wdb (f w)) (card_key req) = get_row (wdb w) (card_key req))"

definition others_spare :: "reconcile_env \<Rightarrow> string \<times> string \<Rightarrow> bool" where
  "others_spare env req \<longleftrightarrow> spares (reBeforeList env) req \<and> spares (reBeforeCard env) req \<and>
     spares (reBeforeWrite env) req \<and> spares (reBeforeStatus env) req"

definition alone :: "reconcile_env \<Rightarrow> bool" where
  "alone env \<longleftrightarrow> reBeforeList env = id \<and> reBeforeCard env = id \<and> reBeforeWrite env = id \<and> reBeforeStatus env = id"

lemma spares_id [simp]: "spares id req"
  by (simp add: spares_def)

lemma alone_spares: "alone env \<Longrightarrow> others_spare env req"
  by (simp add: alone_def others_spare_def)

lemma sparesD:
  assumes "spares f req"
  shows "wf_db (wdb w) \<Longrightarrow> wf_db (wdb (f w))" "get_row (wdb (f w)) (greeting_key req) = get_row (wdb w) (greeting_key req)"
    "get_row (wdb (f w)) (card_key req) = get_row (wdb w) (card_key req)"
  using assms by (auto simp: spares_def)

section \<open>One successful reconciliation\<close>

text \<open>The card as it reads: the spec, and the owner reference that setting it again leaves alone.\<close>

definition owner_set :: "greeting_lib \<Rightarrow> greeting \<Rightarrow> json list \<Rightarrow> bool" where
  "owner_set L g refs \<longleftrightarrow>
     (\<exists>refs'. gl_setref L (objNamespace g, objName g, objUID g) refs = Inr refs' \<and> map canon refs' = map canon refs)"

definition card_recorded :: "greeting_lib \<Rightarrow> greeting \<Rightarrow> GreetingCardSpec \<Rightarrow> resource \<Rightarrow> bool" where
  "card_recorded L g s c \<longleftrightarrow> \<not> isFullyDeleted (gl_own L) c \<and>
     (\<exists>got. populateObject (gl_own L) (gl_uuid L) card_codec c card_gvk zero_card = Inr got \<and>
        objSpec got = Some s \<and> owner_set L g (OwnerReferences (objMeta got)))"

lemma populate_named [simp]:
  "populateObject own us cd r gvk (obj\<lparr>objName := a, objNamespace := b\<rparr>) = populateObject own us cd r gvk obj"
  by (simp add: populateObject_def populateObjectMeta_def Let_def split: option.split)

lemma keeps_key_mutate: "keeps_key (mutate_card L m g)"
  by (auto simp: keeps_key_def mutate_card_def SetControllerReference_def split: sum.splits)

lemma mutate_cardD:
  assumes "mutate_card L (greeting_message prefix g) g c = Inr c1" "owner_law L"
    and "list_all (\<lambda>j. gl_own L (canon j)) (OwnerReferences (objMeta c))"
  obtains refs refs' where "c1 = c\<lparr>objSpec := Some (card_spec prefix g), objMeta := (objMeta c)\<lparr>OwnerReferences := refs\<rparr>\<rparr>"
    "list_all (\<lambda>j. gl_own L (canon j)) refs"
    "gl_setref L (objNamespace g, objName g, objUID g) (map canon refs) = Inr refs'" "map canon refs' = map canon refs"
    "gl_setref L (objNamespace g, objName g, objUID g) (OwnerReferences (objMeta c)) = Inr refs"
proof -
  obtain refs where r: "gl_setref L (objNamespace g, objName g, objUID g) (OwnerReferences (objMeta c)) = Inr refs"
    "c1 = c\<lparr>objSpec := Some (card_spec prefix g), objMeta := (objMeta c)\<lparr>OwnerReferences := refs\<rparr>\<rparr>"
    using assms(1) by (auto simp: mutate_card_def SetControllerReference_def card_spec_def split: sum.splits)
  then show ?thesis
    using that [OF r(2) _ _ _ r(1)] assms(2) [unfolded owner_law_def, rule_format, OF r(1) assms(3)] by blast
qed

text \<open>The metadata of the card that is there, if it is one that pgruntime wrote.\<close>

definition card_meta_ok :: "greeting_lib \<Rightarrow> string \<times> string \<Rightarrow> db \<Rightarrow> bool" where
  "card_meta_ok L nsname d \<longleftrightarrow> (\<forall>c. get_row d (card_key nsname) = Some c \<longrightarrow>
     meta_written (gl_own L) (Metadata c) \<and> currentGeneration (gl_own L) (Metadata c) + 1 < 2 ^ 63)"

lemma meta_written_decodes:
  assumes "meta_written own md"
  obtains sm where "decode_meta own md = Some sm" "list_all (\<lambda>j. own (canon j)) (OwnerReferences sm)"
    "- (2 ^ 63) \<le> Generation sm" "Generation sm < 2 ^ 63" "currentGeneration own md = Generation sm"
proof -
  obtain sm where sm: "sm_ok own sm" "md = canon (encode_meta sm)" using assms by (auto simp: meta_written_def)
  then show ?thesis
    using that [of "norm_meta sm"] decode_encode_meta [OF sm(1)]
    by (simp add: currentGeneration_def norm_meta_def sm_ok_def list_all_iff)
qed

text \<open>A card that Create or Update has just written.\<close>

lemma written_card_recorded:
  assumes "Spec c = canon sp" "enc_spec card_codec s = Inr sp" "DeletionTimestamp c = None \<or> Finalizers sm \<noteq> []"
    and "Metadata c = canon (encode_meta sm)" "sm_ok (gl_own L) sm"
    and "gl_setref L (objNamespace g, objName g, objUID g) (map canon (OwnerReferences sm)) = Inr refs"
    and "map canon refs = map canon (OwnerReferences sm)"
  shows "card_recorded L g s c"
proof -
  have md: "decode_meta (gl_own L) (Metadata c) = Some (norm_meta sm)"
    using decode_encode_meta [OF assms(5)] assms(4) by simp
  then have "\<not> isFullyDeleted (gl_own L) c"
    using assms(3) by (auto simp: isFullyDeleted_def hasFinalizers_def norm_meta_def)
  moreover obtain got where got: "populateObject (gl_own L) (gl_uuid L) card_codec c card_gvk zero_card = Inr got"
    "objSpec got = Some s"
    using card_reads [OF assms(1,2), of zero_card] by (auto simp: zero_card_def zero_object_def)
  moreover have "OwnerReferences (objMeta got) = map canon (OwnerReferences sm)"
    using populate_meta [OF got(1)] md by (simp add: norm_meta_def)
  ultimately show ?thesis using assms(6,7) by (auto simp: card_recorded_def owner_set_def)
qed

text \<open>The others may have committed before the write, or there was nothing to write.\<close>

definition card_step_ok :: "greeting_lib \<Rightarrow> greeting \<Rightarrow> string \<Rightarrow> reconcile_env \<Rightarrow> unit world \<Rightarrow> unit world \<Rightarrow> bool" where
  "card_step_ok L g prefix env w w1 \<longleftrightarrow> wf_db (wdb w1) \<and>
     (\<exists>c. get_row (wdb w1) (card_key (objNamespace g, objName g)) = Some c \<and> card_recorded L g (card_spec prefix g) c) \<and>
     (\<exists>w0 \<in> {w, reBeforeWrite env w}. one_row (card_key (objNamespace g, objName g)) (wdb w0) (wdb w1))"

lemma card_create_step:
  assumes "wf_db (wdb (reBeforeWrite env w))" "owner_law L" "mutate_card L (greeting_message prefix g) g
      (zero_card\<lparr>objName := objName g @ ''-card'', objNamespace := objNamespace g\<rparr>) = Inr c1"
    and "cCreate (card_ops L env) c1 w = (w1, c', None)"
  shows "card_step_ok L g prefix env w w1"
proof -
  let ?z = "zero_card\<lparr>objName := objName g @ ''-card'', objNamespace := objNamespace g\<rparr>"
  let ?k = "card_key (objNamespace g, objName g)"
  have z: "OwnerReferences (objMeta ?z) = []" by (simp add: zero_card_def zero_object_def empty_meta_def)
  obtain refs refs' where c1: "c1 = ?z\<lparr>objSpec := Some (card_spec prefix g), objMeta := (objMeta ?z)\<lparr>OwnerReferences := refs\<rparr>\<rparr>"
    and refs: "list_all (\<lambda>j. gl_own L (canon j)) refs"
      "gl_setref L (objNamespace g, objName g, objUID g) (map canon refs) = Inr refs'" "map canon refs' = map canon refs"
    by (rule mutate_cardD [OF assms(3,2)]) (use z in simp)
  have key: "?k = (gvkToString card_gvk, objNamespace c1, objName c1)" by (simp add: c1 card_key_def)
  have cr: "Create (reCardWrite env) (gl_own L) (gl_uuid L) card_codec (Scheme ''GreetingCard'') [] [] c1 (reBeforeWrite env w) = (w1, c', None)"
    using assms(4) by (simp add: card_ops_def)
  obtain sp st r where s: "extractSpecStatus card_codec c1 = Inr (sp, st)" "get_row (wdb w1) ?k = Some r"
    "Spec r = canon sp" "Metadata r = canon (encode_meta (objMeta (set_generation 1 c1)))" "DeletionTimestamp r = None"
    "\<forall>k'. k' \<noteq> ?k \<longrightarrow> get_row (wdb w1) k' = get_row (wdb (reBeforeWrite env w)) k'"
    by (rule Create_stores [OF assms(1) cr scheme_kinds(2) key])
  have "enc_spec card_codec (card_spec prefix g) = Inr sp"
    using s(1) by (auto simp: extractSpecStatus_def extractSpec_def c1 split: sum.splits)
  moreover have "sm_ok (gl_own L) (objMeta (set_generation 1 c1))" "OwnerReferences (objMeta (set_generation 1 c1)) = refs"
    using refs(1) by (simp_all add: sm_ok_def set_generation_def c1)
  ultimately have "card_recorded L g (card_spec prefix g) r"
    using written_card_recorded [OF s(3) _ _ s(4)] s(5) refs(2,3) by auto
  then show ?thesis
    using s(2) Create_wf [OF assms(1) cr] Create_one_row [OF cr scheme_kinds(2), folded key] by (auto simp: card_step_ok_def)
qed


lemma card_update_step:
  assumes "wf_db (wdb w)" "spares (reBeforeWrite env) (objNamespace g, objName g)" "owner_law L" "card_meta_ok L (objNamespace g, objName g) (wdb w)"
    and "get_row (wdb w) (card_key (objNamespace g, objName g)) = Some e" "\<not> isFullyDeleted (gl_own L) e"
    and "populateObject (gl_own L) (gl_uuid L) card_codec e card_gvk zero_card = Inr got"
    and "mutate_card L (greeting_message prefix g) g got = Inr c1"
    and "if same_card got c1 then w1 = w else cUpdate (card_ops L env) c1 w = (w1, c', None)"
  shows "card_step_ok L g prefix env w w1"
proof -
  let ?k = "card_key (objNamespace g, objName g)"
  have e: "meta_written (gl_own L) (Metadata e)" "currentGeneration (gl_own L) (Metadata e) + 1 < 2 ^ 63"
    using assms(4,5) by (auto simp: card_meta_ok_def)
  obtain sm where sm: "decode_meta (gl_own L) (Metadata e) = Some sm" "list_all (\<lambda>j. gl_own L (canon j)) (OwnerReferences sm)"
    "- (2 ^ 63) \<le> Generation sm" "Generation sm < 2 ^ 63" "currentGeneration (gl_own L) (Metadata e) = Generation sm"
    by (rule meta_written_decodes [OF e(1)])
  have got: "objMeta got = sm" using populate_meta [OF assms(7)] sm(1) by simp
  have names: "objName got = objName g @ ''-card''" "objNamespace got = objNamespace g"
    using populate_key [OF assms(7), of "wdb w" "gvkToString card_gvk" "objNamespace g" "objName g @ ''-card''"] assms(5)
    by (simp_all add: card_key_def)
  obtain refs refs' where c1: "c1 = got\<lparr>objSpec := Some (card_spec prefix g), objMeta := (objMeta got)\<lparr>OwnerReferences := refs\<rparr>\<rparr>"
    and refs: "list_all (\<lambda>j. gl_own L (canon j)) refs"
      "gl_setref L (objNamespace g, objName g, objUID g) (map canon refs) = Inr refs'" "map canon refs' = map canon refs"
      "gl_setref L (objNamespace g, objName g, objUID g) (OwnerReferences (objMeta got)) = Inr refs"
    by (rule mutate_cardD [OF assms(8,3)]) (use got sm(2) in simp)
  show ?thesis
  proof (cases "same_card got c1")
    case True
    then have "objSpec (canon_owners got) = objSpec (canon_owners c1)"
      "OwnerReferences (objMeta (canon_owners got)) = OwnerReferences (objMeta (canon_owners c1))"
      by (simp_all only: same_card_def)
    then have "objSpec got = Some (card_spec prefix g)" "map canon (OwnerReferences (objMeta got)) = map canon refs"
      by (simp_all add: canon_owners_def c1)
    with refs(4) have "card_recorded L g (card_spec prefix g) e"
      using assms(6,7) by (auto simp: card_recorded_def owner_set_def)
    then show ?thesis using True assms(1,5,9) by (auto simp: card_step_ok_def)
  next
    case False
    then have up: "Update (reCardWrite env) (gl_own L) (gl_uuid L) card_codec (Scheme ''GreetingCard'') [] c1 (reBeforeWrite env w) = (w1, c', None)"
      using assms(9) by (simp add: card_ops_def)
    have wf2: "wf_db (wdb (reBeforeWrite env w))" using assms(1,2) by (simp add: spares_def)
    have key: "?k = (gvkToString card_gvk, objNamespace c1, objName c1)" using names by (simp add: c1 card_key_def)
    obtain e2 sp r where s: "readCurrentResource (reCardWrite env) (wdb (reBeforeWrite env w)) ?k = Inr (Some e2)" "extractSpec card_codec c1 = Inr sp"
      "get_row (wdb w1) ?k = Some r" "Spec r = canon sp" "DeletionTimestamp r = DeletionTimestamp e2"
      "Metadata r = canon (encode_meta (objMeta (update_object (gl_own L) e2 sp c1)))"
      "\<forall>k'. k' \<noteq> ?k \<longrightarrow> get_row (wdb w1) k' = get_row (wdb (reBeforeWrite env w)) k'"
      by (rule Update_success [OF wf2 up scheme_kinds(2) key])
    have e2: "e2 = e" using readCurrent_ok [OF s(1)] assms(2,5) by (simp add: spares_def)
    have m: "sm_ok (gl_own L) (objMeta (update_object (gl_own L) e2 sp c1))"
      "OwnerReferences (objMeta (update_object (gl_own L) e2 sp c1)) = refs"
      "Finalizers (objMeta (update_object (gl_own L) e2 sp c1)) = Finalizers sm"
      using refs(1) got sm(3-5) e(2) e2 by (auto simp: update_object_def sm_ok_def set_generation_def c1)
    have live: "DeletionTimestamp r = None \<or> Finalizers sm \<noteq> []"
      using assms(6) sm(1) s(5) e2 by (auto simp: isFullyDeleted_def hasFinalizers_def)
    have "enc_spec card_codec (card_spec prefix g) = Inr sp" using s(2) by (simp add: extractSpec_def c1)
    then have "card_recorded L g (card_spec prefix g) r"
      using written_card_recorded [OF s(4) _ _ s(6) m(1)] live m(2,3) refs(2,3) by auto
    then show ?thesis
      using s(3) Update_wf [OF wf2 up] Update_one_row [OF up scheme_kinds(2), folded key] by (auto simp: card_step_ok_def)
  qed
qed

lemma cou_result_ok: "cou_result op r = (w, c, Inr res) \<Longrightarrow> r = (w, c, None)"
  by (auto simp: cou_result_def split: prod.splits option.splits)

lemma Get_not_found_keeps:
  "Get env own us cd kinds d nsname obj = (got, Some e) \<Longrightarrow> is_not_found e \<Longrightarrow> got = obj"
  by (auto simp: Get_def populate_into_def split: option.splits sum.splits if_splits)

text \<open>The two ways in which CreateOrUpdate succeeds.\<close>

lemma create_or_update_cases:
  assumes "create_or_update_law cou" "keeps_key f" "cou ops f c w = (w1, c', Inr res)"
  obtains (created) got e c1 where "cGet ops (objNamespace c, objName c) c w = (got, Some e)" "is_not_found e"
      "f got = Inr c1" "cCreate ops c1 w = (w1, c', None)"
    | (found) got c1 where "cGet ops (objNamespace c, objName c) c w = (got, None)" "f got = Inr c1"
      "if same_card got c1 then w1 = w else cUpdate ops c1 w = (w1, c', None)"
proof -
  obtain got err where get: "cGet ops (objNamespace c, objName c) c w = (got, err)" by fastforce
  note law = assms(1) [unfolded create_or_update_law_def, rule_format, OF assms(2), of ops c w, unfolded get assms(3)]
  show ?thesis
  proof (cases err)
    case (Some e)
    then have nf: "is_not_found e" using law by (auto split: if_splits)
    then obtain c1 where "f got = Inr c1" using law Some by (cases "f got") auto
    with law Some nf created [of got e c1] get show ?thesis by (auto dest: cou_result_ok [OF sym])
  next
    case None
    then obtain c1 where "f got = Inr c1" using law by (cases "f got") auto
    with law None found [of got c1] get show ?thesis by (auto dest: cou_result_ok [OF sym] split: if_splits)
  qed
qed

lemma card_step:
  assumes "wf_db (wdb w)" "spares (reBeforeWrite env) (objNamespace g, objName g)" "create_or_update_law (gl_cou L)" "owner_law L"
    and "card_meta_ok L (objNamespace g, objName g) (wdb w)"
    and "gl_cou L (card_ops L env) (mutate_card L (greeting_message prefix g) g)
      (zero_card\<lparr>objName := objName g @ ''-card'', objNamespace := objNamespace g\<rparr>) w = (w1, c', Inr res)"
  shows "card_step_ok L g prefix env w w1"
  using assms(3) keeps_key_mutate assms(6)
proof (cases rule: create_or_update_cases)
  case (created got e c1)
  then have "got = zero_card\<lparr>objName := objName g @ ''-card'', objNamespace := objNamespace g\<rparr>"
    using Get_not_found_keeps by (simp add: card_ops_def) blast
  then show ?thesis using card_create_step [OF _ assms(4)] created assms(1,2) unfolding spares_def by blast
next
  case (found got c1)
  let ?z = "zero_card\<lparr>objName := objName g @ ''-card'', objNamespace := objNamespace g\<rparr>"
  have g: "Get (reCardGet env) (gl_own L) (gl_uuid L) card_codec (Scheme ''GreetingCard'') (wdb w)
      (objNamespace g, objName g @ ''-card'') ?z = (got, None)"
    using found(1) by (simp add: card_ops_def)
  obtain e where e: "get_row (wdb w) (card_key (objNamespace g, objName g)) = Some e" "\<not> isFullyDeleted (gl_own L) e"
    "populateObject (gl_own L) (gl_uuid L) card_codec e card_gvk zero_card = Inr got"
    using Get_success [OF g scheme_kinds(2)] by (auto simp: card_key_def)
  show ?thesis by (rule card_update_step [OF assms(1,2,4,5) e found(2,3)])
qed


lemma parse_own_version:
  assumes "objRV obj = FormatInt v" "0 < v" "v < 2 ^ 63"
  shows "parseResourceVersion obj = Inr v"
proof -
  have "ParseInt (FormatInt v) = Some v" "FormatInt v \<noteq> []"
    using assms(2,3) ParseInt_FormatInt [of v] dec_digits [of "nat v"] by (auto simp: FormatInt_def)
  then show ?thesis by (simp add: parseResourceVersion_def assms(1))
qed

section \<open>Settled greetings\<close>

text \<open>
  What a reconciliation is for: the greeting reads back with the status of its message, the card
  is there, carries the message and is owned by the greeting.
\<close>

definition settled :: "greeting_lib \<Rightarrow> string \<Rightarrow> string \<times> string \<Rightarrow> db \<Rightarrow> bool" where
  "settled L prefix nsname d \<longleftrightarrow> (\<exists>r g c st.
     get_row d (greeting_key nsname) = Some r \<and> DeletionTimestamp r = None \<and>
     populateObject (gl_own L) (gl_uuid L) greeting_codec r greeting_gvk zero_greeting = Inr g \<and>
     enc_status greeting_codec (ready_status prefix g) = Inr st \<and> Status r = canon st \<and>
     get_row d (card_key nsname) = Some c \<and> card_recorded L g (card_spec prefix g) c)"

lemma inject_status:
  assumes "injectSpecStatus cd sp st obj = Inr got" "st' \<noteq> JObj []" "\<And>t. dec_status cd st' t = Inr t'"
    and "objSpec obj' = objSpec obj" "objStatus obj' = Some t0"
  shows "injectSpecStatus cd sp st' obj' = Inr (obj'\<lparr>objSpec := objSpec got, objStatus := Some t'\<rparr>)"
proof (cases "sp = JObj [] \<or> objSpec obj = None")
  case True
  then have "objSpec got = objSpec obj"
    using assms(1) by (auto simp: injectSpecStatus_def Let_def split: if_splits option.splits sum.splits)
  then have "obj'\<lparr>objSpec := objSpec got\<rparr> = obj'" using assms(4) by (cases obj') simp
  then show ?thesis using True assms(2-5) by (auto simp: injectSpecStatus_def Let_def split: option.split)
next
  case False
  then obtain s s' where "objSpec obj = Some s" "dec_spec cd sp s = Inr s'" "objSpec got = Some s'"
    using assms(1) by (auto simp: injectSpecStatus_def Let_def split: if_splits option.splits sum.splits)
  then show ?thesis using False assms(2-5) by (simp add: injectSpecStatus_def Let_def)
qed

lemma greeting_with_status:
  assumes "populateObject own us greeting_codec r greeting_gvk zero_greeting = Inr g"
    and "Spec r' = Spec r" "Metadata r' = Metadata r" "UID r' = UID r" "rkey r' = rkey r"
    and "Status r' = canon st" "enc_status greeting_codec (ready_status prefix g) = Inr st"
  shows "\<exists>g'. populateObject own us greeting_codec r' greeting_gvk zero_greeting = Inr g' \<and> objName g' = objName g \<and>
    objNamespace g' = objNamespace g \<and> objUID g' = objUID g \<and> objSpec g' = objSpec g"
proof -
  have st: "canon st \<noteq> JObj []" "\<And>t0. dec_status greeting_codec (canon st) t0 = Inr (ready_status prefix g)"
    using greeting_status_round [OF assms(7)] by (simp_all add: ready_status_def greeting_message_def)
  let ?x = "\<lambda>r. (populateObjectMeta own us r zero_greeting)\<lparr>objGVK := greeting_gvk\<rparr>"
  have x: "objSpec (?x r') = objSpec (?x r)" "objStatus (?x r') = objStatus zero_greeting" "objName (?x r) = Name r"
    "objNamespace (?x r) = Namespace r" "objUID (?x r) = us (UID r)" for r r' :: resource
    by (auto simp: populateObjectMeta_def Let_def split: option.split)
  have "\<exists>t0. objStatus (?x r') = Some t0" unfolding x(2) by (simp add: zero_greeting_def zero_object_def)
  then obtain t0 where "objStatus (?x r') = Some t0" by blast
  then have p: "populateObject own us greeting_codec r' greeting_gvk zero_greeting =
      Inr ((?x r')\<lparr>objSpec := objSpec g, objStatus := Some (ready_status prefix g)\<rparr>)"
    using inject_status [OF assms(1) [unfolded populateObject_def] st x(1)] by (simp add: populateObject_def assms(2,6))
  have "objName g = Name r \<and> objNamespace g = Namespace r" using populate_names [OF assms(1)] .
  moreover have "objUID g = us (UID r)" using populate_uid [OF assms(1)] .
  moreover have "Name r' = Name r" "Namespace r' = Namespace r" using assms(5) by (simp_all add: rkey_def)
  ultimately show ?thesis unfolding p using assms(4) x(3-5) [of r'] by simp
qed

lemma settledI:
  assumes "get_row d (greeting_key req) = Some r'" "DeletionTimestamp r' = None"
    and "populateObject (gl_own L) (gl_uuid L) greeting_codec r greeting_gvk zero_greeting = Inr g"
    and "Spec r' = Spec r" "Metadata r' = Metadata r" "UID r' = UID r" "rkey r' = rkey r"
    and "Status r' = canon st" "enc_status greeting_codec (ready_status p g) = Inr st"
    and "\<exists>c. get_row d (card_key req) = Some c \<and> card_recorded L g (card_spec p g) c"
  shows "settled L p req d"
proof -
  obtain g2 where g2: "populateObject (gl_own L) (gl_uuid L) greeting_codec r' greeting_gvk zero_greeting = Inr g2"
    "objName g2 = objName g" "objNamespace g2 = objNamespace g" "objUID g2 = objUID g" "objSpec g2 = objSpec g"
    using greeting_with_status [OF assms(3-9)] by blast
  have "ready_status p g2 = ready_status p g" "card_spec p g2 = card_spec p g" "card_recorded L g2 = card_recorded L g"
    using g2(2-5) by (simp_all add: ready_status_def card_spec_def greeting_message_def greeting_name_def
        card_recorded_def owner_set_def fun_eq_iff)
  then show ?thesis unfolding settled_def using assms(1,2,8-10) g2(1) by fastforce
qed

lemma Reconcile_success:
  assumes "Reconcile L env req w = (w', None)" "get_row (wdb w) (greeting_key req) = Some r" "DeletionTimestamp r = None"
  obtains g w1 c' res g' where
    "populateObject (gl_own L) (gl_uuid L) greeting_codec r greeting_gvk zero_greeting = Inr g"
    "gl_cou L (card_ops L env) (mutate_card L (greeting_message (getPrefix L (reList env) (reXmin env) (fst req) (wdb (reBeforeList env w))) g) g)
       (zero_card\<lparr>objName := objName g @ ''-card'', objNamespace := objNamespace g\<rparr>)
       (reBeforeCard env (reBeforeList env w)) = (w1, c', Inr res)"
    "StatusUpdate (reStatus env) (gl_own L) (gl_uuid L) greeting_codec (Scheme ''Greeting'') []
       (g\<lparr>objStatus := Some (ready_status (getPrefix L (reList env) (reXmin env) (fst req) (wdb (reBeforeList env w))) g)\<rparr>) (reBeforeStatus env w1) = (w', g', None)"
    "objName g = snd req" "objNamespace g = fst req"
proof -
  let ?get = "Get (reGet env) (gl_own L) (gl_uuid L) greeting_codec (Scheme ''Greeting'') (wdb w) req zero_greeting"
  have live: "\<not> isFullyDeleted (gl_own L) r" using assms(3) by (simp add: isFullyDeleted_def)
  obtain g err where get: "?get = (g, err)" by fastforce
  have none: "err = None"
  proof (rule ccontr)
    assume "err \<noteq> None"
    then obtain e where "err = Some e" by blast
    moreover have "\<not> is_not_found e"
      using get calculation assms(2) live
      by (auto simp: Get_def query_row_def populate_into_def greeting_key_def split: option.splits sum.splits)
    ultimately show False using assms(1) get by (simp add: Reconcile_def)
  qed
  obtain r2 where r2: "get_row (wdb w) (gvkToString greeting_gvk, req) = Some r2"
    "populateObject (gl_own L) (gl_uuid L) greeting_codec r2 greeting_gvk zero_greeting = Inr g"
    using Get_success [OF get [unfolded none] scheme_kinds(1)] by blast
  then have p: "populateObject (gl_own L) (gl_uuid L) greeting_codec r greeting_gvk zero_greeting = Inr g"
    using assms(2) by (simp add: greeting_key_def)
  have names: "objName g = snd req" "objNamespace g = fst req"
    using populate_key [OF r2(2), of "wdb w" _ "fst req" "snd req"] r2(1) by simp_all
  have "objDeletion g = None" using populate_deletion [OF p] assms(3) by (simp add: zero_greeting_def zero_object_def)
  then show ?thesis
    using that [OF p _ _ names] assms(1) get none names
    by (auto simp: Reconcile_def Let_def split: prod.splits sum.splits option.splits)
qed

text \<open>What a successful reconciliation did, with the worlds in which the two writes ran.\<close>

lemma Reconcile_settles:
  assumes "wf_db (wdb w)" "others_spare env req" "create_or_update_law (gl_cou L)" "owner_law L" "card_meta_ok L req (wdb w)"
    and "Reconcile L env req w = (w', None)" "get_row (wdb w) (greeting_key req) = Some r" "DeletionTimestamp r = None"
  obtains w0 w1 r' where "wf_db (wdb w')"
    "settled L (getPrefix L (reList env) (reXmin env) (fst req) (wdb (reBeforeList env w))) req (wdb w')"
    "get_row (wdb w') (greeting_key req) = Some r'" "Spec r' = Spec r" "Metadata r' = Metadata r" "UID r' = UID r"
    "w0 = reBeforeCard env (reBeforeList env w) \<or> w0 = reBeforeWrite env (reBeforeCard env (reBeforeList env w))"
    "one_row (card_key req) (wdb w0) (wdb w1)" "one_row (greeting_key req) (wdb (reBeforeStatus env w1)) (wdb w')"
    "version_fits (greeting_key req) (wdb w) \<Longrightarrow> version_fits (greeting_key req) (wdb w')"
proof -
  let ?wc = "reBeforeCard env (reBeforeList env w)"
  let ?p = "getPrefix L (reList env) (reXmin env) (fst req) (wdb (reBeforeList env w))"
  have sp: "spares (reBeforeList env) req" "spares (reBeforeCard env) req" "spares (reBeforeWrite env) req"
    "spares (reBeforeStatus env) req" using assms(2) by (simp_all add: others_spare_def)
  obtain g w1 c' res g' where g: "populateObject (gl_own L) (gl_uuid L) greeting_codec r greeting_gvk zero_greeting = Inr g"
    and cou: "gl_cou L (card_ops L env) (mutate_card L (greeting_message ?p g) g)
       (zero_card\<lparr>objName := objName g @ ''-card'', objNamespace := objNamespace g\<rparr>) ?wc = (w1, c', Inr res)"
    and st: "StatusUpdate (reStatus env) (gl_own L) (gl_uuid L) greeting_codec (Scheme ''Greeting'') []
       (g\<lparr>objStatus := Some (ready_status ?p g)\<rparr>) (reBeforeStatus env w1) = (w', g', None)"
    and names: "objName g = snd req" "objNamespace g = fst req"
    by (rule Reconcile_success [OF assms(6-8)])
  have reqg: "(objNamespace g, objName g) = req" using names by simp
  have wc: "wf_db (wdb ?wc)" "card_meta_ok L req (wdb ?wc)"
    using assms(1,5) sp(1,2) by (simp_all add: sparesD card_meta_ok_def)
  obtain w0 where w0: "w0 = ?wc \<or> w0 = reBeforeWrite env ?wc" "one_row (card_key req) (wdb w0) (wdb w1)"
    and c: "wf_db (wdb w1)" "\<exists>c. get_row (wdb w1) (card_key req) = Some c \<and> card_recorded L g (card_spec ?p g) c"
    using card_step [OF wc(1) _ assms(3,4) _ cou] wc(2) sp(3) unfolding card_step_ok_def reqg by blast
  have row: "get_row (wdb (reBeforeStatus env w1)) (greeting_key req) = Some r"
    using one_row_get [OF w0(2), of "greeting_key req"] w0(1) sp assms(7) by (auto simp: sparesD)
  have key: "greeting_key req = (gvkToString greeting_gvk, objNamespace (g\<lparr>objStatus := Some (ready_status ?p g)\<rparr>),
      objName (g\<lparr>objStatus := Some (ready_status ?p g)\<rparr>))" using names by (simp add: greeting_key_def)
  obtain e t r' where s: "extractStatus greeting_codec (g\<lparr>objStatus := Some (ready_status ?p g)\<rparr>) = Inr t"
    "get_row (wdb (reBeforeStatus env w1)) (greeting_key req) = Some e" "get_row (wdb w') (greeting_key req) = Some r'"
    "Status r' = canon t" "Spec r' = Spec e" "Metadata r' = Metadata e" "UID r' = UID e"
    "DeletionTimestamp r' = DeletionTimestamp e" "wf_db (wdb w')"
    "\<forall>k'. k' \<noteq> greeting_key req \<longrightarrow> get_row (wdb w') k' = get_row (wdb (reBeforeStatus env w1)) k'"
    by (rule StatusUpdate_success [OF sparesD(1) [OF sp(4) c(1)] st scheme_kinds(1) key])
  have er: "e = r" using s(2) row by simp
  have t: "enc_status greeting_codec (ready_status ?p g) = Inr t" using s(1) by (simp add: extractStatus_def)
  have rk: "rkey r' = rkey r" using get_row_key [OF s(3)] get_row_key [OF assms(7)] by simp
  have c': "\<exists>c. get_row (wdb w') (card_key req) = Some c \<and> card_recorded L g (card_spec ?p g) c"
    using c(2) s(10) sp(4) by (simp add: sparesD)
  show ?thesis
  proof (rule that [OF s(9) _ s(3) _ _ _ w0])
    show "settled L ?p req (wdb w')"
      by (rule settledI [OF s(3) _ g s(5-7) [unfolded er] rk s(4) t c']) (simp add: s(8) er assms(8))
    show "one_row (greeting_key req) (wdb (reBeforeStatus env w1)) (wdb w')"
      using StatusUpdate_one_row [OF st scheme_kinds(1), folded key] .
    show "version_fits (greeting_key req) (wdb w')" if "version_fits (greeting_key req) (wdb w)"
      by (rule StatusUpdate_version_fits [OF st scheme_kinds(1)]) (use that row assms(7) in \<open>simp add: version_fits_def\<close>)
  qed (simp_all add: s(5-7) er)
qed

text \<open>C31: A reconciliation that reports success has settled the greeting: whatever others commit to other
  rows between its calls, the status carries the message made of the prefix that List read and the
  greeting's name, and the card exists, carries the same message and is owned by the greeting,
  whether it was missing, deleted, up to date or of older content; spec, metadata and uid of the
  greeting are kept, and without others all other rows.\<close>

theorem reconcile_settles:
  assumes "wf_db (wdb w)" "others_spare env req" "create_or_update_law (gl_cou L)" "owner_law L" "card_meta_ok L req (wdb w)"
    and "Reconcile L env req w = (w', None)"
    and "get_row (wdb w) (greeting_key req) = Some r" "DeletionTimestamp r = None"
  shows "wf_db (wdb w') \<and>
    settled L (getPrefix L (reList env) (reXmin env) (fst req) (wdb (reBeforeList env w))) req (wdb w') \<and>
    (\<exists>r'. get_row (wdb w') (greeting_key req) = Some r' \<and> Spec r' = Spec r \<and> Metadata r' = Metadata r \<and> UID r' = UID r) \<and>
    (alone env \<longrightarrow> (\<forall>k. k \<noteq> greeting_key req \<longrightarrow> k \<noteq> card_key req \<longrightarrow> get_row (wdb w') k = get_row (wdb w) k))"
  by (rule Reconcile_settles [OF assms]) (auto simp: alone_def one_row_get_trans)

text \<open>Reconciling a settled greeting again changes no row.\<close>

lemma Reconcile_stable:
  assumes "settled L (getPrefix L (reList env) (reXmin env) (fst req) (wdb w)) req (wdb w)" "alone env"
    and "create_or_update_law (gl_cou L)" "quiet (reGet env)" "quiet (reCardGet env)" "quiet (reStatus env)"
    and "version_fits (greeting_key req) (wdb w)"
  shows "\<exists>w'. Reconcile L env req w = (w', None) \<and> rows (wdb w') = rows (wdb w)"
proof -
  let ?p = "getPrefix L (reList env) (reXmin env) (fst req) (wdb w)"
  obtain r g c st where r: "get_row (wdb w) (greeting_key req) = Some r" "DeletionTimestamp r = None"
    "populateObject (gl_own L) (gl_uuid L) greeting_codec r greeting_gvk zero_greeting = Inr g"
    "enc_status greeting_codec (ready_status ?p g) = Inr st" "Status r = canon st"
    and c: "get_row (wdb w) (card_key req) = Some c" "card_recorded L g (card_spec ?p g) c"
    using assms(1) by (auto simp: settled_def)
  have g: "objName g = snd req" "objNamespace g = fst req" "objRV g = FormatInt (ObjectVersion r)"
    using populate_key [OF r(3), of "wdb w" "gvkToString greeting_gvk" "fst req" "snd req"] r(1)
    by (simp_all add: greeting_key_def)
  have get: "Get (reGet env) (gl_own L) (gl_uuid L) greeting_codec (Scheme ''Greeting'') (wdb w) req zero_greeting = (g, None)"
    using Get_finds [OF scheme_kinds(1) _ _ _ _ r(3)] r(1,2) assms(4)
    by (simp add: quiet_def greeting_key_def isFullyDeleted_def)
  have del: "objDeletion g = None" using populate_deletion [OF r(3)] r(2) by (simp add: zero_greeting_def zero_object_def)
  let ?z = "zero_card\<lparr>objName := objName g @ ''-card'', objNamespace := objNamespace g\<rparr>"
  obtain got refs where got: "populateObject (gl_own L) (gl_uuid L) card_codec c card_gvk zero_card = Inr got"
    "objSpec got = Some (card_spec ?p g)" "gl_setref L (objNamespace g, objName g, objUID g) (OwnerReferences (objMeta got)) = Inr refs"
    "map canon refs = map canon (OwnerReferences (objMeta got))" "\<not> isFullyDeleted (gl_own L) c"
    using c(2) by (auto simp: card_recorded_def owner_set_def)
  have cget: "cGet (card_ops L env) (objNamespace ?z, objName ?z) ?z w = (got, None)"
    using Get_finds [OF scheme_kinds(2) _ _ _ got(5), of "reCardGet env" "wdb w" "(fst req, snd req @ ''-card'')" "gl_uuid L" card_codec ?z got]
      c(1) got(1) assms(5) g
    by (simp add: card_ops_def quiet_def card_key_def)
  let ?c1 = "got\<lparr>objSpec := Some (card_spec ?p g), objMeta := (objMeta got)\<lparr>OwnerReferences := refs\<rparr>\<rparr>"
  have f: "mutate_card L (greeting_message ?p g) g got = Inr ?c1"
    using got(3) by (simp add: mutate_card_def SetControllerReference_def card_spec_def)
  have same: "same_card got ?c1"
    using got(2,4) by (cases got) (simp add: same_card_def canon_owners_def)
  have cou: "gl_cou L (card_ops L env) (mutate_card L (greeting_message ?p g) g) ?z w = (w, ?c1, Inr OperationResultNone)"
    using assms(3) [unfolded create_or_update_law_def, rule_format, OF keeps_key_mutate [of L "greeting_message ?p g" g],
      of "card_ops L env" ?z w] cget f same
    by simp
  let ?g = "g\<lparr>objStatus := Some (ready_status ?p g)\<rparr>"
  have ver: "0 < ObjectVersion r" "ObjectVersion r < 2 ^ 63" using assms(7) r(1) by (simp_all add: version_fits_def)
  have v2: "parseResourceVersion ?g = Inr (ObjectVersion r)"
    using ver g(3) by (intro parse_own_version) simp_all
  have e: "extractStatus greeting_codec ?g = Inr st" using r(4) by (simp add: extractStatus_def)
  have row: "get_row (wdb w) (gvkToString greeting_gvk, objNamespace ?g, objName ?g) = Some r"
    using r(1) g by (simp add: greeting_key_def)
  have v0: "ObjectVersion r \<noteq> 0" using ver by simp
  obtain w' where "StatusUpdate (reStatus env) (gl_own L) (gl_uuid L) greeting_codec (Scheme ''Greeting'') [] ?g w =
      (w', ?g\<lparr>objRV := FormatInt (ObjectVersion r)\<rparr>, None)" "rows (wdb w') = rows (wdb w)"
    by (rule StatusUpdate_unchanged [OF assms(6) scheme_kinds(1) v2 v0 e row r(5)])
  then show ?thesis using get del cou g assms(2) by (simp add: Reconcile_def alone_def Let_def)
qed


text \<open>What can keep a card from being written: a row that does not decode, a version that cannot grow.\<close>

definition card_writable :: "greeting_lib \<Rightarrow> string \<times> string \<Rightarrow> db \<Rightarrow> bool" where
  "card_writable L nsname d \<longleftrightarrow> (\<forall>c. get_row d (card_key nsname) = Some c \<longrightarrow>
     0 < ObjectVersion c \<and> ObjectVersion c + 1 < 2 ^ 63 \<and>
     (\<not> isFullyDeleted (gl_own L) c \<longrightarrow>
        (\<exists>got. populateObject (gl_own L) (gl_uuid L) card_codec c card_gvk zero_card = Inr got)))"

text \<open>On a working connection CreateOrUpdate succeeds, when there is no live card and when there is one.\<close>

lemma mutate_card_total:
  assumes "\<And>ow refs. \<exists>refs'. gl_setref L ow refs = Inr refs'"
  obtains c1 refs where "mutate_card L m g c = Inr c1"
    "c1 = c\<lparr>objSpec := Some \<lparr>csGreetingName = objName g, csMessage = m\<rparr>, objMeta := (objMeta c)\<lparr>OwnerReferences := refs\<rparr>\<rparr>"
  using assms [of "(objNamespace g, objName g, objUID g)" "OwnerReferences (objMeta c)"]
  by (auto simp: mutate_card_def SetControllerReference_def)

definition card_named :: "greeting \<Rightarrow> card" where
  "card_named g = zero_card\<lparr>objName := objName g @ ''-card'', objNamespace := objNamespace g\<rparr>"

lemma card_missing_succeeds:
  assumes "spares (reBeforeWrite env) (objNamespace g, objName g)" "create_or_update_law (gl_cou L)"
    and "quiet (reCardGet env)" "quiet (reCardWrite env)" "\<And>ow refs. \<exists>refs'. gl_setref L ow refs = Inr refs'"
    and "card_meta_ok L (objNamespace g, objName g) (wdb w)"
    and "\<And>c. get_row (wdb w) (card_key (objNamespace g, objName g)) = Some c \<Longrightarrow> isFullyDeleted (gl_own L) c"
  obtains w1 c' res where "gl_cou L (card_ops L env) (mutate_card L m g) (card_named g) w = (w1, c', Inr res)"
proof -
  let ?k = "card_key (objNamespace g, objName g)"
  obtain c1 refs where c1: "mutate_card L m g (card_named g) = Inr c1"
    "c1 = (card_named g)\<lparr>objSpec := Some \<lparr>csGreetingName = objName g, csMessage = m\<rparr>,
       objMeta := (objMeta (card_named g))\<lparr>OwnerReferences := refs\<rparr>\<rparr>"
    by (rule mutate_card_total [OF assms(5)])
  have "cGet (card_ops L env) (objNamespace (card_named g), objName (card_named g)) (card_named g) w =
      (card_named g, Some (not_found card_gvk (objName g @ ''-card'')))"
    using assms(3,7) by (auto simp: card_ops_def card_named_def Get_def query_row_def quiet_def card_key_def split: option.split)
  moreover obtain sp st where "extractSpecStatus card_codec c1 = Inr (sp, st)"
    unfolding c1(2)
    by (simp add: extractSpecStatus_def extractSpec_def extractStatus_def card_codec_def card_named_def zero_card_def zero_object_def)
  then obtain w1 c' where "Create (reCardWrite env) (gl_own L) (gl_uuid L) card_codec (Scheme ''GreetingCard'') [] [] c1
      (reBeforeWrite env w) = (w1, c', None)"
  proof (rule Create_accepted [OF assms(4) scheme_kinds(2)])
    fix e
    assume "get_row (wdb (reBeforeWrite env w)) (gvkToString card_gvk, objNamespace c1, objName c1) = Some e"
    then have "get_row (wdb (reBeforeWrite env w)) ?k = Some e" by (simp add: c1(2) card_named_def card_key_def)
    then have e: "get_row (wdb w) ?k = Some e" using sparesD(3) [OF assms(1)] by simp
    then have "meta_written (gl_own L) (Metadata e)" using assms(6) by (simp add: card_meta_ok_def)
    then show "is_true (tombstone_filter e)" using assms(7) [OF e] fully_deleted_iff_tombstone by blast
  qed
  moreover have "is_not_found (not_found card_gvk (objName g @ ''-card''))" by (simp add: not_found_def)
  moreover note assms(2) [unfolded create_or_update_law_def, rule_format, OF keeps_key_mutate [of L m g], of "card_ops L env" "card_named g" w]
  ultimately show ?thesis using that c1(1) by (simp add: card_ops_def cou_result_def)
qed

lemma card_found_succeeds:
  assumes "spares (reBeforeWrite env) (objNamespace g, objName g)" "create_or_update_law (gl_cou L)"
    and "quiet (reCardGet env)" "quiet (reCardWrite env)" "\<And>ow refs. \<exists>refs'. gl_setref L ow refs = Inr refs'"
    and "get_row (wdb w) (card_key (objNamespace g, objName g)) = Some c" "\<not> isFullyDeleted (gl_own L) c"
    and "populateObject (gl_own L) (gl_uuid L) card_codec c card_gvk zero_card = Inr got"
    and "0 < ObjectVersion c" "ObjectVersion c + 1 < 2 ^ 63" "meta_written (gl_own L) (Metadata c)"
  obtains w1 c' res where "gl_cou L (card_ops L env) (mutate_card L m g) (card_named g) w = (w1, c', Inr res)"
proof -
  let ?k = "card_key (objNamespace g, objName g)"
  have names: "objName got = objName g @ ''-card''" "objNamespace got = objNamespace g" "objRV got = FormatInt (ObjectVersion c)"
    using populate_key [OF assms(8), of "wdb w" "gvkToString card_gvk" "objNamespace g" "objName g @ ''-card''"] assms(6)
    by (simp_all add: card_key_def)
  have g: "cGet (card_ops L env) (objNamespace (card_named g), objName (card_named g)) (card_named g) w = (got, None)"
    using Get_finds [OF scheme_kinds(2) _ _ _ assms(7), of "reCardGet env" "wdb w" "(objNamespace g, objName g @ ''-card'')"
        "gl_uuid L" card_codec "card_named g" got] assms(3,6,8)
    by (simp add: card_ops_def card_named_def quiet_def card_key_def)
  obtain c1 refs where c1: "mutate_card L m g got = Inr c1"
    "c1 = got\<lparr>objSpec := Some \<lparr>csGreetingName = objName g, csMessage = m\<rparr>, objMeta := (objMeta got)\<lparr>OwnerReferences := refs\<rparr>\<rparr>"
    by (rule mutate_card_total [OF assms(5)])
  have v: "parseResourceVersion c1 = Inr (ObjectVersion c)"
    by (rule parse_own_version) (use names(3) assms(9,10) c1(2) in simp_all)
  have sp: "extractSpec card_codec c1 = Inr (JObj [(''greetingName'', JStr (objName g)), (''message'', JStr m)])"
    by (simp add: extractSpec_def c1(2) card_codec_def)
  have row: "get_row (wdb (reBeforeWrite env w)) (gvkToString card_gvk, objNamespace c1, objName c1) = Some c"
    using assms(6) names sparesD(3) [OF assms(1), of w] by (simp add: c1(2) card_key_def)
  have live: "\<not> is_true (tombstone_filter c)" using assms(7,11) fully_deleted_iff_tombstone by blast
  have v0: "ObjectVersion c \<noteq> 0" using assms(9) by simp
  obtain w1 c' where "Update (reCardWrite env) (gl_own L) (gl_uuid L) card_codec (Scheme ''GreetingCard'') [] c1
      (reBeforeWrite env w) = (w1, c', None)"
    by (rule Update_accepted [OF assms(4) scheme_kinds(2) v v0 sp row live assms(10)])
  moreover note assms(2) [unfolded create_or_update_law_def, rule_format, OF keeps_key_mutate [of L m g], of "card_ops L env" "card_named g" w]
  ultimately show ?thesis using that g c1(1)
    by (cases "same_card got c1") (simp_all add: card_ops_def cou_result_def)
qed

lemma card_succeeds:
  assumes "spares (reBeforeWrite env) (objNamespace g, objName g)" "create_or_update_law (gl_cou L)"
    and "quiet (reCardGet env)" "quiet (reCardWrite env)" "\<And>ow refs. \<exists>refs'. gl_setref L ow refs = Inr refs'"
    and "card_meta_ok L (objNamespace g, objName g) (wdb w)" "card_writable L (objNamespace g, objName g) (wdb w)"
  obtains w1 c' res where "gl_cou L (card_ops L env) (mutate_card L m g) (card_named g) w = (w1, c', Inr res)"
proof (cases "\<exists>c. get_row (wdb w) (card_key (objNamespace g, objName g)) = Some c \<and> \<not> isFullyDeleted (gl_own L) c")
  case False
  then have "isFullyDeleted (gl_own L) c" if "get_row (wdb w) (card_key (objNamespace g, objName g)) = Some c" for c
    using that by blast
  from card_missing_succeeds [OF assms(1-6) this that] show ?thesis .
next
  case True
  then obtain c got where "get_row (wdb w) (card_key (objNamespace g, objName g)) = Some c" "\<not> isFullyDeleted (gl_own L) c"
    "populateObject (gl_own L) (gl_uuid L) card_codec c card_gvk zero_card = Inr got"
    "0 < ObjectVersion c" "ObjectVersion c + 1 < 2 ^ 63" "meta_written (gl_own L) (Metadata c)"
    using assms(6,7) unfolding card_writable_def card_meta_ok_def by blast
  from card_found_succeeds [OF assms(1-5) this that] show ?thesis .
qed

text \<open>Reconcile makes progress: over a working connection, on a greeting that is there and decodes, with
  a card that is missing, deleted or decodes too, and an owner reference that can be set, it
  returns no error.\<close>

lemma Reconcile_returns:
  assumes "wf_db (wdb w)" "others_spare env req" "create_or_update_law (gl_cou L)" "owner_law L"
    and "quiet (reGet env)" "quiet (reCardGet env)" "quiet (reCardWrite env)" "quiet (reStatus env)"
    and "\<And>ow refs. \<exists>refs'. gl_setref L ow refs = Inr refs'"
    and "get_row (wdb w) (greeting_key req) = Some r" "DeletionTimestamp r = None"
    and "populateObject (gl_own L) (gl_uuid L) greeting_codec r greeting_gvk zero_greeting = Inr g"
    and "0 < ObjectVersion r" "ObjectVersion r + 1 < 2 ^ 63"
    and "card_meta_ok L req (wdb w)" "card_writable L req (wdb w)"
  shows "\<exists>w'. Reconcile L env req w = (w', None)"
proof -
  let ?p = "getPrefix L (reList env) (reXmin env) (fst req) (wdb (reBeforeList env w))"
  have names: "objName g = snd req" "objNamespace g = fst req" "objRV g = FormatInt (ObjectVersion r)"
    using populate_key [OF assms(12), of "wdb w" "gvkToString greeting_gvk" "fst req" "snd req"] assms(10)
    by (simp_all add: greeting_key_def)
  have get: "Get (reGet env) (gl_own L) (gl_uuid L) greeting_codec (Scheme ''Greeting'') (wdb w) req zero_greeting = (g, None)"
    using Get_finds [OF scheme_kinds(1) _ _ _ _ assms(12)] assms(5,10,11)
    by (simp add: quiet_def greeting_key_def isFullyDeleted_def)
  have del: "objDeletion g = None"
    using populate_deletion [OF assms(12)] assms(11) by (simp add: zero_greeting_def zero_object_def)
  have reqg: "(objNamespace g, objName g) = req" using names by simp
  let ?wc = "reBeforeCard env (reBeforeList env w)"
  have sp: "spares (reBeforeList env) req" "spares (reBeforeCard env) req" "spares (reBeforeWrite env) req"
    "spares (reBeforeStatus env) req" using assms(2) by (simp_all add: others_spare_def)
  have wc: "wf_db (wdb ?wc)" "card_meta_ok L req (wdb ?wc)" "card_writable L req (wdb ?wc)"
    using assms(1,15,16) sp(1,2) by (simp_all add: sparesD card_meta_ok_def card_writable_def)
  obtain w1 c' res where cou: "gl_cou L (card_ops L env) (mutate_card L (greeting_message ?p g) g)
      (zero_card\<lparr>objName := objName g @ ''-card'', objNamespace := objNamespace g\<rparr>) ?wc = (w1, c', Inr res)"
    using card_succeeds [OF _ assms(3,6,7,9), of g ?wc "greeting_message ?p g"] sp(3) wc(2,3) unfolding reqg card_named_def by metis
  obtain w0 where "w0 = ?wc \<or> w0 = reBeforeWrite env ?wc" "one_row (card_key req) (wdb w0) (wdb w1)"
    using card_step [OF wc(1) _ assms(3,4) _ cou] wc(2) sp(3) unfolding card_step_ok_def reqg by blast
  then have row: "get_row (wdb (reBeforeStatus env w1)) (greeting_key req) = Some r"
    using one_row_get [of "card_key req" "wdb w0" "wdb w1" "greeting_key req"] sp assms(10) by (auto simp: sparesD)
  let ?g = "g\<lparr>objStatus := Some (ready_status ?p g)\<rparr>"
  have v: "parseResourceVersion ?g = Inr (ObjectVersion r)"
    by (rule parse_own_version) (use names(3) assms(13,14) in simp_all)
  have e: "\<exists>st. extractStatus greeting_codec ?g = Inr st" by (simp add: extractStatus_def greeting_codec_def)
  then obtain st where st: "extractStatus greeting_codec ?g = Inr st" by blast
  have row2: "get_row (wdb (reBeforeStatus env w1)) (gvkToString greeting_gvk, objNamespace ?g, objName ?g) = Some r"
    using row names by (simp add: greeting_key_def)
  have v0: "ObjectVersion r \<noteq> 0" using assms(13) by simp
  obtain w2 g2 where "StatusUpdate (reStatus env) (gl_own L) (gl_uuid L) greeting_codec (Scheme ''Greeting'') [] ?g (reBeforeStatus env w1) = (w2, g2, None)"
    by (rule StatusUpdate_accepted [OF assms(8) scheme_kinds(1) v v0 st row2 assms(14)])
  then show ?thesis using get del cou names by (simp add: Reconcile_def Let_def)
qed

section \<open>Reconciling settles and stays settled\<close>

text \<open>The prefix depends on the rows of the policies only.\<close>

definition policy_gvk :: gvk where
  "policy_gvk = \<lparr>gGroup = ''greeting.example.com'', gVersion = ''v1alpha1'', gKind = ''GreetingPolicy''\<rparr>"

definition policy_rows :: "db \<Rightarrow> resource list" where
  "policy_rows d = filter (\<lambda>r. GVK r = gvkToString policy_gvk) (rows d)"

lemma policy_list_kind [simp]:
  "resolveGVK (Scheme ''GreetingPolicyList'') = Inr (policy_gvk\<lparr>gKind := ''GreetingPolicyList''\<rparr>)"
  "itemGVKFromListGVK (policy_gvk\<lparr>gKind := ''GreetingPolicyList''\<rparr>) = policy_gvk"
  by (simp_all add: Scheme_def SchemeBuilder_def GroupVersion_def policy_gvk_def itemGVKFromListGVK_def trim_suffix_def)

lemma List_of_policies:
  "Resources (List \<lparr>s_db = d, s_xmin = x\<rparr> (gvkToString policy_gvk) flt) =
   Resources (List \<lparr>s_db = d\<lparr>rows := policy_rows d\<rparr>, s_xmin = x'\<rparr> (gvkToString policy_gvk) flt)"
proof -
  have "filter (\<lambda>r. GVK r = gvkToString policy_gvk \<and> P r) (policy_rows d) = filter (\<lambda>r. GVK r = gvkToString policy_gvk \<and> P r) (rows d)"
    for P
    unfolding policy_rows_def filter_filter by (rule filter_cong) auto
  then show ?thesis by (simp add: List_def Let_def)
qed

lemma getPrefix_depends:
  assumes "quiet env" "quiet env'" "policy_rows d = policy_rows d'"
  shows "getPrefix L env x ns d = getPrefix L env' x' ns d'"
proof -
  have same: "Resources (List \<lparr>s_db = d, s_xmin = x\<rparr> (gvkToString policy_gvk) flt) =
      Resources (List \<lparr>s_db = d', s_xmin = x'\<rparr> (gvkToString policy_gvk) flt)" for flt
    using List_of_policies [of d x flt x'] List_of_policies [of d' x' flt x'] assms(3) by (simp add: List_def)
  have "snd (list_policies L env x ns d) = snd (list_policies L env' x' ns d') \<and>
      tlItems (fst (list_policies L env x ns d)) = tlItems (fst (list_policies L env' x' ns d'))"
    using assms(1,2)
    by (simp add: list_policies_def ListInto_def ClientList_def quiet_def Let_def same split: sum.split prod.split option.split)
  then show ?thesis by (auto simp: getPrefix_def split: prod.split option.split)
qed

lemma one_row_policies:
  "one_row k d d' \<Longrightarrow> fst k \<noteq> gvkToString policy_gvk \<Longrightarrow> policy_rows d' = policy_rows d"
  unfolding policy_rows_def by (erule one_row_filter) (auto simp: rkey_def)

lemma keys_no_policy [simp]:
  "fst (greeting_key req) \<noteq> gvkToString policy_gvk" "fst (card_key req) \<noteq> gvkToString policy_gvk"
  by (simp_all add: greeting_key_def card_key_def gvkToString_def greeting_gvk_def card_gvk_def policy_gvk_def)

text \<open>Every call reaches the database, and nobody else writes.\<close>

definition working :: "reconcile_env \<Rightarrow> bool" where
  "working env \<longleftrightarrow> alone env \<and> quiet (reGet env) \<and> quiet (reList env) \<and> quiet (reCardGet env) \<and>
     quiet (reCardWrite env) \<and> quiet (reStatus env)"

lemma settled_rows: "rows d = rows d' \<Longrightarrow> settled L p req d = settled L p req d'"
  by (simp add: settled_def get_row_def)


section \<open>Policies\<close>

text \<open>A successful List of one namespace holds the objects of its live rows, oldest write first.\<close>

definition live_rows :: "gvk \<Rightarrow> string \<Rightarrow> db \<Rightarrow> resource list" where
  "live_rows g ns d = sort_key TxidStamp
     (filter (\<lambda>r. GVK r = gvkToString g \<and> Namespace r = ns \<and> \<not> is_true (tombstone_filter r)) (rows d))"

lemma list_items_all:
  "list_items conv None rs = Inr objs \<Longrightarrow> list_all2 (\<lambda>r x. conv r = Inr x) rs objs"
  by (induction rs arbitrary: objs) (auto split: sum.splits)

lemma ClientList_namespace:
  assumes "ClientList env own us cd new jt kinds (in_namespace ns) \<lparr>s_db = d, s_xmin = x\<rparr> = Inr res"
    and "resolveGVK kinds = Inr lg" "ns \<noteq> []"
  shows "list_all2 (\<lambda>r obj. resourceToObject own us cd new r = Inr obj) (live_rows (itemGVKFromListGVK lg) ns d) (Items res)"
proof -
  let ?f = "\<lparr>WhereClauses = [\<lambda>r. Some (Namespace r = ns)], Limit = 0, Offset = 0\<rparr>"
  have "buildListFilter jt (in_namespace ns) = Inr (Some ?f)"
    using assms(3) by (simp add: buildListFilter_def in_namespace_def)
  moreover have "Resources (List \<lparr>s_db = d, s_xmin = x\<rparr> (gvkToString (itemGVKFromListGVK lg)) (Some ?f)) =
      live_rows (itemGVKFromListGVK lg) ns d"
    by (simp add: List_def live_rows_def paginate_def list_filter_iff conj_comms)
  ultimately show ?thesis
    using assms(1,2) list_items_all
    by (auto simp: ClientList_def Let_def in_namespace_def split: option.splits sum.splits)
qed

lemma list_kinds [simp]:
  "resolveGVK (Scheme ''GreetingList'') = Inr (greeting_gvk\<lparr>gKind := ''GreetingList''\<rparr>)"
  "itemGVKFromListGVK (greeting_gvk\<lparr>gKind := ''GreetingList''\<rparr>) = greeting_gvk"
  by (simp_all add: Scheme_def SchemeBuilder_def GroupVersion_def greeting_gvk_def itemGVKFromListGVK_def trim_suffix_def)

text \<open>A policy change reaches every greeting it concerns: when the List succeeds, the requests that an
  event of a policy enqueues are exactly the greetings of its namespace that are not deleted,
  each once, and none of another namespace.\<close>

lemma policy_requests:
  assumes "wf_db d" "objNamespace p \<noteq> []"
    and "list_greetings L env xmin (objNamespace p) d = (l, None)"
  shows "distinct (policyToGreetings L env xmin p d) \<and>
    set (policyToGreetings L env xmin p d) =
      {(objNamespace p, Name r) | r. r \<in> set (rows d) \<and> GVK r = gvkToString greeting_gvk \<and>
         Namespace r = objNamespace p \<and> \<not> is_true (tombstone_filter r)}"
proof -
  let ?rs = "live_rows greeting_gvk (objNamespace p) d"
  let ?conv = "resourceToObject (gl_own L) (gl_uuid L) greeting_codec (new_of ''Greeting'' zero_greeting)"
  have into: "ListInto env (gl_own L) (gl_uuid L) greeting_codec (new_of ''Greeting'' zero_greeting) (gl_text L)
       (Scheme ''GreetingList'') (in_namespace (objNamespace p)) \<lparr>s_db = d, s_xmin = xmin\<rparr> (Ptr (Named ''Greeting''))
       (empty_list ''GreetingList'' ''Greeting'') = (l, None)"
    using assms(3) by (simp add: list_greetings_def)
  have field: "tlField (empty_list ''GreetingList'' ''Greeting'') = SliceOf (Named ''Greeting'')" by (simp add: empty_list_def)
  obtain res where res: "ClientList env (gl_own L) (gl_uuid L) greeting_codec (new_of ''Greeting'' zero_greeting) (gl_text L)
      (Scheme ''GreetingList'') (in_namespace (objNamespace p)) \<lparr>s_db = d, s_xmin = xmin\<rparr> = Inr res"
    "tlItems l = Items res"
    using typed_list_exact [OF field into] by (auto split: sum.splits)
  have all: "list_all2 (\<lambda>r obj. ?conv r = Inr obj) ?rs (tlItems l)"
    using ClientList_namespace [OF res(1) list_kinds(1) assms(2)] res(2) by simp
  have nm: "objName obj = Name r \<and> objNamespace obj = Namespace r" if "?conv r = Inr obj" for r obj
    using that by (auto simp: resourceToObject_def split: sum.splits dest: populate_names)
  have "map (\<lambda>g. (objNamespace g, objName g)) objs = map (\<lambda>r. (Namespace r, Name r)) rs"
    if "list_all2 (\<lambda>r obj. ?conv r = Inr obj) rs objs" for rs objs
    using that by (induction rule: list_all2_induct) (use nm in auto)
  with all assms(3) have eq: "policyToGreetings L env xmin p d = map (\<lambda>r. (Namespace r, Name r)) ?rs"
    by (simp add: policyToGreetings_def)
  have "distinct (map rkey ?rs)"
    using assms(1) by (simp add: live_rows_def wf_db_def distinct_filter_keys distinct_sort_key)
  then have "distinct (map (\<lambda>r. (Namespace r, Name r)) ?rs)"
    by (auto simp: distinct_map inj_on_def rkey_def live_rows_def)
  then show ?thesis unfolding eq by (auto simp: live_rows_def)
qed


section \<open>All greetings of a namespace\<close>

lemma StatusUpdate_wf:
  assumes "wf_db (wdb w)" "StatusUpdate env own us cd kinds dryRun obj w = (w', obj', err)" "resolveGVK kinds = Inr g"
  shows "wf_db (wdb w')"
  using StatusUpdate_path [OF assms(2,3)] assms(1) by (metis fst_stored_proc_path_wf)

lemma cou_wf:
  assumes "create_or_update_law cou" "keeps_key f" "wf_db (wdb w)"
    and "\<And>c1 w1 c' err. cCreate ops c1 w = (w1, c', err) \<Longrightarrow> wf_db (wdb w1)"
    and "\<And>c1 w1 c' err. cUpdate ops c1 w = (w1, c', err) \<Longrightarrow> wf_db (wdb w1)"
  shows "wf_db (wdb (fst (cou ops f c w)))"
proof -
  have res: "fst (cou_result op r) = fst r" for op and r :: "unit world \<times> card \<times> api_err option"
    by (auto simp: cou_result_def split: prod.split option.split)
  have cr: "wf_db (wdb (fst (cCreate ops c1 w)))" and up: "wf_db (wdb (fst (cUpdate ops c1 w)))" for c1
    using assms(4,5) by (metis prod.collapse)+
  obtain got err where get: "cGet ops (objNamespace c, objName c) c w = (got, err)" by fastforce
  note law = assms(1) [unfolded create_or_update_law_def, rule_format, OF assms(2), of ops c w, unfolded get]
  show ?thesis
  proof (cases err)
    case None
    then show ?thesis using law assms(3) up by (auto simp: res split: sum.splits if_splits)
  next
    case (Some e)
    then show ?thesis using law assms(3) cr by (auto simp: res split: sum.splits if_splits)
  qed
qed

lemma Reconcile_wf:
  assumes "wf_db (wdb w)" "others_spare env req" "create_or_update_law (gl_cou L)"
  shows "wf_db (wdb (fst (Reconcile L env req w)))"
proof -
  let ?wc = "reBeforeCard env (reBeforeList env w)"
  have sp: "spares (reBeforeList env) req" "spares (reBeforeCard env) req" "spares (reBeforeWrite env) req"
    "spares (reBeforeStatus env) req" using assms(2) by (simp_all add: others_spare_def)
  have wc: "wf_db (wdb ?wc)" using assms(1) sp(1,2) by (simp add: sparesD)
  have cou: "wf_db (wdb w1)" if "gl_cou L (card_ops L env) (mutate_card L m g) c ?wc = (w1, c', x)" for m g c w1 c' x
  proof -
    have bw: "wf_db (wdb (reBeforeWrite env ?wc))" by (rule sparesD(1) [OF sp(3) wc])
    have "wf_db (wdb (fst (gl_cou L (card_ops L env) (mutate_card L m g) c ?wc)))"
      by (rule cou_wf [OF assms(3) keeps_key_mutate wc])
        (simp_all add: card_ops_def, (erule Create_wf [OF bw] Update_wf [OF bw])+)
    then show ?thesis by (simp add: that)
  qed
  have st: "wf_db (wdb w2)" if "StatusUpdate (reStatus env) (gl_own L) (gl_uuid L) greeting_codec (Scheme ''Greeting'') [] obj
      (reBeforeStatus env w1) = (w2, obj', err)" "wf_db (wdb w1)" for obj w1 w2 obj' err
    by (rule StatusUpdate_wf [OF _ that(1) scheme_kinds(1)]) (use sparesD(1) [OF sp(4)] that(2) in blast)
  show ?thesis
    using assms(1) cou st by (auto simp: Reconcile_def Let_def split: prod.split option.split sum.split)
qed

lemma Reconcile_dying:
  assumes "get_row (wdb w) (greeting_key req) = Some r" "DeletionTimestamp r \<noteq> None"
  shows "fst (Reconcile L env req w) = w"
proof -
  have "objDeletion g \<noteq> None" if get: "Get (reGet env) (gl_own L) (gl_uuid L) greeting_codec (Scheme ''Greeting'') (wdb w) req zero_greeting = (g, None)" for g
  proof -
    obtain r' where r': "get_row (wdb w) (gvkToString greeting_gvk, req) = Some r'"
      "populateObject (gl_own L) (gl_uuid L) greeting_codec r' greeting_gvk zero_greeting = Inr g"
      using Get_success [OF get scheme_kinds(1)] by blast
    then have "r' = r" using assms(1) by (simp add: greeting_key_def)
    then show ?thesis using populate_deletion [OF r'(2)] assms(2) by (simp add: zero_greeting_def zero_object_def)
  qed
  then show ?thesis by (auto simp: Reconcile_def split: prod.split option.split)
qed

text \<open>A live greeting whose rows decode and whose versions can grow; and one that is settled for good.\<close>

definition reconcilable :: "greeting_lib \<Rightarrow> string \<times> string \<Rightarrow> db \<Rightarrow> bool" where
  "reconcilable L req d \<longleftrightarrow>
     (\<exists>r g. get_row d (greeting_key req) = Some r \<and> DeletionTimestamp r = None \<and>
        populateObject (gl_own L) (gl_uuid L) greeting_codec r greeting_gvk zero_greeting = Inr g \<and>
        0 < ObjectVersion r \<and> ObjectVersion r + 1 < 2 ^ 63) \<and>
     card_meta_ok L req d \<and> card_writable L req d"

definition finished :: "greeting_lib \<Rightarrow> string \<Rightarrow> string \<times> string \<Rightarrow> db \<Rightarrow> bool" where
  "finished L p req d \<longleftrightarrow> settled L p req d \<and> version_fits (greeting_key req) d"

definition terminating :: "string \<times> string \<Rightarrow> db \<Rightarrow> bool" where
  "terminating req d \<longleftrightarrow> (\<exists>r. get_row d (greeting_key req) = Some r \<and> DeletionTimestamp r \<noteq> None)"

lemma depends_on_rows:
  assumes "get_row d' (greeting_key req) = get_row d (greeting_key req)" "get_row d' (card_key req) = get_row d (card_key req)"
  shows "reconcilable L req d' = reconcilable L req d" "finished L p req d' = finished L p req d" "terminating req d' = terminating req d"
  using assms by (simp_all add: reconcilable_def finished_def terminating_def settled_def version_fits_def card_meta_ok_def card_writable_def)

lemma other_keys:
  "req \<noteq> req' \<Longrightarrow> greeting_key req \<noteq> greeting_key req' \<and> card_key req \<noteq> card_key req'"
  by (cases req; cases req') (auto simp: greeting_key_def card_key_def)

definition same_elsewhere :: "string \<times> string \<Rightarrow> db \<Rightarrow> db \<Rightarrow> bool" where
  "same_elsewhere req d d' \<longleftrightarrow> policy_rows d' = policy_rows d \<and>
     (\<forall>k. k \<noteq> greeting_key req \<longrightarrow> k \<noteq> card_key req \<longrightarrow> get_row d' k = get_row d k)"

text \<open>One Reconcile of one of them settles it and leaves the other greetings and the policies alone.\<close>

lemma Reconcile_one:
  assumes "wf_db (wdb w)" "create_or_update_law (gl_cou L)" "owner_law L" "working env"
    and "\<And>ow refs. \<exists>refs'. gl_setref L ow refs = Inr refs'"
    and "p = getPrefix L (reList env) (reXmin env) (fst req) (wdb w)"
    and "reconcilable L req (wdb w) \<or> finished L p req (wdb w)"
  shows "finished L p req (wdb (fst (Reconcile L env req w))) \<and> same_elsewhere req (wdb w) (wdb (fst (Reconcile L env req w)))"
proof -
  have a: "alone env" and q: "quiet (reGet env)" "quiet (reList env)" "quiet (reCardGet env)" "quiet (reCardWrite env)"
    "quiet (reStatus env)" using assms(4) by (simp_all add: working_def)
  show ?thesis
  proof (cases "finished L p req (wdb w)")
    case True
    then obtain w' where w': "Reconcile L env req w = (w', None)" "rows (wdb w') = rows (wdb w)"
      using Reconcile_stable [of L env req w] a q assms(2,6) by (auto simp: finished_def)
    then have "get_row (wdb w') = get_row (wdb w)" "policy_rows (wdb w') = policy_rows (wdb w)"
      by (simp_all add: get_row_def policy_rows_def fun_eq_iff)
    then show ?thesis using True w'(1) depends_on_rows(2) [of "wdb w'" req "wdb w" L p] by (simp add: same_elsewhere_def)
  next
    case False
    then obtain r g where r: "get_row (wdb w) (greeting_key req) = Some r" "DeletionTimestamp r = None"
      "populateObject (gl_own L) (gl_uuid L) greeting_codec r greeting_gvk zero_greeting = Inr g"
      "0 < ObjectVersion r" "ObjectVersion r + 1 < 2 ^ 63" "card_meta_ok L req (wdb w)" "card_writable L req (wdb w)"
      using assms(7) unfolding reconcilable_def by blast
    obtain w' where run: "Reconcile L env req w = (w', None)"
      using Reconcile_returns [OF assms(1) alone_spares [OF a] assms(2,3) q(1,3-5) assms(5) r] by blast
    have "version_fits (greeting_key req) (wdb w)" using r(1,4,5) by (simp add: version_fits_def)
    note fit = this
    have id: "reBeforeList env = id" "reBeforeCard env = id" "reBeforeWrite env = id" "reBeforeStatus env = id"
      using a by (simp_all add: alone_def)
    show ?thesis
      unfolding run fst_conv
    proof (rule Reconcile_settles [OF assms(1) alone_spares [OF a] assms(2,3) r(6) run r(1,2), unfolded id id_apply])
      fix w0 w1
      assume w0: "w0 = w \<or> w0 = w" and rows: "one_row (card_key req) (wdb w0) (wdb w1)" "one_row (greeting_key req) (wdb w1) (wdb w')"
        and s: "settled L (getPrefix L (reList env) (reXmin env) (fst req) (wdb w)) req (wdb w')"
        and v: "version_fits (greeting_key req) (wdb w) \<Longrightarrow> version_fits (greeting_key req) (wdb w')"
      have "policy_rows (wdb w') = policy_rows (wdb w)"
        using one_row_policies [OF rows(2)] one_row_policies [OF rows(1)] w0 by simp
      moreover have "get_row (wdb w') k = get_row (wdb w) k" if "k \<noteq> greeting_key req" "k \<noteq> card_key req" for k
        using one_row_get_trans [OF rows that(2,1)] w0 by simp
      ultimately show "finished L p req (wdb w') \<and> same_elsewhere req (wdb w) (wdb w')"
        using s v [OF fit] assms(6) by (simp add: finished_def same_elsewhere_def)
    qed
  qed
qed

definition reconcile_all :: "greeting_lib \<Rightarrow> reconcile_env \<Rightarrow> (string \<times> string) list \<Rightarrow> unit world \<Rightarrow> unit world" where
  "reconcile_all L env reqs w = fold (\<lambda>req w. fst (Reconcile L env req w)) reqs w"

text \<open>Any list of requests, in any order and with repetitions, settles all that it names.\<close>

lemma reconcile_all_settles:
  assumes "create_or_update_law (gl_cou L)" "owner_law L" "working env" "\<And>ow refs. \<exists>refs'. gl_setref L ow refs = Inr refs'"
    and "wf_db (wdb w)" "\<And>ns. p ns = getPrefix L (reList env) (reXmin env) ns (wdb w)"
    and "\<And>req. req \<in> set reqs \<Longrightarrow> reconcilable L req (wdb w) \<or> finished L (p (fst req)) req (wdb w) \<or> terminating req (wdb w)"
    and "finished L (p (fst req0)) req0 (wdb w) \<or> req0 \<in> set reqs \<and> \<not> terminating req0 (wdb w)"
  shows "finished L (p (fst req0)) req0 (wdb (reconcile_all L env reqs w)) \<and>
    policy_rows (wdb (reconcile_all L env reqs w)) = policy_rows (wdb w)"
  using assms(5-8)
proof (induction reqs arbitrary: w)
  case (Cons req reqs)
  let ?w = "fst (Reconcile L env req w)"
  have q: "alone env" "quiet (reList env)" using assms(3) by (simp_all add: working_def)
  have wf: "wf_db (wdb ?w)" by (rule Reconcile_wf [OF Cons.prems(1) alone_spares [OF q(1)] assms(1)])
  have one: "same_elsewhere req (wdb w) (wdb ?w) \<and> (\<not> terminating req (wdb w) \<longrightarrow> finished L (p (fst req)) req (wdb ?w)) \<and>
      (terminating req (wdb w) \<longrightarrow> ?w = w)"
  proof (cases "terminating req (wdb w)")
    case True
    then have "?w = w" using Reconcile_dying unfolding terminating_def by blast
    then show ?thesis using True by (simp add: same_elsewhere_def)
  next
    case False
    then have "reconcilable L req (wdb w) \<or> finished L (p (fst req)) req (wdb w)" using Cons.prems(3) [of req] by auto
    then show ?thesis using Reconcile_one [OF Cons.prems(1) assms(1-4) Cons.prems(2)] False by blast
  qed
  have other: "get_row (wdb ?w) (greeting_key r) = get_row (wdb w) (greeting_key r) \<and>
      get_row (wdb ?w) (card_key r) = get_row (wdb w) (card_key r)" if "r \<noteq> req" for r
    using one other_keys [OF that] by (simp add: same_elsewhere_def)
  note keep = depends_on_rows [OF conjunct1 [OF other] conjunct2 [OF other]]
  have prefix: "p ns = getPrefix L (reList env) (reXmin env) ns (wdb ?w)" for ns
    unfolding Cons.prems(2) by (rule getPrefix_depends) (use q one in \<open>auto simp: same_elsewhere_def\<close>)
  have state: "reconcilable L r (wdb ?w) \<or> finished L (p (fst r)) r (wdb ?w) \<or> terminating r (wdb ?w)" if "r \<in> set reqs" for r
    using one Cons.prems(3) [of r] that by (cases "r = req") (auto simp: keep)
  have goal: "finished L (p (fst req0)) req0 (wdb ?w) \<or> req0 \<in> set reqs \<and> \<not> terminating req0 (wdb ?w)"
  proof (cases "req0 = req")
    case True
    then show ?thesis using one Cons.prems(4) by (cases "terminating req (wdb w)") auto
  next
    case False
    then show ?thesis using Cons.prems(4) by (auto simp: keep)
  qed
  have "policy_rows (wdb ?w) = policy_rows (wdb w)" using one by (simp add: same_elsewhere_def)
  then show ?case using Cons.IH [OF wf prefix state goal] by (simp add: reconcile_all_def)
qed (simp add: reconcile_all_def)


text \<open>A List that fails is no policy: one lost query makes the reconciler write the default greeting.\<close>

lemma lost_list_resets_prefix:
  "ce_acquire env \<noteq> None \<or> ce_query env \<noteq> None \<Longrightarrow> getPrefix L env xmin ns d = ''Hello''"
proof -
  assume "ce_acquire env \<noteq> None \<or> ce_query env \<noteq> None"
  then have "snd (list_policies L env xmin ns d) \<noteq> None"
    by (auto simp: list_policies_def ListInto_def ClientList_def split: option.splits sum.splits)
  then show ?thesis by (auto simp: getPrefix_def split: prod.splits)
qed

text \<open>A concrete library: CreateOrUpdate as documented, and owner references that are their owner's name.\<close>

definition ex_create_or_update ::
  "card_client \<Rightarrow> (card \<Rightarrow> string + card) \<Rightarrow> card \<Rightarrow> unit world \<Rightarrow> unit world \<times> card \<times> (api_err + operation_result)" where
  "ex_create_or_update ops f c w =
     (case cGet ops (objNamespace c, objName c) c w of
        (got, Some e) \<Rightarrow>
          if is_not_found e then
            (case f got of Inl m \<Rightarrow> (w, got, Inl (Plain m))
             | Inr c1 \<Rightarrow> cou_result OperationResultCreated (cCreate ops c1 w))
          else (w, got, Inl e)
      | (got, None) \<Rightarrow>
          (case f got of Inl m \<Rightarrow> (w, got, Inl (Plain m))
           | Inr c1 \<Rightarrow> if same_card got c1 then (w, c1, Inr OperationResultNone)
                     else cou_result OperationResultUpdated (cUpdate ops c1 w)))"

definition ex_set_owner :: "string \<times> string \<times> string \<Rightarrow> json list \<Rightarrow> string + json list" where
  "ex_set_owner owner refs =
     (if JStr (fst (snd owner)) \<in> set refs then Inr refs else Inr (refs @ [JStr (fst (snd owner))]))"

definition ex_greeting_lib :: greeting_lib where
  "ex_greeting_lib = \<lparr>gl_own = (\<lambda>_. True), gl_uuid = uidFromUUID, gl_text = (\<lambda>_. []),
     gl_setref = ex_set_owner, gl_cou = ex_create_or_update\<rparr>"

lemma ex_greeting_lib_laws: "create_or_update_law (gl_cou ex_greeting_lib)" "owner_law ex_greeting_lib"
proof -
  show "create_or_update_law (gl_cou ex_greeting_lib)"
    by (simp add: create_or_update_law_def ex_greeting_lib_def ex_create_or_update_def split: prod.split option.split sum.split)
  have "JStr x \<in> canon ` set refs" if "JStr x \<in> set refs" for x refs
    using that by (metis canon.simps imageI)
  then show "owner_law ex_greeting_lib"
    by (auto simp: owner_law_def ex_greeting_lib_def ex_set_owner_def)
qed

definition ex_reconcile_env :: reconcile_env where
  "ex_reconcile_env = \<lparr>reGet = ex_client_env, reList = ex_client_env, reCardGet = ex_client_env,
     reCardWrite = ex_client_env, reStatus = ex_client_env, reXmin = 10,
     reBeforeList = id, reBeforeCard = id, reBeforeWrite = id, reBeforeStatus = id\<rparr>"

definition ex_policy_row :: "string \<Rightarrow> string \<Rightarrow> txid \<Rightarrow> resource" where
  "ex_policy_row name prefix t = ex_row\<lparr>GVK := ''greeting.example.com/v1alpha1/GreetingPolicy'', Name := name,
     Spec := JObj [(''prefix'', JStr prefix)], TxidStamp := t\<rparr>"

definition ex_greeting_row :: resource where
  "ex_greeting_row = ex_row\<lparr>GVK := ''greeting.example.com/v1alpha1/Greeting'', Spec := JObj [(''name'', JStr ''Ann'')]\<rparr>"

definition ex_greeting_world :: "unit world" where
  "ex_greeting_world = \<lparr>wdb = ex_db\<lparr>rows := [ex_greeting_row]\<rparr>, wbell = None, wmet = None\<rparr>"

text \<open>
  List answers in the order of the last writes, so the policy that applies is the one that was
  edited longest ago: editing it makes another one apply.
\<close>

lemma editing_policy_switches_prefix:
  "getPrefix ex_greeting_lib ex_client_env 10 ''n'' (ex_db\<lparr>rows := [ex_policy_row ''a'' ''Hi'' 3, ex_policy_row ''b'' ''Yo'' 4]\<rparr>) = ''Hi''"
  "getPrefix ex_greeting_lib ex_client_env 10 ''n'' (ex_db\<lparr>rows := [ex_policy_row ''a'' ''Hey'' 5, ex_policy_row ''b'' ''Yo'' 4]\<rparr>) = ''Yo''"
  by code_simp+


lemma ex_greeting_wf: "wf_db (wdb ex_greeting_world)"
  by (simp add: ex_greeting_world_def wf_db_def ex_greeting_row_def)

lemma ex_set_owner_total: "\<exists>refs'. gl_setref ex_greeting_lib ow refs = Inr refs'"
  by (simp add: ex_greeting_lib_def ex_set_owner_def)

lemma ex_env_quiet:
  "quiet (reGet (ex_reconcile_env\<lparr>reBeforeList := f\<rparr>))" "quiet (reCardGet (ex_reconcile_env\<lparr>reBeforeList := f\<rparr>))"
  "quiet (reCardWrite (ex_reconcile_env\<lparr>reBeforeList := f\<rparr>))" "quiet (reStatus (ex_reconcile_env\<lparr>reBeforeList := f\<rparr>))"
  by (simp_all add: quiet_def ex_reconcile_env_def ex_client_env_def)

definition ex_greeting :: greeting where
  "ex_greeting = projr (populateObject (gl_own ex_greeting_lib) (gl_uuid ex_greeting_lib) greeting_codec ex_greeting_row greeting_gvk zero_greeting)"

lemma ex_greeting_ready:
  "get_row (wdb ex_greeting_world) (greeting_key (''n'', ''a'')) = Some ex_greeting_row"
  "DeletionTimestamp ex_greeting_row = None"
  "populateObject (gl_own ex_greeting_lib) (gl_uuid ex_greeting_lib) greeting_codec ex_greeting_row greeting_gvk zero_greeting =
     Inr ex_greeting"
  "0 < ObjectVersion ex_greeting_row" "ObjectVersion ex_greeting_row + 1 < 2 ^ 63"
  "card_meta_ok ex_greeting_lib (''n'', ''a'') (wdb ex_greeting_world)"
  "card_writable ex_greeting_lib (''n'', ''a'') (wdb ex_greeting_world)"
proof -
  have card: "get_row (wdb ex_greeting_world) (card_key (''n'', ''a'')) = None" by code_simp
  show "card_meta_ok ex_greeting_lib (''n'', ''a'') (wdb ex_greeting_world)"
    "card_writable ex_greeting_lib (''n'', ''a'') (wdb ex_greeting_world)"
    by (simp_all add: card_meta_ok_def card_writable_def card)
qed (code_simp+)

definition create_policy :: "unit world \<Rightarrow> unit world" where
  "create_policy w = w\<lparr>wdb := put_row (ex_policy_row ''a'' ''Hi'' (next_xid (wdb w)))
     ((wdb w)\<lparr>next_xid := next_xid (wdb w) + 1\<rparr>)\<rparr>"

text \<open>Somebody creates a policy just after the greeting was read.\<close>

theorem reconcile_settles_witness:
  "settled ex_greeting_lib ''Hi'' (''n'', ''a'')
     (wdb (fst (Reconcile ex_greeting_lib (ex_reconcile_env\<lparr>reBeforeList := create_policy\<rparr>) (''n'', ''a'') ex_greeting_world)))"
proof -
  let ?env = "ex_reconcile_env\<lparr>reBeforeList := create_policy\<rparr>"
  let ?r = "Reconcile ex_greeting_lib ?env (''n'', ''a'') ex_greeting_world"
  have prefix: "getPrefix ex_greeting_lib (reList ?env) (reXmin ?env) (fst (''n'', ''a'')) (wdb (reBeforeList ?env ex_greeting_world)) = ''Hi''"
    by code_simp
  have "wf_db (wdb (create_policy w))" if "wf_db (wdb w)" for w
  proof -
    have "wf_db (put_row (ex_policy_row ''a'' ''Hi'' (next_xid (wdb w))) ((wdb w)\<lparr>next_xid := next_xid (wdb w) + 1\<rparr>))"
      by (rule wf_put_row) (use that in \<open>auto simp: wf_next_xid ex_policy_row_def wf_db_def\<close>)
    then show ?thesis by (simp add: create_policy_def)
  qed
  then have "spares create_policy (''n'', ''a'')"
    by (simp add: spares_def create_policy_def get_row_put rkey_def ex_policy_row_def greeting_key_def card_key_def
        gvkToString_def greeting_gvk_def card_gvk_def)
  then have sp: "others_spare ?env (''n'', ''a'')" by (simp add: others_spare_def ex_reconcile_env_def)
  obtain w' where run: "?r = (w', None)"
    using Reconcile_returns [OF ex_greeting_wf sp ex_greeting_lib_laws _ _ _ _ ex_set_owner_total ex_greeting_ready] ex_env_quiet
    by auto
  from reconcile_settles [OF ex_greeting_wf sp ex_greeting_lib_laws ex_greeting_ready(6) run ex_greeting_ready(1,2)]
  show ?thesis unfolding prefix run by simp
qed

lemma ex_working: "working ex_reconcile_env"
  using ex_env_quiet [of "\<lambda>w. w"] by (simp add: working_def alone_def quiet_def ex_reconcile_env_def ex_client_env_def)



end
