(* ===== verification/Lifecycle.thy ===== *)
theory Lifecycle
  imports Runtime "HOL-Library.Sublist"
begin

text \<open>
  The goroutines of src/pkg/pgruntime/pgmanager.go and pgcache.go: Start of the manager with the
  probe server, the cache and the runnables it sets going, Start of the cache with its informers,
  WaitForCacheSync, and Add and GetInformer beside them at any time. One step is what runs
  between two points at which another goroutine can see or change the shared state: a section
  under a mutex, one go statement, one wait that ends. Manager.StartManager and
  Manager.StartCache are the same two functions without interleaving.
\<close>

section \<open>State\<close>

datatype thread = NotStarted | Running | Returned

text \<open>The cache's stopCh: nil until Start makes it.\<close>

datatype stop_ch = NilCh | OpenCh | ClosedCh

text \<open>Where cache.Start is: before its lock, starting the informers it copied, waiting for the context, waiting for them.\<close>

datatype cache_pc = CacheIdle | CacheEntered | CacheSpawning "gvk list" | CacheServing | CacheStopping | CacheReturned

text \<open>Where the manager's Start is; the lists are the sync functions it waits for and the runnables still to start.\<close>

datatype main_pc = NotCalled | SyncEntered | Syncing "gvk list" | CacheSynced | Launching "string list"
  | AwaitDone | AwaitAll | ClosingPool | StartReturned "string option"

text \<open>
  Informers are named by their kind. lcAwaited is the wait group of cache.Start, lcLaunched all
  calls of an informer's Run, lcTasks the goroutines of the runnables. lcSynced is client-go's
  HasSynced. lcLog is what Start has set going.
\<close>

record life =
  lcAddr :: string
  lcMain :: main_pc
  lcPc :: cache_pc
  lcCache :: pgCache
  lcStop :: stop_ch
  lcInf :: "gvk \<Rightarrow> thread"
  lcAwaited :: "gvk list"
  lcLaunched :: "gvk list"
  lcSynced :: "gvk \<Rightarrow> bool"
  lcRunnables :: "string list"
  lcCopied :: "string list"
  lcTasks :: "thread list"
  lcProbe :: thread
  lcSrvClosed :: bool
  lcDone :: bool
  lcPoolOpen :: bool
  lcLog :: "mgr_action list"

definition kinds_of :: "pgCache \<Rightarrow> gvk list" where
  "kinds_of c = map fst (informers c)"

text \<open>A manager that NewManager built.\<close>

definition new_life :: "string \<Rightarrow> pgCache \<Rightarrow> life" where
  "new_life addr c =
     \<lparr>lcAddr = addr, lcMain = NotCalled, lcPc = CacheIdle, lcCache = c, lcStop = NilCh, lcInf = (\<lambda>_. NotStarted),
      lcAwaited = [], lcLaunched = [], lcSynced = (\<lambda>_. False), lcRunnables = [], lcCopied = [], lcTasks = [],
      lcProbe = NotStarted, lcSrvClosed = False, lcDone = False, lcPoolOpen = True, lcLog = []\<rparr>"

section \<open>Steps\<close>

text \<open>go inf.inner.Run(c.stopCh).\<close>

definition run_informer :: "gvk \<Rightarrow> life \<Rightarrow> life" where
  "run_informer g s = s\<lparr>lcLaunched := lcLaunched s @ [g], lcInf := (lcInf s)(g := Running),
     lcCache := (lcCache s)\<lparr>informers := map (\<lambda>(h, i). (h, if h = g then i\<lparr>infRunning := True\<rparr> else i)) (informers (lcCache s))\<rparr>\<rparr>"

text \<open>getOrCreateInformer under the cache's mutex; an informer made after the start is run at once.\<close>

definition get_informer :: "(gvk \<Rightarrow> string + ('s, 't) object) \<Rightarrow> gvk \<Rightarrow> life \<Rightarrow> life" where
  "get_informer new g s =
     (case map_of (informers (lcCache s)) g of
        Some ifm \<Rightarrow> s
      | None \<Rightarrow>
          (case new g of
             Inl e \<Rightarrow> s
           | Inr _ \<Rightarrow>
               (let s' = s\<lparr>lcCache := (lcCache s)\<lparr>informers :=
                      (g, \<lparr>infGVK = g, infShard = gvk_shard (lcCache s) g, infRunning = False\<rparr>) # informers (lcCache s)\<rparr>\<rparr>
                in if started (lcCache s) \<and> lcStop s \<noteq> NilCh then run_informer g s' else s')))"

definition probe_actions :: "string \<Rightarrow> mgr_action list" where
  "probe_actions addr = (if addr = [] then [] else [ServeProbes addr])"

text \<open>
  The steps of the program. A goroutine of a runnable may return whenever it does; the informers
  return when their channel is closed, the probe server when it is closed. Ranging over the map
  of informers yields its keys in some order. client-go's WaitForCacheSync looks at the informers
  at once and then from time to time until the context is done, so with none it is true.
\<close>

inductive work_step :: "life \<Rightarrow> life \<Rightarrow> bool" where
  begin_start: "lcMain s = NotCalled \<Longrightarrow>
     work_step s (s\<lparr>lcMain := SyncEntered, lcPc := CacheEntered, lcProbe := (if lcAddr s = [] then NotStarted else Running),
       lcLog := lcLog s @ probe_actions (lcAddr s) @ [RunCache]\<rparr>)"
| sync_copy: "lcMain s = SyncEntered \<Longrightarrow> mset gs = mset (kinds_of (lcCache s)) \<Longrightarrow> work_step s (s\<lparr>lcMain := Syncing gs\<rparr>)"
| sync_true: "lcMain s = Syncing gs \<Longrightarrow> list_all (lcSynced s) gs \<Longrightarrow> work_step s (s\<lparr>lcMain := CacheSynced\<rparr>)"
| sync_false: "lcMain s = Syncing gs \<Longrightarrow> gs \<noteq> [] \<Longrightarrow> lcDone s \<Longrightarrow>
     work_step s (s\<lparr>lcMain := StartReturned (Some ''pgruntime: cache sync failed'')\<rparr>)"
| copy_runnables: "lcMain s = CacheSynced \<Longrightarrow>
     work_step s (s\<lparr>lcMain := Launching (lcRunnables s), lcCopied := lcRunnables s\<rparr>)"
| launch: "lcMain s = Launching (r # rs) \<Longrightarrow>
     work_step s (s\<lparr>lcMain := Launching rs, lcTasks := lcTasks s @ [Running], lcLog := lcLog s @ [RunRunnable r]\<rparr>)"
| launch_done: "lcMain s = Launching [] \<Longrightarrow> work_step s (s\<lparr>lcMain := AwaitDone\<rparr>)"
| shut_down: "lcMain s = AwaitDone \<Longrightarrow> lcDone s \<Longrightarrow> work_step s (s\<lparr>lcMain := AwaitAll\<rparr>)"
| close_pool: "lcMain s = AwaitAll \<Longrightarrow> lcProbe s \<noteq> Running \<Longrightarrow> lcPc s = CacheReturned \<Longrightarrow>
     list_all (\<lambda>t. t = Returned) (lcTasks s) \<Longrightarrow>
     work_step s (s\<lparr>lcMain := ClosingPool, lcPoolOpen := False, lcLog := lcLog s @ [ClosePool]\<rparr>)"
| finish_start: "lcMain s = ClosingPool \<Longrightarrow> work_step s (s\<lparr>lcMain := StartReturned None\<rparr>)"
| cache_lock: "lcPc s = CacheEntered \<Longrightarrow> mset gs = mset (kinds_of (lcCache s)) \<Longrightarrow>
     work_step s (s\<lparr>lcPc := CacheSpawning gs, lcStop := OpenCh, lcCache := (lcCache s)\<lparr>started := True\<rparr>\<rparr>)"
| cache_spawn: "lcPc s = CacheSpawning (g # gs) \<Longrightarrow>
     work_step s ((run_informer g s)\<lparr>lcPc := CacheSpawning gs, lcAwaited := lcAwaited s @ [g]\<rparr>)"
| cache_spawned: "lcPc s = CacheSpawning [] \<Longrightarrow> work_step s (s\<lparr>lcPc := CacheServing\<rparr>)"
| cache_stop: "lcPc s = CacheServing \<Longrightarrow> lcDone s \<Longrightarrow> work_step s (s\<lparr>lcPc := CacheStopping, lcStop := ClosedCh\<rparr>)"
| cache_return: "lcPc s = CacheStopping \<Longrightarrow> list_all (\<lambda>g. lcInf s g = Returned) (lcAwaited s) \<Longrightarrow>
     work_step s (s\<lparr>lcPc := CacheReturned\<rparr>)"
| informer_return: "lcInf s g = Running \<Longrightarrow> lcStop s = ClosedCh \<Longrightarrow> work_step s (s\<lparr>lcInf := (lcInf s)(g := Returned)\<rparr>)"
| task_return: "i < length (lcTasks s) \<Longrightarrow> lcTasks s ! i = Running \<Longrightarrow> work_step s (s\<lparr>lcTasks := (lcTasks s)[i := Returned]\<rparr>)"
| server_close: "lcDone s \<Longrightarrow> lcMain s \<noteq> NotCalled \<Longrightarrow> lcAddr s \<noteq> [] \<Longrightarrow> \<not> lcSrvClosed s \<Longrightarrow>
     work_step s (s\<lparr>lcSrvClosed := True\<rparr>)"
| probe_return: "lcProbe s = Running \<Longrightarrow> lcSrvClosed s \<Longrightarrow> work_step s (s\<lparr>lcProbe := Returned\<rparr>)"

text \<open>What others do: cancel the context, add runnables, ask for informers; a list arrives; the probe server cannot listen.\<close>

inductive env_step :: "(gvk \<Rightarrow> string + ('s, 't) object) \<Rightarrow> life \<Rightarrow> life \<Rightarrow> bool" for new where
  cancel: "env_step new s (s\<lparr>lcDone := True\<rparr>)"
| add_runnable: "env_step new s (s\<lparr>lcRunnables := lcRunnables s @ [r]\<rparr>)"
| ask_informer: "env_step new s (get_informer new g s)"
| list_arrives: "lcInf s g = Running \<Longrightarrow> env_step new s (s\<lparr>lcSynced := (lcSynced s)(g := True)\<rparr>)"
| probe_fails: "lcProbe s = Running \<Longrightarrow> env_step new s (s\<lparr>lcProbe := Returned\<rparr>)"

inductive life_reach :: "(gvk \<Rightarrow> string + ('s, 't) object) \<Rightarrow> life \<Rightarrow> bool" for new where
  built: "NewManager env opts = Inr c \<Longrightarrow> life_reach new (new_life addr c)"
| work: "life_reach new s \<Longrightarrow> work_step s t \<Longrightarrow> life_reach new t"
| env: "life_reach new s \<Longrightarrow> env_step new s t \<Longrightarrow> life_reach new t"

section \<open>The cache\<close>

definition running_flags :: "life \<Rightarrow> bool" where
  "running_flags s \<longleftrightarrow> (\<forall>(g, i) \<in> set (informers (lcCache s)). infRunning i = (g \<in> set (lcLaunched s)))"

fun phase_ok :: "cache_pc \<Rightarrow> life \<Rightarrow> bool" where
  "phase_ok CacheIdle s = (\<not> started (lcCache s) \<and> lcStop s = NilCh \<and> lcLaunched s = [])"
| "phase_ok CacheEntered s = (\<not> started (lcCache s) \<and> lcStop s = NilCh \<and> lcLaunched s = [])"
| "phase_ok (CacheSpawning gs) s = (started (lcCache s) \<and> lcStop s = OpenCh \<and> distinct gs \<and>
     set gs \<inter> set (lcLaunched s) = {} \<and> set gs \<union> set (lcLaunched s) = set (kinds_of (lcCache s)))"
| "phase_ok CacheServing s = (started (lcCache s) \<and> lcStop s = OpenCh \<and> set (lcLaunched s) = set (kinds_of (lcCache s)))"
| "phase_ok CacheStopping s = (started (lcCache s) \<and> lcStop s = ClosedCh \<and> set (lcLaunched s) = set (kinds_of (lcCache s)))"
| "phase_ok CacheReturned s = (started (lcCache s) \<and> lcStop s = ClosedCh \<and> set (lcLaunched s) = set (kinds_of (lcCache s)) \<and>
     list_all (\<lambda>g. lcInf s g = Returned) (lcAwaited s))"

definition cache_inv :: "life \<Rightarrow> bool" where
  "cache_inv s \<longleftrightarrow> distinct (kinds_of (lcCache s)) \<and> distinct (lcLaunched s) \<and>
     set (lcLaunched s) \<subseteq> set (kinds_of (lcCache s)) \<and> set (lcAwaited s) \<subseteq> set (lcLaunched s) \<and> running_flags s \<and>
     (\<forall>g. lcInf s g = NotStarted \<longleftrightarrow> g \<notin> set (lcLaunched s)) \<and>
     (\<forall>g. lcInf s g = Returned \<longrightarrow> lcStop s = ClosedCh) \<and> (lcMain s = NotCalled \<longleftrightarrow> lcPc s = CacheIdle) \<and> phase_ok (lcPc s) s"

lemma kinds_of_started [simp]: "kinds_of (c\<lparr>started := b\<rparr>) = kinds_of c"
  by (simp add: kinds_of_def)

lemma kinds_of_run [simp]: "kinds_of (lcCache (run_informer g s)) = kinds_of (lcCache s)"
  by (auto simp: kinds_of_def run_informer_def)

lemma run_informer_fields [simp]:
  "lcMain (run_informer g s) = lcMain s" "lcPc (run_informer g s) = lcPc s" "lcStop (run_informer g s) = lcStop s"
  "lcInf (run_informer g s) = (lcInf s)(g := Running)" "lcAwaited (run_informer g s) = lcAwaited s"
  "lcLaunched (run_informer g s) = lcLaunched s @ [g]" "lcSynced (run_informer g s) = lcSynced s"
  "lcRunnables (run_informer g s) = lcRunnables s" "lcCopied (run_informer g s) = lcCopied s"
  "lcTasks (run_informer g s) = lcTasks s" "lcProbe (run_informer g s) = lcProbe s" "lcSrvClosed (run_informer g s) = lcSrvClosed s"
  "lcDone (run_informer g s) = lcDone s" "lcPoolOpen (run_informer g s) = lcPoolOpen s" "lcLog (run_informer g s) = lcLog s"
  "lcAddr (run_informer g s) = lcAddr s" "started (lcCache (run_informer g s)) = started (lcCache s)"
  by (simp_all add: run_informer_def)

lemma running_flags_run: "running_flags s \<Longrightarrow> running_flags (run_informer g s)"
  by (auto simp: running_flags_def run_informer_def split: prod.splits)

text \<open>An informer that is made: without a start nothing runs; after it the informer does.\<close>

definition make_informer :: "gvk \<Rightarrow> life \<Rightarrow> life" where
  "make_informer g s = s\<lparr>lcCache := (lcCache s)\<lparr>informers :=
     (g, \<lparr>infGVK = g, infShard = gvk_shard (lcCache s) g, infRunning = False\<rparr>) # informers (lcCache s)\<rparr>\<rparr>"

lemma get_informer_cases:
  obtains (same) "get_informer new g s = s"
  | (made) "g \<notin> set (kinds_of (lcCache s))" "get_informer new g s =
      (if started (lcCache s) \<and> lcStop s \<noteq> NilCh then run_informer g (make_informer g s) else make_informer g s)"
  by (cases "map_of (informers (lcCache s)) g"; cases "new g")
    (auto simp: get_informer_def make_informer_def kinds_of_def Let_def map_of_eq_None_iff)

lemma make_informer_fields [simp]:
  "lcMain (make_informer g s) = lcMain s" "lcPc (make_informer g s) = lcPc s" "lcStop (make_informer g s) = lcStop s"
  "lcInf (make_informer g s) = lcInf s" "lcAwaited (make_informer g s) = lcAwaited s"
  "lcLaunched (make_informer g s) = lcLaunched s" "lcSynced (make_informer g s) = lcSynced s"
  "lcRunnables (make_informer g s) = lcRunnables s" "lcCopied (make_informer g s) = lcCopied s"
  "lcTasks (make_informer g s) = lcTasks s" "lcProbe (make_informer g s) = lcProbe s" "lcSrvClosed (make_informer g s) = lcSrvClosed s"
  "lcDone (make_informer g s) = lcDone s" "lcPoolOpen (make_informer g s) = lcPoolOpen s" "lcLog (make_informer g s) = lcLog s"
  "lcAddr (make_informer g s) = lcAddr s" "started (lcCache (make_informer g s)) = started (lcCache s)"
  "kinds_of (lcCache (make_informer g s)) = g # kinds_of (lcCache s)"
  by (simp_all add: make_informer_def kinds_of_def)

lemma make_informer_inv:
  assumes "cache_inv s" "g \<notin> set (kinds_of (lcCache s))"
  shows "cache_inv (if started (lcCache s) \<and> lcStop s \<noteq> NilCh then run_informer g (make_informer g s) else make_informer g s)"
proof -
  have new: "g \<notin> set (lcLaunched s)" using assms by (auto simp: cache_inv_def)
  have "running_flags (make_informer g s)"
    using assms(1) new by (auto simp: cache_inv_def running_flags_def make_informer_def)
  then show ?thesis
    using assms new running_flags_run [of "make_informer g s" g]
    by (cases "lcPc s") (auto simp: cache_inv_def list_all_iff)
qed

text \<open>A step of the manager keeps what the cache knows.\<close>

lemma cache_inv_frame:
  assumes "cache_inv s" "lcMain t = NotCalled \<longleftrightarrow> lcMain s = NotCalled" "lcPc t = lcPc s" "lcCache t = lcCache s" "lcStop t = lcStop s"
    and "lcInf t = lcInf s" "lcAwaited t = lcAwaited s" "lcLaunched t = lcLaunched s"
  shows "cache_inv t"
proof -
  have "phase_ok (lcPc s) t = phase_ok (lcPc s) s" using assms(3-8) by (cases "lcPc s") simp_all
  then show ?thesis using assms by (simp add: cache_inv_def running_flags_def)
qed

lemma work_step_cache_inv: "work_step s t \<Longrightarrow> cache_inv s \<Longrightarrow> cache_inv t"
proof (induction rule: work_step.induct)
  case (begin_start s)
  then show ?case by (cases "lcPc s") (auto simp: cache_inv_def running_flags_def)
next
  case (cache_lock s gs)
  then have "distinct gs" "set gs = set (kinds_of (lcCache s))"
    using mset_eq_imp_distinct_iff mset_eq_setD unfolding cache_inv_def by blast+
  then show ?case using cache_lock by (auto simp: cache_inv_def running_flags_def)
next
  case (cache_spawn s g gs)
  then show ?case using running_flags_run [of s g] by (auto simp: cache_inv_def running_flags_def)
next
  case (informer_return s g)
  then have "g \<in> set (lcLaunched s)" by (metis cache_inv_def thread.distinct(1))
  with informer_return show ?case by (cases "lcPc s") (auto simp: cache_inv_def running_flags_def list_all_iff)
next
  case (cache_return s)
  then show ?case by (auto simp: cache_inv_def running_flags_def)
next
  case (cache_stop s)
  then show ?case by (auto simp: cache_inv_def running_flags_def)
next
  case (cache_spawned s)
  then show ?case by (auto simp: cache_inv_def running_flags_def)
qed (erule cache_inv_frame; simp)+

lemma env_step_cache_inv: "env_step new s t \<Longrightarrow> cache_inv s \<Longrightarrow> cache_inv t"
proof (induction rule: env_step.induct)
  case (ask_informer s g)
  then show ?case by (cases rule: get_informer_cases [of new g s]) (simp_all add: make_informer_inv)
qed (erule cache_inv_frame; simp)+

lemma new_life_cache_inv: "NewManager env opts = Inr c \<Longrightarrow> cache_inv (new_life addr c)"
  by (auto simp: NewManager_def new_life_def cache_inv_def kinds_of_def running_flags_def Let_def split: if_splits option.splits)

lemma reach_cache_inv: "life_reach new s \<Longrightarrow> cache_inv s"
  by (induction rule: life_reach.induct) (auto intro: new_life_cache_inv work_step_cache_inv env_step_cache_inv)

section \<open>The manager\<close>

definition started_all :: "string list \<Rightarrow> life \<Rightarrow> bool" where
  "started_all rs s \<longleftrightarrow> lcLog s = probe_actions (lcAddr s) @ [RunCache] @ map RunRunnable rs \<and> length (lcTasks s) = length rs"

definition all_returned :: "life \<Rightarrow> bool" where
  "all_returned s \<longleftrightarrow> lcDone s \<and> lcProbe s \<noteq> Running \<and> lcPc s = CacheReturned \<and> list_all (\<lambda>t. t = Returned) (lcTasks s)"

fun main_ok :: "main_pc \<Rightarrow> life \<Rightarrow> bool" where
  "main_ok NotCalled s = (lcLog s = [] \<and> lcTasks s = [] \<and> lcProbe s = NotStarted \<and> lcPoolOpen s)"
| "main_ok SyncEntered s = (started_all [] s \<and> lcPoolOpen s)"
| "main_ok (Syncing gs) s = (started_all [] s \<and> lcPoolOpen s)"
| "main_ok CacheSynced s = (started_all [] s \<and> lcPoolOpen s)"
| "main_ok (Launching rs) s = (\<exists>st. lcCopied s = st @ rs \<and> started_all st s \<and> lcPoolOpen s)"
| "main_ok AwaitDone s = (started_all (lcCopied s) s \<and> lcPoolOpen s)"
| "main_ok AwaitAll s = (started_all (lcCopied s) s \<and> lcDone s \<and> lcPoolOpen s)"
| "main_ok ClosingPool s = (lcLog s = probe_actions (lcAddr s) @ [RunCache] @ map RunRunnable (lcCopied s) @ [ClosePool] \<and>
     length (lcTasks s) = length (lcCopied s) \<and> all_returned s \<and> \<not> lcPoolOpen s)"
| "main_ok (StartReturned None) s = (lcLog s = probe_actions (lcAddr s) @ [RunCache] @ map RunRunnable (lcCopied s) @ [ClosePool] \<and>
     length (lcTasks s) = length (lcCopied s) \<and> all_returned s \<and> \<not> lcPoolOpen s)"
| "main_ok (StartReturned (Some e)) s = (e = ''pgruntime: cache sync failed'' \<and> started_all [] s \<and> lcDone s \<and> lcPoolOpen s)"

fun copied_ok :: "main_pc \<Rightarrow> life \<Rightarrow> bool" where
  "copied_ok NotCalled s = True"
| "copied_ok SyncEntered s = True"
| "copied_ok (Syncing gs) s = True"
| "copied_ok CacheSynced s = True"
| "copied_ok (StartReturned (Some e)) s = True"
| "copied_ok _ s = prefix (lcCopied s) (lcRunnables s)"

definition main_inv :: "life \<Rightarrow> bool" where
  "main_inv s \<longleftrightarrow> (lcMain s = NotCalled \<longleftrightarrow> lcPc s = CacheIdle) \<and> main_ok (lcMain s) s \<and> copied_ok (lcMain s) s"

lemmas main_defs = main_inv_def started_all_def all_returned_def

text \<open>A step of another goroutine keeps what Start knows.\<close>

lemma main_inv_frame:
  assumes "main_inv s" "lcMain t = lcMain s" "lcPc s = CacheIdle \<longleftrightarrow> lcPc t = CacheIdle" "lcPc s = CacheReturned \<longrightarrow> lcPc t = CacheReturned"
    and "lcLog t = lcLog s" "lcPoolOpen t = lcPoolOpen s" "lcAddr t = lcAddr s" "lcCopied t = lcCopied s"
    and "prefix (lcRunnables s) (lcRunnables t)" "lcDone s \<longrightarrow> lcDone t"
    and "lcProbe t = lcProbe s \<or> lcProbe s = Running \<and> lcProbe t = Returned"
    and "list_all2 (\<lambda>a b. a = b \<or> b = Returned) (lcTasks s) (lcTasks t)"
  shows "main_inv t"
proof -
  have len: "length (lcTasks t) = length (lcTasks s)" using assms(12) by (simp add: list_all2_lengthD)
  have ret: "list_all (\<lambda>x. x = Returned) (lcTasks t)" if "list_all (\<lambda>x. x = Returned) (lcTasks s)"
    using that assms(12) len by (auto simp: list_all_length list_all2_conv_all_nth)
  have st: "started_all rs s \<Longrightarrow> started_all rs t" for rs using assms(5,7) len by (simp add: started_all_def)
  have all: "all_returned s \<Longrightarrow> all_returned t" using assms(4,10,11) ret by (auto simp: all_returned_def)
  show ?thesis
    using assms st all len prefix_order.trans
    by (cases "(lcMain s, s)" rule: main_ok.cases) (auto simp: main_inv_def)
qed

lemma work_step_main_inv: "work_step s t \<Longrightarrow> main_inv s \<Longrightarrow> main_inv t"
proof (induction rule: work_step.induct)
  case (launch s r rs)
  then obtain st where st: "lcCopied s = st @ r # rs" "started_all st s" "lcPoolOpen s" by (auto simp: main_inv_def)
  then have "lcCopied s = (st @ [r]) @ rs"
    "started_all (st @ [r]) (s\<lparr>lcMain := Launching rs, lcTasks := lcTasks s @ [Running], lcLog := lcLog s @ [RunRunnable r]\<rparr>)"
    by (simp_all add: started_all_def)
  then show ?case using launch st(3) unfolding main_inv_def by fastforce
next
  case (task_return i s)
  show ?case by (rule main_inv_frame [OF task_return(3)]) (auto simp: list_all2_conv_all_nth nth_list_update task_return(1))
next
  case (cache_lock s gs)
  show ?case by (rule main_inv_frame [OF cache_lock(3)]) (simp_all add: cache_lock list_all2_refl)
next
  case (cache_spawn s g gs)
  show ?case by (rule main_inv_frame [OF cache_spawn(2)]) (simp_all add: cache_spawn list_all2_refl)
next
  case (cache_spawned s)
  show ?case by (rule main_inv_frame [OF cache_spawned(2)]) (simp_all add: cache_spawned list_all2_refl)
next
  case (cache_stop s)
  show ?case by (rule main_inv_frame [OF cache_stop(3)]) (simp_all add: cache_stop list_all2_refl)
next
  case (cache_return s)
  show ?case by (rule main_inv_frame [OF cache_return(3)]) (simp_all add: cache_return list_all2_refl)
next
  case (informer_return s g)
  show ?case by (rule main_inv_frame [OF informer_return(3)]) (simp_all add: list_all2_refl)
next
  case (server_close s)
  show ?case by (rule main_inv_frame [OF server_close(5)]) (simp_all add: list_all2_refl)
next
  case (probe_return s)
  show ?case by (rule main_inv_frame [OF probe_return(3)]) (simp_all add: probe_return list_all2_refl)
qed (auto simp: main_defs)

lemma env_step_main_inv: "env_step new s t \<Longrightarrow> main_inv s \<Longrightarrow> main_inv t"
proof (induction rule: env_step.induct)
  case (ask_informer s g)
  then show ?case
    by (cases rule: get_informer_cases [of new g s]) (auto intro!: main_inv_frame [OF ask_informer] simp: list_all2_refl)
next
  case (probe_fails s)
  show ?case by (rule main_inv_frame [OF probe_fails(2)]) (simp_all add: probe_fails list_all2_refl)
qed (erule main_inv_frame; simp add: list_all2_refl)+

lemma reach_main_inv: "life_reach new s \<Longrightarrow> main_inv s"
proof (induction rule: life_reach.induct)
  case built
  then show ?case by (simp add: new_life_def main_inv_def)
qed (blast intro: work_step_main_inv env_step_main_inv)+

section \<open>What Start waits for\<close>

text \<open>Informers are never removed and stay synced; the sync functions are those of the informers known before.\<close>

lemma get_informer_kinds: "set (kinds_of (lcCache s)) \<subseteq> set (kinds_of (lcCache (get_informer new g s)))"
  by (cases rule: get_informer_cases [of new g s]) auto

definition waits_for :: "gvk set \<Rightarrow> life \<Rightarrow> bool" where
  "waits_for K s \<longleftrightarrow> K \<subseteq> set (kinds_of (lcCache s)) \<and>
     (case lcMain s of
        NotCalled \<Rightarrow> True
      | SyncEntered \<Rightarrow> True
      | Syncing gs \<Rightarrow> K \<subseteq> set gs \<and> set gs \<subseteq> set (kinds_of (lcCache s))
      | StartReturned (Some e) \<Rightarrow> kinds_of (lcCache s) \<noteq> []
      | _ \<Rightarrow> K \<subseteq> {g. lcSynced s g})"

lemma waits_for_mono:
  assumes "waits_for K s" "lcMain t = lcMain s" "set (kinds_of (lcCache s)) \<subseteq> set (kinds_of (lcCache t))"
    and "\<And>g. lcSynced s g \<Longrightarrow> lcSynced t g"
  shows "waits_for K t"
proof -
  have "kinds_of (lcCache s) \<noteq> [] \<Longrightarrow> kinds_of (lcCache t) \<noteq> []" using assms(3) by (metis list.set(1) set_empty subset_empty)
  then show ?thesis using assms by (auto simp: waits_for_def split: main_pc.splits option.splits)
qed

lemma work_step_waits: "work_step s t \<Longrightarrow> waits_for K s \<Longrightarrow> waits_for K t"
proof (induction rule: work_step.induct)
  case (sync_copy s gs)
  then have "set gs = set (kinds_of (lcCache s))" using mset_eq_setD by blast
  then show ?case using sync_copy by (simp add: waits_for_def)
next
  case (sync_false s gs)
  then have "kinds_of (lcCache s) \<noteq> []" by (auto simp: waits_for_def)
  then show ?case using sync_false by (simp add: waits_for_def)
qed ((erule waits_for_mono; simp; fail) | (auto simp: waits_for_def list_all_iff; fail))+

lemma env_step_waits: "env_step new s t \<Longrightarrow> waits_for K s \<Longrightarrow> waits_for K t"
proof (induction rule: env_step.induct)
  case (ask_informer s g)
  have "lcMain (get_informer new g s) = lcMain s" "lcSynced (get_informer new g s) = lcSynced s"
    by (cases rule: get_informer_cases [of new g s]; simp)+
  then show ?case using waits_for_mono [OF ask_informer] get_informer_kinds by metis
qed (erule waits_for_mono; simp)+

lemma reach_waits: "life_reach new s \<Longrightarrow> waits_for {} s"
proof (induction rule: life_reach.induct)
  case built
  then show ?case by (simp add: new_life_def waits_for_def)
qed (blast intro: work_step_waits env_step_waits)+

text \<open>Any steps after a state.\<close>

inductive life_run :: "(gvk \<Rightarrow> string + ('s, 't) object) \<Rightarrow> life \<Rightarrow> life \<Rightarrow> bool" for new where
  refl: "life_run new s s"
| work: "life_run new s t \<Longrightarrow> work_step t u \<Longrightarrow> life_run new s u"
| env: "life_run new s t \<Longrightarrow> env_step new t u \<Longrightarrow> life_run new s u"

lemma run_waits: "life_run new s t \<Longrightarrow> waits_for K s \<Longrightarrow> waits_for K t"
  by (induction rule: life_run.induct) (blast intro: work_step_waits env_step_waits)+

lemma run_reach: "life_run new s t \<Longrightarrow> life_reach new s \<Longrightarrow> life_reach new t"
  by (induction rule: life_run.induct) (auto intro: life_reach.intros)

section \<open>Progress\<close>

text \<open>
  What is left to do. The launch of a runnable or of an informer makes a goroutine that has to
  return, so it weighs two.
\<close>

fun main_work :: "main_pc \<Rightarrow> nat \<Rightarrow> nat \<Rightarrow> nat" where
  "main_work NotCalled runs kinds = 2 * runs + 2 * kinds + 20"
| "main_work SyncEntered runs kinds = 2 * runs + 8"
| "main_work (Syncing gs) runs kinds = 2 * runs + 7"
| "main_work CacheSynced runs kinds = 2 * runs + 6"
| "main_work (Launching rs) runs kinds = 2 * length rs + 5"
| "main_work AwaitDone runs kinds = 4"
| "main_work AwaitAll runs kinds = 3"
| "main_work ClosingPool runs kinds = 2"
| "main_work (StartReturned err) runs kinds = 0"

fun cache_work :: "cache_pc \<Rightarrow> nat \<Rightarrow> nat" where
  "cache_work CacheIdle kinds = 0"
| "cache_work CacheEntered kinds = 2 * kinds + 5"
| "cache_work (CacheSpawning gs) kinds = 2 * length gs + 4"
| "cache_work CacheServing kinds = 3"
| "cache_work CacheStopping kinds = 2"
| "cache_work CacheReturned kinds = 0"

definition work_left :: "life \<Rightarrow> nat" where
  "work_left s =
     main_work (lcMain s) (length (lcRunnables s)) (length (kinds_of (lcCache s))) + cache_work (lcPc s) (length (kinds_of (lcCache s))) +
     length (filter (\<lambda>g. lcInf s g = Running) (lcLaunched s)) + length (filter (\<lambda>t. t = Running) (lcTasks s)) +
     (if lcProbe s = Running then 1 else 0) + (if lcSrvClosed s then 0 else 1)"

lemma filter_update_less:
  "i < length xs \<Longrightarrow> P (xs ! i) \<Longrightarrow> \<not> P y \<Longrightarrow> length (filter P (xs[i := y])) < length (filter P xs)"
proof (induction xs arbitrary: i)
  case (Cons x xs)
  then show ?case by (cases i) auto
qed simp

lemma filter_run_other: "g \<notin> set gs \<Longrightarrow> filter (\<lambda>h. (f(g := v)) h = w) gs = filter (\<lambda>h. f h = w) gs"
  by (induction gs) auto

lemma filter_returned_less:
  assumes "g \<in> set gs" "f g = Running"
  shows "length (filter (\<lambda>h. h \<noteq> g \<and> f h = Running) gs) < length (filter (\<lambda>h. f h = Running) gs)"
  using length_filter_less [of g "filter (\<lambda>h. f h = Running) gs" "\<lambda>h. h \<noteq> g"] assms by (simp add: conj_commute)

lemma work_step_less: "work_step s t \<Longrightarrow> cache_inv s \<Longrightarrow> work_left t < work_left s"
proof (induction rule: work_step.induct)
  case (begin_start s)
  then have "lcPc s = CacheIdle" by (simp add: cache_inv_def)
  then show ?case using begin_start by (simp add: work_left_def)
next
  case (cache_lock s gs)
  then have "length gs = length (kinds_of (lcCache s))" by (metis size_mset)
  then show ?case using cache_lock by (simp add: work_left_def)
next
  case (cache_spawn s g gs)
  then have "g \<notin> set (lcLaunched s)" by (auto simp: cache_inv_def)
  then show ?case using cache_spawn filter_run_other [of g "lcLaunched s" "lcInf s" Running Running] by (simp add: work_left_def)
next
  case (informer_return s g)
  then have "g \<in> set (lcLaunched s)" by (metis cache_inv_def thread.distinct(1))
  then show ?case using filter_returned_less [of g _ "lcInf s"] informer_return(1) by (simp add: work_left_def cong: conj_cong)
next
  case (task_return i s)
  then show ?case using filter_update_less [of i "lcTasks s" "\<lambda>t. t = Running" Returned] by (simp add: work_left_def)
qed (auto simp: work_left_def)

lemma cache_enabled:
  assumes "cache_inv s" "lcDone s" "lcPc s \<noteq> CacheIdle" "lcPc s \<noteq> CacheReturned"
  shows "\<exists>t. work_step s t"
proof (cases "lcPc s")
  case CacheEntered
  then show ?thesis using cache_lock by blast
next
  case (CacheSpawning gs)
  then show ?thesis using cache_spawn cache_spawned by (cases gs) blast+
next
  case CacheServing
  then show ?thesis using cache_stop assms(2) by blast
next
  case CacheStopping
  show ?thesis
  proof (cases "list_all (\<lambda>g. lcInf s g = Returned) (lcAwaited s)")
    case True
    then show ?thesis using cache_return CacheStopping by blast
  next
    case False
    then obtain g where g: "g \<in> set (lcAwaited s)" "lcInf s g \<noteq> Returned" by (auto simp: list_all_iff)
    have c: "set (lcAwaited s) \<subseteq> set (lcLaunched s)" "\<forall>g. lcInf s g = NotStarted \<longleftrightarrow> g \<notin> set (lcLaunched s)" "lcStop s = ClosedCh"
      using assms(1) CacheStopping by (auto simp: cache_inv_def)
    then have "lcInf s g = Running" using g by (cases "lcInf s g") auto
    then show ?thesis using informer_return c(3) by blast
  qed
qed (use assms in simp_all)

lemma reach_probe_addr: "life_reach new s \<Longrightarrow> lcProbe s = Running \<longrightarrow> lcAddr s \<noteq> []"
proof (induction rule: life_reach.induct)
  case (work s t)
  from work(2,3) show ?case by (induction rule: work_step.induct) auto
next
  case (env s t)
  from env(2,3) show ?case
  proof (induction rule: env_step.induct)
    case (ask_informer s g)
    then show ?case by (cases rule: get_informer_cases [of new g s]) auto
  qed auto
qed (simp add: new_life_def)

lemma reach_tasks_started: "life_reach new s \<Longrightarrow> list_all (\<lambda>t. t \<noteq> NotStarted) (lcTasks s)"
proof (induction rule: life_reach.induct)
  case (work s t)
  from work(2,3) show ?case
  proof (induction rule: work_step.induct)
    case (task_return i s)
    then show ?case by (simp add: list_all_length nth_list_update)
  qed auto
next
  case (env s t)
  from env(2,3) show ?case
  proof (induction rule: env_step.induct)
    case (ask_informer s g)
    then show ?case by (cases rule: get_informer_cases [of new g s]) auto
  qed auto
qed (simp add: new_life_def)

lemma work_enabled:
  assumes "life_reach new s" "lcDone s" "\<And>err. lcMain s \<noteq> StartReturned err"
  shows "\<exists>t. work_step s t"
proof (cases "lcMain s")
  case NotCalled
  then show ?thesis using begin_start by blast
next
  case SyncEntered
  then show ?thesis using sync_copy by blast
next
  case (Syncing gs)
  then show ?thesis using sync_true sync_false assms(2) by (cases gs) force+
next
  case CacheSynced
  then show ?thesis using copy_runnables by blast
next
  case (Launching rs)
  then show ?thesis using launch launch_done by (cases rs) blast+
next
  case AwaitDone
  then show ?thesis using shut_down assms(2) by blast
next
  case AwaitAll
  have c: "cache_inv s" using reach_cache_inv [OF assms(1)] .
  have m: "main_inv s" using reach_main_inv [OF assms(1)] .
  consider "lcProbe s = Running" | "lcPc s \<noteq> CacheReturned" | "\<not> list_all (\<lambda>t. t = Returned) (lcTasks s)"
    | "lcProbe s \<noteq> Running" "lcPc s = CacheReturned" "list_all (\<lambda>t. t = Returned) (lcTasks s)" by blast
  then show ?thesis
  proof cases
    case 1
    then have "lcAddr s \<noteq> []" using reach_probe_addr [OF assms(1)] by blast
    then show ?thesis using 1 server_close [of s] probe_return [of s] assms(2) AwaitAll by (cases "lcSrvClosed s") (blast, auto)
  next
    case 2
    then show ?thesis using cache_enabled [OF c assms(2)] m AwaitAll by (auto simp: main_inv_def)
  next
    case 3
    then obtain i where "i < length (lcTasks s)" "lcTasks s ! i \<noteq> Returned" by (auto simp: list_all_length)
    moreover have "lcTasks s ! i \<noteq> NotStarted" if "i < length (lcTasks s)" for i
      using reach_tasks_started [OF assms(1)] that by (simp add: list_all_length)
    ultimately show ?thesis using task_return by (metis thread.exhaust)
  qed (use close_pool AwaitAll in blast)
next
  case ClosingPool
  then show ?thesis using finish_start by blast
qed (use assms(3) in blast)

section \<open>Properties\<close>


text \<open>C13: Every informer runs once. However requests for informers interleave with the cache's start, each
  kind has one informer, no informer is run twice, none runs before the start, and once the start
  has handed out its copies every informer there is has been run, with its stop channel open.\<close>

theorem informers_run_once:
  assumes "life_reach new s"
  shows "distinct (kinds_of (lcCache s)) \<and> distinct (lcLaunched s) \<and> set (lcLaunched s) \<subseteq> set (kinds_of (lcCache s)) \<and>
    (\<not> started (lcCache s) \<longrightarrow> lcLaunched s = []) \<and>
    (lcPc s \<in> {CacheServing, CacheStopping, CacheReturned} \<longrightarrow> set (lcLaunched s) = set (kinds_of (lcCache s))) \<and>
    (lcPc s = CacheServing \<longrightarrow> lcStop s = OpenCh \<and> (\<forall>g \<in> set (kinds_of (lcCache s)). lcInf s g = Running))"
proof -
  have c: "cache_inv s" using reach_cache_inv [OF assms] .
  then have "lcInf s g = Running" if "lcPc s = CacheServing" "g \<in> set (kinds_of (lcCache s))" for g
    using that by (cases "lcInf s g") (auto simp: cache_inv_def)
  then show ?thesis using c by (cases "lcPc s") (auto simp: cache_inv_def)
qed

text \<open>C14: A cancelled manager stops. From any state in which the context is cancelled, the program's own
  steps end, in any order and within a bound that counts the runnables and informers, and they
  end only when Start has returned; so neither a runnable, an informer, the probe server nor a
  wait group can keep it, if each goroutine returns when it should.\<close>

theorem cancelled_manager_stops:
  assumes "life_reach new s" "lcDone s"
  shows "(\<forall>n t. (work_step ^^ n) s t \<longrightarrow> n \<le> work_left s) \<and>
    (\<forall>t. work_step\<^sup>*\<^sup>* s t \<longrightarrow> (\<nexists>u. work_step t u) \<longrightarrow> (\<exists>err. lcMain t = StartReturned err))"
proof -
  have "n + work_left t \<le> work_left s \<and> life_reach new t" if "(work_step ^^ n) s t" for n t
    using that
  proof (induction n arbitrary: t)
    case (Suc n)
    then obtain u where u: "(work_step ^^ n) s u" "work_step u t" by auto
    then have "life_reach new u" "n + work_left u \<le> work_left s" using Suc.IH by blast+
    then show ?case using work_step_less [OF u(2)] reach_cache_inv life_reach.work [OF _ u(2)] by fastforce
  qed (use assms(1) in auto)
  moreover have "life_reach new t \<and> lcDone t" if "work_step\<^sup>*\<^sup>* s t" for t
    using that
  proof (induction rule: rtranclp_induct)
    case (step t u)
    then have "lcDone u" by (auto elim: work_step.cases)
    then show ?case using step life_reach.work by blast
  qed (use assms in simp)
  ultimately show ?thesis using work_enabled by (metis add_leD1)
qed

section \<open>The cache without interleaving\<close>

text \<open>
  The functions of Manager as the specification: an informer counts as running once the start
  holds a copy of it. Every step is one of them on this view, or none.
\<close>

definition cache_view :: "life \<Rightarrow> pgCache" where
  "cache_view s = (lcCache s)\<lparr>informers := map (\<lambda>(g, i). (g, i\<lparr>infRunning := started (lcCache s)\<rparr>)) (informers (lcCache s))\<rparr>"

lemma cache_view_run [simp]: "cache_view (run_informer g s) = cache_view s"
proof -
  have view: "((\<lambda>(g, i). (g, i\<lparr>infRunning := b\<rparr>)) \<circ> (\<lambda>(h, i). (h, if h = g then i\<lparr>infRunning := True\<rparr> else i))) =
      (\<lambda>(g, i). (g, i\<lparr>infRunning := b\<rparr>))" for b
    by (auto simp: fun_eq_iff)
  show ?thesis by (simp add: cache_view_def run_informer_def view)
qed

lemma map_of_view:
  "map_of (map (\<lambda>(g, i). (g, i\<lparr>infRunning := b\<rparr>)) is) g = map_option (\<lambda>i. i\<lparr>infRunning := b\<rparr>) (map_of is g)"
  by (induction "is") auto

lemma cache_view_make:
  "g \<notin> set (kinds_of (lcCache s)) \<Longrightarrow> new g = Inr x \<Longrightarrow>
     cache_view (make_informer g s) = fst (getOrCreateInformer new g (cache_view s))"
  by (simp add: cache_view_def make_informer_def getOrCreateInformer_def map_of_view kinds_of_def gvk_shard_def Let_def
      map_of_eq_None_iff [THEN iffD2])

lemma cache_view_get:
  "cache_view (get_informer new g s) = cache_view s \<or> cache_view (get_informer new g s) = fst (getOrCreateInformer new g (cache_view s))"
proof (cases "map_of (informers (lcCache s)) g = None \<and> (\<exists>x. new g = Inr x)")
  case True
  then obtain x where "g \<notin> set (kinds_of (lcCache s))" "new g = Inr x" by (auto simp: kinds_of_def map_of_eq_None_iff)
  then show ?thesis
    using cache_view_make [of g s new x] by (cases rule: get_informer_cases [of new g s]) auto
next
  case False
  then have "get_informer new g s = s" by (auto simp: get_informer_def split: option.split sum.split)
  then show ?thesis by simp
qed

lemma work_step_view:
  "work_step s t \<Longrightarrow> cache_inv s \<Longrightarrow> cache_view t = cache_view s \<or> lcPc s = CacheEntered \<and> cache_view t = StartCache (cache_view s)"
proof (induction rule: work_step.induct)
  case (cache_lock s gs)
  have view: "((\<lambda>(g, i). (g, i\<lparr>infRunning := True\<rparr>)) \<circ> (\<lambda>(g, i). (g, i\<lparr>infRunning := b\<rparr>))) = (\<lambda>(g, i). (g, i\<lparr>infRunning := True\<rparr>))" for b
    by (auto simp: fun_eq_iff)
  show ?case using cache_lock by (simp add: cache_view_def StartCache_def view)
next
  case (cache_spawn s g gs)
  have "cache_view ((run_informer g s)\<lparr>lcPc := CacheSpawning gs, lcAwaited := lcAwaited s @ [g]\<rparr>) = cache_view (run_informer g s)"
    by (simp add: cache_view_def)
  then show ?case by simp
qed (simp_all add: cache_view_def)

text \<open>So the caches that Manager reasons about are the views of the caches a running manager has.\<close>

lemma life_cache_reach: "life_reach new s \<Longrightarrow> cache_reach new (cache_view s)"
proof (induction rule: life_reach.induct)
  case (built env opts c addr)
  then have "cache_view (new_life addr c) = c"
    by (auto simp: NewManager_def cache_view_def new_life_def Let_def split: if_splits option.splits)
  then show ?case using cache_reach.built built by metis
next
  case (work s t)
  then show ?case using work_step_view [OF work(2) reach_cache_inv [OF work(1)]] cache_reach.start by metis
next
  case (env s t)
  from env(2,3) show ?case
  proof (induction rule: env_step.induct)
    case (ask_informer s g)
    then show ?case using cache_view_get [of new g s] cache_reach.informer by metis
  qed (simp_all add: cache_view_def)
qed

text \<open>While the cache serves, the view is the cache.\<close>

lemma view_when_serving:
  assumes "life_reach new s" "lcPc s = CacheServing"
  shows "cache_view s = lcCache s"
proof -
  have "cache_inv s" using reach_cache_inv [OF assms(1)] .
  then have "running_flags s" "set (lcLaunched s) = set (kinds_of (lcCache s))" "started (lcCache s)"
    using assms(2) by (auto simp: cache_inv_def)
  then have "map (\<lambda>(g, i). (g, i\<lparr>infRunning := started (lcCache s)\<rparr>)) (informers (lcCache s)) = informers (lcCache s)"
    by (intro map_idI) (force simp: running_flags_def kinds_of_def)
  then show ?thesis by (simp add: cache_view_def)
qed

section \<open>Where Start falls short\<close>

text \<open>
  One run: the manager starts with no informer and no runnable; then a runnable is added and an
  informer is asked for; the context is cancelled and Start returns. The runnable was never
  started, and the informer, which no wait group counts, still runs while the pool is closed.
\<close>

theorem late_goroutines_are_lost:
  assumes "NewManager env opts = Inr c" "new g = Inr x"
  shows "\<exists>s. life_reach new s \<and> lcMain s = StartReturned None \<and> lcRunnables s = [r] \<and> RunRunnable r \<notin> set (lcLog s) \<and>
    lcInf s g = Running \<and> \<not> lcPoolOpen s"
proof -
  have c: "informers c = []" "\<not> started c" using assms(1) by (auto simp: NewManager_def Let_def split: if_splits option.splits)
  let ?s0 = "new_life [] c"
  let ?s1 = "?s0\<lparr>lcMain := SyncEntered, lcPc := CacheEntered, lcProbe := (if lcAddr ?s0 = [] then NotStarted else Running),
       lcLog := lcLog ?s0 @ probe_actions (lcAddr ?s0) @ [RunCache]\<rparr>"
  let ?s2 = "?s1\<lparr>lcMain := Syncing []\<rparr>"
  let ?s3 = "?s2\<lparr>lcMain := CacheSynced\<rparr>"
  let ?s4 = "?s3\<lparr>lcMain := Launching (lcRunnables ?s3), lcCopied := lcRunnables ?s3\<rparr>"
  let ?s5 = "?s4\<lparr>lcMain := AwaitDone\<rparr>"
  let ?s6 = "?s5\<lparr>lcPc := CacheSpawning [], lcStop := OpenCh, lcCache := (lcCache ?s5)\<lparr>started := True\<rparr>\<rparr>"
  let ?s7 = "?s6\<lparr>lcPc := CacheServing\<rparr>"
  let ?s8 = "?s7\<lparr>lcRunnables := lcRunnables ?s7 @ [r]\<rparr>"
  let ?s9 = "get_informer new g ?s8"
  let ?s10 = "?s9\<lparr>lcDone := True\<rparr>"
  let ?s11 = "?s10\<lparr>lcMain := AwaitAll\<rparr>"
  let ?s12 = "?s11\<lparr>lcPc := CacheStopping, lcStop := ClosedCh\<rparr>"
  let ?s13 = "?s12\<lparr>lcPc := CacheReturned\<rparr>"
  let ?s14 = "?s13\<lparr>lcMain := ClosingPool, lcPoolOpen := False, lcLog := lcLog ?s13 @ [ClosePool]\<rparr>"
  let ?s15 = "?s14\<lparr>lcMain := StartReturned None\<rparr>"
  have k: "kinds_of c = []" using c by (simp add: kinds_of_def)
  have r: "life_reach new ?s0" by (rule life_reach.built [OF assms(1)])
  have "life_reach new ?s1" by (rule life_reach.work [OF r begin_start]) (simp add: new_life_def)
  from life_reach.work [OF this sync_copy] have r: "life_reach new ?s2" by (simp add: new_life_def k)
  from life_reach.work [OF r sync_true] have r: "life_reach new ?s3" by simp
  from life_reach.work [OF r copy_runnables] have r: "life_reach new ?s4" by simp
  from life_reach.work [OF r launch_done] have r: "life_reach new ?s5" by (simp add: new_life_def)
  from life_reach.work [OF r cache_lock] have r: "life_reach new ?s6" by (simp add: new_life_def k)
  from life_reach.work [OF r cache_spawned] have r: "life_reach new ?s7" by simp
  from life_reach.env [OF r add_runnable] have r: "life_reach new ?s8" .
  from life_reach.env [OF r ask_informer] have r9: "life_reach new ?s9" .
  have s9: "lcMain ?s9 = AwaitDone" "lcPc ?s9 = CacheServing" "lcAwaited ?s9 = []" "lcTasks ?s9 = []" "lcProbe ?s9 = NotStarted"
    "lcInf ?s9 g = Running" "lcRunnables ?s9 = [r]" "lcLog ?s9 = [RunCache]"
    using c assms(2) by (simp_all add: get_informer_def new_life_def Let_def probe_actions_def)
  from life_reach.env [OF r9 cancel] have r: "life_reach new ?s10" .
  from life_reach.work [OF r shut_down] have r: "life_reach new ?s11" using s9 by simp
  from life_reach.work [OF r cache_stop] have r: "life_reach new ?s12" using s9 by simp
  from life_reach.work [OF r cache_return] have r: "life_reach new ?s13" using s9 by simp
  from life_reach.work [OF r close_pool] have r: "life_reach new ?s14" using s9 by simp
  from life_reach.work [OF r finish_start] have "life_reach new ?s15" by simp
  then show ?thesis using s9 by (intro exI [of _ ?s15]) simp
qed

section \<open>A concrete manager\<close>

definition ex_cache :: pgCache where
  "ex_cache = \<lparr>shard = Some \<lparr>Mod = 2, Owned = [1]\<rparr>, unsharded = [], informers = [], started = False\<rparr>"

text \<open>One informer and one runnable, before Start, with a probe server.\<close>

definition ex_life :: life where
  "ex_life = (get_informer ex_new ex_gvk (new_life ''a'' ex_cache))\<lparr>lcRunnables := [''r'']\<rparr>"

lemma ex_life_eq:
  "ex_life = \<lparr>lcAddr = ''a'', lcMain = NotCalled, lcPc = CacheIdle,
     lcCache = ex_cache\<lparr>informers := [(ex_gvk, \<lparr>infGVK = ex_gvk, infShard = Some \<lparr>Mod = 2, Owned = [1]\<rparr>, infRunning = False\<rparr>)]\<rparr>,
     lcStop = NilCh, lcInf = (\<lambda>_. NotStarted), lcAwaited = [], lcLaunched = [], lcSynced = (\<lambda>_. False), lcRunnables = [''r''],
     lcCopied = [], lcTasks = [], lcProbe = NotStarted, lcSrvClosed = False, lcDone = False, lcPoolOpen = True, lcLog = []\<rparr>"
  by (simp add: ex_life_def get_informer_def new_life_def ex_cache_def ex_new_def gvk_shard_def Let_def)

lemma ex_life_reach: "life_reach ex_new ex_life"
proof -
  have "NewManager ex_setup ex_options = Inr ex_cache"
    by (simp add: NewManager_def ex_options_def ex_setup_def connect_and_migrate_def Validate_def ex_cache_def)
  then have "life_reach ex_new (get_informer ex_new ex_gvk (new_life ''a'' ex_cache))"
    by (intro life_reach.env [OF life_reach.built ask_informer])
  from life_reach.env [OF this add_runnable, of "''r''"] show ?thesis
    by (simp add: ex_life_def get_informer_def new_life_def ex_cache_def ex_new_def Let_def)
qed

lemmas run_simps = kinds_of_def run_informer_def ex_cache_def probe_actions_def

text \<open>To the state in which the cache serves and the runnable runs, and from there to the end.\<close>

lemma ex_serving:
  obtains s where "life_run ex_new ex_life s" "lcMain s = AwaitDone" "lcPc s = CacheServing" "lcInf s = (\<lambda>_. NotStarted)(ex_gvk := Running)"
    "lcAwaited s = [ex_gvk]" "lcTasks s = [Running]" "lcProbe s = Running" "\<not> lcSrvClosed s" "lcAddr s = ''a''" "lcLaunched s = [ex_gvk]"
    "kinds_of (lcCache s) = [ex_gvk]" "lcRunnables s = [''r'']" "lcCopied s = [''r'']"
proof -
  define x where "x = ex_life"
  have "life_run ex_new x ex_life" by (simp add: x_def life_run.refl)
  note r = this [unfolded ex_life_eq ex_cache_def]
  note r = life_run.work [OF r begin_start, simplified run_simps, simplified]
  note r = life_run.work [OF r cache_lock [where gs = "[ex_gvk]"], simplified run_simps, simplified]
  note r = life_run.work [OF r cache_spawn, simplified run_simps, simplified]
  note r = life_run.work [OF r cache_spawned, simplified run_simps, simplified]
  note r = life_run.env [OF r list_arrives [where g = ex_gvk], simplified run_simps, simplified]
  note r = life_run.work [OF r sync_copy [where gs = "[ex_gvk]"], simplified run_simps, simplified]
  note r = life_run.work [OF r sync_true, simplified run_simps, simplified]
  note r = life_run.work [OF r copy_runnables, simplified run_simps, simplified]
  note r = life_run.work [OF r launch, simplified run_simps, simplified]
  note r = life_run.work [OF r launch_done, simplified run_simps, simplified]
  show ?thesis
    by (rule that [OF r [unfolded x_def]], simp_all add: kinds_of_def, subst list.pred_inject, simp)
qed


theorem informers_run_once_witness:
  "\<exists>s :: life. lcPc s = CacheServing \<and> kinds_of (lcCache s) = [ex_gvk] \<and> lcStop s = OpenCh \<and> lcInf s ex_gvk = Running"
proof -
  obtain s where s: "life_run ex_new ex_life s" "lcPc s = CacheServing" "kinds_of (lcCache s) = [ex_gvk]" by (rule ex_serving)
  from informers_run_once [OF run_reach [OF s(1) ex_life_reach]] s(2,3) show ?thesis by (intro exI [of _ s]) simp
qed

theorem cancelled_manager_stops_witness:
  "\<exists>s. life_run ex_new ex_life s \<and> lcDone s \<and> lcTasks s = [Running] \<and>
     (\<forall>n t. (work_step ^^ n) s t \<longrightarrow> n \<le> 11) \<and>
     (\<forall>t. work_step\<^sup>*\<^sup>* s t \<longrightarrow> (\<nexists>u. work_step t u) \<longrightarrow> (\<exists>err. lcMain t = StartReturned err))"
proof -
  obtain s where s: "life_run ex_new ex_life s" "lcMain s = AwaitDone" "lcPc s = CacheServing"
    "lcInf s = (\<lambda>_. NotStarted)(ex_gvk := Running)" "lcTasks s = [Running]" "lcProbe s = Running" "\<not> lcSrvClosed s"
    "lcLaunched s = [ex_gvk]" by (rule ex_serving)
  let ?s = "s\<lparr>lcDone := True\<rparr>"
  have r: "life_run ex_new ex_life ?s" by (rule life_run.env [OF s(1) cancel])
  have "work_left ?s = 11" using s(2-8) by (simp add: work_left_def)
  with cancelled_manager_stops [OF run_reach [OF r ex_life_reach]] r s(5) show ?thesis by (intro exI [of _ ?s]) simp
qed


end
