(* ===== verification/Metrics.thy ===== *)
theory Metrics
  imports Complex_Main Prelude
begin

text \<open>
  The Prometheus collectors of src/internal/metrics/metrics.go and of the load generator's
  metrics.go: their names, labels and buckets, the constructors that register them, and the load
  generator's init. The Prometheus library is an argument: \<open>must\<close> registers one collector or
  panics, \<open>fq\<close> joins the parts of a name, and ExponentialBuckets and DefBuckets are given.
\<close>

section \<open>Collectors\<close>

datatype metric_kind = Counter | CounterVec | Histogram "rat list" | HistogramVec "rat list"

record collector =
  coNamespace :: string
  coSubsystem :: string
  coName :: string
  coKind :: metric_kind
  coLabels :: "string list"

abbreviation pgctl :: "string \<Rightarrow> string \<Rightarrow> metric_kind \<Rightarrow> string list \<Rightarrow> collector" where
  "pgctl sub name kind labels \<equiv>
     \<lparr>coNamespace = ''pgctl'', coSubsystem = sub, coName = name, coKind = kind, coLabels = labels\<rparr>"

abbreviation loadtest :: "string \<Rightarrow> metric_kind \<Rightarrow> string list \<Rightarrow> collector" where
  "loadtest name kind labels \<equiv>
     \<lparr>coNamespace = ''loadtest'', coSubsystem = [], coName = name, coKind = kind, coLabels = labels\<rparr>"

definition writer_collectors :: "collector list" where
  "writer_collectors =
     [pgctl ''writer'' ''write_duration_seconds''
        (HistogramVec [0.001, 0.0025, 0.005, 0.01, 0.025, 0.05, 0.1, 0.25, 0.5, 1.0, 5.0, 10.0, 30.0]) [''gvk'', ''result''],
      pgctl ''writer'' ''write_step_duration_seconds''
        (HistogramVec [0.0001, 0.00025, 0.0005, 0.001, 0.0025, 0.005, 0.01, 0.025, 0.05, 0.1]) [''step''],
      pgctl ''writer'' ''writes_total'' CounterVec [''gvk'', ''result''],
      pgctl ''writer'' ''noop_suppressions_total'' Counter [],
      pgctl ''writer'' ''doorbell_errors_total'' Counter [],
      pgctl ''writer'' ''statement_timeouts_total'' Counter []]"

definition watcher_collectors :: "collector list" where
  "watcher_collectors =
     [pgctl ''watcher'' ''poll_duration_seconds''
        (HistogramVec [0.001, 0.005, 0.01, 0.025, 0.05, 0.1, 0.25, 0.5, 1.0]) [''gvk''],
      pgctl ''watcher'' ''poll_events_delivered'' (HistogramVec [0, 1, 5, 10, 25, 50, 100, 500]) [''gvk''],
      pgctl ''watcher'' ''doorbell_polls_total'' Counter [],
      pgctl ''watcher'' ''baseline_polls_total'' Counter [],
      pgctl ''watcher'' ''baseline_catches_total'' Counter [],
      pgctl ''watcher'' ''listen_errors_total'' Counter [],
      pgctl ''watcher'' ''reconnects_total'' Counter []]"

definition verifier_collectors :: "collector list" where
  "verifier_collectors =
     [pgctl ''verifier'' ''canary_delivery_seconds'' (Histogram [0.01, 0.05, 0.1, 0.25, 0.5, 1.0, 2.5, 5.0, 10.0]) [],
      pgctl ''verifier'' ''violations_total'' CounterVec [''invariant''],
      pgctl ''verifier'' ''events_checked_total'' Counter []]"

definition loadtest_collectors :: "(rat \<Rightarrow> rat \<Rightarrow> nat \<Rightarrow> rat list) \<Rightarrow> rat list \<Rightarrow> collector list" where
  "loadtest_collectors ExponentialBuckets DefBuckets =
     [loadtest ''phase_duration_seconds'' (HistogramVec (ExponentialBuckets 1 2 20)) [''phase''],
      loadtest ''writes_total'' CounterVec [''phase'', ''gvk''],
      loadtest ''errors_total'' CounterVec [''phase'', ''error_type''],
      loadtest ''seed_objects_total'' CounterVec [''gvk''],
      loadtest ''write_latency_seconds'' (HistogramVec DefBuckets) [''phase'', ''gvk''],
      loadtest ''delivery_latency_seconds'' (HistogramVec DefBuckets) [''phase'']]"

section \<open>Registration\<close>

text \<open>MustRegister registers in order and panics (None) at the first collector it refuses.\<close>

fun MustRegister :: "('r \<Rightarrow> collector \<Rightarrow> 'r option) \<Rightarrow> collector list \<Rightarrow> 'r \<Rightarrow> 'r option" where
  "MustRegister must [] r = Some r"
| "MustRegister must (c # cs) r = (case must r c of None \<Rightarrow> None | Some r' \<Rightarrow> MustRegister must cs r')"

text \<open>
  The constructors: a nil registerer gives nil metrics (the collectors are None), else the
  registered collectors. On the outside None is a panic.
\<close>

definition new_metrics ::
  "('r \<Rightarrow> collector \<Rightarrow> 'r option) \<Rightarrow> collector list \<Rightarrow> 'r option \<Rightarrow> ('r option \<times> collector list option) option" where
  "new_metrics must cs reg =
     (case reg of
        None \<Rightarrow> Some (None, None)
      | Some r \<Rightarrow> (case MustRegister must cs r of None \<Rightarrow> None | Some r' \<Rightarrow> Some (Some r', Some cs)))"

definition NewWriterMetrics ::
  "('r \<Rightarrow> collector \<Rightarrow> 'r option) \<Rightarrow> 'r option \<Rightarrow> ('r option \<times> collector list option) option" where
  "NewWriterMetrics must reg = new_metrics must writer_collectors reg"

definition NewWatcherMetrics ::
  "('r \<Rightarrow> collector \<Rightarrow> 'r option) \<Rightarrow> 'r option \<Rightarrow> ('r option \<times> collector list option) option" where
  "NewWatcherMetrics must reg = new_metrics must watcher_collectors reg"

definition NewVerifierMetrics ::
  "('r \<Rightarrow> collector \<Rightarrow> 'r option) \<Rightarrow> 'r option \<Rightarrow> ('r option \<times> collector list option) option" where
  "NewVerifierMetrics must reg = new_metrics must verifier_collectors reg"

text \<open>The load generator's init on the default registerer.\<close>

definition metrics_init ::
  "('r \<Rightarrow> collector \<Rightarrow> 'r option) \<Rightarrow> (rat \<Rightarrow> rat \<Rightarrow> nat \<Rightarrow> rat list) \<Rightarrow> rat list \<Rightarrow> 'r \<Rightarrow> 'r option" where
  "metrics_init must ExponentialBuckets DefBuckets r =
     (case MustRegister must (loadtest_collectors ExponentialBuckets DefBuckets) r of
        None \<Rightarrow> None
      | Some r1 \<Rightarrow> (case NewWriterMetrics must (Some r1) of
          None \<Rightarrow> None
        | Some (r2, _) \<Rightarrow> (case NewWatcherMetrics must r2 of
            None \<Rightarrow> None
          | Some (r3, _) \<Rightarrow> (case NewVerifierMetrics must r3 of None \<Rightarrow> None | Some (r4, _) \<Rightarrow> r4))))"

section \<open>What a registerer does\<close>

text \<open>
  The documented behaviour: the name of a collector is its non-empty parts joined by underscores,
  and a registerer refuses a collector exactly when it has one of that name.
\<close>

definition joins_names :: "(string \<Rightarrow> string \<Rightarrow> string \<Rightarrow> string) \<Rightarrow> bool" where
  "joins_names fq \<longleftrightarrow> (\<forall>ns sub name. fq ns sub name = concat (map (\<lambda>p. p @ ''_'') (filter (\<lambda>p. p \<noteq> []) [ns, sub])) @ name)"

definition registers ::
  "(string \<Rightarrow> string \<Rightarrow> string \<Rightarrow> string) \<Rightarrow> ('r \<Rightarrow> string set) \<Rightarrow> ('r \<Rightarrow> collector \<Rightarrow> 'r option) \<Rightarrow> bool" where
  "registers fq names must \<longleftrightarrow>
     (\<forall>r c. let n = fq (coNamespace c) (coSubsystem c) (coName c) in
        case must r c of None \<Rightarrow> n \<in> names r | Some r' \<Rightarrow> n \<notin> names r \<and> names r' = insert n (names r))"

definition full_name :: "(string \<Rightarrow> string \<Rightarrow> string \<Rightarrow> string) \<Rightarrow> collector \<Rightarrow> string" where
  "full_name fq c = fq (coNamespace c) (coSubsystem c) (coName c)"

lemma registersD:
  assumes "registers fq names must"
  shows "must r c = None \<longleftrightarrow> full_name fq c \<in> names r"
    and "must r c = Some r' \<Longrightarrow> names r' = insert (full_name fq c) (names r)"
proof -
  have r: "case must r c of None \<Rightarrow> full_name fq c \<in> names r
      | Some r' \<Rightarrow> full_name fq c \<notin> names r \<and> names r' = insert (full_name fq c) (names r)"
    using assms unfolding registers_def full_name_def Let_def by blast
  show "must r c = None \<longleftrightarrow> full_name fq c \<in> names r" using r by (cases "must r c") simp_all
  show "must r c = Some r' \<Longrightarrow> names r' = insert (full_name fq c) (names r)" using r by simp
qed

text \<open>MustRegister succeeds exactly on new and distinct names, and then adds them.\<close>

lemma MustRegister_iff:
  assumes "registers fq names must"
  shows "case MustRegister must cs r of
      None \<Rightarrow> \<not> (distinct (map (full_name fq) cs) \<and> names r \<inter> full_name fq ` set cs = {})
    | Some r' \<Rightarrow> distinct (map (full_name fq) cs) \<and> names r \<inter> full_name fq ` set cs = {} \<and>
        names r' = names r \<union> full_name fq ` set cs"
proof (induction cs arbitrary: r)
  case (Cons c cs)
  show ?case
  proof (cases "must r c")
    case None
    then have "full_name fq c \<in> names r" using registersD(1) [OF assms, of r c] by simp
    then show ?thesis using None by simp
  next
    case (Some r1)
    then have "full_name fq c \<notin> names r" "names r1 = insert (full_name fq c) (names r)"
      using registersD [OF assms, of r c] by simp_all
    then show ?thesis using Cons [of r1] Some by (auto split: option.splits)
  qed
qed simp

definition all_collectors :: "(rat \<Rightarrow> rat \<Rightarrow> nat \<Rightarrow> rat list) \<Rightarrow> rat list \<Rightarrow> collector list" where
  "all_collectors eb db = loadtest_collectors eb db @ writer_collectors @ watcher_collectors @ verifier_collectors"

lemma MustRegister_append:
  "MustRegister must (xs @ ys) r = (case MustRegister must xs r of None \<Rightarrow> None | Some r' \<Rightarrow> MustRegister must ys r')"
  by (induction xs arbitrary: r) (auto split: option.splits)

lemma metrics_init_all: "metrics_init must eb db r = MustRegister must (all_collectors eb db) r"
  by (auto simp: metrics_init_def all_collectors_def MustRegister_append NewWriterMetrics_def NewWatcherMetrics_def
      NewVerifierMetrics_def new_metrics_def split: option.splits)

lemma all_names_distinct:
  assumes "joins_names fq"
  shows "distinct (map (full_name fq) (all_collectors eb db))"
  using assms by (simp add: all_collectors_def loadtest_collectors_def writer_collectors_def watcher_collectors_def
      verifier_collectors_def full_name_def joins_names_def)

text \<open>Histograms need increasing buckets; the ones in the code are.\<close>

fun buckets :: "metric_kind \<Rightarrow> rat list" where
  "buckets (Histogram bs) = bs"
| "buckets (HistogramVec bs) = bs"
| "buckets _ = []"

lemma buckets_increase:
  "c \<in> set (writer_collectors @ watcher_collectors @ verifier_collectors) \<Longrightarrow> sorted_wrt (<) (buckets (coKind c))"
  by (auto simp: writer_collectors_def watcher_collectors_def verifier_collectors_def)

section \<open>Properties\<close>

text \<open>The load generator starts: on a registerer that has none of its names, init registers all
  twenty-two collectors of the load test and of the library, no two of which share a name,
  without a panic; and each library constructor panics on a registerer that it has been used on
  before, while a nil registerer gives nil metrics and never panics.\<close>

theorem metrics_register_once:
  assumes "joins_names fq" "registers fq names must" "names r \<inter> full_name fq ` set (all_collectors eb db) = {}"
  shows "(\<exists>r'. metrics_init must eb db r = Some r' \<and> names r' = names r \<union> full_name fq ` set (all_collectors eb db) \<and>
      NewWriterMetrics must (Some r') = None \<and> NewWatcherMetrics must (Some r') = None \<and> NewVerifierMetrics must (Some r') = None) \<and>
    NewWriterMetrics must None = Some (None, None) \<and> NewWatcherMetrics must None = Some (None, None) \<and>
    NewVerifierMetrics must None = Some (None, None)"
proof -
  have "\<exists>r'. MustRegister must (all_collectors eb db) r = Some r' \<and> names r' = names r \<union> full_name fq ` set (all_collectors eb db)"
    using MustRegister_iff [OF assms(2), of "all_collectors eb db" r] all_names_distinct [OF assms(1)] assms(3)
    by (auto split: option.splits)
  then obtain r' where r': "metrics_init must eb db r = Some r'" "names r' = names r \<union> full_name fq ` set (all_collectors eb db)"
    by (auto simp: metrics_init_all)
  have again: "new_metrics must cs (Some r') = None" if "set cs \<subseteq> set (all_collectors eb db)" "cs \<noteq> []" for cs
  proof -
    have "names r' \<inter> full_name fq ` set cs \<noteq> {}" using that r'(2) by (cases cs) auto
    then show ?thesis using MustRegister_iff [OF assms(2), of cs r'] by (auto simp: new_metrics_def split: option.splits)
  qed
  have "NewWriterMetrics must (Some r') = None" "NewWatcherMetrics must (Some r') = None" "NewVerifierMetrics must (Some r') = None"
    unfolding NewWriterMetrics_def NewWatcherMetrics_def NewVerifierMetrics_def
    by (rule again; simp add: all_collectors_def writer_collectors_def watcher_collectors_def verifier_collectors_def)+
  with r' show ?thesis
    by (auto simp: NewWriterMetrics_def NewWatcherMetrics_def NewVerifierMetrics_def new_metrics_def)
qed

definition ex_fq :: "string \<Rightarrow> string \<Rightarrow> string \<Rightarrow> string" where
  "ex_fq ns sub name = concat (map (\<lambda>p. p @ ''_'') (filter (\<lambda>p. p \<noteq> []) [ns, sub])) @ name"

definition ex_must :: "string list \<Rightarrow> collector \<Rightarrow> string list option" where
  "ex_must r c = (if full_name ex_fq c \<in> set r then None else Some (full_name ex_fq c # r))"

theorem metrics_register_once_witness:
  "\<exists>r'. metrics_init ex_must (\<lambda>_ _ _. [1, 2]) [1] [''go_goroutines''] = Some r' \<and> NewWriterMetrics ex_must (Some r') = None"
proof -
  have "joins_names ex_fq" by (simp add: joins_names_def ex_fq_def)
  moreover have "registers ex_fq set ex_must"
    by (simp add: registers_def ex_must_def full_name_def Let_def)
  moreover have "set [''go_goroutines''] \<inter> full_name ex_fq ` set (all_collectors (\<lambda>_ _ _. [1, 2]) [1]) = {}"
    by (simp add: all_collectors_def loadtest_collectors_def writer_collectors_def watcher_collectors_def
        verifier_collectors_def full_name_def ex_fq_def)
  ultimately have "\<exists>r'. metrics_init ex_must (\<lambda>_ _ _. [1, 2]) [1] [''go_goroutines''] = Some r' \<and>
      set r' = set [''go_goroutines''] \<union> full_name ex_fq ` set (all_collectors (\<lambda>_ _ _. [1, 2]) [1]) \<and>
      NewWriterMetrics ex_must (Some r') = None \<and> NewWatcherMetrics ex_must (Some r') = None \<and>
      NewVerifierMetrics ex_must (Some r') = None"
    by (rule metrics_register_once [THEN conjunct1])
  then show ?thesis by (elim exE conjE) (intro exI conjI)
qed

end
