(* ===== verification/Migrations.thy ===== *)
theory Migrations
  imports Manager
begin

text \<open>
  Migrate of src/internal/schema/schema.go and the statements of 001_initial.sql that define the
  schema, over what the catalog of the database holds of it. A file is sent as one simple query,
  so its statements are one transaction. Reading an embedded file, and a connection that fails
  while the file is executed, are arguments.
\<close>

section \<open>The catalog\<close>

text \<open>The tables with their rows, if they exist; the indexes; the argument lists of the functions named pgctl_write.\<close>

record catalog =
  ctResources :: "resource list option"
  ctHorizon :: "(string \<Rightarrow> txid option) option"
  ctIndexes :: "string list"
  ctProcs :: "string list"

datatype ddl = CreateResources | CreateIndex string | CreateHorizon | DropProc | CreateProc string

definition pgctl_write_args :: string where
  "pgctl_write_args = ''boolean, text, text, text, bigint, boolean, jsonb, jsonb, jsonb, timestamptz''"

definition migration_001 :: "ddl list" where
  "migration_001 =
     [CreateResources, CreateIndex ''idx_resources_list'', CreateIndex ''idx_resources_watch'', CreateHorizon,
      DropProc, CreateProc pgctl_write_args]"

definition add_new :: "string \<Rightarrow> string list \<Rightarrow> string list" where
  "add_new x xs = (if x \<in> set xs then xs else xs @ [x])"

lemma set_add_new [simp]: "set (add_new x xs) = insert x (set xs)"
  by (auto simp: add_new_def)

lemma add_new_member [simp]: "x \<in> set xs \<Longrightarrow> add_new x xs = xs"
  by (simp add: add_new_def)

text \<open>
  IF NOT EXISTS and OR REPLACE keep what is there; DROP FUNCTION IF EXISTS without an argument list
  needs the name to be unique.
\<close>

fun exec_ddl :: "ddl \<Rightarrow> catalog \<Rightarrow> string + catalog" where
  "exec_ddl CreateResources c = Inr (case ctResources c of None \<Rightarrow> c\<lparr>ctResources := Some []\<rparr> | Some _ \<Rightarrow> c)"
| "exec_ddl CreateHorizon c = Inr (case ctHorizon c of None \<Rightarrow> c\<lparr>ctHorizon := Some (\<lambda>_. None)\<rparr> | Some _ \<Rightarrow> c)"
| "exec_ddl (CreateIndex i) c =
     (if ctResources c = None then Inl ''42P01''
      else Inr (c\<lparr>ctIndexes := add_new i (ctIndexes c)\<rparr>))"
| "exec_ddl DropProc c =
     (if 1 < length (ctProcs c) then Inl ''42725'' else Inr (c\<lparr>ctProcs := []\<rparr>))"
| "exec_ddl (CreateProc args) c =
     Inr (c\<lparr>ctProcs := add_new args (ctProcs c)\<rparr>)"

fun exec_script :: "ddl list \<Rightarrow> catalog \<Rightarrow> string + catalog" where
  "exec_script [] c = Inr c"
| "exec_script (s # ss) c = (case exec_ddl s c of Inl e \<Rightarrow> Inl e | Inr c' \<Rightarrow> exec_script ss c')"

section \<open>Migrate\<close>

datatype exec_fault = ExecOk | ExecLost bool

text \<open>Exec of one file: \<open>ExecLost True\<close> is a connection lost after the server has committed.\<close>

definition exec_file :: "exec_fault \<Rightarrow> ddl list \<Rightarrow> catalog \<Rightarrow> catalog \<times> string option" where
  "exec_file fault script c =
     (case exec_script script c of
        Inl e \<Rightarrow> (c, Some e)
      | Inr c' \<Rightarrow> (case fault of ExecOk \<Rightarrow> (c', None) | ExecLost done \<Rightarrow> (if done then c' else c, Some ''connection lost'')))"

text \<open>\<open>read\<close> is ReadFile of the embedded files: an error or the statements.\<close>

fun migrate_files ::
  "(string \<Rightarrow> string + ddl list) \<Rightarrow> (string \<Rightarrow> exec_fault) \<Rightarrow> string list \<Rightarrow> catalog \<Rightarrow> catalog \<times> string option" where
  "migrate_files read fault [] c = (c, None)"
| "migrate_files read fault (f # fs) c =
     (case read f of
        Inl e \<Rightarrow> (c, Some (''read migration '' @ f))
      | Inr script \<Rightarrow>
          (case exec_file (fault f) script c of
             (c', Some e) \<Rightarrow> (c', Some (''apply migration '' @ f))
           | (c', None) \<Rightarrow> migrate_files read fault fs c'))"

definition Migrate ::
  "(string \<Rightarrow> string + ddl list) \<Rightarrow> (string \<Rightarrow> exec_fault) \<Rightarrow> catalog \<Rightarrow> catalog \<times> string option" where
  "Migrate read fault c = migrate_files read fault [''migrations/001_initial.sql''] c"

text \<open>The embedded file system of the program.\<close>

definition migrationsFS :: "string \<Rightarrow> string + ddl list" where
  "migrationsFS f = (if f = ''migrations/001_initial.sql'' then Inr migration_001 else Inl ''file does not exist'')"

section \<open>Properties\<close>

text \<open>The schema as the library needs it.\<close>

definition migrated :: "catalog \<Rightarrow> bool" where
  "migrated c \<longleftrightarrow> ctResources c \<noteq> None \<and> ctHorizon c \<noteq> None \<and>
     {''idx_resources_list'', ''idx_resources_watch''} \<subseteq> set (ctIndexes c) \<and> ctProcs c = [pgctl_write_args]"

definition keeps_data :: "catalog \<Rightarrow> catalog \<Rightarrow> bool" where
  "keeps_data c c' \<longleftrightarrow> (\<forall>rs. ctResources c = Some rs \<longrightarrow> ctResources c' = Some rs) \<and>
     (\<forall>h. ctHorizon c = Some h \<longrightarrow> ctHorizon c' = Some h) \<and> set (ctIndexes c) \<subseteq> set (ctIndexes c')"

lemma exec_migration_001:
  "exec_script migration_001 c =
     (if 1 < length (ctProcs c) then Inl ''42725''
      else Inr \<lparr>ctResources = Some (case ctResources c of None \<Rightarrow> [] | Some rs \<Rightarrow> rs),
             ctHorizon = Some (case ctHorizon c of None \<Rightarrow> \<lambda>_. None | Some h \<Rightarrow> h),
             ctIndexes = add_new ''idx_resources_watch'' (add_new ''idx_resources_list'' (ctIndexes c)),
             ctProcs = [pgctl_write_args]\<rparr>)"
  by (cases c; cases "ctResources c"; cases "ctHorizon c") (auto simp: migration_001_def add_new_def [of _ "[]"])

text \<open>C34: Migrating is safe to repeat: every manager and client runs Migrate when it starts. On a database
  with at most one function of the name, whatever else is there, it succeeds, keeps every row,
  horizon and index, and leaves the schema the library needs with exactly one pgctl_write;
  migrating again changes nothing. When it fails without having been cut off after the commit,
  nothing has changed, and a retry can succeed where the fault is gone.\<close>

theorem migrate_repeatable:
  assumes "Migrate migrationsFS fault c = (c', err)" "length (ctProcs c) \<le> 1"
  shows "(err = None \<longleftrightarrow> fault ''migrations/001_initial.sql'' = ExecOk) \<and> keeps_data c c' \<and>
    (err = None \<longrightarrow> migrated c' \<and> (\<forall>fault'. fst (Migrate migrationsFS fault' c') = c')) \<and>
    (err \<noteq> None \<longrightarrow> c' = c \<or> migrated c') \<and>
    (\<exists>c''. Migrate migrationsFS (\<lambda>_. ExecOk) c' = (c'', None) \<and> migrated c'')"
proof -
  obtain d where d: "exec_script migration_001 c = Inr d" "migrated d" "keeps_data c d"
    using assms(2) by (auto simp: exec_migration_001 migrated_def keeps_data_def)
  have again: "exec_script migration_001 x = Inr x" if "migrated x" for x
    using that by (cases x) (auto simp: exec_migration_001 migrated_def)
  have run: "Migrate migrationsFS f x = (case exec_script migration_001 x of
      Inl e \<Rightarrow> (x, Some (''apply migration '' @ ''migrations/001_initial.sql''))
    | Inr y \<Rightarrow> (case f ''migrations/001_initial.sql'' of ExecOk \<Rightarrow> (y, None)
        | ExecLost done \<Rightarrow> (if done then y else x, Some (''apply migration '' @ ''migrations/001_initial.sql''))))" for f x
    by (simp add: Migrate_def migrationsFS_def exec_file_def split: sum.splits exec_fault.splits)
  have "keeps_data c c" by (simp add: keeps_data_def)
  then show ?thesis
    using assms(1) d again by (cases "fault ''migrations/001_initial.sql''") (auto simp: run split: if_splits exec_fault.splits)
qed

theorem migrate_repeatable_witness:
  "\<exists>c'. Migrate migrationsFS (\<lambda>_. ExecOk) \<lparr>ctResources = Some [ex_row], ctHorizon = None, ctIndexes = [], ctProcs = [''old'']\<rparr> = (c', None) \<and>
     ctResources c' = Some [ex_row] \<and> ctProcs c' = [pgctl_write_args]"
proof -
  let ?c = "\<lparr>ctResources = Some [ex_row], ctHorizon = None, ctIndexes = [], ctProcs = [''old'']\<rparr>"
  obtain c' err where r: "Migrate migrationsFS (\<lambda>_. ExecOk) ?c = (c', err)" by (cases "Migrate migrationsFS (\<lambda>_. ExecOk) ?c")
  from migrate_repeatable [OF r] r show ?thesis by (auto simp: migrated_def keeps_data_def)
qed

text \<open>An overloaded pgctl_write stops every start: the DROP without an argument list is ambiguous.\<close>

lemma overload_stops_migration:
  "1 < length (ctProcs c) \<Longrightarrow> Migrate migrationsFS fault c = (c, Some ''apply migration migrations/001_initial.sql'')"
  by (simp add: Migrate_def migrationsFS_def exec_file_def exec_migration_001)

end
