(* ===== verification/SeedTemplates.thy ===== *)
theory SeedTemplates
  imports JsonText
begin

text \<open>
  The payload templates of src/loadtest/cmd/loadtest/seeder.go: the spec, status and metadata of
  the idx-th HostedCluster and HostedNodePool, as the Go maps they build. \<open>pad0\<close> is the width
  with leading zeros of fmt's verbs, \<open>hex\<close> the verb x. An index is a natural number, as the
  loop of Seed counts from 0.
\<close>

section \<open>Formatting\<close>

definition pad0 :: "nat \<Rightarrow> string \<Rightarrow> string" where
  "pad0 w s = replicate (w - length s) CHR ''0'' @ s"

fun hex :: "nat \<Rightarrow> string" where
  "hex n = (if n < 16 then [hex_digit n] else hex (n div 16) @ [hex_digit (n mod 16)])"

declare hex.simps [simp del]

definition awsRegions :: "string list" where
  "awsRegions =
     [''us-east-1'', ''us-east-2'', ''us-west-1'', ''us-west-2'',
      ''eu-west-1'', ''eu-west-2'', ''eu-central-1'',
      ''ap-southeast-1'', ''ap-northeast-1'']"

definition instanceTypes :: "string list" where
  "instanceTypes =
     [''m6a.xlarge'', ''m6a.2xlarge'', ''m6a.4xlarge'',
      ''m5.xlarge'', ''m5.2xlarge'',
      ''c6a.xlarge'', ''c6a.2xlarge'',
      ''r6a.xlarge'', ''r6a.2xlarge'']"

definition ocpVersions :: "string list" where
  "ocpVersions =
     [''4.16.20'', ''4.16.18'', ''4.16.15'',
      ''4.15.30'', ''4.15.28'']"

definition gvkHostedCluster :: string where
  "gvkHostedCluster = ''hypershift.openshift.io/v1beta1/HostedCluster''"

definition gvkNodePool :: string where
  "gvkNodePool = ''hypershift.openshift.io/v1beta1/HostedNodePool''"

definition role_arn :: "nat \<Rightarrow> string \<Rightarrow> string" where
  "role_arn idx role =
     ''arn:aws:iam::'' @ pad0 12 (dec (100000000000 + idx)) @ '':role/ManagedOpenShift-'' @ role @ ''-Role''"

definition worker_profile :: "nat \<Rightarrow> string" where
  "worker_profile idx =
     ''arn:aws:iam::'' @ pad0 12 (dec (100000000000 + idx)) @ '':instance-profile/ManagedOpenShift-Worker-Profile''"

definition condition :: "string \<Rightarrow> string \<Rightarrow> string \<Rightarrow> string \<Rightarrow> json" where
  "condition ty st reason msg =
     JObj [(''type'', JStr ty), (''status'', JStr st), (''reason'', JStr reason), (''message'', JStr msg)]"

section \<open>The templates\<close>

definition hostedClusterSpec :: "nat \<Rightarrow> (string \<times> json) list" where
  "hostedClusterSpec idx =
     (let region = awsRegions ! (idx mod 9);
          ver = ocpVersions ! (idx mod 5);
          clusterID = ''cluster-'' @ pad0 6 (dec idx)
      in [
         (''creatorARN'', JStr (role_arn idx ''Installer'')),
         (''hostedCluster'', JObj [
           (''platform'', JObj [
             (''type'', JStr ''AWS''),
             (''aws'', JObj [
               (''region'', JStr region),
               (''cloudProviderConfigRef'', JObj [(''name'', JStr ''aws-provider-config'')]),
               (''resourceTags'', JArr [
                 JObj [(''key'', JStr ''red-hat-managed''), (''value'', JStr ''true'')],
                 JObj [(''key'', JStr ''red-hat-clustertype''), (''value'', JStr ''rosa'')],
                 JObj [(''key'', JStr ''api.openshift.com/id''), (''value'', JStr clusterID)],
                 JObj [
                   (''key'', JStr ''api.openshift.com/environment''),
                   (''value'', JStr ''production'')],
                 JObj [
                   (''key'', JStr ''api.openshift.com/legal-entity-id''),
                   (''value'', JStr (''le-'' @ pad0 6 (dec (idx mod 5000))))]]),
               (''rolesRef'', JObj [
                 (''ingressARN'', JStr (role_arn idx ''Ingress'')),
                 (''imageRegistryARN'', JStr (role_arn idx ''ImageRegistry'')),
                 (''storageARN'', JStr (role_arn idx ''Storage'')),
                 (''networkARN'', JStr (role_arn idx ''Network'')),
                 (''kubeCloudControllerARN'', JStr (role_arn idx ''KubeCloud'')),
                 (''nodePoolManagementARN'', JStr (role_arn idx ''NodePool'')),
                 (''controlPlaneOperatorARN'', JStr (role_arn idx ''CPO''))]),
               (''endpointAccess'', JStr ''Public'')])]),
           (''networking'', JObj [
             (''clusterNetwork'', JArr [JObj [(''cidr'', JStr ''10.128.0.0/14'')]]),
             (''serviceNetwork'', JArr [JObj [(''cidr'', JStr ''172.30.0.0/16'')]]),
             (''machineNetwork'', JArr [JObj [(''cidr'', JStr ''10.0.0.0/16'')]]),
             (''networkType'', JStr ''OVNKubernetes'')]),
           (''release'', JObj [
             (''image'', JStr (''quay.io/openshift-release-dev/ocp-release:'' @ ver @ ''-multi''))]),
           (''issuerURL'', JStr (''https://d'' @ pad0 8 (hex idx) @ ''.cloudfront.net/'' @ clusterID)),
           (''etcd'', JObj [
             (''managementType'', JStr ''Managed''),
             (''managed'', JObj [
               (''storage'', JObj [
                 (''type'', JStr ''PersistentVolume''),
                 (''persistentVolume'', JObj [(''size'', JStr ''8Gi''), (''storageClassName'', JStr ''gp3-csi'')])])])]),
           (''services'', JArr [
             JObj [
               (''service'', JStr ''APIServer''),
               (''servicePublishingStrategy'', JObj [(''type'', JStr ''LoadBalancer'')])],
             JObj [
               (''service'', JStr ''OAuthServer''),
               (''servicePublishingStrategy'', JObj [(''type'', JStr ''Route'')])],
             JObj [
               (''service'', JStr ''Konnectivity''),
               (''servicePublishingStrategy'', JObj [(''type'', JStr ''Route'')])],
             JObj [
               (''service'', JStr ''Ignition''),
               (''servicePublishingStrategy'', JObj [(''type'', JStr ''Route'')])],
             JObj [
               (''service'', JStr ''OVNSbDb''),
               (''servicePublishingStrategy'', JObj [(''type'', JStr ''Route'')])]]),
           (''fips'', JBool False),
           (''controllerAvailabilityPolicy'', JStr ''HighlyAvailable''),
           (''infrastructureAvailabilityPolicy'', JStr ''HighlyAvailable''),
           (''dns'', JObj [
             (''baseDomain'', JStr ''hyperfleet.io''),
             (''publicZoneID'', JStr (''Z'' @ pad0 10 (dec idx))),
             (''privateZoneID'', JStr (''Z'' @ pad0 10 (dec idx) @ ''P''))]),
           (''pullSecret'', JObj [(''name'', JStr ''pull-secret'')]),
           (''sshKey'', JObj [(''name'', JStr ''ssh-key'')]),
           (''configuration'', JObj [(''apiServer'', JObj [(''audit'', JObj [(''profile'', JStr ''Default'')])])])])])"

definition hostedClusterStatus :: "nat \<Rightarrow> (string \<times> json) list" where
  "hostedClusterStatus idx =
     (let ver = ocpVersions ! (idx mod 5);
          region = awsRegions ! (idx mod 9);
          conditions = [
          condition ''Ready'' ''True'' ''AsExpected''
              ''All components are ready'',
          condition ''Available'' ''True'' ''AsExpected''
              ''Hosted control plane is available'',
          condition ''Progressing'' ''False'' ''AsExpected''
              ''Configuration is up to date'',
          condition ''Degraded'' ''False'' ''AsExpected''
              ''Hosted cluster is not degraded'',
          condition ''InfrastructureReady'' ''True'' ''AsExpected''
              ''Infrastructure is provisioned'',
          condition ''KubeAPIServerAvailable'' ''True'' ''AsExpected''
              ''Kube API server is available at the endpoint'',
          condition ''EtcdAvailable'' ''True'' ''AsExpected''
              ''Etcd cluster is operational'',
          condition ''ValidHostedControlPlaneConfiguration'' ''True'' ''AsExpected''
              ''Configuration passes validation'',
          condition ''CloudResourcesDestroyed'' ''False'' ''NotDeleting''
              ''Cluster is not being deleted'',
          condition ''ExternalDNSReachable'' ''True'' ''AsExpected''
              ''External DNS records are resolvable'',
          condition ''ValidOIDCConfiguration'' ''True'' ''AsExpected''
              ''OIDC provider configuration is valid'',
          condition ''ValidReleaseImage'' ''True'' ''AsExpected''
              ''Release image is valid and pullable'',
          condition ''ReconciliationActive'' ''True'' ''AsExpected''
              ''Reconciliation is active'',
          condition ''ReconciliationSucceeded'' ''True'' ''AsExpected''
              ''Reconciliation completed successfully'',
          condition ''ClusterVersionAvailable'' ''True'' ''AsExpected''
              (''Cluster version '' @ ver @ '' is available''),
          condition ''ClusterVersionProgressing'' ''False'' ''AsExpected''
              ''Cluster version is up to date'']
      in [
         (''observedGeneration'', JNum (int (idx + 1))),
         (''phase'', JStr ''Ready''),
         (''version'', JStr ver),
         (''controlPlaneEndpoint'', JObj [
           (''host'', JStr (''api.seed-'' @ pad0 6 (dec idx) @ ''.'' @ region @ ''.hyperfleet.io'')),
           (''port'', JNum 6443)]),
         (''conditions'', JArr conditions),
         (''placementRef'', JObj [
           (''name'', JStr (''placement-'' @ region @ ''-'' @ pad0 2 (dec (idx mod 10)))),
           (''managementCluster'', JStr (''mc-'' @ region @ ''-'' @ pad0 2 (dec (idx mod 5))))]),
         (''platform'', JObj [
           (''aws'', JObj [(''defaultWorkerSecurityGroupID'', JStr (''sg-'' @ pad0 12 (hex idx)))])]),
         (''oauthCallbackURLTemplate'', JStr (''https://oauth.seed-'' @ pad0 6 (dec idx) @ ''.'' @ region @ ''.hyperfleet.io:443/oauthcallback/[identity-provider-name]''))])"

definition hostedClusterMetadata :: "nat \<Rightarrow> (string \<times> json) list" where
  "hostedClusterMetadata idx =
     (let region = awsRegions ! (idx mod 9);
          clusterID = ''cluster-'' @ pad0 6 (dec idx);
          envs = [''production'', ''staging'', ''development'']
      in [
         (''labels'', JObj [
           (''hyperfleet.io/account-id'', JStr (''acct-'' @ pad0 6 (dec (idx mod 5000)))),
           (''hyperfleet.io/region'', JStr region),
           (''hyperfleet.io/environment'', JStr (envs ! (idx mod 3))),
           (''hyperfleet.io/cluster-id'', JStr clusterID),
           (''hyperfleet.io/management-cluster'', JStr (''mc-'' @ region @ ''-'' @ pad0 2 (dec (idx mod 5)))),
           (''api.openshift.com/id'', JStr clusterID),
           (''api.openshift.com/legal-entity-id'', JStr (''le-'' @ pad0 6 (dec (idx mod 5000)))),
           (''api.openshift.com/name'', JStr (''seed-'' @ pad0 6 (dec idx)))]),
         (''annotations'', JObj [
           (''hyperfleet.io/managed-by'', JStr ''rosa-hyperfleet-api''),
           (''hyperfleet.io/created-by'', JStr (role_arn idx ''Installer'')),
           (''hyperfleet.io/provisioner'', JStr ''hypershift''),
           (''hyperfleet.io/dns-base-domain'', JStr ''hyperfleet.io''),
           (''hyperfleet.io/billing-model'', JStr ''marketplace-aws''),
           (''hyperfleet.io/oidc-issuer-url'', JStr (''https://d'' @ pad0 8 (hex idx) @ ''.cloudfront.net/'' @ clusterID)),
           (''api.openshift.com/shard-id'', JStr (''shard-'' @ pad0 2 (dec (idx mod 20))))])])"

definition nodePoolSpec :: "nat \<Rightarrow> (string \<times> json) list" where
  "nodePoolSpec idx =
     (let instType = instanceTypes ! (idx mod 9);
          ver = ocpVersions ! (idx mod 5);
          region = awsRegions ! (idx mod 9);
          replicas = 2 + idx mod 5
      in [
         (''clusterName'', JStr (''seed-'' @ pad0 6 (dec (idx div 5)))),
         (''replicas'', JNum (int replicas)),
         (''nodePool'', JObj [
           (''platform'', JObj [
             (''type'', JStr ''AWS''),
             (''aws'', JObj [
               (''instanceType'', JStr instType),
               (''rootVolume'', JObj [
                 (''type'', JStr ''gp3''),
                 (''size'', JNum 300),
                 (''iops'', JNum 3000),
                 (''throughput'', JNum 125),
                 (''encryptionKey'', JStr (''arn:aws:kms:'' @ region @ '':'' @ pad0 12 (dec (100000000000 + idx)) @ '':key/mrk-'' @ pad0 32 (hex idx)))]),
               (''securityGroups'', JArr [
                 JObj [(''id'', JStr (''sg-'' @ pad0 12 (hex idx)))],
                 JObj [(''id'', JStr (''sg-'' @ pad0 12 (hex (idx + 10000000))))]]),
               (''subnetID'', JStr (''subnet-'' @ pad0 12 (hex idx))),
               (''instanceProfile'', JStr (worker_profile idx))])])]),
         (''management'', JObj [
           (''autoRepair'', JBool True),
           (''replace'', JObj [
             (''strategy'', JStr ''RollingUpdate''),
             (''rollingUpdate'', JObj [(''maxUnavailable'', JNum 0), (''maxSurge'', JNum 1)])]),
           (''upgradeType'', JStr ''Replace'')]),
         (''release'', JObj [
           (''image'', JStr (''quay.io/openshift-release-dev/ocp-release:'' @ ver @ ''-multi''))]),
         (''autoScaling'', JObj [(''min'', JNum (int replicas)), (''max'', JNum (int (replicas * 3)))]),
         (''config'', JArr [
           JObj [
             (''apiVersion'', JStr ''machineconfiguration.openshift.io/v1''),
             (''kind'', JStr ''KubeletConfig''),
             (''spec'', JObj [(''kubeletConfig'', JObj [(''maxPods'', JNum 250), (''podsPerCore'', JNum 10)])])]])])"

definition nodePoolStatus :: "nat \<Rightarrow> (string \<times> json) list" where
  "nodePoolStatus idx =
     (let ver = ocpVersions ! (idx mod 5);
          replicas = 2 + idx mod 5;
          conditions = [
          condition ''Ready'' ''True'' ''AsExpected''
              ''NodePool is ready'',
          condition ''Available'' ''True'' ''AsExpected''
              ''All replicas are available'',
          condition ''AllMachinesReady'' ''True'' ''AsExpected''
              ''All machines have joined the cluster'',
          condition ''AllNodesHealthy'' ''True'' ''AsExpected''
              ''All nodes are reporting healthy status'',
          condition ''AutoscalingEnabled'' ''True'' ''AsExpected''
              ''Autoscaling is enabled'',
          condition ''UpdateManagementEnabled'' ''True'' ''AsExpected''
              ''Update management is active'',
          condition ''AutorepairEnabled'' ''True'' ''AsExpected''
              ''Auto-repair is enabled for this node pool'',
          condition ''ReconciliationActive'' ''True'' ''AsExpected''
              ''Reconciliation loop is active'',
          condition ''ValidMachineConfig'' ''True'' ''AsExpected''
              ''Machine config is valid and applied'',
          condition ''ValidReleaseImage'' ''True'' ''AsExpected''
              ''Release image is valid and pullable'']
      in [
         (''replicas'', JNum (int replicas)),
         (''availableReplicas'', JNum (int replicas)),
         (''readyReplicas'', JNum (int replicas)),
         (''version'', JStr ver),
         (''conditions'', JArr conditions),
         (''platform'', JObj [
           (''aws'', JObj [
             (''instanceProfile'', JStr (worker_profile idx)),
             (''securityGroups'', JArr [JObj [(''id'', JStr (''sg-'' @ pad0 12 (hex idx)))]])])])])"

definition nodePoolMetadata :: "nat \<Rightarrow> (string \<times> json) list" where
  "nodePoolMetadata idx =
     (let instType = instanceTypes ! (idx mod 9);
          region = awsRegions ! (idx mod 9)
      in [
         (''labels'', JObj [
           (''hyperfleet.io/cluster-name'', JStr (''seed-'' @ pad0 6 (dec (idx div 5)))),
           (''hyperfleet.io/instance-type'', JStr instType),
           (''hyperfleet.io/region'', JStr region),
           (''hyperfleet.io/node-pool-name'', JStr (''workers-'' @ pad0 6 (dec idx))),
           (''hyperfleet.io/account-id'', JStr (''acct-'' @ pad0 6 (dec ((idx div 5) mod 5000))))]),
         (''annotations'', JObj [
           (''hyperfleet.io/managed-by'', JStr ''rosa-hyperfleet-api''),
           (''hyperfleet.io/billing-model'', JStr ''marketplace-aws''),
           (''hyperfleet.io/auto-repair'', JStr ''true'')])])"

section \<open>Their keys\<close>

lemma template_keys:
  "map fst (hostedClusterSpec idx) = [''creatorARN'', ''hostedCluster'']"
  "map fst (hostedClusterStatus idx) = [''observedGeneration'', ''phase'', ''version'', ''controlPlaneEndpoint'',
     ''conditions'', ''placementRef'', ''platform'', ''oauthCallbackURLTemplate'']"
  "map fst (hostedClusterMetadata idx) = [''labels'', ''annotations'']"
  "map fst (nodePoolSpec idx) = [''clusterName'', ''replicas'', ''nodePool'', ''management'', ''release'',
     ''autoScaling'', ''config'']"
  "map fst (nodePoolStatus idx) = [''replicas'', ''availableReplicas'', ''readyReplicas'', ''version'',
     ''conditions'', ''platform'']"
  "map fst (nodePoolMetadata idx) = [''labels'', ''annotations'']"
  by (simp_all add: hostedClusterSpec_def hostedClusterStatus_def hostedClusterMetadata_def
      nodePoolSpec_def nodePoolStatus_def nodePoolMetadata_def Let_def)

text \<open>A Go map has each key once; none of them is the key padToSize adds.\<close>

lemma template_distinct:
  "distinct (map fst (hostedClusterSpec idx))" "distinct (map fst (hostedClusterStatus idx))"
  "distinct (map fst (hostedClusterMetadata idx))" "distinct (map fst (nodePoolSpec idx))"
  "distinct (map fst (nodePoolStatus idx))" "distinct (map fst (nodePoolMetadata idx))"
  by (simp_all add: template_keys)

end
