(* ===== verification/Padding.thy ===== *)
theory Padding
  imports SeedTemplates Base64 Meta
begin

text \<open>
  The payloads of src/loadtest/cmd/loadtest/seeder.go: padToSize, which marshals a document,
  adds entries to its _padding map and marshals again until the text is long enough, and
  generatePayload, the blob of kinds without a template. A json.RawMessage is represented by
  the document it holds. The loop of padToSize has no counter that bounds it, so it is a
  partial function; that it returns, and how close to the target, is proved.
\<close>

section \<open>padToSize\<close>

definition padding_key :: "nat \<Rightarrow> string" where
  "padding_key i = ''openshift.io/loadtest-padding-'' @ pad0 4 (dec i)"

text \<open>How many x the next entry gets: what is missing, less an overhead, between 10 and 200.\<close>

definition pad_remaining :: "int \<Rightarrow> nat \<Rightarrow> string \<Rightarrow> int" where
  "pad_remaining targetBytes len key =
     (let remaining = targetBytes - int len - int (length key) - 20; remaining1 = max remaining 10
      in min remaining1 200)"

partial_function (option) pad_loop ::
  "int \<Rightarrow> nat \<Rightarrow> (string \<times> string) list \<Rightarrow> (string \<times> json) list \<Rightarrow> (string \<times> json) list option" where
  "pad_loop targetBytes i padding data =
     (let len = length (Marshal (JObj data)) in
      if int len < targetBytes then
        (let key = padding_key i;
             remaining = pad_remaining targetBytes len key;
             padding' = put_by fst (key, replicate (nat remaining) CHR ''x'') padding;
             data' = put_by fst (''_padding'', str_obj padding') data
         in pad_loop targetBytes (Suc i) padding' data')
      else Some data)"

definition padToSize :: "(string \<times> json) list \<Rightarrow> int \<Rightarrow> json option" where
  "padToSize data targetBytes =
     (if targetBytes \<le> int (length (Marshal (JObj data))) \<or> targetBytes \<le> 0 then Some (JObj data)
      else map_option JObj (pad_loop targetBytes 0 [] data))"

section \<open>Its keys\<close>

lemma digits_val_zeros: "digits_val (replicate n CHR ''0'' @ s) = digits_val s"
  by (induction n) (simp_all add: digits_val_def)

lemma digits_val_pad0 [simp]: "digits_val (pad0 w s) = digits_val s"
  by (simp add: pad0_def digits_val_zeros)

lemma padding_key_inj: "padding_key i = padding_key j \<longleftrightarrow> i = j"
  by (metis digits_val_dec digits_val_pad0 padding_key_def same_append_eq)

lemma inj_padding_key: "inj padding_key"
  by (simp add: inj_def padding_key_inj)

lemma plain_digit: "is_digit c \<Longrightarrow> plain_char c"
  by (auto simp: is_digit_def plain_char_def Let_def)

lemma plain_dec: "list_all plain_char (dec n)"
  using dec_digits [of n] by (auto simp: list_all_iff plain_digit)

lemma plain_pad0: "list_all plain_char s \<Longrightarrow> list_all plain_char (pad0 w s)"
  by (auto simp: pad0_def list_all_iff plain_char_def)

lemma plain_padding_key: "list_all plain_char (padding_key i)"
  using plain_pad0 [OF plain_dec] by (simp add: padding_key_def plain_char_def)

lemma length_dec: "n < 10 ^ Suc k \<Longrightarrow> length (dec n) \<le> Suc k"
proof (induction k arbitrary: n)
  case (Suc k)
  then have "n div 10 < 10 ^ Suc k" by (simp add: div_less_iff_less_mult)
  then show ?case using Suc.IH by (subst dec.simps) simp
qed (simp add: dec.simps)

lemma length_padding_key: "34 \<le> length (padding_key i)" "i < 10000 \<Longrightarrow> length (padding_key i) = 34"
  using length_dec [of i 3] by (simp_all add: padding_key_def pad0_def)

section \<open>The documents of the loop\<close>

text \<open>The map after the entries \<open>ps\<close>; its first entry adds the key _padding.\<close>

definition padded :: "(string \<times> json) list \<Rightarrow> (string \<times> string) list \<Rightarrow> (string \<times> json) list" where
  "padded data ps = (if ps = [] then data else data @ [(''_padding'', str_obj ps)])"

text \<open>A Go map without the key _padding.\<close>

definition unpadded :: "(string \<times> json) list \<Rightarrow> bool" where
  "unpadded data \<longleftrightarrow> distinct (map fst data) \<and> ''_padding'' \<notin> fst ` set data"

lemma put_by_fresh: "k \<notin> fst ` set xs \<Longrightarrow> put_by fst (k, v) xs = xs @ [(k, v)]"
  by (simp add: put_by_def lookup_by_None)

lemma put_by_last: "k \<notin> fst ` set xs \<Longrightarrow> put_by fst (k, v) (xs @ [(k, u)]) = xs @ [(k, v)]"
  by (auto simp: put_by_def lookup_by_None [symmetric] intro!: map_idI split: option.splits)
     (auto simp: lookup_by_None image_iff)

lemma put_padded: "unpadded data \<Longrightarrow> ps' \<noteq> [] \<Longrightarrow>
    put_by fst (''_padding'', str_obj ps') (padded data ps) = padded data ps'"
  by (cases "ps = []") (simp_all add: padded_def unpadded_def put_by_fresh put_by_last)

lemma distinct_padded: "unpadded data \<Longrightarrow> distinct (map fst (padded data ps))"
  by (auto simp: padded_def unpadded_def)

definition entry_len :: "(string \<times> string) list \<Rightarrow> nat" where
  "entry_len ps = map_len (map (\<lambda>(k, v). (k, JStr v)) ps)"

lemma length_str_obj: "distinct (map fst ps) \<Longrightarrow> length (Marshal (str_obj ps)) = entry_len ps"
  by (simp add: str_obj_def entry_len_def length_Marshal_obj comp_def case_prod_beta)

lemma length_padded:
  assumes "unpadded data" "distinct (map fst ps)" "ps \<noteq> []"
  shows "length (Marshal (JObj (padded data ps))) = map_len data + 11 + entry_len ps + (if data = [] then 0 else 1)"
proof -
  have "list_all plain_char ''_padding''" by (simp add: plain_char_def)
  then have "member_len (''_padding'', str_obj ps) = 11 + entry_len ps"
    by (simp add: member_len_def quote_plain length_str_obj assms(2))
  then have "map_len (data @ [(''_padding'', str_obj ps)]) = map_len data + 11 + entry_len ps + (if data = [] then 0 else 1)"
    by (simp only: map_len_snoc add.assoc)
  moreover have "length (Marshal (JObj (padded data ps))) = map_len (data @ [(''_padding'', str_obj ps)])"
    using length_Marshal_obj [OF distinct_padded [OF assms(1), of ps]] assms(3) by (simp add: padded_def)
  ultimately show ?thesis by simp
qed

lemma entry_len_snoc:
  "entry_len (ps @ [(padding_key i, replicate r CHR ''x'')]) =
     entry_len ps + length (padding_key i) + r + 5 + (if ps = [] then 0 else 1)"
proof -
  have "length (quote (padding_key i)) = length (padding_key i) + 2"
    by (simp add: quote_plain plain_padding_key)
  moreover have "length (quote (replicate r CHR ''x'')) = r + 2"
    by (simp add: quote_plain list_all_iff plain_char_def)
  ultimately show ?thesis
    by (simp add: entry_len_def map_len_snoc member_len_def Marshal_str)
qed

lemma entry_len_Nil: "entry_len [] = 2"
  by (simp add: entry_len_def map_len_def)

text \<open>The entries the loop has made after i iterations.\<close>

definition entries :: "nat \<Rightarrow> (string \<times> string) list \<Rightarrow> bool" where
  "entries i ps \<longleftrightarrow> map fst ps = map padding_key [0..<i] \<and> (\<forall>(k, v) \<in> set ps. \<exists>n. v = replicate n CHR ''x'')"

lemma entries_distinct: "entries i ps \<Longrightarrow> distinct (map fst ps)"
  by (simp add: entries_def distinct_map inj_on_subset [OF inj_padding_key])

lemma entries_fresh: "entries i ps \<Longrightarrow> padding_key i \<notin> fst ` set ps"
proof -
  assume "entries i ps"
  then have "fst ` set ps = padding_key ` {0..<i}" by (metis entries_def set_map set_upt)
  then show ?thesis by (auto simp: padding_key_inj)
qed

lemma entries_snoc: "entries i ps \<Longrightarrow> entries (Suc i) (ps @ [(padding_key i, replicate n CHR ''x'')])"
  by (auto simp: entries_def)

lemma entries_Nil: "entries i ps \<Longrightarrow> ps = [] \<longleftrightarrow> i = 0"
  by (auto simp: entries_def)

text \<open>One entry makes the text longer by its key, its value and the punctuation.\<close>

lemma padded_grows:
  assumes "unpadded data" "entries i ps"
  shows "length (Marshal (JObj (padded data (ps @ [(padding_key i, replicate r CHR ''x'')])))) =
    length (Marshal (JObj (padded data ps))) + length (padding_key i) + r +
      (if ps \<noteq> [] then 6 else if data = [] then 18 else 19)"
proof (cases "ps = []")
  case True
  have "length (Marshal (JObj data)) = map_len data"
    using assms(1) by (simp add: unpadded_def length_Marshal_obj)
  then show ?thesis
    using True length_padded [OF assms(1), of "[(padding_key i, replicate r CHR ''x'')]"]
      entry_len_snoc [of "[]" i r] by (simp add: padded_def entry_len_Nil)
next
  case False
  then show ?thesis
    using length_padded [OF assms(1) entries_distinct [OF assms(2)]]
      length_padded [OF assms(1) entries_distinct [OF entries_snoc [OF assms(2)]]]
    by (simp add: entry_len_snoc)
qed

section \<open>The loop ends\<close>

text \<open>How many bytes one round may overshoot the target by, and how much it adds at least.\<close>

lemma pad_round:
  fixes r :: nat
  assumes "unpadded data" "entries i ps" "int (length (Marshal (JObj (padded data ps)))) < targetBytes"
    and "r = nat (pad_remaining targetBytes (length (Marshal (JObj (padded data ps)))) (padding_key i))"
  defines "L' \<equiv> length (Marshal (JObj (padded data (ps @ [(padding_key i, replicate r CHR ''x'')]))))"
  shows "length (Marshal (JObj (padded data ps))) + 50 \<le> L'"
    and "int L' \<le> targetBytes + 28 + int (length (padding_key i))"
proof -
  let ?L = "length (Marshal (JObj (padded data ps)))" and ?k = "length (padding_key i)"
  have r: "int r = min (max (targetBytes - int ?L - int ?k - 20) 10) 200"
    using assms(4) by (simp add: pad_remaining_def Let_def max_def min_def)
  have L': "L' = ?L + ?k + r + (if ps \<noteq> [] then 6 else if data = [] then 18 else 19)"
    unfolding L'_def by (rule padded_grows [OF assms(1,2)])
  have "10 \<le> r" using r by linarith
  then show "?L + 50 \<le> L'" using L' length_padding_key(1) [of i] by simp
  show "int L' \<le> targetBytes + 28 + int ?k" using L' r assms(3) by (auto simp: min_def max_def split: if_splits)
qed

lemma pad_loop_returns:
  assumes "unpadded data" "entries i ps" "i * 50 \<le> length (Marshal (JObj (padded data ps)))"
  shows "\<exists>n ps'. pad_loop targetBytes i ps (padded data ps) = Some (padded data ps') \<and> entries n ps' \<and>
    targetBytes \<le> int (length (Marshal (JObj (padded data ps')))) \<and>
    (int (length (Marshal (JObj (padded data ps)))) < targetBytes \<and> targetBytes \<le> 500000 \<longrightarrow>
       int (length (Marshal (JObj (padded data ps')))) \<le> targetBytes + 62)"
  using assms(2,3)
proof (induction "nat (targetBytes - int (length (Marshal (JObj (padded data ps)))))"
    arbitrary: i ps rule: less_induct)
  case (less ps i)
  let ?L = "length (Marshal (JObj (padded data ps)))"
  let ?r = "nat (pad_remaining targetBytes ?L (padding_key i))"
  let ?ps = "ps @ [(padding_key i, replicate ?r CHR ''x'')]"
  let ?L' = "length (Marshal (JObj (padded data ?ps)))"
  show ?case
  proof (cases "int ?L < targetBytes")
    case False
    then have "pad_loop targetBytes i ps (padded data ps) = Some (padded data ps)"
      by (subst pad_loop.simps) (simp add: Let_def)
    then show ?thesis using False less.prems(1) by (intro exI [of _ i] exI [of _ ps]) simp
  next
    case True
    from pad_round [OF assms(1) less.prems(1) True refl]
    have grow: "?L + 50 \<le> ?L'" and over: "int ?L' \<le> targetBytes + 28 + int (length (padding_key i))" by simp_all
    have step: "pad_loop targetBytes i ps (padded data ps) = pad_loop targetBytes (Suc i) ?ps (padded data ?ps)"
      using True entries_fresh [OF less.prems(1)] put_padded [OF assms(1), of ?ps ps]
      by (subst pad_loop.simps) (simp add: Let_def put_by_fresh)
    have "entries (Suc i) ?ps" by (rule entries_snoc [OF less.prems(1)])
    moreover have "Suc i * 50 \<le> ?L'" using less.prems(2) grow by simp
    moreover have "nat (targetBytes - int ?L') < nat (targetBytes - int ?L)" using True grow by linarith
    ultimately obtain n ps' where rec:
      "pad_loop targetBytes (Suc i) ?ps (padded data ?ps) = Some (padded data ps')" "entries n ps'"
      "targetBytes \<le> int (length (Marshal (JObj (padded data ps'))))"
      "int ?L' < targetBytes \<and> targetBytes \<le> 500000 \<longrightarrow>
         int (length (Marshal (JObj (padded data ps')))) \<le> targetBytes + 62"
      using less.hyps [of ?ps "Suc i"] by blast
    have "int (length (Marshal (JObj (padded data ps')))) \<le> targetBytes + 62" if "targetBytes \<le> 500000"
    proof (cases "int ?L' < targetBytes")
      case False
      then have "pad_loop targetBytes (Suc i) ?ps (padded data ?ps) = Some (padded data ?ps)"
        by (subst pad_loop.simps) (simp add: Let_def)
      with rec(1) have "padded data ps' = padded data ?ps" by simp
      moreover have "i < 10000" using less.prems(2) True that by linarith
      ultimately show ?thesis using over length_padding_key(2) [of i] by simp
    qed (use rec(4) that in blast)
    then show ?thesis using step rec(1-3) by auto
  qed
qed

lemma padToSize_returns:
  assumes "unpadded data"
  shows "\<exists>ps doc. padToSize data targetBytes = Some doc \<and> doc = JObj (padded data ps) \<and>
    targetBytes \<le> int (length (Marshal doc)) \<and>
    (targetBytes \<le> int (length (Marshal (JObj data))) \<longrightarrow> doc = JObj data) \<and>
    (int (length (Marshal (JObj data))) < targetBytes \<and> targetBytes \<le> 500000 \<longrightarrow>
       int (length (Marshal doc)) \<le> targetBytes + 62)"
proof (cases "targetBytes \<le> int (length (Marshal (JObj data)))")
  case True
  then show ?thesis by (intro exI [of _ "[]"]) (simp add: padToSize_def padded_def)
next
  case False
  have "entries 0 []" by (simp add: entries_def)
  from pad_loop_returns [OF assms this, of targetBytes]
  obtain ps where "pad_loop targetBytes 0 [] data = Some (padded data ps)"
      "targetBytes \<le> int (length (Marshal (JObj (padded data ps))))"
      "int (length (Marshal (JObj data))) < targetBytes \<and> targetBytes \<le> 500000 \<longrightarrow>
         int (length (Marshal (JObj (padded data ps)))) \<le> targetBytes + 62"
    by (auto simp: padded_def)
  then show ?thesis using False by (intro exI [of _ ps]) (auto simp: padToSize_def)
qed

text \<open>padToSize always returns, and hits its target: for every document without the key _padding and
  every target the loop ends, and the result is the document, unchanged if its text is long
  enough or the target is not positive, and otherwise with one more key, _padding, whose text
  is at least the target long; up to half a megabyte it overshoots the target by at most 62 bytes.\<close>

theorem padToSize_terminates:
  assumes "unpadded data"
  shows "\<exists>ps doc. padToSize data targetBytes = Some doc \<and> doc = JObj (padded data ps) \<and>
    targetBytes \<le> int (length (Marshal doc)) \<and>
    (targetBytes \<le> int (length (Marshal (JObj data))) \<longrightarrow> doc = JObj data) \<and>
    (int (length (Marshal (JObj data))) < targetBytes \<and> targetBytes \<le> 500000 \<longrightarrow>
       int (length (Marshal doc)) \<le> targetBytes + 62)"
  using assms by (rule padToSize_returns)

theorem padToSize_terminates_witness:
  "\<exists>doc. padToSize [(''a'', JNum 1)] 40 = Some doc \<and> 40 \<le> length (Marshal doc) \<and> length (Marshal doc) \<le> 102"
proof -
  have "unpadded [(''a'', JNum 1)]" by (simp add: unpadded_def)
  moreover have "length (Marshal (JObj [(''a'', JNum 1)])) = 7"
    by (simp add: Marshal_def FormatInt_def dec.simps quote_plain plain_char_def)
  ultimately show ?thesis using padToSize_terminates [of "[(''a'', JNum 1)]" 40] by auto
qed

end
