(* ===== verification/LoadConfig.thy ===== *)
theory LoadConfig
  imports Float64
begin

text \<open>
  The specification of a load test, src/loadtest/cmd/loadtest/config.go: the structs its YAML
  file fills, the defaults validate puts in, and LoadConfig. Reading the file and decoding
  YAML are arguments of LoadConfig. A Go int is an int, a time.Duration its nanoseconds.
\<close>

section \<open>The structs\<close>

record MetadataConfig =
  mcName :: string
  mcDescription :: string

record RDSConfig =
  InstanceClass :: string
  EngineVersion :: string

record ClusterConfig =
  BaselinePollInterval :: duration
  ccDebounceFloor :: duration

record SeedGVK =
  seedGVK :: string
  SpecSizeBytes :: int
  StatusSizeBytes :: int
  MetadataSizeBytes :: int
  Objects :: int

record Phase0Config =
  p0Enabled :: bool
  PingIterations :: int
  WriteIterations :: int
  StoredProcWrites :: int
  SyncCommitCompare :: int

record Phase1Config =
  p1Enabled :: bool
  Workers :: int
  p1Duration :: duration
  WarmUp :: duration
  Runs :: int
  p1TargetRPS :: float64
  TargetP99Ms :: int
  WorkerSweep :: "int list"

record Phase2Config =
  p2Enabled :: bool
  p2Duration :: duration
  p2TargetRPS :: float64
  BurstRPS :: float64
  TargetCPUPct :: int
  TargetP50Ms :: int

record Phase3Config =
  p3Enabled :: bool
  KillFraction :: float64

record Phase5Config =
  p5Enabled :: bool
  NumWatchers :: int
  WriteRate :: int
  WriteCount :: int
  DoorbellDeliveryP99Ms :: int
  NotifyLossDrill :: bool

record PhasesConfig =
  Phase0Baseline :: Phase0Config
  Phase1Ceiling :: Phase1Config
  Phase2Steady :: Phase2Config
  Phase2bSkew :: bool
  Phase3Avalanche :: Phase3Config
  Phase5Poll :: Phase5Config

record VerifierConfig =
  vcEnabled :: bool
  vcPollInterval :: duration
  vcCanaryInterval :: duration

record Config =
  cfgMetadata :: MetadataConfig
  RDS :: RDSConfig
  Cluster :: ClusterConfig
  SeedGVKs :: "SeedGVK list"
  Phases :: PhasesConfig
  cfgVerifier :: VerifierConfig
  CheckpointInterval :: duration

section \<open>Defaults\<close>

definition or_default :: "int \<Rightarrow> int \<Rightarrow> int" where
  "or_default d x = (if x \<le> 0 then d else x)"

definition validate_cluster :: "ClusterConfig \<Rightarrow> ClusterConfig" where
  "validate_cluster c =
     c\<lparr>BaselinePollInterval := or_default (5 * second) (BaselinePollInterval c),
       ccDebounceFloor := or_default (100 * millisecond) (ccDebounceFloor c)\<rparr>"

definition validate_phase0 :: "Phase0Config \<Rightarrow> Phase0Config" where
  "validate_phase0 p =
     p\<lparr>PingIterations := or_default 1000 (PingIterations p),
       WriteIterations := or_default 500 (WriteIterations p),
       StoredProcWrites := or_default 500 (StoredProcWrites p),
       SyncCommitCompare := or_default 200 (SyncCommitCompare p)\<rparr>"

definition validate_phase1 :: "Phase1Config \<Rightarrow> Phase1Config" where
  "validate_phase1 p =
     p\<lparr>WarmUp := (if WarmUp p < 0 then 0 else WarmUp p), Runs := or_default 1 (Runs p)\<rparr>"

text \<open>validate changes its receiver and always returns a nil error.\<close>

definition validate :: "Config \<Rightarrow> Config" where
  "validate c =
     c\<lparr>Cluster := validate_cluster (Cluster c),
       CheckpointInterval := or_default (5 * 60 * second) (CheckpointInterval c),
       Phases := (Phases c)\<lparr>Phase0Baseline := validate_phase0 (Phase0Baseline (Phases c)),
                            Phase1Ceiling := validate_phase1 (Phase1Ceiling (Phases c))\<rparr>\<rparr>"

datatype config_error = ReadConfig string | ParseConfig string

definition LoadConfig :: "string + string \<Rightarrow> (string \<Rightarrow> string + Config) \<Rightarrow> config_error + Config" where
  "LoadConfig file yaml =
     (case file of
        Inl e \<Rightarrow> Inl (ReadConfig e)
      | Inr data \<Rightarrow>
          (case yaml data of
             Inl e \<Rightarrow> Inl (ParseConfig e)
           | Inr cfg \<Rightarrow> Inr (validate cfg)))"

fun total_loop :: "SeedGVK list \<Rightarrow> int \<Rightarrow> int" where
  "total_loop [] acc = acc"
| "total_loop (g # gs) acc = total_loop gs (acc + Objects g)"

definition ComputeTotalObjects :: "Config \<Rightarrow> int" where
  "ComputeTotalObjects c = total_loop (SeedGVKs c) 0"

lemma total_loop_eq: "total_loop gs t = t + sum_list (map Objects gs)"
  by (induction gs arbitrary: t) simp_all

lemma ComputeTotalObjects_eq: "ComputeTotalObjects c = sum_list (map Objects (SeedGVKs c))"
  by (simp add: ComputeTotalObjects_def total_loop_eq)

text \<open>The kind a phase writes: the first configured one, or Deployment.\<close>

definition first_gvk :: "Config \<Rightarrow> string" where
  "first_gvk c = (case SeedGVKs c of [] \<Rightarrow> ''apps/v1/Deployment'' | g # _ \<Rightarrow> seedGVK g)"

section \<open>Well-formed configurations\<close>

definition wf_config :: "Config \<Rightarrow> bool" where
  "wf_config c \<longleftrightarrow>
     0 < BaselinePollInterval (Cluster c) \<and> 0 < ccDebounceFloor (Cluster c) \<and> 0 < CheckpointInterval c \<and>
     0 < PingIterations (Phase0Baseline (Phases c)) \<and> 0 < WriteIterations (Phase0Baseline (Phases c)) \<and>
     0 < StoredProcWrites (Phase0Baseline (Phases c)) \<and> 0 < SyncCommitCompare (Phase0Baseline (Phases c)) \<and>
     0 \<le> WarmUp (Phase1Ceiling (Phases c)) \<and> 0 < Runs (Phase1Ceiling (Phases c))"

lemma or_default_pos: "0 < d \<Longrightarrow> 0 < or_default d x"
  by (simp add: or_default_def)

lemma or_default_same: "0 < x \<Longrightarrow> or_default d x = x"
  by (simp add: or_default_def)

lemmas validate_defs = validate_def validate_cluster_def validate_phase0_def validate_phase1_def

lemma wf_validate: "wf_config (validate c)"
  by (simp add: wf_config_def validate_defs or_default_pos)

lemma validate_wf: "wf_config c \<Longrightarrow> validate c = c"
  by (simp add: wf_config_def validate_defs or_default_same)


text \<open>A specification that leaves everything to the defaults.\<close>

definition ex_config :: Config where
  "ex_config =
     \<lparr>cfgMetadata = \<lparr>mcName = ''t'', mcDescription = ''''\<rparr>,
      RDS = \<lparr>InstanceClass = '''', EngineVersion = ''''\<rparr>,
      Cluster = \<lparr>BaselinePollInterval = 0, ccDebounceFloor = 0\<rparr>,
      SeedGVKs = [\<lparr>seedGVK = ''apps/v1/Deployment'', SpecSizeBytes = 0, StatusSizeBytes = 0,
                   MetadataSizeBytes = 0, Objects = 2\<rparr>],
      Phases = \<lparr>Phase0Baseline = \<lparr>p0Enabled = False, PingIterations = 0, WriteIterations = 0,
                                    StoredProcWrites = 0, SyncCommitCompare = 0\<rparr>,
                Phase1Ceiling = \<lparr>p1Enabled = True, Workers = 1, p1Duration = second, WarmUp = -1, Runs = 0,
                                   p1TargetRPS = Fin 10, TargetP99Ms = 50, WorkerSweep = []\<rparr>,
                Phase2Steady = \<lparr>p2Enabled = False, p2Duration = 0, p2TargetRPS = Fin 0, BurstRPS = Fin 0,
                                  TargetCPUPct = 0, TargetP50Ms = 0\<rparr>,
                Phase2bSkew = False,
                Phase3Avalanche = \<lparr>p3Enabled = True, KillFraction = Fin (1 / 2)\<rparr>,
                Phase5Poll = \<lparr>p5Enabled = False, NumWatchers = 0, WriteRate = 0, WriteCount = 0,
                                DoorbellDeliveryP99Ms = 0, NotifyLossDrill = False\<rparr>\<rparr>,
      cfgVerifier = \<lparr>vcEnabled = False, vcPollInterval = 0, vcCanaryInterval = 0\<rparr>,
      CheckpointInterval = 0\<rparr>"


end
