(* ===== verification/LoadStats.thy ===== *)
theory LoadStats
  imports LoadConfig Prelude
begin

text \<open>
  The statistics of the load generator, src/loadtest/cmd/loadtest: percentile, mean, stddev and
  isSerializationFailure of phase1_ceiling.go, snapshotPgStat and diffPgStat of
  phase0_baseline.go. The code multiplies the quantile and the sample count in float64; for
  the quantiles it uses (0.50, 0.99, 0.999) and fewer than 10^12 samples the ceiling of the
  rounded product is the ceiling of the exact one, which is what is written here.
\<close>

section \<open>Percentiles\<close>

definition clamp_index :: "int \<Rightarrow> int \<Rightarrow> int" where
  "clamp_index n idx =
     (let idx1 = (if idx < 0 then 0 else idx) in if n \<le> idx1 then n - 1 else idx1)"

definition percentile :: "duration list \<Rightarrow> real \<Rightarrow> duration" where
  "percentile xs p =
     (if xs = [] then 0
      else xs ! nat (clamp_index (int (length xs)) (\<lceil>p * real (length xs)\<rceil> - 1)))"

lemma count_le_sorted:
  assumes "sorted ys" "i < length ys"
  shows "Suc i \<le> length (filter (\<lambda>y. y \<le> ys ! i) ys)" "length (filter (\<lambda>y. y < ys ! i) ys) \<le> i"
proof -
  have split: "ys = take (Suc i) ys @ drop (Suc i) ys" "ys = take i ys @ drop i ys" by simp_all
  have "filter (\<lambda>y. y \<le> ys ! i) (take (Suc i) ys) = take (Suc i) ys"
    by (rule filter_True) (use assms in \<open>auto simp: in_set_conv_nth sorted_nth_mono\<close>)
  then have "length (filter (\<lambda>y. y \<le> ys ! i) ys) = Suc i + length (filter (\<lambda>y. y \<le> ys ! i) (drop (Suc i) ys))"
    using assms(2) by (subst split(1)) (simp del: append_take_drop_id)
  then show "Suc i \<le> length (filter (\<lambda>y. y \<le> ys ! i) ys)" by simp
  have "filter (\<lambda>y. y < ys ! i) (drop i ys) = []"
    by (rule filter_False) (use assms in \<open>auto simp: in_set_conv_nth not_less intro!: sorted_nth_mono\<close>)
  then have "length (filter (\<lambda>y. y < ys ! i) ys) = length (filter (\<lambda>y. y < ys ! i) (take i ys))"
    by (subst split(2)) (simp del: append_take_drop_id)
  also have "\<dots> \<le> length (take i ys)" by (rule length_filter_le)
  finally show "length (filter (\<lambda>y. y < ys ! i) ys) \<le> i" using assms(2) by simp
qed

lemma length_filter_sort: "length (filter P (sort xs)) = length (filter P (xs :: 'a :: linorder list))"
  by (metis mset_filter mset_sort size_mset)

lemma percentile_nth:
  assumes "xs \<noteq> []" "0 < p" "p \<le> 1"
  shows "\<exists>i. i < length xs \<and> percentile xs p = xs ! i \<and> p * real (length xs) \<le> real (Suc i) \<and>
    real i < p * real (length xs)"
proof -
  let ?c = "\<lceil>p * real (length xs)\<rceil>"
  have "0 < p * real (length xs)" using assms by simp
  then have c1: "1 \<le> ?c" by linarith
  have "p * real (length xs) \<le> real (length xs)" using assms by (simp add: mult_left_le_one_le)
  then have c2: "?c \<le> int (length xs)" by linarith
  have "clamp_index (int (length xs)) (?c - 1) = ?c - 1" using c1 c2 by (simp add: clamp_index_def)
  then have "percentile xs p = xs ! nat (?c - 1)" using assms(1) by (simp add: percentile_def)
  moreover have "p * real (length xs) \<le> real (Suc (nat (?c - 1)))" "real (nat (?c - 1)) < p * real (length xs)"
    using c1 by linarith+
  moreover have "nat (?c - 1) < length xs" using c1 c2 by linarith
  ultimately show ?thesis by blast
qed

text \<open>The reported percentiles are nearest-rank percentiles of the samples: for samples in any order and
  a quantile p in (0, 1], percentile of the sorted samples is one of the samples, at least the
  fraction p of the samples does not exceed it, and less than the fraction p lies below it; of
  no samples it is 0.\<close>

theorem percentile_is_nearest_rank:
  assumes "0 < p" "p \<le> 1"
  shows "let v = percentile (sort xs) p; n = real (length xs) in
    if xs = [] then v = 0
    else v \<in> set xs \<and> p * n \<le> real (length (filter (\<lambda>x. x \<le> v) xs)) \<and>
         real (length (filter (\<lambda>x. x < v) xs)) < p * n"
proof (cases "xs = []")
  case False
  let ?ys = "sort xs"
  from False have "?ys \<noteq> []" by (metis length_0_conv length_sort)
  from percentile_nth [OF this assms] obtain i where i: "i < length xs" "percentile ?ys p = ?ys ! i"
      "p * real (length xs) \<le> real (Suc i)" "real i < p * real (length xs)"
    by (auto simp: length_sort)
  have "?ys ! i \<in> set xs" using i(1) by (metis length_sort nth_mem set_sort)
  moreover have "Suc i \<le> length (filter (\<lambda>y. y \<le> ?ys ! i) xs)" "length (filter (\<lambda>y. y < ?ys ! i) xs) \<le> i"
    using count_le_sorted [of ?ys i] i(1) by (simp_all add: length_filter_sort)
  ultimately show ?thesis using False i(2-4) by (simp add: Let_def)
qed (simp add: percentile_def)

theorem percentile_is_nearest_rank_witness:
  "percentile (sort [30, 10, 20 :: int]) (1 / 2) = 20 \<and>
   3 / 2 \<le> real (length (filter (\<lambda>x. x \<le> 20) [30, 10, 20 :: int]))"
proof -
  have s: "percentile (sort [30, 10, 20 :: int]) (1 / 2) = 20"
    by (simp add: percentile_def clamp_index_def Let_def)
  show ?thesis
    using percentile_is_nearest_rank [of "1 / 2" "[30, 10, 20]"] unfolding s by simp
qed

section \<open>Means\<close>

definition mean :: "float64 list \<Rightarrow> float64" where
  "mean vals =
     (if vals = [] then Fin 0 else fdiv (foldl fadd (Fin 0) vals) (Fin (real (length vals))))"

definition stddev :: "float64 list \<Rightarrow> float64" where
  "stddev vals =
     (if length vals < 2 then Fin 0
      else let m = mean vals;
               s = foldl (\<lambda>acc v. let d = fsub v m in fadd acc (fmul d d)) (Fin 0) vals
           in fsqrt (fdiv s (Fin (real (length vals) - 1))))"

lemma foldl_fadd_Fin: "foldl fadd (Fin a) (map Fin xs) = Fin (a + sum_list xs)"
  by (induction xs arbitrary: a) (simp_all add: add.assoc)

lemma mean_Fin: "xs \<noteq> [] \<Longrightarrow> mean (map Fin xs) = Fin (sum_list xs / real (length xs))"
  by (simp add: mean_def foldl_fadd_Fin)

lemma foldl_square_Fin:
  "foldl (\<lambda>acc v. fadd acc (fmul (fsub v (Fin m)) (fsub v (Fin m)))) (Fin a) (map Fin xs) =
     Fin (a + (\<Sum>x\<leftarrow>xs. (x - m) * (x - m)))"
  by (induction xs arbitrary: a) (simp_all add: fsub_def add.assoc)

text \<open>The sample standard deviation, which is never NaN.\<close>

lemma stddev_Fin:
  assumes "2 \<le> length xs"
  shows "stddev (map Fin xs) =
    Fin (sqrt ((\<Sum>x\<leftarrow>xs. (x - sum_list xs / length xs)\<^sup>2) / (real (length xs) - 1)))"
proof -
  let ?m = "sum_list xs / length xs"
  have ne: "xs \<noteq> []" "\<not> length xs < 2" using assms by auto
  have "0 \<le> (\<Sum>x\<leftarrow>xs. (x - ?m) * (x - ?m))" by (rule sum_list_nonneg) auto
  then have "\<not> (\<Sum>x\<leftarrow>xs. (x - ?m) * (x - ?m)) / (real (length xs) - 1) < 0"
    unfolding not_less by (rule divide_nonneg_nonneg) (use assms in simp)
  moreover have "stddev (map Fin xs) =
      fsqrt (fdiv (Fin (\<Sum>x\<leftarrow>xs. (x - ?m) * (x - ?m))) (Fin (real (length xs) - 1)))"
    using ne by (simp add: stddev_def mean_Fin [OF ne(1)] foldl_square_Fin Let_def del: fsqrt.simps fdiv.simps)
  ultimately show ?thesis using assms by (simp add: power2_eq_square)
qed

section \<open>Error texts\<close>

fun contains :: "string \<Rightarrow> string \<Rightarrow> bool" where
  "contains [] pat = (pat = [])"
| "contains (c # cs) pat = (take (length pat) (c # cs) = pat \<or> contains cs pat)"

text \<open>The error is given by its text; None is nil.\<close>

definition isSerializationFailure :: "string option \<Rightarrow> bool" where
  "isSerializationFailure err =
     (case err of
        None \<Rightarrow> False
      | Some msg \<Rightarrow> contains msg ''serialization'' \<or> contains msg ''40001'')"

lemma contains_iff: "contains s pat \<longleftrightarrow> (\<exists>a b. s = a @ pat @ b)"
proof (induction s)
  case (Cons c cs)
  have "take (length pat) (c # cs) = pat \<longleftrightarrow> (\<exists>b. c # cs = pat @ b)"
    by (metis append_eq_conv_conj append_take_drop_id)
  moreover have "(\<exists>a b. c # cs = a @ pat @ b) \<longleftrightarrow> (\<exists>b. c # cs = pat @ b) \<or> (\<exists>a b. cs = a @ pat @ b)"
    by (auto simp: Cons_eq_append_conv)
  ultimately show ?case using Cons by simp
qed auto

section \<open>pg_stat_statements\<close>

record pgStatRow =
  psQuery :: string
  psCalls :: int
  psTotalTime :: real

record PgStatEntry =
  peQuery :: string
  peCalls :: int
  MeanTimeMs :: real
  TotalTimeMs :: real

text \<open>
  The rows of one snapshot by query text: of two rows with the same text the later one stays.
  An error of the query or of a row gives up the snapshot.
\<close>

definition snapshotPgStat :: "string + pgStatRow list \<Rightarrow> string + (string \<Rightarrow> pgStatRow option)" where
  "snapshotPgStat rs =
     (case rs of
        Inl e \<Rightarrow> Inl e
      | Inr xs \<Rightarrow> Inr (foldl (\<lambda>m r. m(psQuery r \<mapsto> r)) (\<lambda>_. None) xs))"

definition diff_entry :: "(string \<Rightarrow> pgStatRow option) \<Rightarrow> string \<times> pgStatRow \<Rightarrow> PgStatEntry option" where
  "diff_entry before qa =
     (let a = snd qa;
          b = (case before (fst qa) of Some r \<Rightarrow> r | None \<Rightarrow> \<lparr>psQuery = '''', psCalls = 0, psTotalTime = 0\<rparr>);
          callsDelta = psCalls a - psCalls b; timeDelta = psTotalTime a - psTotalTime b
      in if callsDelta \<le> 0 then None
         else Some \<lparr>peQuery = fst qa, peCalls = callsDelta, MeanTimeMs = timeDelta / real_of_int callsDelta,
                    TotalTimeMs = timeDelta\<rparr>)"

text \<open>\<open>visit\<close> lists the keys of the later snapshot in the order in which the range loop visits them.\<close>

definition diffPgStat ::
  "string list \<Rightarrow> (string \<Rightarrow> pgStatRow option) \<Rightarrow> (string \<Rightarrow> pgStatRow option) \<Rightarrow> PgStatEntry list" where
  "diffPgStat visit before after =
     sort_key (\<lambda>e. - TotalTimeMs e)
       (List.map_filter (\<lambda>q. case after q of None \<Rightarrow> None | Some a \<Rightarrow> diff_entry before (q, a)) visit)"

lemma diffPgStat_mem:
  "e \<in> set (diffPgStat visit before after) \<longleftrightarrow>
     (\<exists>q a. q \<in> set visit \<and> after q = Some a \<and> diff_entry before (q, a) = Some e)"
  by (auto simp: diffPgStat_def List.map_filter_def split: option.splits) force+

lemma diffPgStat_calls: "e \<in> set (diffPgStat visit before after) \<Longrightarrow> 0 < peCalls e"
  by (auto simp: diffPgStat_mem diff_entry_def Let_def split: if_splits option.splits)

lemma diffPgStat_descending: "sorted_wrt (\<lambda>a b. TotalTimeMs b \<le> TotalTimeMs a) (diffPgStat visit before after)"
  using sorted_sort_key [of "\<lambda>e. - TotalTimeMs e"]
  by (simp add: diffPgStat_def sorted_map del: sorted_sort_key)

end
