(* ===== verification/LoadReport.thy ===== *)
theory LoadReport
  imports LoadStats
begin

text \<open>
  Results and reports of the load generator, src/loadtest/cmd/loadtest: the structs and the
  summary of reporter.go, WriteJSON, and the CheckpointWriter of checkpoint.go. The summary is
  the list of the things it prints, one constructor per Printf, before fmt pads and rounds
  them; the entries of a Go map are listed in the order in which the range loop visits them.
  json.Marshal refuses float64 values that are not finite.
\<close>

section \<open>Results\<close>

record SweepEntry =
  seWorkers :: int
  seRPS :: float64
  seRPSStdDev :: float64
  seP50 :: duration
  seP99 :: duration
  seP999 :: duration
  seErrorCount :: int
  seRuns :: int

record StepTiming =
  stStep :: string
  stP50 :: duration
  stP99 :: duration
  stMean :: duration

record BaselineResult =
  PingP50 :: duration
  PingP99 :: duration
  PingP999 :: duration
  StepTimings :: "StepTiming list"
  SyncCommitRPS :: float64
  AsyncCommitRPS :: float64
  SyncCommitP50 :: duration
  AsyncCommitP50 :: duration
  GoWriterRPS :: float64
  GoWriterP50 :: duration
  GoWriterP99 :: duration
  StoredProcRPS :: float64
  StoredProcP50 :: duration
  StoredProcP99 :: duration
  RoundTripSavings :: float64
  PgStatEntries :: "PgStatEntry list"

record PhaseResult =
  prName :: string
  Passed :: bool
  prDuration :: duration
  TotalWrites :: int
  RPS :: float64
  P50 :: duration
  P99 :: duration
  P999 :: duration
  Errors :: "(string \<times> int) list"
  VerifierViolations :: "string list"
  Sweep :: "SweepEntry list"
  Baseline :: "BaselineResult option"

text \<open>A result with nothing but a name, which the phases fill in.\<close>

definition phase_result :: "string \<Rightarrow> bool \<Rightarrow> PhaseResult" where
  "phase_result name ok =
     \<lparr>prName = name, Passed = ok, prDuration = 0, TotalWrites = 0, RPS = Fin 0, P50 = 0, P99 = 0, P999 = 0,
      Errors = [], VerifierViolations = [], Sweep = [], Baseline = None\<rparr>"

text \<open>How a phase ends other than with a result: its error, or a panic of the Go runtime.\<close>

datatype phase_error = Failed string | Panic string

record Report =
  SpecName :: string
  Description :: string
  StartTime :: int
  EndTime :: int
  rpDuration :: duration
  AllPassed :: bool
  rpPhases :: "PhaseResult list"

section \<open>JSON output\<close>

fun finite64 :: "float64 \<Rightarrow> bool" where
  "finite64 (Fin _) = True"
| "finite64 _ = False"

definition baseline_marshals :: "BaselineResult \<Rightarrow> bool" where
  "baseline_marshals b \<longleftrightarrow>
     finite64 (SyncCommitRPS b) \<and> finite64 (AsyncCommitRPS b) \<and> finite64 (GoWriterRPS b) \<and>
     finite64 (StoredProcRPS b) \<and> finite64 (RoundTripSavings b)"

definition result_marshals :: "PhaseResult \<Rightarrow> bool" where
  "result_marshals p \<longleftrightarrow>
     finite64 (RPS p) \<and> list_all (\<lambda>s. finite64 (seRPS s) \<and> finite64 (seRPSStdDev s)) (Sweep p) \<and>
     (case Baseline p of None \<Rightarrow> True | Some b \<Rightarrow> baseline_marshals b)"

datatype report_error = MarshalReport | WriteReport string

text \<open>WriteJSON: the report on the disk, or why there is none; \<open>io\<close> is the error of os.WriteFile.\<close>

definition WriteJSON :: "string option \<Rightarrow> Report \<Rightarrow> report_error + Report" where
  "WriteJSON io report =
     (if \<not> list_all result_marshals (rpPhases report) then Inl MarshalReport
      else (case io of Some e \<Rightarrow> Inl (WriteReport e) | None \<Rightarrow> Inr report))"

section \<open>The summary\<close>

datatype summary_item =
    Title string string int int duration
  | PhaseLine string string int float64 duration duration duration
  | ErrorLine string int
  | ViolationLine string
  | SweepHeader
  | SweepLine int float64 float64 duration duration duration int
  | PingLine duration duration duration
  | StepHeader
  | StepLine string duration duration duration
  | SyncLine string float64 duration
  | SpeedupLine float64
  | GoWriterLine float64 duration duration
  | StoredProcLine float64 duration duration
  | SavingsLine float64
  | StatHeader
  | StatLine string int real
  | Overall string

text \<open>Queries are cut to 53 bytes and two dots.\<close>

definition truncate_query :: "string \<Rightarrow> string" where
  "truncate_query q = (if 53 < length q then take 53 q @ ''..'' else q)"

definition printBaselineSection :: "BaselineResult \<Rightarrow> summary_item list" where
  "printBaselineSection b =
     [PingLine (PingP50 b) (PingP99 b) (PingP999 b)] @
     (if StepTimings b = [] then []
      else StepHeader # map (\<lambda>s. StepLine (stStep s) (stP50 s) (stP99 s) (stMean s)) (StepTimings b)) @
     [SyncLine ''on'' (SyncCommitRPS b) (SyncCommitP50 b), SyncLine ''off'' (AsyncCommitRPS b) (AsyncCommitP50 b)] @
     (if fless (Fin 0) (SyncCommitRPS b) then [SpeedupLine (fdiv (AsyncCommitRPS b) (SyncCommitRPS b))] else []) @
     [GoWriterLine (GoWriterRPS b) (GoWriterP50 b) (GoWriterP99 b),
      StoredProcLine (StoredProcRPS b) (StoredProcP50 b) (StoredProcP99 b),
      SavingsLine (RoundTripSavings b)] @
     (if PgStatEntries b = [] then []
      else StatHeader #
        map (\<lambda>e. StatLine (truncate_query (peQuery e)) (peCalls e) (MeanTimeMs e)) (PgStatEntries b))"

definition phase_items :: "PhaseResult \<Rightarrow> summary_item list" where
  "phase_items p =
     PhaseLine (prName p) (if \<not> Passed p then ''FAIL'' else ''PASS'') (TotalWrites p) (RPS p) (P50 p) (P99 p) (P999 p) #
     map (\<lambda>(errType, count). ErrorLine errType count) (filter (\<lambda>(errType, count). 0 < count) (Errors p)) @
     map ViolationLine (VerifierViolations p) @
     (if 0 < length (Sweep p) then
        SweepHeader #
        map (\<lambda>s. SweepLine (seWorkers s) (seRPS s) (seRPSStdDev s) (seP50 s) (seP99 s) (seP999 s) (seErrorCount s)) (Sweep p)
      else []) @
     (case Baseline p of None \<Rightarrow> [] | Some b \<Rightarrow> printBaselineSection b)"

definition PrintSummary :: "Report \<Rightarrow> summary_item list" where
  "PrintSummary report =
     Title (SpecName report) (Description report) (StartTime report) (EndTime report) (rpDuration report) #
     concat (map phase_items (rpPhases report)) @
     [Overall (if AllPassed report then ''ALL PHASES PASSED'' else ''SOME PHASES FAILED'')]"

lemma truncate_query_length: "length (truncate_query q) \<le> 55"
  by (simp add: truncate_query_def)

lemma baseline_items:
  "x \<in> set (printBaselineSection b) \<Longrightarrow> (\<forall>a b c d e f g. x \<noteq> PhaseLine a b c d e f g) \<and> (\<forall>t. x \<noteq> Overall t)"
  by (auto simp: printBaselineSection_def split: if_splits)

lemma phase_line_iff:
  "PhaseLine n r w q a b c \<in> set (phase_items p) \<longleftrightarrow>
     n = prName p \<and> r = (if Passed p then ''PASS'' else ''FAIL'') \<and> w = TotalWrites p \<and> q = RPS p \<and>
     a = P50 p \<and> b = P99 p \<and> c = P999 p"
  by (auto simp: phase_items_def split: option.splits if_splits dest: baseline_items)

section \<open>Checkpoints\<close>

record PhaseProgress =
  ppName :: string
  StartedAt :: int
  ppElapsed :: duration
  ppTotalWrites :: int
  CurrentRPS :: float64
  ppErrors :: "(string \<times> int) list"

record Checkpoint =
  Timestamp :: int
  cpElapsed :: duration
  cpSpecName :: string
  CompletedPhases :: "PhaseResult list"
  CurrentPhase :: "PhaseProgress option"
  AllPassedSoFar :: bool

record CheckpointWriter =
  cwSpecName :: string
  cwStartTime :: int
  completedPhases :: "PhaseResult list"
  currentPhase :: "PhaseProgress option"
  allPassedSoFar :: bool
  cwPath :: string

definition NewCheckpointWriter :: "int \<Rightarrow> string \<Rightarrow> string \<Rightarrow> CheckpointWriter" where
  "NewCheckpointWriter now specName path =
     \<lparr>cwSpecName = specName, cwStartTime = now, completedPhases = [], currentPhase = None,
      allPassedSoFar = True, cwPath = path\<rparr>"

definition RecordPhaseComplete :: "PhaseResult \<Rightarrow> CheckpointWriter \<Rightarrow> CheckpointWriter" where
  "RecordPhaseComplete result cw =
     (let cw1 = cw\<lparr>completedPhases := completedPhases cw @ [result]\<rparr>;
          cw2 = (if \<not> Passed result then cw1\<lparr>allPassedSoFar := False\<rparr> else cw1)
      in cw2\<lparr>currentPhase := None\<rparr>)"

definition SetCurrentPhase :: "PhaseProgress option \<Rightarrow> CheckpointWriter \<Rightarrow> CheckpointWriter" where
  "SetCurrentPhase progress cw = cw\<lparr>currentPhase := progress\<rparr>"

definition checkpoint_of :: "int \<Rightarrow> CheckpointWriter \<Rightarrow> Checkpoint" where
  "checkpoint_of now cw =
     \<lparr>Timestamp = now, cpElapsed = now - cwStartTime cw, cpSpecName = cwSpecName cw,
      CompletedPhases = completedPhases cw, CurrentPhase = currentPhase cw, AllPassedSoFar = allPassedSoFar cw\<rparr>"

definition checkpoint_marshals :: "Checkpoint \<Rightarrow> bool" where
  "checkpoint_marshals cp \<longleftrightarrow>
     list_all result_marshals (CompletedPhases cp) \<and>
     (case CurrentPhase cp of None \<Rightarrow> True | Some p \<Rightarrow> finite64 (CurrentRPS p))"

text \<open>Write: what is at the path afterwards, given what was there.\<close>

definition WriteCheckpoint :: "int \<Rightarrow> string option \<Rightarrow> CheckpointWriter \<Rightarrow> Checkpoint option \<Rightarrow> Checkpoint option" where
  "WriteCheckpoint now io cw disk =
     (let cp = checkpoint_of now cw in
      if \<not> checkpoint_marshals cp then disk
      else (case io of Some e \<Rightarrow> disk | None \<Rightarrow> Some cp))"

section \<open>The checkpoint file\<close>

text \<open>
  The operations of the main loop and of the ticker's goroutine, in any order; the mutex makes
  each of them one step.
\<close>

datatype cp_op = Record PhaseResult | SetCurrent "PhaseProgress option" | WriteNow int "string option"

fun cp_step :: "cp_op \<Rightarrow> CheckpointWriter \<times> Checkpoint option \<Rightarrow> CheckpointWriter \<times> Checkpoint option" where
  "cp_step (Record r) (cw, disk) = (RecordPhaseComplete r cw, disk)"
| "cp_step (SetCurrent p) (cw, disk) = (SetCurrentPhase p cw, disk)"
| "cp_step (WriteNow now io) (cw, disk) = (cw, WriteCheckpoint now io cw disk)"

definition cp_run :: "cp_op list \<Rightarrow> CheckpointWriter \<times> Checkpoint option \<Rightarrow> CheckpointWriter \<times> Checkpoint option" where
  "cp_run = fold cp_step"

fun recorded :: "cp_op \<Rightarrow> PhaseResult list" where
  "recorded (Record r) = [r]"
| "recorded _ = []"

definition cp_inv :: "PhaseResult list \<Rightarrow> CheckpointWriter \<times> Checkpoint option \<Rightarrow> bool" where
  "cp_inv rs s \<longleftrightarrow>
     completedPhases (fst s) = rs \<and> (allPassedSoFar (fst s) \<longleftrightarrow> list_all Passed rs) \<and>
     (case snd s of
        None \<Rightarrow> True
      | Some cp \<Rightarrow> (\<exists>later. rs = CompletedPhases cp @ later) \<and>
          (AllPassedSoFar cp \<longleftrightarrow> list_all Passed (CompletedPhases cp)))"

lemma cp_step_inv: "cp_inv rs s \<Longrightarrow> cp_inv (rs @ recorded c) (cp_step c s)"
  by (cases s; cases c)
     (auto simp: cp_inv_def RecordPhaseComplete_def SetCurrentPhase_def WriteCheckpoint_def checkpoint_of_def Let_def
        split: option.splits)

lemma cp_run_inv: "cp_inv rs s \<Longrightarrow> cp_inv (rs @ concat (map recorded ops)) (cp_run ops s)"
proof (induction ops arbitrary: rs s)
  case (Cons c ops)
  from Cons.IH [OF cp_step_inv [OF Cons.prems]] show ?case by (simp add: cp_run_def)
qed (simp add: cp_run_def)

end
