(* ===== verification/Verifier.thy ===== *)
theory Verifier
  imports WriterTx Reader ResourceVersion
begin

text \<open>
  The continuous verifier, src/internal/verifier/verifier.go: it counts the events of its
  watcher and the redeliveries among them, writes canary objects and keeps the last 1000
  delivery latencies in a ring. The watcher's events, the clock (milliseconds) and the pending
  canary a full table evicts (Go's map order) are arguments. No Prometheus metrics are attached.
\<close>

section \<open>State\<close>

definition canaryRingSize :: nat where
  "canaryRingSize = 1000"

record Violation =
  Invariant :: string
  violGVK :: string
  Detail :: string

definition violation_string :: "Violation \<Rightarrow> string" where
  "violation_string v = ''['' @ Invariant v @ ''] gvk='' @ violGVK v @ '': '' @ Detail v"

record verifier_config =
  vGVK :: string
  CanaryInterval :: int
  PollInterval :: int

record verifier =
  vcfg :: verifier_config
  violations :: "Violation list"
  vhwm :: txid
  redeliveries :: nat
  eventsCount :: nat
  canaryCount :: nat
  canaryTimes :: "int list"
  canaryIdx :: nat
  canaryFull :: bool
  pendingCanaries :: "(string \<times> time) list"

text \<open>New: zero intervals (in nanoseconds) become 500 ms and 5 s.\<close>

definition New :: "verifier_config \<Rightarrow> verifier" where
  "New cfg =
     (let c1 = (if PollInterval cfg = 0 then cfg\<lparr>PollInterval := 500000000\<rparr> else cfg);
          c2 = (if CanaryInterval c1 = 0 then c1\<lparr>CanaryInterval := 5000000000\<rparr> else c1)
      in \<lparr>vcfg = c2, violations = [], vhwm = 0, redeliveries = 0, eventsCount = 0, canaryCount = 0,
          canaryTimes = replicate canaryRingSize 0, canaryIdx = 0, canaryFull = False,
          pendingCanaries = []\<rparr>)"

section \<open>checkEvent\<close>

definition record_latency :: "int \<Rightarrow> verifier \<Rightarrow> verifier" where
  "record_latency lat v =
     (let v1 = v\<lparr>canaryTimes := (canaryTimes v)[canaryIdx v := lat], canaryIdx := canaryIdx v + 1\<rparr>
      in if canaryRingSize \<le> canaryIdx v1 then v1\<lparr>canaryIdx := 0, canaryFull := True\<rparr> else v1)"

definition checkEvent :: "time \<Rightarrow> Event \<Rightarrow> verifier \<Rightarrow> verifier" where
  "checkEvent now ev v =
     (let r = Resource ev; txid = TxidStamp r;
          v1 = v\<lparr>eventsCount := eventsCount v + 1\<rparr>;
          v2 = (if txid \<le> vhwm v1 \<and> 0 < vhwm v1 then v1\<lparr>redeliveries := redeliveries v1 + 1\<rparr> else v1);
          v3 = (if Namespace r = ''_verifier'' then
                  (case map_of (pendingCanaries v2) (Name r) of
                     None \<Rightarrow> v2
                   | Some writeTime \<Rightarrow>
                       (record_latency (now - writeTime) v2)
                         \<lparr>pendingCanaries := filter (\<lambda>kv. fst kv \<noteq> Name r) (pendingCanaries v2)\<rparr>)
                else v2)
      in if vhwm v3 < txid then v3\<lparr>vhwm := txid\<rparr> else v3)"

section \<open>writeCanary\<close>

definition canary_name :: "nat \<Rightarrow> string" where
  "canary_name n = ''_verifier-canary-'' @ dec n"

definition canary_request :: "string \<Rightarrow> string \<Rightarrow> WriteRequest" where
  "canary_request gvk name =
     \<lparr>wGVK = gvk, wNamespace = ''_verifier'', wName = name,
      wSpec = RDoc (JObj [(''canary'', JBool True)]), wStatus = RDoc (JObj []), wMetadata = RDoc (JObj []),
      wDeletionTimestamp = None, wExpectedVersion = 0, wForceWrite = False\<rparr>"

definition remember :: "string \<Rightarrow> time \<Rightarrow> nat \<Rightarrow> (string \<times> time) list \<Rightarrow> (string \<times> time) list" where
  "remember name t evict ps =
     (let qs = (if canaryRingSize \<le> length ps then take evict ps @ drop (Suc evict) ps else ps)
      in put_by fst (name, t) qs)"

text \<open>
  The connection's world has no doorbell (writer.New without one). \<open>has_conn\<close> is false when no
  canary connection was given; \<open>evict\<close> is the entry the range loop meets first.
\<close>

definition writeCanary ::
  "bool \<Rightarrow> call_env \<Rightarrow> time \<Rightarrow> nat \<Rightarrow> verifier \<Rightarrow> unit world \<Rightarrow> verifier \<times> unit world" where
  "writeCanary has_conn env writeCompleted evict v w =
     (let name = canary_name (canaryCount v) in
      if \<not> has_conn then (v, w)
      else (case Write (\<lambda>g b. b) None env (canary_request (vGVK (vcfg v)) name) w of
              (w', Inl e) \<Rightarrow> (v, w')
            | (w', Inr res) \<Rightarrow>
                (v\<lparr>canaryCount := canaryCount v + 1,
                   pendingCanaries := remember name writeCompleted evict (pendingCanaries v)\<rparr>, w')))"

section \<open>Result\<close>

record vresult =
  resViolations :: "Violation list"
  EventsChecked :: nat
  Redeliveries :: nat
  CanaryWrites :: nat
  CanaryP99 :: int

text \<open>
  int(float64(n) * 0.99) is n * 99 div 100 for every n up to the ring's size.
\<close>

definition samples :: "verifier \<Rightarrow> int list" where
  "samples v = (if canaryFull v then canaryTimes v else take (canaryIdx v) (canaryTimes v))"

definition p99_index :: "nat \<Rightarrow> nat" where
  "p99_index n = (let idx = n * 99 div 100 in if n \<le> idx then n - 1 else idx)"

definition vResult :: "verifier \<Rightarrow> vresult" where
  "vResult v =
     (let n = (if canaryFull v then canaryRingSize else canaryIdx v);
          p99 = (if 0 < n then sort (samples v) ! p99_index (length (samples v)) else 0)
      in \<lparr>resViolations = violations v, EventsChecked = eventsCount v, Redeliveries = redeliveries v,
          CanaryWrites = canaryCount v, CanaryP99 = p99\<rparr>)"

definition Violations :: "verifier \<Rightarrow> Violation list" where
  "Violations v = violations v"

definition addViolation :: "Violation \<Rightarrow> verifier \<Rightarrow> verifier" where
  "addViolation x v = v\<lparr>violations := violations v @ [x]\<rparr>"

section \<open>Run\<close>

text \<open>The select loop over the watcher's events and the canary ticker.\<close>

datatype verifier_input = Delivered time Event | CanaryTick call_env time nat

fun verifier_step :: "bool \<Rightarrow> verifier_input \<Rightarrow> verifier \<times> unit world \<Rightarrow> verifier \<times> unit world" where
  "verifier_step has_conn (Delivered now ev) (v, w) = (checkEvent now ev v, w)"
| "verifier_step has_conn (CanaryTick env t evict) (v, w) = writeCanary has_conn env t evict v w"

definition verifier_run :: "bool \<Rightarrow> verifier_input list \<Rightarrow> verifier \<times> unit world \<Rightarrow> verifier \<times> unit world" where
  "verifier_run has_conn = fold (verifier_step has_conn)"

section \<open>The invariant\<close>

definition verifier_inv :: "verifier \<Rightarrow> bool" where
  "verifier_inv v \<longleftrightarrow>
     length (canaryTimes v) = canaryRingSize \<and> canaryIdx v < canaryRingSize \<and>
     length (pendingCanaries v) \<le> canaryRingSize \<and> distinct (map fst (pendingCanaries v)) \<and>
     redeliveries v \<le> eventsCount v \<and> violations v = []"

lemma inv_New: "verifier_inv (New cfg)"
  by (simp add: verifier_inv_def New_def Let_def canaryRingSize_def)

lemma record_latency_simps [simp]:
  "pendingCanaries (record_latency lat v) = pendingCanaries v" "vhwm (record_latency lat v) = vhwm v"
  "violations (record_latency lat v) = violations v" "eventsCount (record_latency lat v) = eventsCount v"
  "redeliveries (record_latency lat v) = redeliveries v" "length (canaryTimes (record_latency lat v)) = length (canaryTimes v)"
  by (simp_all add: record_latency_def Let_def)

lemma record_latency_idx: "canaryIdx v < canaryRingSize \<Longrightarrow> canaryIdx (record_latency lat v) < canaryRingSize"
  by (auto simp: record_latency_def Let_def canaryRingSize_def)

lemma inv_checkEvent: "verifier_inv v \<Longrightarrow> verifier_inv (checkEvent now ev v)"
  by (auto simp: verifier_inv_def checkEvent_def Let_def record_latency_idx distinct_filter_keys
      split: option.splits intro: le_trans [OF length_filter_le])

lemma inv_remember:
  assumes "length ps \<le> canaryRingSize" "distinct (map fst ps)" "evict < length ps \<or> length ps < canaryRingSize"
  shows "length (remember name t evict ps) \<le> canaryRingSize \<and> distinct (map fst (remember name t evict ps))"
proof -
  let ?qs = "if canaryRingSize \<le> length ps then take evict ps @ drop (Suc evict) ps else ps"
  have len: "length ?qs < canaryRingSize" using assms by auto
  have "distinct (map fst ?qs)"
    using assms(2) set_take_disj_set_drop_if_distinct [OF assms(2), of evict "Suc evict"]
    by (auto simp: take_map [symmetric] drop_map [symmetric] distinct_take distinct_drop)
  then have "distinct (map fst (put_by fst (name, t) ?qs))" by (rule distinct_put_by)
  moreover have "length (put_by fst (name, t) ?qs) \<le> Suc (length ?qs)" by (simp add: put_by_def)
  ultimately show ?thesis using len by (simp add: remember_def Let_def)
qed

fun input_ok :: "verifier_input \<Rightarrow> bool" where
  "input_ok (Delivered _ _) = True"
| "input_ok (CanaryTick _ _ evict) = (evict < canaryRingSize)"

lemma inv_writeCanary:
  assumes "verifier_inv v" "evict < canaryRingSize"
  shows "verifier_inv (fst (writeCanary c env t evict v w))"
proof -
  have "length (remember name t evict (pendingCanaries v)) \<le> canaryRingSize \<and>
      distinct (map fst (remember name t evict (pendingCanaries v)))" for name
    by (rule inv_remember) (use assms in \<open>auto simp: verifier_inv_def\<close>)
  then show ?thesis
    using assms(1) by (auto simp: writeCanary_def verifier_inv_def Let_def split: prod.splits sum.splits)
qed

lemma inv_step: "verifier_inv (fst vw) \<Longrightarrow> input_ok i \<Longrightarrow> verifier_inv (fst (verifier_step c i vw))"
  by (cases vw; cases i) (auto simp: inv_checkEvent inv_writeCanary)

lemma writeCanary_frame:
  "eventsCount (fst (writeCanary c env t evict v w)) = eventsCount v"
  "vhwm (fst (writeCanary c env t evict v w)) = vhwm v"
  by (auto simp: writeCanary_def Let_def split: prod.splits sum.splits)

lemma checkEvent_counts:
  "eventsCount (checkEvent now ev v) = Suc (eventsCount v)"
  "vhwm (checkEvent now ev v) = max (vhwm v) (TxidStamp (Resource ev))"
  by (auto simp: checkEvent_def Let_def split: option.splits)

fun stamp_of :: "verifier_input \<Rightarrow> txid list" where
  "stamp_of (Delivered _ ev) = [TxidStamp (Resource ev)]"
| "stamp_of (CanaryTick _ _ _) = []"

lemma run_inv:
  "list_all input_ok ins \<Longrightarrow> verifier_inv (fst vw) \<Longrightarrow>
     verifier_inv (fst (verifier_run c ins vw)) \<and>
     eventsCount (fst (verifier_run c ins vw)) = eventsCount (fst vw) + length (concat (map stamp_of ins)) \<and>
     vhwm (fst (verifier_run c ins vw)) = foldl max (vhwm (fst vw)) (concat (map stamp_of ins))"
proof (induction ins arbitrary: vw)
  case (Cons i ins)
  have "verifier_inv (fst (verifier_step c i vw))" using inv_step Cons.prems by simp
  then show ?case
    using Cons.IH [of "verifier_step c i vw"] Cons.prems
    by (cases vw; cases i) (simp_all add: verifier_run_def checkEvent_counts writeCanary_frame)
qed (simp add: verifier_run_def)

section \<open>Properties\<close>


definition ex_vcfg :: verifier_config where
  "ex_vcfg = \<lparr>vGVK = ''g'', CanaryInterval = 0, PollInterval = 0\<rparr>"

definition ex_canary_env :: call_env where
  "ex_canary_env = \<lparr>env_net = NetOk, env_fault = NoFault, env_uid = 9, env_now = 5\<rparr>"

definition ex_empty_world :: "unit world" where
  "ex_empty_world = \<lparr>wdb = empty_db, wbell = None, wmet = None\<rparr>"


lemma sorted_count_le:
  assumes "sorted xs" "i < length xs"
  shows "Suc i \<le> length (filter (\<lambda>x. x \<le> xs ! i) xs)"
proof -
  have "\<forall>x \<in> set (take (Suc i) xs). x \<le> xs ! i"
    using assms by (auto simp: in_set_conv_nth sorted_iff_nth_mono)
  then have "filter (\<lambda>x. x \<le> xs ! i) (take (Suc i) xs) = take (Suc i) xs" by simp
  moreover have "length (filter P (take n xs)) \<le> length (filter P xs)" for P n
    by (metis append_take_drop_id filter_append length_append le_add1)
  ultimately show ?thesis using assms(2)
    by (metis (no_types, lifting) Suc_leI length_take min.absorb2)
qed

text \<open>The reported latency is the 99th percentile: once a canary has been delivered, it is one of
  the recorded latencies and at least 99 percent of them are no larger.\<close>

theorem canary_p99:
  assumes "list_all input_ok ins" "v = fst (verifier_run has_conn ins (New cfg, w))" "samples v \<noteq> []"
  shows "CanaryP99 (vResult v) \<in> set (samples v) \<and>
    99 * length (samples v) \<le> 100 * length (filter (\<lambda>x. x \<le> CanaryP99 (vResult v)) (samples v))"
proof -
  let ?xs = "sort (samples v)" and ?n = "length (samples v)"
  have "verifier_inv v" using run_inv [OF assms(1)] inv_New assms(2) by simp
  then have "0 < (if canaryFull v then canaryRingSize else canaryIdx v)"
    using assms(3) by (auto simp: verifier_inv_def samples_def canaryRingSize_def)
  then have p: "CanaryP99 (vResult v) = ?xs ! p99_index ?n" by (simp add: vResult_def)
  have n: "0 < ?n" using assms(3) by simp
  then have i: "p99_index ?n = ?n * 99 div 100" "p99_index ?n < ?n" by (auto simp: p99_index_def Let_def)
  have "Suc (p99_index ?n) \<le> length (filter (\<lambda>x. x \<le> ?xs ! p99_index ?n) ?xs)"
    using sorted_count_le [of ?xs "p99_index ?n"] i(2) by simp
  also have "\<dots> = length (filter (\<lambda>x. x \<le> ?xs ! p99_index ?n) (samples v))"
    by (metis filter_sort length_sort)
  finally have "99 * ?n \<le> 100 * length (filter (\<lambda>x. x \<le> ?xs ! p99_index ?n) (samples v))"
    using i(1) by simp
  moreover have "?xs ! p99_index ?n \<in> set (samples v)" using i(2) nth_mem [of "p99_index ?n" ?xs] by simp
  ultimately show ?thesis by (simp add: p)
qed

definition ex_canary_row :: resource where
  "ex_canary_row = \<lparr>GVK = ''g'', Namespace = ''_verifier'', Name = canary_name 0, UID = 9, TxidStamp = 1,
     ObjectVersion = 1, Spec = JObj [(''canary'', JBool True)], Status = JObj [], Metadata = JObj [],
     DeletionTimestamp = None, CreatedAt = 5, UpdatedAt = 5\<rparr>"

definition ex_canary_world :: "unit world" where
  "ex_canary_world = \<lparr>wdb = \<lparr>rows = [ex_canary_row], horizon = (\<lambda>_. None), next_xid = 2\<rparr>, wbell = None, wmet = None\<rparr>"

lemma ex_canary_write:
  "Write (\<lambda>g b. ()) None ex_canary_env (canary_request ''g'' (canary_name 0)) ex_empty_world =
     (ex_canary_world, Inr \<lparr>Txid = 1, resVersion = 1, resUID = 9, Changed = True\<rparr>)"
  by (simp add: Write_def ex_canary_env_def canary_request_def writeStoredProc_def stored_proc_path_def
      callStoredProc_def run_proc_def pg_args_def params_of_write_def pgctl_write_def p_key_def
      suppression_check_def upsert_def insert_row_def ex_empty_world_def empty_db_def get_row_def
      put_row_def put_by_def rkey_def ring_doorbell_def observeResult_def ex_canary_world_def
      ex_canary_row_def Let_def)

lemma ex_canary_rewrite:
  "Write (\<lambda>g b. ()) None ex_canary_env (canary_request ''g'' (canary_name 0)) ex_canary_world =
     (ex_canary_world\<lparr>wdb := (wdb ex_canary_world)\<lparr>next_xid := 3\<rparr>\<rparr>,
      Inr \<lparr>Txid = 0, resVersion = 1, resUID = 9, Changed = False\<rparr>)"
  by (simp add: Write_def ex_canary_env_def canary_request_def writeStoredProc_def stored_proc_path_def
      callStoredProc_def run_proc_def pg_args_def params_of_write_def pgctl_write_def p_key_def
      suppression_check_def suppressed_iff get_row_def rkey_def observeResult_def ex_canary_world_def
      ex_canary_row_def Let_def)

lemma New_simps [simp]:
  "canaryCount (New cfg) = 0" "pendingCanaries (New cfg) = []" "canaryFull (New cfg) = False"
  "canaryIdx (New cfg) = 0" "canaryTimes (New cfg) = replicate canaryRingSize 0" "vhwm (New cfg) = 0"
  "vGVK (vcfg (New cfg)) = vGVK cfg"
  by (simp_all add: New_def Let_def)

lemma remember_nil [simp]: "remember name t evict [] = [(name, t)]"
  by (simp add: remember_def canaryRingSize_def put_by_def)

lemma take_first: "0 < n \<Longrightarrow> take (Suc 0) ((replicate n x)[0 := y]) = [y]"
  by (cases n) simp_all

theorem canary_p99_witness:
  "CanaryP99 (vResult (fst (verifier_run True
     [CanaryTick ex_canary_env 3 0, Delivered 10 (event_of ex_canary_row)] (New ex_vcfg, ex_empty_world)))) = 7"
proof -
  let ?ins = "[CanaryTick ex_canary_env 3 0, Delivered 10 (event_of ex_canary_row)]"
  let ?v = "fst (verifier_run True ?ins (New ex_vcfg, ex_empty_world))"
  have g: "vGVK ex_vcfg = ''g''" by (simp add: ex_vcfg_def)
  have s: "samples ?v = [7]"
    by (simp add: verifier_run_def writeCanary_def g ex_canary_write checkEvent_def event_of_def
        ex_canary_row_def record_latency_def samples_def Let_def canaryRingSize_def take_first)
  have "list_all input_ok ?ins" by (simp add: canaryRingSize_def)
  from canary_p99 [OF this refl, of True ex_vcfg ex_empty_world] s show ?thesis by simp
qed

text \<open>A restarted verifier measures nothing: its counter starts at 0 again, the canary it writes
  has the name and content of one the previous process left, the write is suppressed, no row
  and no stamp changes (so no event can follow), and yet the canary counts as written and
  stays pending.\<close>

theorem restarted_canary_is_silent:
  "let (v1, w1) = writeCanary True ex_canary_env 3 0 (New ex_vcfg) ex_empty_world;
       (v2, w2) = writeCanary True ex_canary_env 9 0 (New ex_vcfg) w1
   in rows (wdb w1) = [ex_canary_row] \<and> rows (wdb w2) = rows (wdb w1) \<and>
      canaryCount v2 = 1 \<and> pendingCanaries v2 = [(canary_name 0, 9)]"
proof -
  have "vGVK ex_vcfg = ''g''" by (simp add: ex_vcfg_def)
  then show ?thesis
    by (simp add: writeCanary_def ex_canary_write ex_canary_rewrite Let_def)
      (simp add: ex_canary_world_def)
qed

end
