(* ===== verification/LoadWriter.thy ===== *)
theory LoadWriter
  imports LoadReport Verifier
begin

text \<open>
  What the writers of the load phases share. Every phase writes objects that only it creates,
  named after the writer and a number: the locale \<open>numbered_writers\<close> states that, and proves
  once that such writers never meet, in whatever order their writes reach the database. The
  writers share the world with the verifier (verifier.New without a canary connection), whose
  steps may come between theirs. The text of an error, which isSerializationFailure searches,
  is an argument.
\<close>

section \<open>Creating objects that are not there\<close>

text \<open>The row a create writes.\<close>

definition created_row :: "txid \<Rightarrow> uid \<Rightarrow> time \<Rightarrow> WriteRequest \<Rightarrow> json \<Rightarrow> json \<Rightarrow> json \<Rightarrow> resource" where
  "created_row t u now req sp st md =
     \<lparr>GVK = wGVK req, Namespace = wNamespace req, Name = wName req, UID = u, TxidStamp = t,
      ObjectVersion = 1, Spec = canon sp, Status = canon st, Metadata = canon md,
      DeletionTimestamp = wDeletionTimestamp req, CreatedAt = now, UpdatedAt = now\<rparr>"

definition wr_key :: "WriteRequest \<Rightarrow> key" where
  "wr_key r = (wGVK r, wNamespace r, wName r)"

lemma rkey_created: "rkey (created_row t u now req sp st md) = wr_key req"
  by (simp add: created_row_def rkey_def wr_key_def)

lemma Write_creates:
  assumes "env_net env = NetOk" "get_row (wdb w) (wr_key req) = None" "wExpectedVersion req = 0"
    and "wSpec req = RDoc sp" "wStatus req = RDoc st" "wMetadata req = RDoc md"
  shows "\<exists>w' res. Write ring None env req w = (w', Inr res) \<and> Changed res \<and>
    wdb w' = put_row (created_row (next_xid (wdb w)) (env_uid env) (env_now env) req sp st md)
               ((wdb w)\<lparr>next_xid := next_xid (wdb w) + 1\<rparr>)"
proof -
  have "get_row (wdb w) (wGVK req, wNamespace req, wName req) = None" using assms(2) by (simp add: wr_key_def)
  then show ?thesis
    using assms by (simp add: Write_def writeStoredProc_def stored_proc_path_def callStoredProc_def run_proc_def
        pg_args_def params_of_write_def pgctl_write_def p_key_def suppression_check_def upsert_def insert_row_def
        Let_def observeResult_def ring_doorbell_def created_row_def)
qed

lemma get_row_None: "get_row d k = None \<longleftrightarrow> k \<notin> set (map rkey (rows d))"
  by (simp add: get_row_def lookup_by_None)

section \<open>Requests\<close>

text \<open>A create with an empty status and empty metadata, as all phases send it.\<close>

definition load_request :: "string \<Rightarrow> string \<Rightarrow> string \<Rightarrow> json \<Rightarrow> WriteRequest" where
  "load_request gvk namespace name spec =
     \<lparr>wGVK = gvk, wNamespace = namespace, wName = name, wSpec = RDoc spec, wStatus = RDoc (JObj []),
      wMetadata = RDoc (JObj []), wDeletionTimestamp = None, wExpectedVersion = 0, wForceWrite = False\<rparr>"

lemma load_request_simps [simp]:
  "wr_key (load_request gvk ns nm sp) = (gvk, ns, nm)" "wExpectedVersion (load_request gvk ns nm sp) = 0"
  "wSpec (load_request gvk ns nm sp) = RDoc sp" "wStatus (load_request gvk ns nm sp) = RDoc (JObj [])"
  "wMetadata (load_request gvk ns nm sp) = RDoc (JObj [])"
  by (simp_all add: load_request_def wr_key_def)

text \<open>The writer of a load phase: no hooks and no doorbell.\<close>

definition load_write :: "call_env \<Rightarrow> WriteRequest \<Rightarrow> unit world \<Rightarrow> unit world \<times> (werr + WriteResult)" where
  "load_write = Write (\<lambda>g b. b) None"

text \<open>A decimal number before a dash is read back.\<close>

lemma dec_eq [simp]: "dec a = dec b \<longleftrightarrow> a = b"
  by (metis digits_val_dec)

lemma digits_of_dec: "takeWhile is_digit (dec a @ CHR ''-'' # s) = dec a"
  using dec_digits [of a] not_digits by (simp add: takeWhile_append2 list_all_iff)

lemma dec_dash: "dec a @ CHR ''-'' # s = dec b @ CHR ''-'' # t \<longleftrightarrow> a = b \<and> s = t"
proof
  assume eq: "dec a @ CHR ''-'' # s = dec b @ CHR ''-'' # t"
  then have "dec a = dec b" using digits_of_dec by metis
  with eq show "a = b \<and> s = t" by simp
qed simp

lemma list_all_update: "list_all P xs \<Longrightarrow> P y \<Longrightarrow> list_all P (xs[i := y])"
  using set_update_subset_insert [of xs i y] by (auto simp: list_all_iff)

lemma map_update_same: "i < length xs \<Longrightarrow> f y = f (xs ! i) \<Longrightarrow> map f (xs[i := y]) = map f xs"
  by (simp add: map_update list_update_same_conv)

section \<open>Numbered writers\<close>

definition table_keys :: "unit world \<Rightarrow> key set" where
  "table_keys w = set (map rkey (rows (wdb w)))"

locale numbered_writers =
  fixes req :: "'i \<Rightarrow> nat \<Rightarrow> WriteRequest"
  assumes key_inj: "wr_key (req i n) = wr_key (req j m) \<longleftrightarrow> i = j \<and> n = m"
    and creates: "wExpectedVersion (req i n) = 0"
    and documents: "\<exists>sp st md. wSpec (req i n) = RDoc sp \<and> wStatus (req i n) = RDoc st \<and> wMetadata (req i n) = RDoc md"
begin

text \<open>A write under a key that is free succeeds, changes the table and takes only that key.\<close>

lemma fresh_write:
  assumes "env_net env = NetOk" "wr_key (req i n) \<notin> table_keys w"
  shows "\<exists>w' res. load_write env (req i n) w = (w', Inr res) \<and> Changed res \<and>
    table_keys w' = insert (wr_key (req i n)) (table_keys w) \<and>
    length (rows (wdb w')) = Suc (length (rows (wdb w)))"
proof -
  obtain sp st md where docs: "wSpec (req i n) = RDoc sp" "wStatus (req i n) = RDoc st" "wMetadata (req i n) = RDoc md"
    using documents by blast
  have none: "get_row (wdb w) (wr_key (req i n)) = None" using assms(2) by (simp add: get_row_None table_keys_def)
  obtain w' res where w': "load_write env (req i n) w = (w', Inr res)" "Changed res"
      "wdb w' = put_row (created_row (next_xid (wdb w)) (env_uid env) (env_now env) (req i n) sp st md)
                 ((wdb w)\<lparr>next_xid := next_xid (wdb w) + 1\<rparr>)" (is "_ = put_row ?r _")
    using Write_creates [OF assms(1) none creates docs, of "\<lambda>g b. b"] unfolding load_write_def by blast
  have "lookup_by rkey (rows (wdb w)) (rkey ?r) = None" using none by (simp add: rkey_created get_row_def)
  then have "rows (wdb w') = rows (wdb w) @ [?r]" by (simp add: w'(3) put_row_def put_by_def)
  then show ?thesis using w'(1,2) by (simp add: table_keys_def rkey_created)
qed

text \<open>The keys of this family in the table, before and after.\<close>

lemma fresh_write_taken:
  assumes "env_net env = NetOk" "\<And>j m. wr_key (req j m) \<in> table_keys w \<longleftrightarrow> (j, m) \<in> S" "(i, n) \<notin> S"
  shows "\<exists>w' res. load_write env (req i n) w = (w', Inr res) \<and> Changed res \<and>
    (\<forall>j m. wr_key (req j m) \<in> table_keys w' \<longleftrightarrow> (j, m) \<in> insert (i, n) S) \<and>
    length (rows (wdb w')) = Suc (length (rows (wdb w)))"
  using fresh_write [OF assms(1), of i n w] assms(2,3) by (auto simp: key_inj)

end

end
