(* ===== verification/Seeder.thy ===== *)
theory Seeder
  imports Padding LoadConfig LoadWriter
begin

text \<open>
  Seeding, src/loadtest/cmd/loadtest/seeder.go: generatePayload, generateSpec, generateStatus
  and generateMetadata, and Seed, which writes every configured object through the writer. The
  bytes math/rand gives and what the network does to each write are in a \<open>seed_env\<close>, indexed
  by the number of objects seeded so far. The result is None only if a payload is never ready
  (Padding.thy shows that it always is). Log lines and the counter of seeded objects are left
  out.
\<close>

section \<open>Payloads\<close>

text \<open>The base64 text of random bytes, cut to the room the document leaves.\<close>

definition payload_data :: "(nat \<Rightarrow> nat list) \<Rightarrow> int \<Rightarrow> string" where
  "payload_data rand sizeBytes =
     (let dataLen = max (sizeBytes - 25) 0;
          rawLen = max (tdiv (dataLen * 3) 4) 1;
          encoded = b64_enc (rand (nat rawLen))
      in if dataLen < int (length encoded) then take (nat dataLen) encoded else encoded)"

definition payload_text :: "string \<Rightarrow> nat \<Rightarrow> string" where
  "payload_text encoded idx =
     CHR 0x7B # CHR 0x22 # ''data'' @ CHR 0x22 # CHR '':'' # CHR 0x22 # encoded @ CHR 0x22 #
     CHR '','' # CHR 0x22 # ''idx'' @ CHR 0x22 # CHR '':'' # dec idx @ [CHR 0x7D]"

definition generatePayload :: "(nat \<Rightarrow> nat list) \<Rightarrow> int \<Rightarrow> nat \<Rightarrow> raw" where
  "generatePayload rand sizeBytes idx =
     (if sizeBytes \<le> 0 then RDoc (JObj [])
      else RDoc (JObj [(''data'', JStr (payload_data rand sizeBytes)), (''idx'', JNum (int idx))]))"

definition generate ::
  "(nat \<Rightarrow> (string \<times> json) list) \<Rightarrow> (nat \<Rightarrow> (string \<times> json) list) \<Rightarrow>
     (nat \<Rightarrow> nat list) \<Rightarrow> string \<Rightarrow> int \<Rightarrow> nat \<Rightarrow> raw option" where
  "generate hostedCluster nodePool rand gvk sizeBytes idx =
     (if gvk = gvkHostedCluster then map_option RDoc (padToSize (hostedCluster idx) sizeBytes)
      else if gvk = gvkNodePool then map_option RDoc (padToSize (nodePool idx) sizeBytes)
      else Some (generatePayload rand sizeBytes idx))"

definition generateSpec :: "(nat \<Rightarrow> nat list) \<Rightarrow> string \<Rightarrow> int \<Rightarrow> nat \<Rightarrow> raw option" where
  "generateSpec = generate hostedClusterSpec nodePoolSpec"

definition generateStatus :: "(nat \<Rightarrow> nat list) \<Rightarrow> string \<Rightarrow> int \<Rightarrow> nat \<Rightarrow> raw option" where
  "generateStatus = generate hostedClusterStatus nodePoolStatus"

definition generateMetadata :: "(nat \<Rightarrow> nat list) \<Rightarrow> string \<Rightarrow> int \<Rightarrow> nat \<Rightarrow> raw option" where
  "generateMetadata = generate hostedClusterMetadata nodePoolMetadata"

section \<open>Seed\<close>

record seed_env =
  se_rand :: "nat \<Rightarrow> nat \<Rightarrow> nat list"
  se_call :: "nat \<Rightarrow> call_env"

definition seed_name :: "string \<Rightarrow> nat \<Rightarrow> string" where
  "seed_name gvk i = ''seed-'' @ gvk @ ''-'' @ dec i"

definition seed_request :: "(nat \<Rightarrow> nat \<Rightarrow> nat list) \<Rightarrow> SeedGVK \<Rightarrow> nat \<Rightarrow> nat \<Rightarrow> WriteRequest option" where
  "seed_request rand g i totalSeeded =
     (case generateSpec (rand (3 * totalSeeded)) (seedGVK g) (SpecSizeBytes g) i of
        None \<Rightarrow> None
      | Some sp \<Rightarrow>
          (case generateStatus (rand (3 * totalSeeded + 1)) (seedGVK g) (StatusSizeBytes g) i of
             None \<Rightarrow> None
           | Some st \<Rightarrow>
               (case generateMetadata (rand (3 * totalSeeded + 2)) (seedGVK g) (MetadataSizeBytes g) i of
                  None \<Rightarrow> None
                | Some md \<Rightarrow> Some
                    \<lparr>wGVK = seedGVK g, wNamespace = ''loadtest-seed'', wName = seed_name (seedGVK g) i,
                     wSpec = sp, wStatus = st, wMetadata = md, wDeletionTimestamp = None,
                     wExpectedVersion = 0, wForceWrite = False\<rparr>)))"

datatype seed_error = SeedWrite string nat werr

text \<open>The objects of one kind, \<open>n\<close> of them left, and the kinds one after the other.\<close>

fun seed_objects ::
  "seed_env \<Rightarrow> SeedGVK \<Rightarrow> nat \<Rightarrow> nat \<Rightarrow> nat \<Rightarrow> unit world \<Rightarrow> (unit world \<times> (seed_error + nat)) option" where
  "seed_objects env g 0 i totalSeeded w = Some (w, Inr totalSeeded)"
| "seed_objects env g (Suc n) i totalSeeded w =
     (case seed_request (se_rand env) g i totalSeeded of
        None \<Rightarrow> None
      | Some req \<Rightarrow>
          (case Write (\<lambda>g b. b) None (se_call env totalSeeded) req w of
             (w', Inl err) \<Rightarrow> Some (w', Inl (SeedWrite (seedGVK g) i err))
           | (w', Inr _) \<Rightarrow> seed_objects env g n (Suc i) (Suc totalSeeded) w'))"

fun seed_gvks ::
  "seed_env \<Rightarrow> SeedGVK list \<Rightarrow> nat \<Rightarrow> unit world \<Rightarrow> (unit world \<times> (seed_error + nat)) option" where
  "seed_gvks env [] totalSeeded w = Some (w, Inr totalSeeded)"
| "seed_gvks env (g # gs) totalSeeded w =
     (case seed_objects env g (nat (Objects g)) 0 totalSeeded w of
        None \<Rightarrow> None
      | Some (w', Inl err) \<Rightarrow> Some (w', Inl err)
      | Some (w', Inr n) \<Rightarrow> seed_gvks env gs n w')"

definition Seed :: "seed_env \<Rightarrow> Config \<Rightarrow> unit world \<Rightarrow> (unit world \<times> (seed_error + nat)) option" where
  "Seed env cfg w = seed_gvks env (SeedGVKs cfg) 0 w"

section \<open>Payload lemmas\<close>

lemma unpadded_templates:
  "unpadded (hostedClusterSpec idx)" "unpadded (hostedClusterStatus idx)" "unpadded (hostedClusterMetadata idx)"
  "unpadded (nodePoolSpec idx)" "unpadded (nodePoolStatus idx)" "unpadded (nodePoolMetadata idx)"
  unfolding unpadded_def set_map [symmetric] template_keys by simp_all

lemma padToSize_Some: "unpadded data \<Longrightarrow> \<exists>ps. padToSize data n = Some (JObj (padded data ps))"
  using padToSize_returns [of data n] by blast

text \<open>What a payload is: a padded template or the blob.\<close>

definition payload_of :: "(string \<times> json) list \<Rightarrow> (string \<times> json) list \<Rightarrow> (string \<times> json) list \<Rightarrow> bool" where
  "payload_of hc np kvs \<longleftrightarrow>
     (\<exists>ps. kvs = padded hc ps \<or> kvs = padded np ps) \<or> kvs = [] \<or>
     (\<exists>s n. kvs = [(''data'', JStr s), (''idx'', JNum n)])"

lemma generate_total:
  assumes "unpadded (hc idx)" "unpadded (np idx)"
  shows "\<exists>kvs. generate hc np rand gvk sizeBytes idx = Some (RDoc (JObj kvs)) \<and> payload_of (hc idx) (np idx) kvs"
  using padToSize_Some [OF assms(1), of sizeBytes] padToSize_Some [OF assms(2), of sizeBytes]
  by (auto simp: generate_def generatePayload_def payload_of_def)

section \<open>The blob\<close>

lemma plain_b64: "\<forall>b \<in> set bs. b < 256 \<Longrightarrow> list_all plain_char (b64_enc bs)"
proof -
  have "list_all plain_char b64_alphabet" by (simp add: b64_alphabet_def plain_char_def)
  then have "plain_char (b64_char n)" if "n < 64" for n
    using b64_char_mem [OF that] by (auto simp: list_all_iff)
  moreover have "plain_char CHR ''=''" by (simp add: plain_char_def)
  ultimately show "\<forall>b \<in> set bs. b < 256 \<Longrightarrow> list_all plain_char (b64_enc bs)"
    by (induction bs rule: b64_enc.induct) (simp_all add: b64_sextets)
qed

lemma length_b64_enc: "length (b64_enc bs) = 4 * ((length bs + 2) div 3)"
proof (induction bs rule: b64_enc.induct)
  case (4 a b c rest)
  have "(5 + n) div 3 = Suc (Suc (Suc n) div 3)" for n :: nat by presburger
  then show ?case using 4 by simp
qed simp_all

text \<open>What Sprintf builds is what json.Marshal would write for the document.\<close>

lemma payload_text_is_Marshal:
  assumes "\<forall>n. \<forall>b \<in> set (rand n). b < 256"
  shows "payload_text (payload_data rand sizeBytes) idx =
    Marshal (JObj [(''data'', JStr (payload_data rand sizeBytes)), (''idx'', JNum (int idx))])"
proof -
  have "list_all plain_char (payload_data rand sizeBytes)"
    using plain_b64 [of "rand n" for n] assms
    by (auto simp: payload_data_def Let_def list_all_iff dest!: in_set_takeD)
  then show ?thesis
    by (simp add: Marshal_def norm_obj_def quote_plain payload_text_def FormatInt_def plain_char_def)
qed

text \<open>The size of the blob is what was asked for, up to the digits of the index.\<close>

lemma b64_room:
  fixes q r d t u m :: nat
  shows "4 * q + r = d * 3 \<Longrightarrow> r < 4 \<Longrightarrow> 3 * t + u = m + 2 \<Longrightarrow> u < 3 \<Longrightarrow> q \<le> m \<Longrightarrow> d - 1 \<le> 4 * t"
  by linarith

lemma length_take_if: "length (if int d < int (length e) then take d e else e) = min d (length e)"
  by auto

lemma payload_data_length:
  assumes "\<And>n. length (rand n) = n" "26 \<le> sizeBytes"
  shows "sizeBytes - 26 \<le> int (length (payload_data rand sizeBytes))"
    "int (length (payload_data rand sizeBytes)) \<le> sizeBytes - 25"
proof -
  let ?d = "nat (sizeBytes - 25)"
  have d: "max (sizeBytes - 25) 0 = int ?d" "1 \<le> ?d" using assms(2) by simp_all
  have raw: "nat (max (tdiv (int ?d * 3) 4) 1) = max (?d * 3 div 4) 1"
    using d(2) by (simp add: tdiv_def nat_div_distrib nat_mult_distrib max_def) linarith
  let ?e = "length (b64_enc (rand (max (?d * 3 div 4) 1)))"
  have "?e = 4 * ((max (?d * 3 div 4) 1 + 2) div 3)" by (simp only: length_b64_enc assms(1))
  moreover have "d - 1 \<le> 4 * ((max (d * 3 div 4) 1 + 2) div 3)" for d :: nat
    by (rule b64_room [OF mult_div_mod_eq mod_less_divisor mult_div_mod_eq mod_less_divisor max.cobounded1]) simp_all
  ultimately have "?d - 1 \<le> ?e" by simp
  moreover have "length (payload_data rand sizeBytes) = min ?d ?e"
    by (simp only: payload_data_def Let_def d(1) raw nat_int length_take_if)
  ultimately have "nat (sizeBytes - 25) - 1 \<le> length (payload_data rand sizeBytes)"
    "length (payload_data rand sizeBytes) \<le> nat (sizeBytes - 25)" by simp_all
  then show "sizeBytes - 26 \<le> int (length (payload_data rand sizeBytes))"
    "int (length (payload_data rand sizeBytes)) \<le> sizeBytes - 25"
    using assms(2) by linarith+
qed

section \<open>Seeded metadata decodes\<close>

fun str_doc :: "json \<Rightarrow> bool" where
  "str_doc (JObj kvs) = list_all (\<lambda>(k, v). \<exists>s. v = JStr s) kvs"
| "str_doc _ = False"

text \<open>Members that populate nothing but labels and annotations.\<close>

definition benign :: "string \<times> json \<Rightarrow> bool" where
  "benign kv \<longleftrightarrow>
     (let f = lower (fst kv) in
      if f = ''labels'' \<or> f = ''annotations'' then str_doc (snd kv)
      else f \<noteq> ''ownerreferences'' \<and> f \<noteq> ''finalizers'' \<and> f \<noteq> ''generation'')"

lemma as_strmap_str_doc: "str_doc v \<Longrightarrow> \<exists>x. as_strmap old v = Some x"
proof (cases v)
  case (JObj kvs)
  assume "str_doc v"
  then have "\<exists>vs. those (map (\<lambda>(k, v). as_str v) kvs) = Some vs"
    unfolding JObj by (induction kvs) auto
  then show ?thesis using JObj by auto
qed auto

lemma set_fields_benign:
  "list_all benign kvs \<Longrightarrow>
     \<exists>sm'. set_fields own kvs sm = Some sm' \<and> Finalizers sm' = Finalizers sm \<and>
       OwnerReferences sm' = OwnerReferences sm \<and> Generation sm' = Generation sm"
proof (induction kvs arbitrary: sm)
  case (Cons kv kvs)
  obtain k v where kv: "kv = (k, v)" by (cases kv)
  have "benign (k, v)" using Cons.prems kv by simp
  then have "\<exists>sm1. set_field own k v sm = Some sm1 \<and> Finalizers sm1 = Finalizers sm \<and>
      OwnerReferences sm1 = OwnerReferences sm \<and> Generation sm1 = Generation sm"
    using as_strmap_str_doc [of v "Labels sm"] as_strmap_str_doc [of v "Annotations sm"]
    by (auto simp: benign_def set_field_def Let_def split: if_splits)
  then show ?case using Cons.IH Cons.prems kv by fastforce
qed simp

lemma canon_str_doc: "str_doc v \<Longrightarrow> str_doc (canon v)"
proof (cases v)
  case (JObj kvs)
  assume "str_doc v"
  then have "list_all (\<lambda>(k, v). \<exists>s. v = JStr s) (map (\<lambda>(k, v). (k, canon v)) kvs)"
    unfolding JObj by (auto simp: list_all_iff)
  then show ?thesis
    using set_norm_obj [of "map (\<lambda>(k, v). (k, canon v)) kvs"] by (auto simp: JObj list_all_iff)
qed auto

lemma decode_benign:
  assumes "list_all benign kvs"
  shows "\<exists>sm. decode_meta own (canon (JObj kvs)) = Some sm \<and> Finalizers sm = [] \<and> OwnerReferences sm = []"
proof -
  have "list_all benign (map (\<lambda>(k, v). (k, canon v)) kvs)"
    using assms by (auto simp: list_all_iff benign_def Let_def canon_str_doc split: if_splits)
  then have "list_all benign (norm_obj (map (\<lambda>(k, v). (k, canon v)) kvs))"
    using set_norm_obj [of "map (\<lambda>(k, v). (k, canon v)) kvs"] by (auto simp: list_all_iff)
  from set_fields_benign [OF this, of own empty_meta] show ?thesis by (auto simp: empty_meta_def)
qed

lemma lower_keys:
  "lower ''labels'' = ''labels''" "lower ''annotations'' = ''annotations''" "lower ''_padding'' = ''_padding''"
  "lower ''data'' = ''data''" "lower ''idx'' = ''idx''"
  by (simp_all add: lower_def lower_char_def Let_def char_of_def bit_Suc_0_iff)

lemma benign_template: "list_all benign (hostedClusterMetadata idx)" "list_all benign (nodePoolMetadata idx)"
  by (simp_all add: hostedClusterMetadata_def nodePoolMetadata_def Let_def benign_def lower_keys)

lemma benign_padded: "list_all benign kvs \<Longrightarrow> list_all benign (padded kvs ps)"
  by (simp add: padded_def benign_def lower_keys)

lemma generateMetadata_decodes:
  "\<exists>j. generateMetadata rand gvk sizeBytes idx = Some (RDoc j) \<and>
     (\<exists>sm. decode_meta own (canon j) = Some sm \<and> Finalizers sm = [] \<and> OwnerReferences sm = [])"
proof -
  from generate_total [of hostedClusterMetadata idx nodePoolMetadata rand gvk sizeBytes, OF unpadded_templates(3,6)] obtain kvs
    where g: "generateMetadata rand gvk sizeBytes idx = Some (RDoc (JObj kvs))"
      and p: "payload_of (hostedClusterMetadata idx) (nodePoolMetadata idx) kvs"
    unfolding generateMetadata_def by blast
  have "list_all benign kvs"
    using p by (auto simp: payload_of_def benign_padded benign_template) (auto simp: benign_def lower_keys)
  from decode_benign [OF this] g show ?thesis by blast
qed

section \<open>What Seed leaves behind\<close>

text \<open>The objects of a configuration in the order in which Seed writes them.\<close>

definition seed_plan :: "SeedGVK list \<Rightarrow> (SeedGVK \<times> nat) list" where
  "seed_plan gs = concat (map (\<lambda>g. map (Pair g) [0..<nat (Objects g)]) gs)"

definition plan_key :: "SeedGVK \<times> nat \<Rightarrow> key" where
  "plan_key gi = (seedGVK (fst gi), ''loadtest-seed'', seed_name (seedGVK (fst gi)) (snd gi))"

text \<open>A row that holds the generated payloads, new and alive.\<close>

definition seeded :: "(json \<Rightarrow> bool) \<Rightarrow> SeedGVK \<times> nat \<Rightarrow> resource \<Rightarrow> bool" where
  "seeded own gi r \<longleftrightarrow>
     rkey r = plan_key gi \<and> ObjectVersion r = 1 \<and> DeletionTimestamp r = None \<and>
     (\<exists>rand sp. generateSpec rand (seedGVK (fst gi)) (SpecSizeBytes (fst gi)) (snd gi) = Some (RDoc sp) \<and> Spec r = canon sp) \<and>
     (\<exists>sm. decode_meta own (Metadata r) = Some sm \<and> Finalizers sm = [] \<and> OwnerReferences sm = [])"

lemma seed_request_ok:
  "\<exists>req sp st md. seed_request rand g i n = Some req \<and> wr_key req = plan_key (g, i) \<and> wExpectedVersion req = 0 \<and>
     wSpec req = RDoc sp \<and> wStatus req = RDoc st \<and> wMetadata req = RDoc md \<and>
     (\<forall>t u now own. seeded own (g, i) (created_row t u now req sp st md))"
proof -
  obtain sp where sp: "generateSpec (rand (3 * n)) (seedGVK g) (SpecSizeBytes g) i = Some (RDoc sp)"
    using generate_total [of hostedClusterSpec i nodePoolSpec, OF unpadded_templates(1,4)]
    unfolding generateSpec_def by blast
  obtain st where st: "generateStatus (rand (3 * n + 1)) (seedGVK g) (StatusSizeBytes g) i = Some (RDoc st)"
    using generate_total [of hostedClusterStatus i nodePoolStatus, OF unpadded_templates(2,5)]
    unfolding generateStatus_def by blast
  have "\<exists>md. generateMetadata (rand (3 * n + 2)) (seedGVK g) (MetadataSizeBytes g) i = Some (RDoc md)"
    using generateMetadata_decodes by blast
  then obtain md where md: "generateMetadata (rand (3 * n + 2)) (seedGVK g) (MetadataSizeBytes g) i = Some (RDoc md)" ..
  have "\<exists>sm. decode_meta own (canon md) = Some sm \<and> Finalizers sm = [] \<and> OwnerReferences sm = []" for own
    using generateMetadata_decodes [of "rand (3 * n + 2)" "seedGVK g" "MetadataSizeBytes g" i own] md by auto
  then show ?thesis
    using sp st md by (auto simp: seed_request_def wr_key_def plan_key_def seeded_def created_row_def rkey_def)
qed

lemma seed_name_inj: "seed_name g i = seed_name g j \<longleftrightarrow> i = j"
  by (metis digits_val_dec same_append_eq seed_name_def)

lemma plan_key_inj: "plan_key (g, i) = plan_key (h, j) \<longleftrightarrow> seedGVK g = seedGVK h \<and> i = j"
  by (auto simp: plan_key_def seed_name_inj)

text \<open>What one run adds to the table.\<close>

definition seeds :: "(json \<Rightarrow> bool) \<Rightarrow> (SeedGVK \<times> nat) list \<Rightarrow> unit world \<Rightarrow> unit world \<Rightarrow> bool" where
  "seeds own plan w w' \<longleftrightarrow>
     (\<exists>new. rows (wdb w') = rows (wdb w) @ new \<and> list_all2 (seeded own) plan new)"

lemma seeds_trans: "seeds own p w w1 \<Longrightarrow> seeds own q w1 w2 \<Longrightarrow> seeds own (p @ q) w w2"
  by (auto simp: seeds_def intro!: list_all2_appendI)

lemma seeds_keys:
  assumes "seeds own p w w'"
  shows "map rkey (rows (wdb w')) = map rkey (rows (wdb w)) @ map plan_key p"
proof -
  have "list_all2 (seeded own) p new \<Longrightarrow> map rkey new = map plan_key p" for new
    by (induction rule: list_all2_induct) (simp_all add: seeded_def)
  then show ?thesis using assms by (auto simp: seeds_def)
qed

lemma seed_objects_creates:
  assumes "\<And>n. env_net (se_call env n) = NetOk"
    and "\<And>j. i \<le> j \<Longrightarrow> j < i + n \<Longrightarrow> plan_key (g, j) \<notin> set (map rkey (rows (wdb w)))"
  shows "\<exists>w'. seed_objects env g n i tot w = Some (w', Inr (tot + n)) \<and> seeds own (map (Pair g) [i..<i + n]) w w'"
  using assms(2)
proof (induction n arbitrary: i tot w)
  case (Suc n)
  obtain req sp st md where req: "seed_request (se_rand env) g i tot = Some req" "wr_key req = plan_key (g, i)"
      "wExpectedVersion req = 0" "wSpec req = RDoc sp" "wStatus req = RDoc st" "wMetadata req = RDoc md"
      "\<And>t u now own. seeded own (g, i) (created_row t u now req sp st md)"
    using seed_request_ok [of "se_rand env" g i tot] by blast
  have none: "get_row (wdb w) (wr_key req) = None" using Suc.prems [of i] by (simp add: req(2) get_row_None)
  obtain w' res where w': "Write (\<lambda>g b. b) None (se_call env tot) req w = (w', Inr res)"
      "wdb w' = put_row (created_row (next_xid (wdb w)) (env_uid (se_call env tot)) (env_now (se_call env tot)) req sp st md)
               ((wdb w)\<lparr>next_xid := next_xid (wdb w) + 1\<rparr>)" (is "_ = put_row ?r _")
    using Write_creates [OF assms(1) none req(3-6)] by blast
  have "lookup_by rkey (rows (wdb w)) (rkey ?r) = None" using none by (simp add: rkey_created get_row_def)
  then have rows: "rows (wdb w') = rows (wdb w) @ [?r]" by (simp add: w'(2) put_row_def put_by_def)
  then have one: "seeds own [(g, i)] w w'" using req(7) by (simp add: seeds_def)
  have "plan_key (g, j) \<notin> set (map rkey (rows (wdb w')))" if "Suc i \<le> j" "j < Suc i + n" for j
    using Suc.prems [of j] that by (simp add: rows rkey_created req(2) plan_key_inj)
  from Suc.IH [where i = "Suc i" and w = w' and tot = "Suc tot", OF this] obtain w2 where
    w2: "seed_objects env g n (Suc i) (Suc tot) w' = Some (w2, Inr (Suc tot + n))"
      "seeds own (map (Pair g) [Suc i..<Suc i + n]) w' w2" by blast
  have "map (Pair g) [i..<i + Suc n] = [(g, i)] @ map (Pair g) [Suc i..<Suc i + n]" by (simp add: upt_rec)
  then have "seeds own (map (Pair g) [i..<i + Suc n]) w w2" using seeds_trans [OF one w2(2)] by simp
  then show ?case using req(1) w'(1) w2(1) by (intro exI [of _ w2]) simp
qed (auto simp: seeds_def)

lemma seed_plan_Cons: "seed_plan (g # gs) = map (Pair g) [0..<nat (Objects g)] @ seed_plan gs"
  by (simp add: seed_plan_def)

lemma seed_plan_mem: "(h, j) \<in> set (seed_plan gs) \<Longrightarrow> h \<in> set gs"
  by (auto simp: seed_plan_def)

lemma seed_gvks_creates:
  assumes "\<And>n. env_net (se_call env n) = NetOk" "distinct (map seedGVK gs)"
    and "set (map plan_key (seed_plan gs)) \<inter> set (map rkey (rows (wdb w))) = {}"
  shows "\<exists>w'. seed_gvks env gs tot w = Some (w', Inr (tot + length (seed_plan gs))) \<and> seeds own (seed_plan gs) w w'"
  using assms(2,3)
proof (induction gs arbitrary: tot w)
  case (Cons g gs)
  let ?n = "nat (Objects g)"
  have "plan_key (g, j) \<notin> set (map rkey (rows (wdb w)))" if "j < ?n" for j
  proof -
    have "plan_key (g, j) \<in> set (map plan_key (seed_plan (g # gs)))" using that by (simp add: seed_plan_Cons)
    then show ?thesis using Cons.prems(2) by blast
  qed
  then have "\<exists>w1. seed_objects env g ?n 0 tot w = Some (w1, Inr (tot + ?n)) \<and>
      seeds own (map (Pair g) [0..<0 + ?n]) w w1"
    by (intro seed_objects_creates assms(1)) simp
  then obtain w1 where w1: "seed_objects env g ?n 0 tot w = Some (w1, Inr (tot + ?n))"
      "seeds own (map (Pair g) [0..<?n]) w w1" by auto
  have "plan_key (g, i) \<noteq> plan_key (h, j)" if "(h, j) \<in> set (seed_plan gs)" for h j i
    using seed_plan_mem [OF that] Cons.prems(1) by (auto simp: plan_key_inj image_iff)
  then have "set (map plan_key (seed_plan gs)) \<inter> set (map plan_key (map (Pair g) [0..<?n])) = {}"
    by fastforce
  then have "set (map plan_key (seed_plan gs)) \<inter> set (map rkey (rows (wdb w1))) = {}"
    using Cons.prems(2) unfolding seeds_keys [OF w1(2)] seed_plan_Cons map_append set_append by blast
  moreover have "distinct (map seedGVK gs)" using Cons.prems(1) by simp
  ultimately obtain w2 where w2: "seed_gvks env gs (tot + ?n) w1 = Some (w2, Inr (tot + ?n + length (seed_plan gs)))"
      "seeds own (seed_plan gs) w1 w2" using Cons.IH by blast
  have "seeds own (seed_plan (g # gs)) w w2" using seeds_trans [OF w1(2) w2(2)] by (simp add: seed_plan_Cons)
  then show ?case using w1(1) w2(1) by (intro exI [of _ w2]) (simp add: seed_plan_Cons)
qed (simp add: seed_plan_def seeds_def)

lemma length_seed_plan: "length (seed_plan gs) = (\<Sum>g\<leftarrow>gs. nat (Objects g))"
  by (induction gs) (simp_all add: seed_plan_def)

text \<open>C35: Seeding fills the table with exactly what the specification asks for. If every write goes
  through, the kinds are configured once each and none of the names is taken, Seed returns
  (whatever the payload sizes) with the number of configured objects, the table is what it was
  followed by one new row per object in the order of the configuration, named after its kind
  and index, at version 1, not deleted, with the generated spec, and with metadata that
  pgruntime decodes without finalizers or owners, so that no seeded object is a tombstone or
  is taken for a deleted one.\<close>

theorem seed_fills_table:
  assumes "\<And>n. env_net (se_call env n) = NetOk" "distinct (map seedGVK (SeedGVKs cfg))"
    and "set (map plan_key (seed_plan (SeedGVKs cfg))) \<inter> set (map rkey (rows (wdb w))) = {}"
    and "\<forall>g \<in> set (SeedGVKs cfg). 0 \<le> Objects g"
  shows "\<exists>w' n new. Seed env cfg w = Some (w', Inr n) \<and> int n = ComputeTotalObjects cfg \<and>
    rows (wdb w') = rows (wdb w) @ new \<and> length new = n \<and> list_all2 (seeded own) (seed_plan (SeedGVKs cfg)) new \<and>
    (\<forall>r \<in> set new. \<not> is_true (tombstone_filter r) \<and> \<not> isFullyDeleted own r)"
proof -
  from seed_gvks_creates [OF assms(1-3), of 0 own]
  obtain w' where w': "Seed env cfg w = Some (w', Inr (length (seed_plan (SeedGVKs cfg))))"
      "seeds own (seed_plan (SeedGVKs cfg)) w w'" by (auto simp: Seed_def)
  then obtain new where new: "rows (wdb w') = rows (wdb w) @ new" "list_all2 (seeded own) (seed_plan (SeedGVKs cfg)) new"
    by (auto simp: seeds_def)
  have "int (\<Sum>g\<leftarrow>gs. nat (Objects g)) = sum_list (map Objects gs)" if "\<forall>g \<in> set gs. 0 \<le> Objects g" for gs
    using that by (induction gs) simp_all
  then have "int (length (seed_plan (SeedGVKs cfg))) = ComputeTotalObjects cfg"
    using assms(4) by (simp add: length_seed_plan ComputeTotalObjects_eq)
  moreover have "length new = length (seed_plan (SeedGVKs cfg))" using new(2) by (simp add: list_all2_lengthD)
  moreover have "DeletionTimestamp r = None" if "r \<in> set new" for r
    using new(2) that by (auto simp: list_all2_conv_all_nth in_set_conv_nth seeded_def)
  then have "\<forall>r \<in> set new. \<not> is_true (tombstone_filter r) \<and> \<not> isFullyDeleted own r"
    by (simp add: tombstone_filter_iff isFullyDeleted_def)
  ultimately show ?thesis using w'(1) new by blast
qed

definition ex_seed_env :: seed_env where
  "ex_seed_env = \<lparr>se_rand = (\<lambda>_ n. replicate n 7),
     se_call = (\<lambda>n. \<lparr>env_net = NetOk, env_fault = NoFault, env_uid = n, env_now = 5\<rparr>)\<rparr>"

definition ex_seed_world :: "unit world" where
  "ex_seed_world = \<lparr>wdb = empty_db, wbell = None, wmet = None\<rparr>"

theorem seed_fills_table_witness:
  "\<exists>w'. Seed ex_seed_env ex_config ex_seed_world = Some (w', Inr 2) \<and> length (rows (wdb w')) = 2"
proof -
  have "\<exists>w' n new. Seed ex_seed_env ex_config ex_seed_world = Some (w', Inr n) \<and> int n = ComputeTotalObjects ex_config \<and>
    rows (wdb w') = rows (wdb ex_seed_world) @ new \<and> length new = n \<and>
    list_all2 (seeded (\<lambda>_. True)) (seed_plan (SeedGVKs ex_config)) new \<and>
    (\<forall>r \<in> set new. \<not> is_true (tombstone_filter r) \<and> \<not> isFullyDeleted (\<lambda>_. True) r)"
    by (rule seed_fills_table) (simp_all add: ex_seed_env_def ex_config_def ex_seed_world_def empty_db_def)
  moreover have "ComputeTotalObjects ex_config = 2" by (simp add: ComputeTotalObjects_eq ex_config_def)
  moreover have "rows (wdb ex_seed_world) = []" by (simp add: ex_seed_world_def empty_db_def)
  ultimately show ?thesis by fastforce
qed

end
