(* ===== verification/Phase1.thy ===== *)
theory Phase1
  imports Seeder
begin

text \<open>
  Phase 1, the ceiling test of src/loadtest/cmd/loadtest/phase1_ceiling.go. Its workers write
  as fast as they can until the deadline; a run is a list of events, each one iteration of one
  worker's loop or one step of the verifier, in the order in which they reach the database, and
  the writes are those of the writer's model. A worker counts latencies and writes only once
  warmed up, moves to the next name only after a success, and sorts failures by their text.
  RunPhase1 repeats the test for every worker count of the sweep on a freshly seeded table.
\<close>

section \<open>The workers\<close>

record worker =
  wkLatencies :: "duration list"
  wkWrites :: nat
  wkSerFailures :: nat
  wkOtherErrors :: nat
  wkWriteNum :: nat
  wkWarmedUp :: bool
  wkRunning :: bool

text \<open>One iteration: the clock in the loop condition and in the warm-up test, and the write.\<close>

record tick =
  tkNow :: int
  tkWarm :: int
  tkLatency :: duration
  tkCall :: call_env

definition p1_name :: "nat \<Rightarrow> nat \<Rightarrow> string" where
  "p1_name w n = ''p1-w'' @ dec w @ ''-r'' @ dec n"

definition p1_request :: "string \<Rightarrow> nat \<Rightarrow> nat \<Rightarrow> WriteRequest" where
  "p1_request gvk w n =
     load_request gvk ''phase1'' (p1_name w n) (JObj [(''w'', JNum (int w)), (''n'', JNum (int n))])"

text \<open>A worker whose connection fails records an error and is over.\<close>

definition new_worker :: "duration \<Rightarrow> string option \<Rightarrow> worker" where
  "new_worker warmUp connect =
     \<lparr>wkLatencies = [], wkWrites = 0, wkSerFailures = 0, wkOtherErrors = (if connect = None then 0 else 1),
      wkWriteNum = 0, wkWarmedUp = (warmUp = 0), wkRunning = (connect = None)\<rparr>"

definition count_error :: "(werr \<Rightarrow> string) \<Rightarrow> werr \<Rightarrow> worker \<Rightarrow> worker" where
  "count_error txt e wk =
     (if isSerializationFailure (Some (txt e)) then wk\<lparr>wkSerFailures := wkSerFailures wk + 1\<rparr>
      else wk\<lparr>wkOtherErrors := wkOtherErrors wk + 1\<rparr>)"

definition count_write :: "duration \<Rightarrow> worker \<Rightarrow> worker" where
  "count_write lat wk =
     (if wkWarmedUp wk
      then wk\<lparr>wkLatencies := wkLatencies wk @ [lat], wkWrites := wkWrites wk + 1, wkWriteNum := wkWriteNum wk + 1\<rparr>
      else wk\<lparr>wkWriteNum := wkWriteNum wk + 1\<rparr>)"

definition p1_iteration ::
  "(werr \<Rightarrow> string) \<Rightarrow> string \<Rightarrow> int \<Rightarrow> int \<Rightarrow> nat \<Rightarrow> tick \<Rightarrow> worker \<Rightarrow> unit world \<Rightarrow> worker \<times> unit world" where
  "p1_iteration txt gvk warmUpEnd deadline w tk wk world =
     (if \<not> tkNow tk < deadline then (wk\<lparr>wkRunning := False\<rparr>, world)
      else
        (let wk1 = (if \<not> wkWarmedUp wk \<and> warmUpEnd < tkWarm tk then wk\<lparr>wkWarmedUp := True\<rparr> else wk) in
         case load_write (tkCall tk) (p1_request gvk w (wkWriteNum wk1)) world of
           (world', Inl e) \<Rightarrow> (count_error txt e wk1, world')
         | (world', Inr _) \<Rightarrow> (count_write (tkLatency tk) wk1, world')))"

section \<open>A run\<close>

text \<open>The workers, the verifier if it is enabled, and the world they share.\<close>

datatype 'a load_event = Worker nat 'a | Verify verifier_input

record 'a load_state =
  lsWorkers :: "'a list"
  lsVerifier :: "verifier option"
  lsWorld :: "unit world"

definition verify_step :: "verifier_input \<Rightarrow> 'a load_state \<Rightarrow> 'a load_state" where
  "verify_step vi s =
     (case lsVerifier s of
        None \<Rightarrow> s
      | Some v \<Rightarrow> (let (v', w') = verifier_step False vi (v, lsWorld s) in s\<lparr>lsVerifier := Some v', lsWorld := w'\<rparr>))"

fun p1_step ::
  "(werr \<Rightarrow> string) \<Rightarrow> string \<Rightarrow> int \<Rightarrow> int \<Rightarrow> tick load_event \<Rightarrow> worker load_state \<Rightarrow> worker load_state" where
  "p1_step txt gvk warmUpEnd deadline (Worker w tk) s =
     (if w < length (lsWorkers s) \<and> wkRunning (lsWorkers s ! w) then
        (let (wk, world) = p1_iteration txt gvk warmUpEnd deadline w tk (lsWorkers s ! w) (lsWorld s)
         in s\<lparr>lsWorkers := (lsWorkers s)[w := wk], lsWorld := world\<rparr>)
      else s)"
| "p1_step txt gvk warmUpEnd deadline (Verify vi) s = verify_step vi s"

definition violation_list :: "verifier option \<Rightarrow> string list" where
  "violation_list ver = (case ver of None \<Rightarrow> [] | Some v \<Rightarrow> map violation_string (Violations v))"

record p1_inputs =
  piVerConn :: "string option"
  piConnect :: "nat \<Rightarrow> string option"
  piStart :: int
  piEvents :: "tick load_event list"
  piElapsed :: duration

text \<open>The verifier of a phase: nil as its canary connection, the default canary interval.\<close>

definition phase_verifier :: "bool \<Rightarrow> string \<Rightarrow> duration \<Rightarrow> verifier option" where
  "phase_verifier enabled gvk pollInterval =
     (if enabled then Some (New \<lparr>vGVK = gvk, CanaryInterval = 0, PollInterval = pollInterval\<rparr>) else None)"

definition p1_final ::
  "(werr \<Rightarrow> string) \<Rightarrow> Config \<Rightarrow> nat \<Rightarrow> p1_inputs \<Rightarrow> unit world \<Rightarrow> worker load_state" where
  "p1_final txt cfg totalWorkers ins w =
     (let pCfg = Phase1Ceiling (Phases cfg); gvk = first_gvk cfg;
          warmUpEnd = piStart ins + WarmUp pCfg; deadline = piStart ins + p1Duration pCfg
      in fold (p1_step txt gvk warmUpEnd deadline) (piEvents ins)
           \<lparr>lsWorkers = map (\<lambda>i. new_worker (WarmUp pCfg) (piConnect ins i)) [0..<totalWorkers],
            lsVerifier = phase_verifier (vcEnabled (cfgVerifier cfg)) gvk (200 * millisecond), lsWorld = w\<rparr>)"

definition percentile_or_0 :: "duration list \<Rightarrow> real \<Rightarrow> duration" where
  "percentile_or_0 xs p = (if 0 < length xs then percentile xs p else 0)"

definition p1_verdict :: "Phase1Config \<Rightarrow> float64 \<Rightarrow> duration \<Rightarrow> nat \<Rightarrow> string list \<Rightarrow> bool" where
  "p1_verdict pCfg rps p99 serFail vs =
     (if fless (Fin 0) (p1TargetRPS pCfg) \<and> fless rps (p1TargetRPS pCfg) then False
      else if 0 < TargetP99Ms pCfg \<and> TargetP99Ms pCfg < Milliseconds p99 then False
      else if 0 < serFail then False
      else if 0 < length vs then False
      else True)"

definition p1_result :: "Phase1Config \<Rightarrow> duration \<Rightarrow> worker load_state \<Rightarrow> PhaseResult" where
  "p1_result pCfg elapsed s =
     (let measureDuration = p1Duration pCfg - WarmUp pCfg;
          measureDuration1 = (if measureDuration \<le> 0 then p1Duration pCfg else measureDuration);
          vs = violation_list (lsVerifier s);
          allLatencies = sort (concat (map wkLatencies (lsWorkers s)));
          totalSerFail = sum_list (map wkSerFailures (lsWorkers s));
          totalOtherErr = sum_list (map wkOtherErrors (lsWorkers s));
          total = sum_list (map wkWrites (lsWorkers s));
          rps = fdiv (Fin (real total)) (Seconds measureDuration1);
          p99 = percentile_or_0 allLatencies (99 / 100)
      in (phase_result ''phase1_ceiling'' (p1_verdict pCfg rps p99 totalSerFail vs))
           \<lparr>prDuration := elapsed, TotalWrites := int total, RPS := rps,
            P50 := percentile_or_0 allLatencies (1 / 2), P99 := p99, P999 := percentile_or_0 allLatencies (999 / 1000),
            Errors := [(''serialization'', int totalSerFail), (''other'', int totalOtherErr)],
            VerifierViolations := vs\<rparr>)"

text \<open>A negative number of workers is a panic: make of a slice with a negative length.\<close>

definition runPhase1Single ::
  "(werr \<Rightarrow> string) \<Rightarrow> Config \<Rightarrow> int \<Rightarrow> p1_inputs \<Rightarrow> unit world \<Rightarrow> unit world \<times> (phase_error + PhaseResult)" where
  "runPhase1Single txt cfg totalWorkers ins w =
     (if vcEnabled (cfgVerifier cfg) \<and> piVerConn ins \<noteq> None then (w, Inl (Failed ''phase1: verifier conn''))
      else if totalWorkers < 0 then (w, Inl (Panic ''makeslice: len out of range''))
      else (let s = p1_final txt cfg (nat totalWorkers) ins w
            in (lsWorld s, Inr (p1_result (Phase1Ceiling (Phases cfg)) (piElapsed ins) s))))"

section \<open>The sweep\<close>

text \<open>
  One run of the sweep: connect, truncate both tables, seed, run. \<open>swConn\<close> and \<open>swTruncate\<close> are
  the errors of the first two.
\<close>

record sweep_inputs =
  swConn :: "string option"
  swTruncate :: "string option"
  swSeed :: seed_env
  swRun :: p1_inputs

definition truncate_all :: "unit world \<Rightarrow> unit world" where
  "truncate_all w = w\<lparr>wdb := (wdb w)\<lparr>rows := [], horizon := (\<lambda>_. None)\<rparr>\<rparr>"

definition sweep_run ::
  "(werr \<Rightarrow> string) \<Rightarrow> Config \<Rightarrow> int \<Rightarrow> sweep_inputs \<Rightarrow> unit world \<Rightarrow>
     (unit world \<times> (phase_error + PhaseResult)) option" where
  "sweep_run txt cfg workers ins w =
     (if swConn ins \<noteq> None then Some (w, Inl (Failed ''phase1 sweep: connect''))
      else if swTruncate ins \<noteq> None then Some (w, Inl (Failed ''phase1 sweep: truncate''))
      else (case Seed (swSeed ins) cfg (truncate_all w) of
              None \<Rightarrow> None
            | Some (w1, Inl _) \<Rightarrow> Some (w1, Inl (Failed ''phase1 sweep: seed''))
            | Some (w1, Inr _) \<Rightarrow>
                (case runPhase1Single txt cfg workers (swRun ins) w1 of
                   (w2, Inl (Failed e)) \<Rightarrow> Some (w2, Inl (Failed (''phase1 sweep: '' @ e)))
                 | (w2, r) \<Rightarrow> Some (w2, r))))"

text \<open>The local variables of one worker count.\<close>

record sweep_acc =
  rpsValues :: "float64 list"
  bestResult :: "PhaseResult option"
  swErrors :: int
  swDuration :: duration
  swAllPassed :: bool

definition sweep_record :: "PhaseResult \<Rightarrow> sweep_acc \<Rightarrow> sweep_acc" where
  "sweep_record r a =
     a\<lparr>rpsValues := rpsValues a @ [RPS r], swDuration := swDuration a + prDuration r,
       swErrors := swErrors a + sum_list (map snd (Errors r)),
       bestResult := (case bestResult a of
                        None \<Rightarrow> Some r
                      | Some b \<Rightarrow> if fless (RPS b) (RPS r) then Some r else Some b),
       swAllPassed := (if \<not> Passed r then False else swAllPassed a)\<rparr>"

fun sweep_runs ::
  "(werr \<Rightarrow> string) \<Rightarrow> Config \<Rightarrow> int \<Rightarrow> sweep_inputs list \<Rightarrow> unit world \<Rightarrow> sweep_acc \<Rightarrow>
     (unit world \<times> (phase_error + sweep_acc)) option" where
  "sweep_runs txt cfg workers [] w a = Some (w, Inr a)"
| "sweep_runs txt cfg workers (i # is) w a =
     (case sweep_run txt cfg workers i w of
        None \<Rightarrow> None
      | Some (w', Inl e) \<Rightarrow> Some (w', Inl e)
      | Some (w', Inr r) \<Rightarrow> sweep_runs txt cfg workers is w' (sweep_record r a))"

text \<open>An entry of the sweep. With no run at all bestResult is nil, and reading it panics.\<close>

definition sweep_entry :: "int \<Rightarrow> int \<Rightarrow> sweep_acc \<Rightarrow> phase_error + SweepEntry" where
  "sweep_entry workers runs a =
     (case bestResult a of
        None \<Rightarrow> Inl (Panic ''nil pointer dereference'')
      | Some b \<Rightarrow> Inr
          \<lparr>seWorkers = workers, seRPS = mean (rpsValues a), seRPSStdDev = stddev (rpsValues a), seP50 = P50 b,
           seP99 = P99 b, seP999 = P999 b, seErrorCount = swErrors a, seRuns = runs\<rparr>)"

fun sweep_loop ::
  "(werr \<Rightarrow> string) \<Rightarrow> Config \<Rightarrow> (nat \<Rightarrow> sweep_inputs list) \<Rightarrow> nat \<Rightarrow> int list \<Rightarrow> unit world \<Rightarrow>
     SweepEntry list \<Rightarrow> float64 \<Rightarrow> bool \<Rightarrow> duration \<Rightarrow>
     (unit world \<times> (phase_error + SweepEntry list \<times> float64 \<times> bool \<times> duration)) option" where
  "sweep_loop txt cfg ins k [] w es best ok dur = Some (w, Inr (es, best, ok, dur))"
| "sweep_loop txt cfg ins k (workers # rest) w es best ok dur =
     (let runs = Runs (Phase1Ceiling (Phases cfg)) in
      case sweep_runs txt cfg workers (take (nat runs) (ins k)) w
             \<lparr>rpsValues = [], bestResult = None, swErrors = 0, swDuration = dur, swAllPassed = ok\<rparr> of
        None \<Rightarrow> None
      | Some (w', Inl e) \<Rightarrow> Some (w', Inl e)
      | Some (w', Inr a) \<Rightarrow>
          (case sweep_entry workers runs a of
             Inl e \<Rightarrow> Some (w', Inl e)
           | Inr entry \<Rightarrow>
               sweep_loop txt cfg ins (Suc k) rest w' (es @ [entry])
                 (if fless best (seRPS entry) then seRPS entry else best) (swAllPassed a) (swDuration a)))"

text \<open>\<open>ins k\<close> are the runs of the k-th worker count, at least as many as the specification asks for.\<close>

definition RunPhase1 ::
  "(werr \<Rightarrow> string) \<Rightarrow> Config \<Rightarrow> p1_inputs \<Rightarrow> (nat \<Rightarrow> sweep_inputs list) \<Rightarrow> unit world \<Rightarrow>
     (unit world \<times> (phase_error + PhaseResult)) option" where
  "RunPhase1 txt cfg single ins w =
     (let pCfg = Phase1Ceiling (Phases cfg) in
      if WorkerSweep pCfg = [] then Some (runPhase1Single txt cfg (Workers pCfg) single w)
      else
        (case sweep_loop txt cfg ins 0 (WorkerSweep pCfg) w [] (Fin 0) True 0 of
           None \<Rightarrow> None
         | Some (w', Inl e) \<Rightarrow> Some (w', Inl e)
         | Some (w', Inr (es, best, ok, dur)) \<Rightarrow>
             Some (w', Inr ((phase_result ''phase1_ceiling'' ok)
               \<lparr>prDuration := dur, TotalWrites := 0, RPS := best, Sweep := es\<rparr>))))"

section \<open>The verifier of a phase\<close>

lemma verifier_step_world [simp]: "snd (verifier_step False vi (v, w)) = w"
  by (cases vi) (simp_all add: writeCanary_def Let_def)

lemma verifier_step_violations: "violations (fst (verifier_step c vi (v, w))) = violations v"
  by (cases vi) (auto simp: writeCanary_def checkEvent_def Let_def split: option.splits prod.splits sum.splits)

lemma verify_step_frame [simp]:
  "lsWorld (verify_step vi s) = lsWorld s" "lsWorkers (verify_step vi s) = lsWorkers s"
  by (auto simp: verify_step_def case_prod_beta split: option.splits)

lemma verify_step_violations: "violation_list (lsVerifier (verify_step vi s)) = violation_list (lsVerifier s)"
  by (auto simp: verify_step_def violation_list_def Violations_def case_prod_beta verifier_step_violations split: option.splits)

lemma phase_verifier_silent: "violation_list (phase_verifier e g p) = []"
  by (simp add: phase_verifier_def violation_list_def Violations_def New_def Let_def)

section \<open>No two workers meet\<close>

lemma p1_name_inj: "p1_name w n = p1_name v m \<longleftrightarrow> w = v \<and> n = m"
  using dec_dash [of w "''r'' @ dec n" v "''r'' @ dec m"] by (simp add: p1_name_def)

interpretation p1: numbered_writers "p1_request gvk" for gvk
  by unfold_locales (auto simp: p1_request_def p1_name_inj)

text \<open>What a worker has counted, whatever happened to its writes.\<close>

definition worker_counts :: "bool \<Rightarrow> worker \<Rightarrow> bool" where
  "worker_counts cold wk \<longleftrightarrow>
     length (wkLatencies wk) = wkWrites wk \<and> wkWrites wk \<le> wkWriteNum wk \<and>
     (\<not> cold \<longrightarrow> wkWarmedUp wk \<and> wkWrites wk = wkWriteNum wk)"

text \<open>The workers' keys in the table are those of their successful writes, and no write failed.\<close>

definition p1_inv :: "string \<Rightarrow> bool \<Rightarrow> nat \<Rightarrow> nat list \<Rightarrow> worker load_state \<Rightarrow> bool" where
  "p1_inv gvk cold r0 errs s \<longleftrightarrow>
     (\<forall>w n. wr_key (p1_request gvk w n) \<in> table_keys (lsWorld s) \<longleftrightarrow>
        w < length (lsWorkers s) \<and> n < wkWriteNum (lsWorkers s ! w)) \<and>
     length (rows (wdb (lsWorld s))) = r0 + sum_list (map wkWriteNum (lsWorkers s)) \<and>
     list_all (worker_counts cold) (lsWorkers s) \<and> map wkSerFailures (lsWorkers s) = replicate (length errs) 0 \<and>
     map wkOtherErrors (lsWorkers s) = errs"

fun event_ok :: "tick load_event \<Rightarrow> bool" where
  "event_ok (Worker w tk) = (env_net (tkCall tk) = NetOk)"
| "event_ok (Verify vi) = True"

lemma count_write_simps [simp]:
  "wkWriteNum (count_write lat wk) = Suc (wkWriteNum wk)" "wkSerFailures (count_write lat wk) = wkSerFailures wk"
  "wkOtherErrors (count_write lat wk) = wkOtherErrors wk" "worker_counts cold wk \<Longrightarrow> worker_counts cold (count_write lat wk)"
  by (auto simp: count_write_def worker_counts_def)

lemma p1_step_inv:
  assumes "p1_inv gvk cold r0 errs s" "event_ok e"
  shows "p1_inv gvk cold r0 errs (p1_step txt gvk warmUpEnd deadline e s)"
proof (cases e)
  case (Worker w tk)
  let ?wk = "lsWorkers s ! w" and ?ws = "lsWorkers s"
  let ?wk1 = "if \<not> wkWarmedUp ?wk \<and> warmUpEnd < tkWarm tk then ?wk\<lparr>wkWarmedUp := True\<rparr> else ?wk"
  have same [simp]: "wkWriteNum ?wk1 = wkWriteNum ?wk" "wkSerFailures ?wk1 = wkSerFailures ?wk"
    "wkOtherErrors ?wk1 = wkOtherErrors ?wk" by simp_all
  show ?thesis
  proof (cases "w < length ?ws \<and> wkRunning ?wk")
    case run: True
    then have wk: "worker_counts cold ?wk" "w < length ?ws" using assms(1) by (simp_all add: p1_inv_def list_all_length)
    show ?thesis
    proof (cases "tkNow tk < deadline")
      case False
      let ?off = "?wk\<lparr>wkRunning := False\<rparr>"
      have "worker_counts cold ?off" using wk(1) by (simp add: worker_counts_def)
      then have "list_all (worker_counts cold) (?ws[w := ?off])"
        using assms(1) by (simp add: p1_inv_def list_all_update)
      moreover have "wkWriteNum (?ws[w := ?off] ! v) = wkWriteNum (?ws ! v)" for v
        using wk(2) by (cases "v = w") simp_all
      ultimately show ?thesis
        using assms(1) run False Worker
        by (simp add: p1_inv_def p1_iteration_def map_update_same [OF wk(2)])
    next
      case True
      let ?S = "{(v, m). v < length ?ws \<and> m < wkWriteNum (?ws ! v)}"
      have "env_net (tkCall tk) = NetOk" using assms(2) Worker by simp
      then obtain w' res where w': "load_write (tkCall tk) (p1_request gvk w (wkWriteNum ?wk)) (lsWorld s) = (w', Inr res)"
          "\<And>v m. wr_key (p1_request gvk v m) \<in> table_keys w' \<longleftrightarrow> (v, m) \<in> insert (w, wkWriteNum ?wk) ?S"
          "length (rows (wdb w')) = Suc (length (rows (wdb (lsWorld s))))"
        using p1.fresh_write_taken [of "tkCall tk" gvk "lsWorld s" ?S w "wkWriteNum ?wk"] assms(1)
        by (auto simp: p1_inv_def)
      let ?new = "count_write (tkLatency tk) ?wk1"
      have step: "p1_step txt gvk warmUpEnd deadline e s = s\<lparr>lsWorkers := ?ws[w := ?new], lsWorld := w'\<rparr>"
        using run True Worker w'(1) by (simp add: p1_iteration_def)
      have "worker_counts cold ?wk1" using wk(1) by (simp add: worker_counts_def)
      then have "list_all (worker_counts cold) (?ws[w := ?new])"
        using assms(1) by (simp add: p1_inv_def list_all_update)
      moreover have "map wkSerFailures (?ws[w := ?new]) = map wkSerFailures ?ws"
        "map wkOtherErrors (?ws[w := ?new]) = map wkOtherErrors ?ws"
        by (rule map_update_same [OF wk(2)], simp)+
      moreover have "sum_list (map wkWriteNum (?ws[w := ?new])) = Suc (sum_list (map wkWriteNum ?ws))"
        using wk(2) member_le_sum_list [of "wkWriteNum ?wk" "map wkWriteNum ?ws"]
        by (simp add: map_update sum_list_update)
      moreover have "(v, m) \<in> insert (w, wkWriteNum ?wk) ?S \<longleftrightarrow>
          v < length (?ws[w := ?new]) \<and> m < wkWriteNum (?ws[w := ?new] ! v)" for v m
        using wk(2) by (auto simp: nth_list_update less_Suc_eq)
      ultimately show ?thesis using assms(1) w'(2,3) unfolding step by (simp add: p1_inv_def)
    qed
  qed (use assms(1) Worker in auto)
next
  case (Verify vi)
  then show ?thesis using assms(1) by (simp add: p1_inv_def)
qed

lemma p1_steps_inv:
  "list_all event_ok es \<Longrightarrow> p1_inv gvk cold r0 errs s \<Longrightarrow>
     p1_inv gvk cold r0 errs (fold (p1_step txt gvk warmUpEnd deadline) es s)"
  by (induction es arbitrary: s) (simp_all add: p1_step_inv)

lemma p1_final_inv:
  assumes "list_all event_ok (piEvents ins)" "\<And>w n. wr_key (p1_request (first_gvk cfg) w n) \<notin> table_keys world"
  shows "p1_inv (first_gvk cfg) (WarmUp (Phase1Ceiling (Phases cfg)) \<noteq> 0) (length (rows (wdb world)))
    (map (\<lambda>i. if piConnect ins i = None then 0 else 1) [0..<k]) (p1_final txt cfg k ins world)"
proof -
  let ?wu = "WarmUp (Phase1Ceiling (Phases cfg))"
  let ?ws = "map (\<lambda>i. new_worker ?wu (piConnect ins i)) [0..<k]"
  have "wkWriteNum \<circ> (\<lambda>i. new_worker ?wu (piConnect ins i)) = (\<lambda>_. 0)"
    "wkSerFailures \<circ> (\<lambda>i. new_worker ?wu (piConnect ins i)) = (\<lambda>_. 0)"
    "wkOtherErrors \<circ> (\<lambda>i. new_worker ?wu (piConnect ins i)) = (\<lambda>i. if piConnect ins i = None then 0 else 1)"
    by (auto simp: new_worker_def)
  then have "map wkWriteNum ?ws = replicate k 0" "map wkSerFailures ?ws = replicate k 0"
    "map wkOtherErrors ?ws = map (\<lambda>i. if piConnect ins i = None then 0 else 1) [0..<k]"
    by (simp_all add: map_replicate_const)
  moreover have "list_all (worker_counts (?wu \<noteq> 0)) ?ws"
    by (simp add: list_all_iff worker_counts_def new_worker_def)
  moreover have "wkWriteNum (?ws ! w) = 0" if "w < k" for w using that by (simp add: new_worker_def)
  ultimately show ?thesis
    unfolding p1_final_def Let_def
    by (intro p1_steps_inv assms(1)) (use assms(2) in \<open>auto simp: p1_inv_def sum_list_replicate\<close>)
qed

lemma sum_worker_counts:
  "list_all (worker_counts cold) ws \<Longrightarrow>
     sum_list (map wkWrites ws) \<le> sum_list (map wkWriteNum ws) \<and>
     (\<not> cold \<longrightarrow> sum_list (map wkWrites ws) = sum_list (map wkWriteNum ws)) \<and>
     length (concat (map wkLatencies ws)) = sum_list (map wkWrites ws)"
  by (induction ws) (auto simp: worker_counts_def)

lemma sum_list_indicator: "sum_list (map (\<lambda>i. if P i then 0 else 1 :: nat) xs) = length (filter (\<lambda>i. \<not> P i) xs)"
  by (induction xs) simp_all

text \<open>The workers of the ceiling test never meet. Whatever the interleaving of their writes with each
  other and with the verifier, if the network answers and no phase1 object is in the table
  beforehand, no write fails: there are no serialization failures, the only errors are failed
  connections, and every write the phase counts has added a row of its own; without a warm-up
  the count is exactly the number of new rows.\<close>

theorem phase1_workers_never_meet:
  assumes "runPhase1Single txt cfg workers ins w = (w', Inr r)" "list_all event_ok (piEvents ins)"
    and "\<And>i n. wr_key (p1_request (first_gvk cfg) i n) \<notin> table_keys w"
  shows "Errors r = [(''serialization'', 0), (''other'', int (length (filter (\<lambda>i. piConnect ins i \<noteq> None) [0..<nat workers])))] \<and>
    int (length (rows (wdb w))) + TotalWrites r \<le> int (length (rows (wdb w'))) \<and>
    (WarmUp (Phase1Ceiling (Phases cfg)) = 0 \<longrightarrow>
       int (length (rows (wdb w'))) = int (length (rows (wdb w))) + TotalWrites r)"
proof -
  let ?s = "p1_final txt cfg (nat workers) ins w"
  have r: "w' = lsWorld ?s" "r = p1_result (Phase1Ceiling (Phases cfg)) (piElapsed ins) ?s"
    using assms(1) by (auto simp: runPhase1Single_def Let_def split: if_splits)
  have inv: "p1_inv (first_gvk cfg) (WarmUp (Phase1Ceiling (Phases cfg)) \<noteq> 0) (length (rows (wdb w)))
      (map (\<lambda>i. if piConnect ins i = None then 0 else 1) [0..<nat workers]) ?s"
    by (rule p1_final_inv [OF assms(2,3)])
  then have sums: "sum_list (map wkSerFailures (lsWorkers ?s)) = 0"
    "sum_list (map wkOtherErrors (lsWorkers ?s)) = length (filter (\<lambda>i. piConnect ins i \<noteq> None) [0..<nat workers])"
    by (simp_all add: p1_inv_def sum_list_replicate sum_list_indicator)
  have "list_all (worker_counts (WarmUp (Phase1Ceiling (Phases cfg)) \<noteq> 0)) (lsWorkers ?s)"
    "length (rows (wdb (lsWorld ?s))) = length (rows (wdb w)) + sum_list (map wkWriteNum (lsWorkers ?s))"
    using inv by (simp_all add: p1_inv_def)
  from sum_worker_counts [OF this(1)] this(2) sums show ?thesis
    unfolding r by (simp add: p1_result_def phase_result_def Let_def)
qed

definition ex_tick :: "int \<Rightarrow> duration \<Rightarrow> tick" where
  "ex_tick now lat = \<lparr>tkNow = now, tkWarm = now, tkLatency = lat,
     tkCall = \<lparr>env_net = NetOk, env_fault = NoFault, env_uid = 3, env_now = 5\<rparr>\<rparr>"

definition ex_p1 :: p1_inputs where
  "ex_p1 = \<lparr>piVerConn = None, piConnect = (\<lambda>_. None), piStart = 0,
     piEvents = [Worker 0 (ex_tick 1 7), Worker 1 (ex_tick 2 5), Worker 0 (ex_tick 3 6)], piElapsed = second\<rparr>"

theorem phase1_workers_never_meet_witness:
  "\<exists>w' r. runPhase1Single (\<lambda>_. []) (validate ex_config) 2 ex_p1 ex_seed_world = (w', Inr r) \<and>
     Errors r = [(''serialization'', 0), (''other'', 0)] \<and> int (length (rows (wdb w'))) = TotalWrites r"
proof -
  obtain w' r where r: "runPhase1Single (\<lambda>_. []) (validate ex_config) 2 ex_p1 ex_seed_world = (w', Inr r)"
    by (auto simp: runPhase1Single_def Let_def ex_config_def validate_defs)
  have "list_all event_ok (piEvents ex_p1)" by (simp add: ex_p1_def ex_tick_def)
  moreover have "rows (wdb ex_seed_world) = []" by (simp add: ex_seed_world_def empty_db_def)
  moreover have "filter (\<lambda>i. piConnect ex_p1 i \<noteq> None) xs = []" for xs by (simp add: ex_p1_def)
  moreover have "WarmUp (Phase1Ceiling (Phases (validate ex_config))) = 0" by (simp add: ex_config_def validate_defs)
  ultimately show ?thesis
    using phase1_workers_never_meet [OF r] r by (simp add: table_keys_def)
qed

section \<open>The verdict\<close>

lemma p1_step_verifier: "violation_list (lsVerifier (p1_step txt gvk wu dl e s)) = violation_list (lsVerifier s)"
  by (cases e) (auto simp: verify_step_violations Let_def split: prod.splits)

lemma p1_final_silent: "violation_list (lsVerifier (p1_final txt cfg k ins w)) = []"
proof -
  have "violation_list (lsVerifier (fold (p1_step txt gvk wu dl) es s)) = violation_list (lsVerifier s)" for gvk wu dl es s
    by (induction es arbitrary: s) (simp_all add: p1_step_verifier)
  then show ?thesis by (simp add: p1_final_def Let_def phase_verifier_silent)
qed

lemma p1_verdict_iff:
  "p1_verdict p rps p99 n vs \<longleftrightarrow>
     \<not> (fless (Fin 0) (p1TargetRPS p) \<and> fless rps (p1TargetRPS p)) \<and>
     \<not> (0 < TargetP99Ms p \<and> TargetP99Ms p < Milliseconds p99) \<and> n = 0 \<and> vs = []"
  by (simp add: p1_verdict_def)

text \<open>What decides the ceiling test: exactly a positive target rate that is not reached, a p99 above a
  positive target in whole milliseconds, or a serialization failure makes it fail. Writes that
  fail otherwise and workers that cannot connect do not, and the verifier cannot: its list of
  violations is always empty, although the documentation says that any violation fails the test.\<close>

theorem phase1_verdict:
  assumes "runPhase1Single txt cfg workers ins w = (w', Inr r)"
  shows "VerifierViolations r = [] \<and>
    (Passed r \<longleftrightarrow>
       \<not> (fless (Fin 0) (p1TargetRPS (Phase1Ceiling (Phases cfg))) \<and> fless (RPS r) (p1TargetRPS (Phase1Ceiling (Phases cfg)))) \<and>
       \<not> (0 < TargetP99Ms (Phase1Ceiling (Phases cfg)) \<and> TargetP99Ms (Phase1Ceiling (Phases cfg)) < Milliseconds (P99 r)) \<and>
       map_of (Errors r) ''serialization'' = Some 0)"
proof -
  let ?s = "p1_final txt cfg (nat workers) ins w"
  have r: "r = p1_result (Phase1Ceiling (Phases cfg)) (piElapsed ins) ?s"
    using assms(1) by (auto simp: runPhase1Single_def Let_def split: if_splits)
  show ?thesis
    unfolding r by (simp add: p1_result_def phase_result_def Let_def p1_verdict_iff p1_final_silent)
qed

theorem phase1_verdict_witness:
  "\<exists>w' r. runPhase1Single (\<lambda>_. []) (validate ex_config) 2 ex_p1 ex_seed_world = (w', Inr r) \<and> VerifierViolations r = []"
proof -
  obtain w' r where r: "runPhase1Single (\<lambda>_. []) (validate ex_config) 2 ex_p1 ex_seed_world = (w', Inr r)"
    by (auto simp: runPhase1Single_def Let_def ex_config_def validate_defs)
  then show ?thesis using phase1_verdict [OF r] by blast
qed

text \<open>
  A specification without a duration is accepted, and the ceiling test then passes any target
  without a write: the rate is NaN, which no comparison calls too low, and json.Marshal
  refuses it, so that neither checkpoint nor report is written.
\<close>

definition idle_worker :: "worker \<Rightarrow> bool" where
  "idle_worker wk \<longleftrightarrow> wkWrites wk = 0 \<and> wkSerFailures wk = 0 \<and> wkLatencies wk = []"

lemma p1_late_events:
  assumes "\<forall>e \<in> set es. \<forall>i tk. e = Worker i tk \<longrightarrow> deadline \<le> tkNow tk" "list_all idle_worker (lsWorkers s)"
  shows "lsWorld (fold (p1_step txt gvk wu deadline) es s) = lsWorld s \<and>
    list_all idle_worker (lsWorkers (fold (p1_step txt gvk wu deadline) es s))"
  using assms
proof (induction es arbitrary: s)
  case (Cons e es)
  have "lsWorld (p1_step txt gvk wu deadline e s) = lsWorld s \<and>
      list_all idle_worker (lsWorkers (p1_step txt gvk wu deadline e s))"
  proof (cases e)
    case (Worker i tk)
    then have late: "\<not> tkNow tk < deadline" using Cons.prems(1) by fastforce
    have "idle_worker ((lsWorkers s ! i)\<lparr>wkRunning := False\<rparr>)" if "i < length (lsWorkers s)"
      using Cons.prems(2) that by (simp add: list_all_length idle_worker_def)
    then show ?thesis
      using Worker late Cons.prems(2) by (simp add: p1_iteration_def list_all_update)
  qed (use Cons.prems(2) in simp)
  then show ?case using Cons.IH Cons.prems(1) by simp
qed simp

theorem phase1_without_duration_passes:
  assumes "wf_config cfg" "p1Duration (Phase1Ceiling (Phases cfg)) = 0" "0 \<le> workers"
    and "vcEnabled (cfgVerifier cfg) \<longrightarrow> piVerConn ins = None"
    and "\<forall>e \<in> set (piEvents ins). \<forall>i tk. e = Worker i tk \<longrightarrow> piStart ins \<le> tkNow tk"
  shows "\<exists>r. runPhase1Single txt cfg workers ins w = (w, Inr r) \<and> Passed r \<and> TotalWrites r = 0 \<and>
    RPS r = NaN \<and> \<not> result_marshals r"
proof -
  let ?p = "Phase1Ceiling (Phases cfg)" and ?k = "nat workers"
  let ?s = "p1_final txt cfg ?k ins w"
  have "list_all idle_worker (map (\<lambda>i. new_worker (WarmUp ?p) (piConnect ins i)) [0..<?k])"
    by (simp add: list_all_iff new_worker_def idle_worker_def)
  with p1_late_events [OF assms(5)] have idle: "lsWorld ?s = w" "list_all idle_worker (lsWorkers ?s)"
    by (simp_all add: p1_final_def Let_def assms(2))
  then have none: "sum_list (map wkWrites (lsWorkers ?s)) = 0" "sum_list (map wkSerFailures (lsWorkers ?s)) = 0"
    "concat (map wkLatencies (lsWorkers ?s)) = []"
    by (simp_all add: list_all_iff idle_worker_def)
  have "0 \<le> WarmUp ?p" using assms(1) by (simp add: wf_config_def)
  then have "p1_result ?p (piElapsed ins) ?s = (phase_result ''phase1_ceiling'' True)
      \<lparr>prDuration := piElapsed ins, RPS := NaN,
       Errors := [(''serialization'', 0), (''other'', int (sum_list (map wkOtherErrors (lsWorkers ?s))))]\<rparr>"
    by (simp add: p1_result_def phase_result_def Let_def none p1_final_silent assms(2) Seconds_def signed_inf_def
        p1_verdict_iff percentile_or_0_def Milliseconds_def tdiv_def)
  then show ?thesis
    using assms(3,4) idle(1) by (simp add: runPhase1Single_def Let_def phase_result_def result_marshals_def)
qed

end
