(* ===== verification/Phase2.thy ===== *)
theory Phase2
  imports Phase1
begin

text \<open>
  Phases 2 and 2b of src/loadtest/cmd/loadtest (phase2_steady.go, phase2b_skew.go): a rate loop
  puts numbered jobs into a channel of 40, with bursts in phase 2, and four writers take them
  out. A run is a list of events in the order in which they happen. A send into a full channel
  waits until a writer has taken a job. main passes context.Background(), so the branch for
  ctx.Done() is never taken and is left out.
\<close>

section \<open>The rate loop\<close>

record rate_loop =
  currentRPS :: float64
  lastBurstStart :: int
  inBurst :: bool
  writeCounter :: nat

abbreviation burstDuration :: duration where "burstDuration \<equiv> 10 * second"
abbreviation burstInterval :: duration where "burstInterval \<equiv> 5 * 60 * second"

definition new_rate :: "float64 \<Rightarrow> int \<Rightarrow> rate_loop" where
  "new_rate targetRPS start =
     \<lparr>currentRPS = targetRPS, lastBurstStart = start, inBurst = False, writeCounter = 0\<rparr>"

text \<open>Decide whether to be in burst mode.\<close>

definition burst_mode :: "float64 \<Rightarrow> float64 \<Rightarrow> int \<Rightarrow> rate_loop \<Rightarrow> rate_loop" where
  "burst_mode targetRPS burstRPS now r =
     (if fless (Fin 0) burstRPS then
        (let timeSinceLastBurst = now - lastBurstStart r in
         if inBurst r \<and> burstDuration \<le> timeSinceLastBurst
         then r\<lparr>inBurst := False, currentRPS := targetRPS\<rparr>
         else if \<not> inBurst r \<and> burstInterval \<le> timeSinceLastBurst
         then r\<lparr>inBurst := True, lastBurstStart := now, currentRPS := burstRPS\<rparr>
         else r)
      else r)"

text \<open>The pause after a send; \<open>u\<close> is what the conversion gives when the quotient is no int64.\<close>

definition send_interval :: "int \<Rightarrow> float64 \<Rightarrow> duration" where
  "send_interval u rps = trunc64 u (fdiv (Fin 1000000000) rps)"

text \<open>How long an iteration sleeps.\<close>

definition rate_pause :: "int \<Rightarrow> rate_loop \<Rightarrow> duration" where
  "rate_pause u r = (if fle (currentRPS r) (Fin 0) then 100 * millisecond else send_interval u (currentRPS r))"

section \<open>The writers\<close>

record totals =
  tLatencies :: "duration list"
  tWrites :: nat
  tSerFail :: nat
  tOtherErr :: nat

text \<open>What the writers of phases 2, 2b and 3 count after a write.\<close>

definition count_outcome :: "(werr \<Rightarrow> string) \<Rightarrow> duration \<Rightarrow> werr + WriteResult \<Rightarrow> totals \<Rightarrow> totals" where
  "count_outcome txt lat res t =
     (case res of
        Inl e \<Rightarrow>
          if isSerializationFailure (Some (txt e)) then t\<lparr>tSerFail := tSerFail t + 1\<rparr>
          else t\<lparr>tOtherErr := tOtherErr t + 1\<rparr>
      | Inr _ \<Rightarrow> t\<lparr>tWrites := tWrites t + 1, tLatencies := tLatencies t @ [lat]\<rparr>)"

definition p2_request :: "string \<Rightarrow> nat \<Rightarrow> WriteRequest" where
  "p2_request gvk n = load_request gvk ''phase2'' (''p2-r'' @ dec n) (JObj [(''n'', JNum (int n))])"

section \<open>A run of phase 2\<close>

definition numWriters :: nat where
  "numWriters = 4"

text \<open>
  A writer without a connection, one that waits for a job, one with a job in hand. The channel
  holds ten jobs per writer; \<open>jsSending\<close> says that the loop waits for room in it, and
  \<open>jsWake\<close> is the earliest reading of the clock after the last sleep.
\<close>

datatype job_writer = NoConn | Idle | Busy nat

record job_state =
  jsRate :: rate_loop
  jsWake :: int
  jsSending :: bool
  jsClosed :: bool
  jsQueue :: "nat list"
  jsWriters :: "job_writer list"
  jsTotals :: totals
  jsVerifier :: "verifier option"
  jsWorld :: "unit world"

text \<open>
  An iteration of the rate loop with the readings of its clock; a writer taking a job; its
  write of that job, with its latency; a step of the verifier.
\<close>

datatype job_event = RateLoop int int | TakeJob nat | WriteJob nat duration call_env | VerifyJob verifier_input

definition send_job :: "job_state \<Rightarrow> job_state" where
  "send_job s =
     (if length (jsQueue s) < numWriters * 10
      then s\<lparr>jsQueue := jsQueue s @ [writeCounter (jsRate s)],
             jsRate := (jsRate s)\<lparr>writeCounter := writeCounter (jsRate s) + 1\<rparr>, jsSending := False\<rparr>
      else s\<lparr>jsSending := True\<rparr>)"

text \<open>
  The loop, from its condition to its sleep. A reading before the end of the sleep, or an
  iteration while the last send waits, is not possible and is no step.
\<close>

definition rate_iteration :: "int \<Rightarrow> (rate_loop \<Rightarrow> rate_loop) \<Rightarrow> int \<Rightarrow> int \<Rightarrow> int \<Rightarrow> job_state \<Rightarrow> job_state" where
  "rate_iteration u mode loopEnd now1 now2 s =
     (if jsClosed s \<or> jsSending s \<or> now1 < jsWake s \<or> now2 < now1 then s
      else if \<not> now1 < loopEnd then s\<lparr>jsClosed := True\<rparr>
      else
        (let s1 = s\<lparr>jsRate := mode (jsRate s), jsWake := now2 + rate_pause u (mode (jsRate s))\<rparr>
         in if fle (currentRPS (jsRate s1)) (Fin 0) then s1 else send_job s1))"

definition take_job :: "nat \<Rightarrow> job_state \<Rightarrow> job_state" where
  "take_job i s =
     (case jsQueue s of
        [] \<Rightarrow> s
      | n # rest \<Rightarrow>
          if i < length (jsWriters s) \<and> jsWriters s ! i = Idle then
            (let s1 = s\<lparr>jsQueue := rest, jsWriters := (jsWriters s)[i := Busy n]\<rparr>
             in if jsSending s then send_job s1 else s1)
          else s)"

definition write_job ::
  "(werr \<Rightarrow> string) \<Rightarrow> (nat \<Rightarrow> WriteRequest) \<Rightarrow> nat \<Rightarrow> duration \<Rightarrow> call_env \<Rightarrow> job_state \<Rightarrow> job_state" where
  "write_job txt req i lat env s =
     (if i < length (jsWriters s) then
        (case jsWriters s ! i of
           Busy n \<Rightarrow>
             (let (w', res) = load_write env (req n) (jsWorld s)
              in s\<lparr>jsWriters := (jsWriters s)[i := Idle], jsTotals := count_outcome txt lat res (jsTotals s), jsWorld := w'\<rparr>)
         | _ \<Rightarrow> s)
      else s)"

definition job_verify :: "verifier_input \<Rightarrow> job_state \<Rightarrow> job_state" where
  "job_verify vi s =
     (case jsVerifier s of
        None \<Rightarrow> s
      | Some v \<Rightarrow> (let (v', w') = verifier_step False vi (v, jsWorld s) in s\<lparr>jsVerifier := Some v', jsWorld := w'\<rparr>))"

text \<open>Both phases: \<open>mode\<close> is the burst decision and \<open>req\<close> makes the request of a job.\<close>

fun job_step ::
  "(werr \<Rightarrow> string) \<Rightarrow> int \<Rightarrow> (int \<Rightarrow> rate_loop \<Rightarrow> rate_loop) \<Rightarrow> (nat \<Rightarrow> WriteRequest) \<Rightarrow> int \<Rightarrow>
     job_event \<Rightarrow> job_state \<Rightarrow> job_state" where
  "job_step txt u mode req loopEnd (RateLoop now1 now2) s = rate_iteration u (mode now2) loopEnd now1 now2 s"
| "job_step txt u mode req loopEnd (TakeJob i) s = take_job i s"
| "job_step txt u mode req loopEnd (WriteJob i lat env) s = write_job txt req i lat env s"
| "job_step txt u mode req loopEnd (VerifyJob vi) s = job_verify vi s"

fun job_free :: "job_writer \<Rightarrow> bool" where
  "job_free (Busy n) = False"
| "job_free _ = True"

text \<open>The writers have all returned: the channel is closed, and drained unless nobody reads it.\<close>

definition jobs_finished :: "job_state \<Rightarrow> bool" where
  "jobs_finished s \<longleftrightarrow>
     jsClosed s \<and> list_all job_free (jsWriters s) \<and> (jsQueue s = [] \<or> list_all (\<lambda>x. x = NoConn) (jsWriters s))"

record job_inputs =
  jiVerConn :: "string option"
  jiConnect :: "nat \<Rightarrow> string option"
  jiStart :: int
  jiEvents :: "job_event list"
  jiElapsed :: duration

definition new_totals :: "nat \<Rightarrow> totals" where
  "new_totals failed = \<lparr>tLatencies = [], tWrites = 0, tSerFail = 0, tOtherErr = failed\<rparr>"

definition new_jobs :: "Config \<Rightarrow> float64 \<Rightarrow> duration \<Rightarrow> job_inputs \<Rightarrow> unit world \<Rightarrow> job_state" where
  "new_jobs cfg targetRPS pollInterval ins w =
     (let writers = map (\<lambda>i. if jiConnect ins i = None then Idle else NoConn) [0..<numWriters]
      in \<lparr>jsRate = new_rate targetRPS (jiStart ins), jsWake = jiStart ins, jsSending = False, jsClosed = False,
          jsQueue = [], jsWriters = writers,
          jsTotals = new_totals (length (filter (\<lambda>x. x = NoConn) writers)),
          jsVerifier = phase_verifier (vcEnabled (cfgVerifier cfg)) (first_gvk cfg) pollInterval,
          jsWorld = w\<rparr>)"

definition p2_verdict :: "Phase2Config \<Rightarrow> float64 \<Rightarrow> duration \<Rightarrow> string list \<Rightarrow> bool" where
  "p2_verdict pCfg rps p50 vs =
     (if fless (Fin 0) (p2TargetRPS pCfg) \<and> fless rps (fmul (p2TargetRPS pCfg) (Fin (95 / 100))) then False
      else if 0 < TargetP50Ms pCfg \<and> TargetP50Ms pCfg < Milliseconds p50 then False
      else if 0 < length vs then False
      else True)"

text \<open>The fields that phases 2, 2b and 3 fill in the same way.\<close>

definition totals_result :: "string \<Rightarrow> bool \<Rightarrow> duration \<Rightarrow> totals \<Rightarrow> string list \<Rightarrow> PhaseResult" where
  "totals_result name ok elapsed t vs =
     (let lats = sort (tLatencies t)
      in (phase_result name ok)
           \<lparr>prDuration := elapsed, TotalWrites := int (tWrites t), RPS := fdiv (Fin (real (tWrites t))) (Seconds elapsed),
            P50 := percentile_or_0 lats (1 / 2), P99 := percentile_or_0 lats (99 / 100),
            P999 := percentile_or_0 lats (999 / 1000),
            Errors := [(''serialization'', int (tSerFail t)), (''other'', int (tOtherErr t))],
            VerifierViolations := vs\<rparr>)"

definition p2_result :: "Phase2Config \<Rightarrow> duration \<Rightarrow> totals \<Rightarrow> string list \<Rightarrow> PhaseResult" where
  "p2_result pCfg elapsed t vs =
     totals_result ''phase2_steady''
       (p2_verdict pCfg (fdiv (Fin (real (tWrites t))) (Seconds elapsed)) (percentile_or_0 (sort (tLatencies t)) (1 / 2)) vs)
       elapsed t vs"

definition p2_final :: "(werr \<Rightarrow> string) \<Rightarrow> int \<Rightarrow> Config \<Rightarrow> job_inputs \<Rightarrow> unit world \<Rightarrow> job_state" where
  "p2_final txt u cfg ins w =
     (let pCfg = Phase2Steady (Phases cfg)
      in fold (job_step txt u (burst_mode (p2TargetRPS pCfg) (BurstRPS pCfg)) (p2_request (first_gvk cfg))
                 (jiStart ins + p2Duration pCfg))
           (jiEvents ins) (new_jobs cfg (p2TargetRPS pCfg) (vcPollInterval (cfgVerifier cfg)) ins w))"

text \<open>None: the phase has not returned after these events.\<close>

definition RunPhase2 ::
  "(werr \<Rightarrow> string) \<Rightarrow> int \<Rightarrow> Config \<Rightarrow> job_inputs \<Rightarrow> unit world \<Rightarrow> (unit world \<times> (phase_error + PhaseResult)) option" where
  "RunPhase2 txt u cfg ins w =
     (if vcEnabled (cfgVerifier cfg) \<and> jiVerConn ins \<noteq> None then Some (w, Inl (Failed ''phase2: verifier conn''))
      else
        (let s = p2_final txt u cfg ins w in
         if jobs_finished s
         then Some (jsWorld s, Inr (p2_result (Phase2Steady (Phases cfg)) (jiElapsed ins) (jsTotals s)
                                      (violation_list (jsVerifier s))))
         else None))"

section \<open>A run of phase 2b\<close>

text \<open>Phase 2's duration and rate with defaults of their own, and no bursts.\<close>

definition p2b_duration :: "Config \<Rightarrow> duration" where
  "p2b_duration cfg =
     (let d = p2Duration (Phase2Steady (Phases cfg)) in if d \<le> 0 then 60 * second else d)"

definition p2b_target :: "Config \<Rightarrow> float64" where
  "p2b_target cfg =
     (let t = p2TargetRPS (Phase2Steady (Phases cfg)) in if fle t (Fin 0) then Fin 100 else t)"

definition p2b_request :: "string \<Rightarrow> nat \<Rightarrow> WriteRequest" where
  "p2b_request gvk n = load_request gvk ''phase2b'' (''p2b-r'' @ dec n) (JObj [(''n'', JNum (int n))])"

definition p2b_result :: "duration \<Rightarrow> totals \<Rightarrow> string list \<Rightarrow> PhaseResult" where
  "p2b_result elapsed t vs =
     totals_result ''phase2b_skew'' (if 0 < length vs then False else True) elapsed t vs"

definition p2b_final :: "(werr \<Rightarrow> string) \<Rightarrow> int \<Rightarrow> Config \<Rightarrow> job_inputs \<Rightarrow> unit world \<Rightarrow> job_state" where
  "p2b_final txt u cfg ins w =
     fold (job_step txt u (\<lambda>now r. r) (p2b_request (first_gvk cfg)) (jiStart ins + p2b_duration cfg))
       (jiEvents ins) (new_jobs cfg (p2b_target cfg) (vcPollInterval (cfgVerifier cfg)) ins w)"

definition RunPhase2b ::
  "(werr \<Rightarrow> string) \<Rightarrow> int \<Rightarrow> Config \<Rightarrow> job_inputs \<Rightarrow> unit world \<Rightarrow> (unit world \<times> (phase_error + PhaseResult)) option" where
  "RunPhase2b txt u cfg ins w =
     (if vcEnabled (cfgVerifier cfg) \<and> jiVerConn ins \<noteq> None then Some (w, Inl (Failed ''phase2b: verifier conn''))
      else
        (let s = p2b_final txt u cfg ins w in
         if jobs_finished s
         then Some (jsWorld s, Inr (p2b_result (jiElapsed ins) (jsTotals s) (violation_list (jsVerifier s))))
         else None))"

end
