(* ===== verification/Phase3.thy ===== *)
theory Phase3
  imports Phase2
begin

text \<open>
  Phase 3, the kill-and-recover test of src/loadtest/cmd/loadtest/phase3_avalanche.go. Eight
  writers write until their context is cancelled; the main goroutine cancels a random selection,
  starts one new writer per cancelled one, and later cancels them all. A run is a list of events
  in the order in which they happen: the next action of the main goroutine, a step of a writer,
  a step of the verifier. Cancelling is separate from returning: a writer that is connecting or
  writing finishes that first, and a write that the cancellation interrupts fails in its
  environment.
\<close>

section \<open>Writers\<close>

datatype writer_id = Holder nat | Survivor nat nat

fun writerID :: "writer_id \<Rightarrow> string" where
  "writerID (Holder i) = ''holder-'' @ dec i"
| "writerID (Survivor w i) = ''survivor-'' @ dec w @ ''-'' @ dec i"

definition p3_request :: "string \<Rightarrow> writer_id \<Rightarrow> nat \<Rightarrow> WriteRequest" where
  "p3_request gvk i n =
     load_request gvk ''phase3'' (''p3-'' @ writerID i @ ''-r'' @ dec n)
       (JObj [(''w'', JStr (writerID i)), (''n'', JNum (int n))])"

datatype loop_pc = Connecting | Selecting | Writing | Returned

record loop_writer =
  lwId :: writer_id
  lwPc :: loop_pc
  lwCancelled :: bool
  lwNum :: nat

definition new_loop :: "writer_id \<Rightarrow> loop_writer" where
  "new_loop i = \<lparr>lwId = i, lwPc = Connecting, lwCancelled = False, lwNum = 0\<rparr>"

text \<open>What a step of a writer meets: the result of its connect, or its write with its latency.\<close>

record loop_input =
  liConnect :: "string option"
  liLatency :: duration
  liCall :: call_env

definition count_failed_connect :: "totals \<Rightarrow> totals" where
  "count_failed_connect t = t\<lparr>tOtherErr := tOtherErr t + 1\<rparr>"

definition writerLoop ::
  "(werr \<Rightarrow> string) \<Rightarrow> string \<Rightarrow> loop_input \<Rightarrow> loop_writer \<Rightarrow> totals \<Rightarrow> unit world \<Rightarrow>
     loop_writer \<times> totals \<times> unit world" where
  "writerLoop txt gvk li lw t world =
     (case lwPc lw of
        Connecting \<Rightarrow>
          (case liConnect li of
             Some e \<Rightarrow> (lw\<lparr>lwPc := Returned\<rparr>, count_failed_connect t, world)
           | None \<Rightarrow> (lw\<lparr>lwPc := Selecting\<rparr>, t, world))
      | Selecting \<Rightarrow> (if lwCancelled lw then (lw\<lparr>lwPc := Returned\<rparr>, t, world) else (lw\<lparr>lwPc := Writing\<rparr>, t, world))
      | Writing \<Rightarrow>
          (case load_write (liCall li) (p3_request gvk (lwId lw) (lwNum lw)) world of
             (world', Inl e) \<Rightarrow> (lw\<lparr>lwPc := Selecting\<rparr>, count_outcome txt (liLatency li) (Inl e) t, world')
           | (world', Inr r) \<Rightarrow>
               (lw\<lparr>lwPc := Selecting, lwNum := lwNum lw + 1\<rparr>, count_outcome txt (liLatency li) (Inr r) t, world'))
      | Returned \<Rightarrow> (lw, t, world))"

section \<open>The main goroutine\<close>

text \<open>The number to kill, before a negative one panics.\<close>

definition numToKill :: "int \<Rightarrow> float64 \<Rightarrow> int" where
  "numToKill u killFraction =
     (let n = trunc64 u (fmul (Fin 8) killFraction);
          n1 = (if n < 1 \<and> fless (Fin 0) killFraction then 1 else n)
      in if 8 < n1 then 8 else n1)"

definition killedWorkers :: "nat \<Rightarrow> nat list \<Rightarrow> nat list" where
  "killedWorkers k perm = take k perm"

definition survivingWorkers :: "nat \<Rightarrow> nat list \<Rightarrow> nat list" where
  "survivingWorkers k perm = drop k perm"

datatype p3_action = CancelWriter nat | StartWriter writer_id | CancelWarmup | CancelNew

text \<open>The actions of phases B and C, and the two cancels at the end.\<close>

definition p3_actions :: "nat list \<Rightarrow> p3_action list" where
  "p3_actions killed =
     map CancelWriter killed @ map (\<lambda>(i, w). StartWriter (Survivor w i)) (enumerate 0 killed) @ [CancelWarmup, CancelNew]"

record p3_state =
  psWriters :: "loop_writer list"
  psActions :: "p3_action list"
  psTotals :: totals
  psVerifier :: "verifier option"
  psWorld :: "unit world"

definition cancel :: "loop_writer \<Rightarrow> loop_writer" where
  "cancel lw = lw\<lparr>lwCancelled := True\<rparr>"

fun is_holder :: "writer_id \<Rightarrow> bool" where
  "is_holder (Holder i) = True"
| "is_holder (Survivor w i) = False"

fun p3_act :: "p3_action \<Rightarrow> loop_writer list \<Rightarrow> loop_writer list" where
  "p3_act (CancelWriter w) ws = (if w < length ws then ws[w := cancel (ws ! w)] else ws)"
| "p3_act (StartWriter i) ws = ws @ [new_loop i]"
| "p3_act CancelWarmup ws = map (\<lambda>lw. if is_holder (lwId lw) then cancel lw else lw) ws"
| "p3_act CancelNew ws = map (\<lambda>lw. if is_holder (lwId lw) then lw else cancel lw) ws"

datatype p3_event = MainStep | LoopStep nat loop_input | VerifyLoop verifier_input

fun p3_step :: "(werr \<Rightarrow> string) \<Rightarrow> string \<Rightarrow> p3_event \<Rightarrow> p3_state \<Rightarrow> p3_state" where
  "p3_step txt gvk MainStep s =
     (case psActions s of
        [] \<Rightarrow> s
      | a # as \<Rightarrow> s\<lparr>psActions := as, psWriters := p3_act a (psWriters s)\<rparr>)"
| "p3_step txt gvk (LoopStep i li) s =
     (if i < length (psWriters s) then
        (let (lw, t, w') = writerLoop txt gvk li (psWriters s ! i) (psTotals s) (psWorld s)
         in s\<lparr>psWriters := (psWriters s)[i := lw], psTotals := t, psWorld := w'\<rparr>)
      else s)"
| "p3_step txt gvk (VerifyLoop vi) s =
     (case psVerifier s of
        None \<Rightarrow> s
      | Some v \<Rightarrow> (let (v', w') = verifier_step False vi (v, psWorld s) in s\<lparr>psVerifier := Some v', psWorld := w'\<rparr>))"

definition p3_finished :: "p3_state \<Rightarrow> bool" where
  "p3_finished s \<longleftrightarrow> psActions s = [] \<and> list_all (\<lambda>lw. lwPc lw = Returned) (psWriters s)"

record p3_inputs =
  p3VerConn :: "string option"
  p3Perm :: "nat list"
  p3Events :: "p3_event list"
  p3Elapsed :: duration

definition p3_start :: "Config \<Rightarrow> p3_action list \<Rightarrow> unit world \<Rightarrow> p3_state" where
  "p3_start cfg actions w =
     \<lparr>psWriters = map (\<lambda>i. new_loop (Holder i)) [0..<8], psActions = actions, psTotals = new_totals 0,
      psVerifier = phase_verifier (vcEnabled (cfgVerifier cfg)) (first_gvk cfg) (200 * millisecond), psWorld = w\<rparr>"

definition p3_final :: "(werr \<Rightarrow> string) \<Rightarrow> Config \<Rightarrow> p3_action list \<Rightarrow> p3_inputs \<Rightarrow> unit world \<Rightarrow> p3_state" where
  "p3_final txt cfg actions ins w = fold (p3_step txt (first_gvk cfg)) (p3Events ins) (p3_start cfg actions w)"

definition p3_result :: "duration \<Rightarrow> totals \<Rightarrow> string list \<Rightarrow> PhaseResult" where
  "p3_result elapsed t vs =
     totals_result ''phase3_avalanche'' (if 0 < length vs then False else True) elapsed t vs"

text \<open>A negative kill fraction panics when the slice of victims is made; None: not returned yet.\<close>

definition RunPhase3 ::
  "(werr \<Rightarrow> string) \<Rightarrow> int \<Rightarrow> Config \<Rightarrow> p3_inputs \<Rightarrow> unit world \<Rightarrow> (unit world \<times> (phase_error + PhaseResult)) option" where
  "RunPhase3 txt u cfg ins w =
     (let k = numToKill u (KillFraction (Phase3Avalanche (Phases cfg))) in
      if vcEnabled (cfgVerifier cfg) \<and> p3VerConn ins \<noteq> None then Some (w, Inl (Failed ''phase3: verifier conn''))
      else if k < 0 then Some (psWorld (p3_final txt cfg [] ins w), Inl (Panic ''makeslice: len out of range''))
      else
        (let s = p3_final txt cfg (p3_actions (killedWorkers (nat k) (p3Perm ins))) ins w in
         if p3_finished s
         then Some (psWorld s, Inr (p3_result (p3Elapsed ins) (psTotals s) (violation_list (psVerifier s))))
         else None))"

end
