(* ===== verification/Phase2Runs.thy ===== *)
theory Phase2Runs
  imports Phase2
begin

text \<open>
  What runs of phases 2 and 2b do. The locale job_writers extends numbered_writers by the
  channel: the jobs written, queued and in hand are always the numbers handed out so far, each
  once. Two further invariants bound the jobs by the pauses, and follow a run without writers.
\<close>

section \<open>Jobs\<close>

fun held :: "job_writer \<Rightarrow> nat list" where
  "held (Busy n) = [n]"
| "held _ = []"

definition in_hand :: "job_state \<Rightarrow> nat list" where
  "in_hand s = concat (map held (jsWriters s))"

lemma held_update:
  "i < length ws \<Longrightarrow>
     mset (concat (map held (ws[i := x]))) + mset (held (ws ! i)) = mset (concat (map held ws)) + mset (held x)"
proof (induction ws arbitrary: i)
  case (Cons y ws)
  show ?case
  proof (cases i)
    case (Suc j)
    then show ?thesis using Cons.IH [of j] Cons.prems by (simp add: add.assoc)
  qed simp
qed simp

lemma held_update_free:
  assumes "i < length ws" "held (ws ! i) = []" shows "mset (concat (map held (ws[i := Busy n]))) = add_mset n (mset (concat (map held ws)))"
  using held_update [OF assms(1), of "Busy n"] assms(2) by simp

lemma held_update_busy:
  assumes "i < length ws" "ws ! i = Busy n"
  shows "mset (concat (map held ws)) = add_mset n (mset (concat (map held (ws[i := Idle]))))"
  using held_update [OF assms(1), of Idle] assms(2) by simp

lemma send_job_frame [simp]:
  "jsWriters (send_job s) = jsWriters s" "jsTotals (send_job s) = jsTotals s" "jsWorld (send_job s) = jsWorld s"
  "jsVerifier (send_job s) = jsVerifier s" "jsClosed (send_job s) = jsClosed s" "jsWake (send_job s) = jsWake s"
  by (simp_all add: send_job_def)

lemma job_verify_frame [simp]:
  "jsWriters (job_verify vi s) = jsWriters s" "jsTotals (job_verify vi s) = jsTotals s" "jsWorld (job_verify vi s) = jsWorld s"
  "jsQueue (job_verify vi s) = jsQueue s" "jsRate (job_verify vi s) = jsRate s" "jsClosed (job_verify vi s) = jsClosed s"
  "jsSending (job_verify vi s) = jsSending s" "jsWake (job_verify vi s) = jsWake s"
  by (auto simp: job_verify_def case_prod_beta split: option.splits)

lemma write_job_frame [simp]:
  "jsQueue (write_job f req i lat env s) = jsQueue s" "jsRate (write_job f req i lat env s) = jsRate s"
  "jsSending (write_job f req i lat env s) = jsSending s" "jsWake (write_job f req i lat env s) = jsWake s"
  "jsClosed (write_job f req i lat env s) = jsClosed s" "jsVerifier (write_job f req i lat env s) = jsVerifier s"
  by (auto simp: write_job_def case_prod_beta split: job_writer.splits)

text \<open>The numbers handed out, wherever their jobs are.\<close>

definition job_numbers :: "nat list \<Rightarrow> job_state \<Rightarrow> bool" where
  "job_numbers finished s \<longleftrightarrow>
     mset finished + mset (jsQueue s) + mset (in_hand s) = mset_set {..<writeCounter (jsRate s)}"

lemma job_numbers_cong:
  "jsQueue s' = jsQueue s \<Longrightarrow> jsWriters s' = jsWriters s \<Longrightarrow> writeCounter (jsRate s') = writeCounter (jsRate s) \<Longrightarrow>
     job_numbers d s' = job_numbers d s"
  by (simp add: job_numbers_def in_hand_def)

lemma job_numbers_send: "job_numbers d s \<Longrightarrow> job_numbers d (send_job s)"
  by (simp add: job_numbers_def in_hand_def send_job_def lessThan_Suc)

lemma job_numbers_rate:
  assumes "\<And>r. writeCounter (mode r) = writeCounter r" "job_numbers d s"
  shows "job_numbers d (rate_iteration u mode loopEnd now1 now2 s)"
proof -
  have "job_numbers d (s\<lparr>jsRate := mode (jsRate s), jsWake := x\<rparr>)" "job_numbers d (s\<lparr>jsClosed := True\<rparr>)" for x
    using assms(2) by (simp_all add: job_numbers_def in_hand_def assms(1))
  then show ?thesis using assms(2) by (simp add: rate_iteration_def Let_def job_numbers_send)
qed

lemma job_numbers_take:
  assumes "job_numbers d s" shows "job_numbers d (take_job i s)"
proof (cases "jsQueue s")
  case (Cons n rest)
  have "job_numbers d (s\<lparr>jsQueue := rest, jsWriters := (jsWriters s)[i := Busy n]\<rparr>)"
    if "i < length (jsWriters s)" "jsWriters s ! i = Idle"
    using assms held_update_free [of i "jsWriters s" n] that Cons by (simp add: job_numbers_def in_hand_def)
  then show ?thesis using assms by (simp add: take_job_def Cons Let_def job_numbers_send)
qed (simp add: take_job_def assms)

lemma job_numbers_fresh:
  assumes "job_numbers d s" "i < length (jsWriters s)" "jsWriters s ! i = Busy n"
  shows "n \<notin> set d" "job_numbers (d @ [n]) (s\<lparr>jsWriters := (jsWriters s)[i := Idle]\<rparr>)"
proof -
  let ?rest = "mset (concat (map held ((jsWriters s)[i := Idle])))"
  have eq: "mset d + (mset (jsQueue s) + add_mset n ?rest) = mset_set {..<writeCounter (jsRate s)}"
    using assms(1) held_update_busy [OF assms(2,3)] by (simp add: job_numbers_def in_hand_def add.assoc)
  have "count (mset d + (mset (jsQueue s) + add_mset n ?rest)) n \<le> 1"
    unfolding eq by (simp add: count_mset_set')
  then show "n \<notin> set d" by (simp add: count_mset_0_iff)
  show "job_numbers (d @ [n]) (s\<lparr>jsWriters := (jsWriters s)[i := Idle]\<rparr>)"
    using eq by (simp add: job_numbers_def in_hand_def add.assoc)
qed

lemma burst_mode_counter [simp]: "writeCounter (burst_mode t b now r) = writeCounter r"
  by (simp add: burst_mode_def Let_def)

section \<open>Every job is written once\<close>

fun job_ok :: "job_event \<Rightarrow> bool" where
  "job_ok (WriteJob i lat env) = (env_net env = NetOk)"
| "job_ok _ = True"

locale job_writers = numbered_writers "\<lambda>_::unit. req" for req :: "nat \<Rightarrow> WriteRequest"
begin

text \<open>The finished jobs are the keys of the family in the table, and what has been counted.\<close>

definition written :: "nat \<Rightarrow> nat \<Rightarrow> nat list \<Rightarrow> job_state \<Rightarrow> bool" where
  "written r0 failed d s \<longleftrightarrow>
     (\<forall>n. wr_key (req n) \<in> table_keys (jsWorld s) \<longleftrightarrow> n \<in> set d) \<and>
     length (rows (wdb (jsWorld s))) = r0 + length d \<and> tWrites (jsTotals s) = length d \<and>
     tSerFail (jsTotals s) = 0 \<and> tOtherErr (jsTotals s) = failed"

lemma written_frame: "jsWorld s' = jsWorld s \<Longrightarrow> jsTotals s' = jsTotals s \<Longrightarrow> written r0 f d s' = written r0 f d s"
  by (simp add: written_def)

lemma write_job_inv:
  assumes "written r0 f d s" "job_numbers d s" "env_net env = NetOk"
  shows "\<exists>d'. written r0 f d' (write_job txt req i lat env s) \<and> job_numbers d' (write_job txt req i lat env s)"
proof (cases "\<exists>n. i < length (jsWriters s) \<and> jsWriters s ! i = Busy n")
  case True
  then obtain n where n: "i < length (jsWriters s)" "jsWriters s ! i = Busy n" by blast
  note fresh = job_numbers_fresh [OF assms(2) n]
  obtain w' res where w': "load_write env (req n) (jsWorld s) = (w', Inr res)"
      "\<And>u m. wr_key (req m) \<in> table_keys w' \<longleftrightarrow> (u, m) \<in> insert ((), n) {((), m) | m. m \<in> set d}"
      "length (rows (wdb w')) = Suc (length (rows (wdb (jsWorld s))))"
    using fresh_write_taken [OF assms(3), of "jsWorld s" "{((), m) | m. m \<in> set d}" "()" n] assms(1) fresh(1)
    unfolding written_def by auto
  let ?s = "s\<lparr>jsWriters := (jsWriters s)[i := Idle], jsTotals := count_outcome txt lat (Inr res) (jsTotals s), jsWorld := w'\<rparr>"
  have step: "write_job txt req i lat env s = ?s" by (simp add: write_job_def n w'(1))
  have "written r0 f (d @ [n]) ?s" using assms(1) w'(2,3) by (simp add: written_def count_outcome_def)
  moreover have "job_numbers (d @ [n]) ?s" using fresh(2) by (simp add: job_numbers_def in_hand_def)
  ultimately show ?thesis unfolding step by blast
next
  case False
  then have "write_job txt req i lat env s = s" by (auto simp: write_job_def split: job_writer.splits)
  then show ?thesis using assms by auto
qed

lemma job_step_inv:
  assumes "\<And>now r. writeCounter (mode now r) = writeCounter r" "job_ok e" "written r0 f d s" "job_numbers d s"
  shows "\<exists>d'. written r0 f d' (job_step txt u mode req loopEnd e s) \<and> job_numbers d' (job_step txt u mode req loopEnd e s)"
proof (cases e)
  case (RateLoop now1 now2)
  have "written r0 f d (rate_iteration u (mode now2) loopEnd now1 now2 s)"
    using assms(3) by (simp add: written_def rate_iteration_def Let_def)
  then show ?thesis using job_numbers_rate [OF assms(1,4)] RateLoop by auto
next
  case (TakeJob i)
  have "jsWorld (take_job i s) = jsWorld s" "jsTotals (take_job i s) = jsTotals s"
    by (simp_all add: take_job_def Let_def split: list.splits)
  then have "written r0 f d (take_job i s)" using assms(3) written_frame by blast
  then show ?thesis using job_numbers_take [OF assms(4), of i] TakeJob by auto
next
  case (WriteJob i lat env)
  then show ?thesis using write_job_inv [OF assms(3,4)] assms(2) by auto
next
  case (VerifyJob vi)
  have "job_numbers d (job_verify vi s)" using assms(4) by (simp add: job_numbers_def in_hand_def)
  moreover have "written r0 f d (job_verify vi s)" using assms(3) by (simp add: written_def)
  ultimately show ?thesis using VerifyJob by auto
qed

lemma job_steps_inv:
  assumes "\<And>now r. writeCounter (mode now r) = writeCounter r" "list_all job_ok es" "written r0 f d s" "job_numbers d s"
  shows "\<exists>d'. written r0 f d' (fold (job_step txt u mode req loopEnd) es s) \<and>
    job_numbers d' (fold (job_step txt u mode req loopEnd) es s)"
  using assms(2-)
proof (induction es arbitrary: d s)
  case (Cons e es)
  have "job_ok e" "list_all job_ok es" using Cons.prems(1) by simp_all
  then obtain d' where "written r0 f d' (job_step txt u mode req loopEnd e s)" "job_numbers d' (job_step txt u mode req loopEnd e s)"
    using job_step_inv [where mode = mode, OF assms(1) \<open>job_ok e\<close> Cons.prems(2,3)] by blast
  with Cons.IH [OF \<open>list_all job_ok es\<close>] show ?case by simp
qed auto

end

lemma job_writer_kept:
  "length (jsWriters (job_step txt u mode req loopEnd e s)) = length (jsWriters s) \<and>
     (i < length (jsWriters s) \<longrightarrow> (jsWriters (job_step txt u mode req loopEnd e s) ! i = NoConn \<longleftrightarrow> jsWriters s ! i = NoConn))"
  by (cases e)
     (auto simp: rate_iteration_def take_job_def write_job_def nth_list_update Let_def case_prod_beta
        split: list.splits job_writer.splits)

lemma job_writers_kept:
  "length (jsWriters (fold (job_step txt u mode req loopEnd) es s)) = length (jsWriters s) \<and>
     (i < length (jsWriters s) \<longrightarrow>
       (jsWriters (fold (job_step txt u mode req loopEnd) es s) ! i = NoConn \<longleftrightarrow> jsWriters s ! i = NoConn))"
proof (induction es arbitrary: s)
  case (Cons e es)
  then show ?case using job_writer_kept [where e = e and s = s and i = i] by simp
qed simp

lemma dec_prefix [simp]: "p @ dec a = p @ dec b \<longleftrightarrow> a = b"
  by simp

interpretation p2: job_writers "p2_request gvk" for gvk
  by unfold_locales (auto simp: p2_request_def)

interpretation p2b: job_writers "p2b_request gvk" for gvk
  by unfold_locales (auto simp: p2b_request_def)

lemma new_jobs_simps [simp]:
  "jsRate (new_jobs cfg t p ins w) = new_rate t (jiStart ins)" "jsQueue (new_jobs cfg t p ins w) = []"
  "jsSending (new_jobs cfg t p ins w) = False" "jsClosed (new_jobs cfg t p ins w) = False" "jsWorld (new_jobs cfg t p ins w) = w"
  "jsWake (new_jobs cfg t p ins w) = jiStart ins"
  "jsWriters (new_jobs cfg t p ins w) = map (\<lambda>i. if jiConnect ins i = None then Idle else NoConn) [0..<numWriters]"
  by (simp_all add: new_jobs_def Let_def)

lemma new_jobs_in_hand [simp]: "in_hand (new_jobs cfg t p ins w) = []"
  by (simp add: in_hand_def)

definition failed_connections :: "job_inputs \<Rightarrow> nat" where
  "failed_connections ins = length (filter (\<lambda>i. jiConnect ins i \<noteq> None) [0..<numWriters])"

lemma new_jobs_totals: "jsTotals (new_jobs cfg t p ins w) = new_totals (failed_connections ins)"
  by (simp add: new_jobs_def Let_def failed_connections_def filter_map comp_def if_split_eq2 cong: filter_cong)

lemma jobs_start: "job_numbers [] (new_jobs cfg t p ins w)"
  by (simp add: job_numbers_def new_rate_def)

lemma free_in_hand: "list_all job_free (jsWriters s) \<Longrightarrow> in_hand s = []"
proof -
  have "job_free x \<Longrightarrow> held x = []" for x by (cases x) simp_all
  then show "list_all job_free (jsWriters s) \<Longrightarrow> in_hand s = []" by (simp add: in_hand_def list_all_iff)
qed

text \<open>A finished run with a writer left has finished all the jobs it handed out.\<close>

lemma finished_jobs:
  assumes "jobs_finished s" "job_numbers d s" "x \<in> set (jsWriters s)" "x \<noteq> NoConn"
  shows "set d = {..<writeCounter (jsRate s)}" "length d = writeCounter (jsRate s)"
proof -
  have "mset d = mset_set {..<writeCounter (jsRate s)}"
    using assms free_in_hand [of s] by (auto simp: jobs_finished_def job_numbers_def list_all_iff)
  then show "set d = {..<writeCounter (jsRate s)}" "length d = writeCounter (jsRate s)"
    by (metis finite_lessThan finite_set_mset_mset_set set_mset_mset, metis card_lessThan size_mset size_mset_set)
qed

context job_writers
begin

lemma finished_run:
  assumes s_def: "s = fold (job_step txt u mode req loopEnd) (jiEvents ins) (new_jobs cfg t p ins w)"
  assumes "\<And>now r. writeCounter (mode now r) = writeCounter r" "list_all job_ok (jiEvents ins)"
    and "\<And>n. wr_key (req n) \<notin> table_keys w" "i < numWriters" "jiConnect ins i = None" "jobs_finished s"
  shows "written (length (rows (wdb w))) (failed_connections ins) [0..<tWrites (jsTotals s)] s"
proof -
  let ?s0 = "new_jobs cfg t p ins w"
  have "written (length (rows (wdb w))) (failed_connections ins) [] ?s0"
    using assms(4) by (simp add: written_def new_jobs_totals new_totals_def)
  then obtain d where d: "written (length (rows (wdb w))) (failed_connections ins) d s" "job_numbers d s"
    using job_steps_inv [where mode = mode, OF assms(2,3) _ jobs_start] unfolding s_def by blast
  have "length (jsWriters s) = numWriters" "jsWriters s ! i \<noteq> NoConn"
    using job_writers_kept [where es = "jiEvents ins" and s = ?s0 and i = i] assms(5,6) unfolding s_def by simp_all
  then have "jsWriters s ! i \<in> set (jsWriters s)" "jsWriters s ! i \<noteq> NoConn" using assms(5) by simp_all
  from finished_jobs [OF assms(7) d(2) this] d(1) show ?thesis by (simp add: written_def)
qed

end

lemma RunPhase2_result:
  assumes "RunPhase2 txt u cfg ins w = Some (w', Inr r)"
  shows "w' = jsWorld (p2_final txt u cfg ins w)" "jobs_finished (p2_final txt u cfg ins w)"
    "r = p2_result (Phase2Steady (Phases cfg)) (jiElapsed ins) (jsTotals (p2_final txt u cfg ins w))
           (violation_list (jsVerifier (p2_final txt u cfg ins w)))"
  using assms by (auto simp: RunPhase2_def Let_def split: if_splits)

lemma RunPhase2b_result:
  assumes "RunPhase2b txt u cfg ins w = Some (w', Inr r)"
  shows "w' = jsWorld (p2b_final txt u cfg ins w)" "jobs_finished (p2b_final txt u cfg ins w)"
    "r = p2b_result (jiElapsed ins) (jsTotals (p2b_final txt u cfg ins w))
           (violation_list (jsVerifier (p2b_final txt u cfg ins w)))"
  using assms by (auto simp: RunPhase2b_def Let_def split: if_splits)

lemma totals_result_simps [simp]:
  "TotalWrites (totals_result nm ok d t vs) = int (tWrites t)" "Passed (totals_result nm ok d t vs) = ok"
  "Errors (totals_result nm ok d t vs) = [(''serialization'', int (tSerFail t)), (''other'', int (tOtherErr t))]"
  "RPS (totals_result nm ok d t vs) = fdiv (Fin (real (tWrites t))) (Seconds d)"
  "VerifierViolations (totals_result nm ok d t vs) = vs"
  by (simp_all add: totals_result_def phase_result_def Let_def)

text \<open>C37: Phase 2 writes every job once. If the network answers, one writer connects and no object of the
  phase exists beforehand, then whatever the interleaving of the rate loop, the four writers and
  the verifier, a phase that returns has created exactly the objects p2-r0, p2-r1, ... up to the
  number of writes it reports, one row each, and its only errors are failed connections.\<close>

theorem phase2_each_job_once:
  assumes "RunPhase2 txt u cfg ins w = Some (w', Inr r)" "list_all job_ok (jiEvents ins)"
    and "\<And>n. wr_key (p2_request (first_gvk cfg) n) \<notin> table_keys w" "i < numWriters" "jiConnect ins i = None"
  shows "(\<forall>n. wr_key (p2_request (first_gvk cfg) n) \<in> table_keys w' \<longleftrightarrow> int n < TotalWrites r) \<and>
    int (length (rows (wdb w'))) = int (length (rows (wdb w))) + TotalWrites r \<and>
    Errors r = [(''serialization'', 0), (''other'', int (failed_connections ins))]"
proof -
  let ?p = "Phase2Steady (Phases cfg)"
  note r = RunPhase2_result [OF assms(1)]
  have "p2.written (first_gvk cfg) (length (rows (wdb w))) (failed_connections ins)
      [0..<tWrites (jsTotals (p2_final txt u cfg ins w))] (p2_final txt u cfg ins w)"
    by (rule p2.finished_run [where mode = "burst_mode (p2TargetRPS ?p) (BurstRPS ?p)", OF _ burst_mode_counter assms(2-5) r(2)])
       (simp add: p2_final_def Let_def)
  then show ?thesis unfolding r(1,3) p2.written_def by (simp add: p2_result_def)
qed

text \<open>One write at 10 per second, and a loop that ends after a second.\<close>

definition ex_steady :: Config where
  "ex_steady = ex_config\<lparr>Phases := (Phases ex_config)\<lparr>Phase2Steady :=
     \<lparr>p2Enabled = True, p2Duration = second, p2TargetRPS = Fin 10, BurstRPS = Fin 0, TargetCPUPct = 0, TargetP50Ms = 0\<rparr>\<rparr>\<rparr>"

definition ex_jobs :: job_inputs where
  "ex_jobs = \<lparr>jiVerConn = None, jiConnect = (\<lambda>i. if i = 3 then Some ''too many clients'' else None), jiStart = 0,
     jiEvents = [RateLoop 0 0, TakeJob 3, TakeJob 1, RateLoop 5 5,
       WriteJob 1 7 \<lparr>env_net = NetOk, env_fault = NoFault, env_uid = 3, env_now = 5\<rparr>, RateLoop (2 * second) (2 * second)],
     jiElapsed = 2 * second\<rparr>"

lemma numWriters_list: "[0..<4::nat] = [0, 1, 2, 3]"
  by (simp add: upt_rec)

lemmas ex_steady_defs = ex_steady_def ex_config_def


lemma ex_steady_returns:
  "\<exists>w' r. RunPhase2 (\<lambda>_. []) 0 ex_steady ex_jobs ex_seed_world = Some (w', Inr r)"
proof -
  have cfg: "p2TargetRPS (Phase2Steady (Phases ex_steady)) = Fin 10" "BurstRPS (Phase2Steady (Phases ex_steady)) = Fin 0"
    "p2Duration (Phase2Steady (Phases ex_steady)) = second" "jiStart ex_jobs = 0" "vcEnabled (cfgVerifier ex_steady) = False"
    by (simp_all add: ex_steady_defs ex_jobs_def)
  have "jobs_finished (p2_final (\<lambda>_. []) 0 ex_steady ex_jobs ex_seed_world)"
    by (simp add: p2_final_def cfg) (simp add: ex_jobs_def new_jobs_def new_rate_def numWriters_list rate_iteration_def
        burst_mode_def rate_pause_def send_interval_def Let_def send_job_def numWriters_def take_job_def write_job_def
        case_prod_beta jobs_finished_def)
  then show ?thesis by (simp add: RunPhase2_def Let_def cfg)
qed

theorem phase2_each_job_once_witness:
  "\<exists>w' r. RunPhase2 (\<lambda>_. []) 0 ex_steady ex_jobs ex_seed_world = Some (w', Inr r) \<and>
     int (length (rows (wdb w'))) = TotalWrites r \<and> Errors r = [(''serialization'', 0), (''other'', 1)]"
proof -
  obtain w' r where r: "RunPhase2 (\<lambda>_. []) 0 ex_steady ex_jobs ex_seed_world = Some (w', Inr r)"
    using ex_steady_returns by blast
  have "list_all job_ok (jiEvents ex_jobs)" "jiConnect ex_jobs 1 = None" "1 < numWriters" "failed_connections ex_jobs = 1"
    by (simp_all add: ex_jobs_def numWriters_def failed_connections_def upt_rec)
  moreover have "rows (wdb ex_seed_world) = []" by (simp add: ex_seed_world_def empty_db_def)
  ultimately show ?thesis using phase2_each_job_once [OF r, of 1] r by (simp add: table_keys_def)
qed

section \<open>The rate\<close>

text \<open>No more writes than jobs.\<close>

definition counted :: "job_state \<Rightarrow> bool" where
  "counted s \<longleftrightarrow> tWrites (jsTotals s) + length (jsQueue s) + length (in_hand s) \<le> writeCounter (jsRate s)"

lemma in_hand_frame [simp]:
  "in_hand (s\<lparr>jsTotals := t\<rparr>) = in_hand s" "in_hand (s\<lparr>jsWorld := w\<rparr>) = in_hand s" "in_hand (s\<lparr>jsQueue := q\<rparr>) = in_hand s"
  "in_hand (send_job s) = in_hand s"
  by (simp_all add: in_hand_def)

lemma in_hand_idle:
  assumes "i < length (jsWriters s)" "jsWriters s ! i = Idle"
  shows "length (in_hand (s\<lparr>jsWriters := (jsWriters s)[i := Busy n]\<rparr>)) = Suc (length (in_hand s))"
  using arg_cong [OF held_update_free [of i "jsWriters s" n], of size] assms by (simp add: in_hand_def del: length_concat)

lemma in_hand_busy:
  assumes "i < length (jsWriters s)" "jsWriters s ! i = Busy n"
  shows "length (in_hand s) = Suc (length (in_hand (s\<lparr>jsWriters := (jsWriters s)[i := Idle]\<rparr>)))"
  using arg_cong [OF held_update_busy [OF assms], of size] by (simp add: in_hand_def)

lemma counted_send: "counted s \<Longrightarrow> counted (send_job s)"
  by (auto simp: counted_def send_job_def in_hand_def)

lemma count_outcome_le: "tWrites (count_outcome txt lat res t) \<le> Suc (tWrites t)"
  by (simp add: count_outcome_def split: sum.splits)

lemma counted_step:
  assumes "\<And>now r. writeCounter (mode now r) = writeCounter r" "counted s"
  shows "counted (job_step txt u mode req loopEnd e s)"
proof (cases e)
  case (RateLoop now1 now2)
  have "counted (s\<lparr>jsRate := mode now2 (jsRate s), jsWake := x\<rparr>)" "counted (s\<lparr>jsClosed := True\<rparr>)" for x
    using assms by (simp_all add: counted_def in_hand_def)
  then show ?thesis using assms(2) RateLoop by (simp add: rate_iteration_def Let_def counted_send)
next
  case (TakeJob i)
  show ?thesis
  proof (cases "jsQueue s")
    case (Cons n rest)
    have "counted (s\<lparr>jsQueue := rest, jsWriters := (jsWriters s)[i := Busy n]\<rparr>)"
      if "i < length (jsWriters s)" "jsWriters s ! i = Idle"
      using assms(2) in_hand_idle [of i "s\<lparr>jsQueue := rest\<rparr>" n] that Cons by (simp add: counted_def)
    then show ?thesis using assms(2) TakeJob by (simp add: take_job_def Cons Let_def counted_send)
  qed (simp add: take_job_def assms(2) TakeJob)
next
  case (WriteJob i lat env)
  show ?thesis
  proof (cases "\<exists>n. i < length (jsWriters s) \<and> jsWriters s ! i = Busy n")
    case True
    then obtain n where n: "i < length (jsWriters s)" "jsWriters s ! i = Busy n" by blast
    have "counted (s\<lparr>jsWriters := (jsWriters s)[i := Idle], jsTotals := count_outcome txt lat res (jsTotals s), jsWorld := w'\<rparr>)"
      for res w'
      using assms(2) in_hand_busy [OF n] count_outcome_le [of "txt" lat res "jsTotals s"] by (simp add: counted_def)
    then show ?thesis using WriteJob by (simp add: write_job_def n case_prod_beta)
  next
    case False
    then show ?thesis using assms(2) WriteJob by (auto simp: write_job_def split: job_writer.splits)
  qed
next
  case (VerifyJob vi)
  then show ?thesis using assms(2) by (simp add: counted_def in_hand_def)
qed

text \<open>The n-th job is handed out no earlier than n pauses after the start, and before the end.\<close>

definition paced :: "float64 set \<Rightarrow> int \<Rightarrow> int \<Rightarrow> int \<Rightarrow> job_state \<Rightarrow> bool" where
  "paced R p start loopEnd s \<longleftrightarrow>
     currentRPS (jsRate s) \<in> R \<and>
     start + int (writeCounter (jsRate s)) * p + (if jsSending s then p else 0) \<le> jsWake s \<and>
     (if jsSending s then start + int (writeCounter (jsRate s)) * p < loopEnd
      else writeCounter (jsRate s) = 0 \<or> start + (int (writeCounter (jsRate s)) - 1) * p < loopEnd)"

lemma burst_mode_rates: "currentRPS r \<in> {t, b} \<Longrightarrow> currentRPS (burst_mode t b now r) \<in> {t, b}"
  by (simp add: burst_mode_def Let_def)

lemma paced_sent:
  assumes "start + int c * p + p \<le> wake" "start + int c * p < loopEnd"
  shows "start + int (c + 1) * p \<le> wake" "start + (int (c + 1) - 1) * p < loopEnd"
  using assms by (simp_all add: algebra_simps)

lemma paced_step:
  assumes mode: "\<And>now r. writeCounter (mode now r) = writeCounter r" "\<And>now r. currentRPS r \<in> R \<Longrightarrow> currentRPS (mode now r) \<in> R"
    and p: "0 \<le> p" "\<And>x. x \<in> R \<Longrightarrow> \<not> fle x (Fin 0) \<Longrightarrow> p \<le> send_interval u x"
    and "paced R p start loopEnd s"
  shows "paced R p start loopEnd (job_step txt u mode req loopEnd e s)"
proof (cases e)
  case (RateLoop now1 now2)
  let ?r = "mode now2 (jsRate s)" and ?c = "writeCounter (jsRate s)"
  show ?thesis
  proof (cases "jsClosed s \<or> jsSending s \<or> now1 < jsWake s \<or> now2 < now1 \<or> \<not> now1 < loopEnd")
    case True
    then have "job_step txt u mode req loopEnd e s \<in> {s, s\<lparr>jsClosed := True\<rparr>}" by (auto simp: RateLoop rate_iteration_def)
    then show ?thesis using assms(5) by (auto simp: paced_def)
  next
    case False
    then have wake: "start + int ?c * p \<le> now2" "start + int ?c * p < loopEnd"
      using assms(5) by (auto simp: paced_def)
    have R: "currentRPS ?r \<in> R" using mode(2) assms(5) by (simp add: paced_def)
    let ?s = "s\<lparr>jsRate := ?r, jsWake := now2 + rate_pause u ?r\<rparr>"
    have step: "job_step txt u mode req loopEnd e s = (if fle (currentRPS ?r) (Fin 0) then ?s else send_job ?s)"
      using False by (simp add: RateLoop rate_iteration_def Let_def)
    show ?thesis
    proof (cases "fle (currentRPS ?r) (Fin 0)")
      case True
      then show ?thesis using assms(5) wake R False unfolding step by (simp add: paced_def mode(1) rate_pause_def)
    next
      case pos: False
      have "start + int ?c * p + p \<le> now2 + rate_pause u ?r" using p(2) [OF R pos] wake(1) pos by (simp add: rate_pause_def)
      with paced_sent [OF this wake(2)] wake(2) R pos show ?thesis unfolding step by (simp add: paced_def mode(1) send_job_def)
    qed
  qed
next
  case (TakeJob i)
  have send: "paced R p start loopEnd (send_job (s\<lparr>jsQueue := q, jsWriters := ws\<rparr>))" if "jsSending s" for q ws
    using assms(5) paced_sent [of start "writeCounter (jsRate s)" p "jsWake s" loopEnd] that by (simp add: paced_def send_job_def)
  have "paced R p start loopEnd (s\<lparr>jsQueue := q, jsWriters := ws\<rparr>)" for q ws
    using assms(5) by (simp add: paced_def)
  with send show ?thesis using assms(5) TakeJob by (simp add: take_job_def Let_def split: list.splits)
next
  case (WriteJob i lat env)
  then show ?thesis using assms(5) by (simp add: paced_def)
next
  case (VerifyJob vi)
  then show ?thesis using assms(5) by (simp add: paced_def)
qed

lemma job_steps_bound:
  fixes f u mode req loopEnd es s
  defines "s' \<equiv> fold (job_step f u mode req loopEnd) es s"
  assumes "\<And>now r. writeCounter (mode now r) = writeCounter r" "\<And>now r. currentRPS r \<in> R \<Longrightarrow> currentRPS (mode now r) \<in> R"
    and "0 \<le> p" "\<And>x. x \<in> R \<Longrightarrow> \<not> fle x (Fin 0) \<Longrightarrow> p \<le> send_interval u x"
    and "counted s" "paced R p start loopEnd s"
  shows "counted s' \<and> paced R p start loopEnd s'"
  using assms(6,7) unfolding s'_def
proof (induction es arbitrary: s)
  case (Cons e es)
  have "counted (job_step f u mode req loopEnd e s)" by (rule counted_step [OF assms(2) Cons.prems(1)])
  moreover have "paced R p start loopEnd (job_step f u mode req loopEnd e s)"
    by (rule paced_step [OF assms(2-5) Cons.prems(2)])
  ultimately show ?case using Cons.IH by simp
qed simp

text \<open>C39: Phase 2 never exceeds its rates. If the pause after a send is at least p at every rate that is sent
  with, the last of the writes a phase counts was handed out within the configured duration, at
  one job per p: (writes - 1) * p stays below the duration. The bound holds for every schedule of
  writers, bursts and blocked sends.\<close>

theorem phase2_rate_bounded:
  assumes "RunPhase2 txt u cfg ins w = Some (w', Inr r)" "0 \<le> p"
    and "\<And>x. x \<in> {p2TargetRPS (Phase2Steady (Phases cfg)), BurstRPS (Phase2Steady (Phases cfg))} \<Longrightarrow>
           \<not> fle x (Fin 0) \<Longrightarrow> p \<le> send_interval u x"
  shows "TotalWrites r = 0 \<or> (TotalWrites r - 1) * p < p2Duration (Phase2Steady (Phases cfg))"
proof (cases "TotalWrites r = 0")
  case False
  let ?p = "Phase2Steady (Phases cfg)" and ?s = "p2_final txt u cfg ins w"
  let ?R = "{p2TargetRPS ?p, BurstRPS ?p}" and ?until = "jiStart ins + p2Duration (Phase2Steady (Phases cfg))"
  let ?init = "new_jobs cfg (p2TargetRPS ?p) (vcPollInterval (cfgVerifier cfg)) ins w"
  note r = RunPhase2_result [OF assms(1)]
  have start: "counted ?init" "paced ?R p (jiStart ins) ?until ?init"
    by (simp_all add: counted_def new_jobs_totals new_totals_def new_rate_def paced_def)
  have inv: "counted ?s \<and> paced ?R p (jiStart ins) ?until ?s"
    unfolding p2_final_def Let_def
    by (rule job_steps_bound [where mode = "burst_mode (p2TargetRPS ?p) (BurstRPS ?p)", OF burst_mode_counter burst_mode_rates assms(2,3) start])
  have total: "TotalWrites r = int (tWrites (jsTotals ?s))" unfolding r(3) by (simp add: p2_result_def)
  define c where "c = int (writeCounter (jsRate ?s))"
  have "TotalWrites r \<le> c" "0 < c" using inv False by (simp_all add: counted_def total c_def)
  then have "(TotalWrites r - 1) * p \<le> (c - 1) * p" using assms(2) by (simp add: mult_right_mono)
  moreover have "(c - 1) * p \<le> c * p" using assms(2) by (simp add: algebra_simps)
  moreover have "jiStart ins + c * p < ?until \<or> jiStart ins + (c - 1) * p < ?until"
    using inv \<open>0 < c\<close> by (auto simp: paced_def c_def split: if_splits)
  ultimately show ?thesis by linarith
qed simp

theorem phase2_rate_bounded_witness:
  "\<exists>w' r. RunPhase2 (\<lambda>_. []) 0 ex_steady ex_jobs ex_seed_world = Some (w', Inr r) \<and> TotalWrites r \<le> 10"
proof -
  obtain w' r where r: "RunPhase2 (\<lambda>_. []) 0 ex_steady ex_jobs ex_seed_world = Some (w', Inr r)"
    using ex_steady_returns by blast
  have "TotalWrites r = 0 \<or> (TotalWrites r - 1) * 100000000 < p2Duration (Phase2Steady (Phases ex_steady))"
    by (rule phase2_rate_bounded [OF r]) (auto simp: ex_steady_defs send_interval_def)
  then show ?thesis using r by (auto simp: ex_steady_defs)
qed

section \<open>Without a writer\<close>

text \<open>The loop waits for room in the channel, and nobody reads it.\<close>

definition stuck :: "job_state \<Rightarrow> bool" where
  "stuck s \<longleftrightarrow> jsSending s \<and> \<not> jsClosed s \<and> list_all (\<lambda>x. x = NoConn) (jsWriters s)"

lemma stuck_step: "stuck s \<Longrightarrow> stuck (job_step f u mode req loopEnd e s)"
  by (cases e)
     (auto simp: stuck_def rate_iteration_def take_job_def write_job_def list_all_length split: list.splits)

lemma stuck_forever: "stuck s \<Longrightarrow> stuck (fold (job_step f u mode req loopEnd) es s)"
  by (induction es arbitrary: s) (simp_all add: stuck_step)

text \<open>After k sends, one per p, to nobody.\<close>

definition unread :: "float64 \<Rightarrow> int \<Rightarrow> int \<Rightarrow> nat \<Rightarrow> job_state \<Rightarrow> bool" where
  "unread T start p k s \<longleftrightarrow>
     length (jsQueue s) = k \<and> jsWake s = start + int k * p \<and> \<not> jsSending s \<and> \<not> jsClosed s \<and>
     currentRPS (jsRate s) = T \<and> list_all (\<lambda>x. x = NoConn) (jsWriters s)"

abbreviation send_at :: "int \<Rightarrow> int \<Rightarrow> nat \<Rightarrow> job_event" where
  "send_at start p k \<equiv> RateLoop (start + int k * p) (start + int k * p)"

lemma unread_step:
  assumes "unread T start p k s" "\<not> fle T (Fin 0)" "send_interval u T = p" "start + int k * p < loopEnd"
    and "\<And>now r. currentRPS r = T \<Longrightarrow> currentRPS (mode now r) = T"
  shows "k < 40 \<Longrightarrow> unread T start p (Suc k) (job_step f u mode req loopEnd (send_at start p k) s)"
    and "k = 40 \<Longrightarrow> stuck (job_step f u mode req loopEnd (send_at start p k) s)"
  using assms
  by (simp_all add: unread_def stuck_def rate_iteration_def rate_pause_def send_job_def numWriters_def algebra_simps)

lemma unread_steps:
  assumes "unread T start p 0 s" "\<not> fle T (Fin 0)" "send_interval u T = p" "0 \<le> p" "start + 40 * p < loopEnd"
    and "\<And>now r. currentRPS r = T \<Longrightarrow> currentRPS (mode now r) = T"
  shows "k \<le> 40 \<Longrightarrow> unread T start p k (fold (job_step f u mode req loopEnd) (map (send_at start p) [0..<k]) s)"
proof (induction k)
  case (Suc k)
  have "int k * p \<le> 40 * p" using Suc.prems assms(4) by (intro mult_right_mono) simp_all
  then have "start + int k * p < loopEnd" using assms(5) by linarith
  with unread_step(1) [OF Suc.IH assms(2,3) _ assms(6)] Suc.prems show ?case by simp
qed (use assms(1) in simp)

text \<open>Phase 2 hangs when no writer connects. If all four connections fail and the configured duration is
  longer than 40 pauses at the target rate, the loop fills the channel, waits in its 41st send,
  and the phase never returns, whatever happens afterwards: main passes context.Background(), so
  nothing can cancel the send. The four connection errors are never reported.\<close>

theorem phase2_hangs_without_writers:
  assumes "\<And>i. i < numWriters \<Longrightarrow> jiConnect ins i \<noteq> None" "vcEnabled (cfgVerifier cfg) \<longrightarrow> jiVerConn ins = None"
    and "p2TargetRPS (Phase2Steady (Phases cfg)) = T" "\<not> fle T (Fin 0)" "BurstRPS (Phase2Steady (Phases cfg)) = Fin 0"
    and "send_interval u T = p" "0 \<le> p" "40 * p < p2Duration (Phase2Steady (Phases cfg))"
    and "jiEvents ins = map (send_at (jiStart ins) p) [0..<41] @ rest"
  shows "RunPhase2 txt u cfg ins w = None"
proof -
  let ?mode = "burst_mode T (Fin 0)" and ?until = "jiStart ins + p2Duration (Phase2Steady (Phases cfg))"
  let ?step = "job_step txt u ?mode (p2_request (first_gvk cfg)) ?until"
  let ?init = "new_jobs cfg T (vcPollInterval (cfgVerifier cfg)) ins w"
  have mode: "currentRPS (?mode now r) = T" if "currentRPS r = T" for now r using that by (simp add: burst_mode_def)
  have "jiConnect ins i = None \<Longrightarrow> \<not> i < numWriters" for i using assms(1) by blast
  then have start: "unread T (jiStart ins) p 0 ?init"
    by (auto simp: unread_def new_rate_def list_all_iff)
  have "unread T (jiStart ins) p 40 (fold ?step (map (send_at (jiStart ins) p) [0..<40]) ?init)"
    using unread_steps [where k = 40 and loopEnd = ?until, OF start assms(4,6,7) _ mode] assms(8) by simp
  from unread_step(2) [where mode = ?mode and loopEnd = ?until, OF this assms(4,6) _ mode] assms(8)
  have "stuck (?step (send_at (jiStart ins) p 40) (fold ?step (map (send_at (jiStart ins) p) [0..<40]) ?init))" by simp
  moreover have "[0..<41::nat] = [0..<40] @ [40]" using upt_Suc_append [of 0 40] by simp
  ultimately have "stuck (fold ?step (jiEvents ins) ?init)" by (simp add: assms(9) stuck_forever)
  then show ?thesis
    using assms(2,3,5) by (auto simp: RunPhase2_def p2_final_def Let_def stuck_def jobs_finished_def)
qed

definition ex_unread :: Config where
  "ex_unread = ex_steady\<lparr>Phases := (Phases ex_steady)\<lparr>Phase2Steady :=
     (Phase2Steady (Phases ex_steady))\<lparr>p2Duration := 10 * second\<rparr>\<rparr>\<rparr>"

definition ex_no_conn :: job_inputs where
  "ex_no_conn = \<lparr>jiVerConn = None, jiConnect = (\<lambda>i. Some ''too many clients''), jiStart = 0,
     jiEvents = map (send_at 0 100000000) [0..<41] @ [RateLoop (20 * second) (20 * second), TakeJob 0], jiElapsed = 0\<rparr>"

theorem phase2_hangs_without_writers_witness:
  "RunPhase2 (\<lambda>_. []) 0 ex_unread ex_no_conn ex_seed_world = None"
  by (rule phase2_hangs_without_writers [where T = "Fin 10" and p = 100000000
        and rest = "[RateLoop (20 * second) (20 * second), TakeJob 0]"])
     (simp_all only: ex_no_conn_def job_inputs.simps, simp_all add: ex_unread_def ex_steady_defs send_interval_def)

section \<open>The verdicts\<close>

lemma job_step_silent: "violation_list (jsVerifier (job_step f u mode req loopEnd e s)) = violation_list (jsVerifier s)"
proof (cases e)
  case (TakeJob i)
  then show ?thesis by (simp add: take_job_def Let_def split: list.splits)
next
  case (VerifyJob vi)
  then show ?thesis
    by (auto simp: job_verify_def violation_list_def Violations_def case_prod_beta verifier_step_violations split: option.splits)
qed (simp_all add: rate_iteration_def Let_def)

lemma job_steps_silent: "violation_list (jsVerifier (fold (job_step f u mode req loopEnd) es s)) = violation_list (jsVerifier s)"
  by (induction es arbitrary: s) (simp_all add: job_step_silent)

lemma new_jobs_silent: "violation_list (jsVerifier (new_jobs cfg t p ins w)) = []"
  by (simp add: new_jobs_def Let_def phase_verifier_silent)

lemma p2_silent: "violation_list (jsVerifier (p2_final f u cfg ins w)) = []"
  by (simp add: p2_final_def Let_def job_steps_silent new_jobs_silent)

lemma p2b_silent: "violation_list (jsVerifier (p2b_final f u cfg ins w)) = []"
  by (simp add: p2b_final_def job_steps_silent new_jobs_silent)

lemma phase2b_passes:
  assumes "RunPhase2b f u cfg ins w = Some (w', Inr r)" shows "Passed r \<and> VerifierViolations r = []"
  unfolding RunPhase2b_result(3) [OF assms] by (simp add: p2b_result_def p2b_silent)

lemma phase2_passes:
  assumes "RunPhase2 f u cfg ins w = Some (w', Inr r)"
    and "p2TargetRPS (Phase2Steady (Phases cfg)) = Fin 0" "TargetP50Ms (Phase2Steady (Phases cfg)) = 0"
  shows "Passed r"
  unfolding RunPhase2_result(3) [OF assms(1)] by (simp add: p2_result_def p2_silent p2_verdict_def assms(2,3))

end
