(* ===== verification/Phase3Runs.thy ===== *)
theory Phase3Runs
  imports Phase3 Phase2Runs
begin

text \<open>
  What a run of phase 3 does: no two of its writers share a name, a cancelled writer finishes at
  most the write it is in, and nothing makes the phase fail.
\<close>

section \<open>No two writers meet\<close>

lemma p3_name_inj: "writerID i @ ''-r'' @ dec n = writerID j @ ''-r'' @ dec m \<longleftrightarrow> i = j \<and> n = m"
  by (cases i; cases j) (auto simp: dec_dash)

interpretation p3: numbered_writers "p3_request gvk" for gvk
  by unfold_locales (auto simp: p3_request_def p3_name_inj [simplified])

fun started :: "p3_action \<Rightarrow> writer_id list" where
  "started (StartWriter i) = [i]"
| "started _ = []"

text \<open>The object n of writer i has been written, by what the writers say.\<close>

definition wrote :: "loop_writer list \<Rightarrow> writer_id \<Rightarrow> nat \<Rightarrow> bool" where
  "wrote ws i n \<longleftrightarrow> (\<exists>k < length ws. lwId (ws ! k) = i \<and> n < lwNum (ws ! k))"

lemma wrote_update:
  assumes "distinct (map lwId ws)" "k < length ws" "lwId x = lwId (ws ! k)"
  shows "wrote (ws[k := x]) i n \<longleftrightarrow> (if i = lwId (ws ! k) then n < lwNum x else wrote ws i n)"
proof -
  have "lwId (ws ! j) = lwId (ws ! k) \<longleftrightarrow> j = k" if "j < length ws" for j
    using assms(1,2) that by (metis length_map nth_eq_iff_index_eq nth_map)
  then show ?thesis
    unfolding wrote_def using assms(2,3) by (cases "i = lwId (ws ! k)") (auto simp: nth_list_update)
qed

lemma wrote_self: "distinct (map lwId ws) \<Longrightarrow> k < length ws \<Longrightarrow> wrote ws (lwId (ws ! k)) n \<longleftrightarrow> n < lwNum (ws ! k)"
  using wrote_update [of ws k "ws ! k" "lwId (ws ! k)" n] by simp

lemma wrote_set: "wrote ws i n \<longleftrightarrow> (\<exists>lw \<in> set ws. lwId lw = i \<and> n < lwNum lw)"
  unfolding wrote_def by (metis in_set_conv_nth)

lemma wrote_new: "wrote (ws @ map new_loop is) i n \<longleftrightarrow> wrote ws i n"
  by (auto simp: wrote_set new_loop_def)

definition p3_inv :: "string \<Rightarrow> nat \<Rightarrow> p3_state \<Rightarrow> bool" where
  "p3_inv gvk r0 s \<longleftrightarrow>
     (\<forall>i n. wr_key (p3_request gvk i n) \<in> table_keys (psWorld s) \<longleftrightarrow> wrote (psWriters s) i n) \<and>
     distinct (map lwId (psWriters s) @ concat (map started (psActions s))) \<and>
     length (rows (wdb (psWorld s))) = r0 + tWrites (psTotals s) \<and>
     tSerFail (psTotals s) = 0 \<and> tOtherErr (psTotals s) = 0"

fun p3_ok :: "p3_event \<Rightarrow> bool" where
  "p3_ok (LoopStep i li) = (env_net (liCall li) = NetOk \<and> liConnect li = None)"
| "p3_ok _ = True"

lemma cancel_simps [simp]: "lwId (cancel lw) = lwId lw" "lwNum (cancel lw) = lwNum lw" "lwPc (cancel lw) = lwPc lw"
  by (simp_all add: cancel_def)

text \<open>An action leaves the writers there are as they are, but for their cancellation.\<close>

definition same_writer :: "loop_writer \<Rightarrow> loop_writer \<Rightarrow> bool" where
  "same_writer lw lw' \<longleftrightarrow> lwId lw' = lwId lw \<and> lwNum lw' = lwNum lw \<and> lwPc lw' = lwPc lw"

lemma p3_act_cases:
  "\<exists>ws'. p3_act a ws = ws' @ map new_loop (started a) \<and> list_all2 same_writer ws ws'"
  by (cases a) (auto simp: same_writer_def list_all2_conv_all_nth nth_list_update)

lemma same_writers:
  assumes "list_all2 same_writer ws ws'"
  shows "map lwId ws' = map lwId ws" "wrote ws' i n \<longleftrightarrow> wrote ws i n"
proof -
  show "map lwId ws' = map lwId ws"
    using assms by (induction rule: list_all2_induct) (auto simp: same_writer_def)
  show "wrote ws' i n \<longleftrightarrow> wrote ws i n"
    using assms by (auto simp: wrote_def list_all2_conv_all_nth same_writer_def)
qed

lemma p3_main_inv:
  assumes "p3_inv gvk r0 s" shows "p3_inv gvk r0 (p3_step f gvk MainStep s)"
proof (cases "psActions s")
  case (Cons a as)
  obtain ws' where ws': "p3_act a (psWriters s) = ws' @ map new_loop (started a)" "list_all2 same_writer (psWriters s) ws'"
    using p3_act_cases by blast
  have "map lwId (map new_loop xs) = xs" for xs by (simp add: new_loop_def comp_def)
  then have "map lwId (p3_act a (psWriters s)) = map lwId (psWriters s) @ started a"
    using same_writers(1) [OF ws'(2)] by (simp add: ws'(1) del: map_map)
  then show ?thesis
    using assms same_writers(2) [OF ws'(2)] by (simp add: p3_inv_def Cons ws'(1) wrote_new)
qed (use assms in simp)

lemma p3_inv_update:
  assumes "p3_inv gvk r0 s" "k < length (psWriters s)"
    and "lwId x = lwId (psWriters s ! k)" "lwNum x = lwNum (psWriters s ! k)"
  shows "p3_inv gvk r0 (s\<lparr>psWriters := (psWriters s)[k := x]\<rparr>)"
proof -
  let ?ws = "psWriters s"
  have d: "distinct (map lwId ?ws)" using assms(1) by (simp add: p3_inv_def)
  have "map lwId (?ws[k := x]) = map lwId ?ws" by (rule map_update_same [OF assms(2,3)])
  moreover have "wrote (?ws[k := x]) i n \<longleftrightarrow> wrote ?ws i n" for i n
    using wrote_update [OF d assms(2,3)] wrote_self [OF d assms(2)] assms(4) by auto
  ultimately show ?thesis using assms(1) unfolding p3_inv_def by simp
qed

lemma p3_loop_inv:
  assumes "p3_inv gvk r0 s" "env_net (liCall li) = NetOk" "liConnect li = None"
  shows "p3_inv gvk r0 (p3_step f gvk (LoopStep k li) s)"
proof (cases "k < length (psWriters s)")
  case k: True
  let ?lw = "psWriters s ! k" and ?ws = "psWriters s"
  have d: "distinct (map lwId ?ws)" using assms(1) by (simp add: p3_inv_def)
  have ids: "map lwId (?ws[k := x]) = map lwId ?ws" if "lwId x = lwId ?lw" for x using map_update_same [OF k] that by blast
  note mem = wrote_update [OF d k] and self = wrote_self [OF d k]
  show ?thesis
  proof (cases "lwPc ?lw")
    case Writing
    obtain w' res where w': "load_write (liCall li) (p3_request gvk (lwId ?lw) (lwNum ?lw)) (psWorld s) = (w', Inr res)"
        "\<And>j m. wr_key (p3_request gvk j m) \<in> table_keys w' \<longleftrightarrow>
           (j, m) \<in> insert (lwId ?lw, lwNum ?lw) {(j, m). wrote ?ws j m}"
        "length (rows (wdb w')) = Suc (length (rows (wdb (psWorld s))))"
      using p3.fresh_write_taken [OF assms(2), of gvk "psWorld s" "{(j, m). wrote ?ws j m}" "lwId ?lw" "lwNum ?lw"]
        assms(1) self [of "lwNum ?lw"] by (auto simp: p3_inv_def)
    let ?new = "?lw\<lparr>lwPc := Selecting, lwNum := lwNum ?lw + 1\<rparr>"
    have "wr_key (p3_request gvk j m) \<in> table_keys w' \<longleftrightarrow> wrote (?ws[k := ?new]) j m" for j m
      using mem [of ?new j m] self [of m] by (auto simp: w'(2) less_Suc_eq)
    then show ?thesis
      using assms(1) k by (simp add: p3_inv_def writerLoop_def Writing w'(1,3) count_outcome_def ids)
  qed (use assms(1,3) k p3_inv_update [OF assms(1) k] in \<open>simp_all add: writerLoop_def\<close>)
qed (use assms(1) in simp)

lemma p3_step_inv:
  assumes "p3_inv gvk r0 s" "p3_ok e" shows "p3_inv gvk r0 (p3_step f gvk e s)"
proof (cases e)
  case MainStep
  then show ?thesis using p3_main_inv [OF assms(1)] by simp
next
  case (LoopStep i li)
  then show ?thesis using p3_loop_inv [OF assms(1)] assms(2) by simp
next
  case (VerifyLoop vi)
  then show ?thesis using assms(1) by (auto simp: p3_inv_def case_prod_beta split: option.splits)
qed

lemma p3_steps_inv: "list_all p3_ok es \<Longrightarrow> p3_inv gvk r0 s \<Longrightarrow> p3_inv gvk r0 (fold (p3_step f gvk) es s)"
  by (induction es arbitrary: s) (simp_all add: p3_step_inv)

section \<open>The victims\<close>

lemma numToKill_range: "numToKill u x \<le> 8"
  by (simp add: numToKill_def Let_def)

lemma numToKill_fraction:
  assumes "0 < q" "q \<le> 1"
  shows "numToKill u (Fin q) = max 1 \<lfloor>8 * q\<rfloor>"
proof -
  have "0 \<le> \<lfloor>8 * q\<rfloor>" "\<lfloor>8 * q\<rfloor> \<le> 8" using assms by linarith+
  then show ?thesis using assms by (simp add: numToKill_def Let_def max_def)
qed

lemma killed_and_surviving:
  assumes "mset perm = mset [0..<8]"
  shows "mset (killedWorkers k perm) + mset (survivingWorkers k perm) = mset [0..<8]"
    "distinct perm" "length (killedWorkers k perm) = min 8 k"
proof -
  show "mset (killedWorkers k perm) + mset (survivingWorkers k perm) = mset [0..<8]"
    using assms by (simp add: killedWorkers_def survivingWorkers_def flip: mset_append)
  show "distinct perm" using mset_eq_imp_distinct_iff [OF assms] by simp
  have "length perm = 8" using mset_eq_length [OF assms] by simp
  then show "length (killedWorkers k perm) = min 8 k" by (simp add: killedWorkers_def)
qed

lemma started_ids: "concat (map started (p3_actions killed)) = map (\<lambda>(i, w). Survivor w i) (enumerate 0 killed)"
proof -
  have "concat (map started (map CancelWriter ks)) = []" for ks by (induction ks) simp_all
  moreover have "concat (map started (map (\<lambda>(i, w). StartWriter (Survivor w i)) xs)) = map (\<lambda>(i, w). Survivor w i) xs" for xs
    by (induction xs) auto
  ultimately show ?thesis unfolding p3_actions_def map_append concat_append by simp
qed

lemma distinct_survivors: "distinct (map (\<lambda>(i, w). Survivor w i) (enumerate k xs))"
proof -
  have "inj_on (\<lambda>(i, w). Survivor w i) S" for S by (auto simp: inj_on_def)
  then show ?thesis by (simp add: distinct_map distinct_enumerate)
qed

lemma p3_start_inv:
  assumes "\<And>i n. wr_key (p3_request (first_gvk cfg) i n) \<notin> table_keys w"
  shows "p3_inv (first_gvk cfg) (length (rows (wdb w))) (p3_start cfg (p3_actions killed) w)"
proof -
  have "wrote (map (\<lambda>i. new_loop (Holder i)) [0..<8]) i n = False" for i n
    by (auto simp: wrote_def new_loop_def)
  moreover have "map lwId (map (\<lambda>i. new_loop (Holder i)) [0..<8]) = map Holder [0..<8]" by (simp add: new_loop_def comp_def)
  moreover have "distinct (map Holder [0..<8] @ map (\<lambda>(i, w). Survivor w i) (enumerate 0 killed))"
    using distinct_survivors [of 0 killed] by (auto simp: distinct_map inj_on_def)
  ultimately show ?thesis
    using assms unfolding p3_inv_def p3_start_def by (simp add: started_ids new_totals_def del: map_map)
qed

section \<open>The verdict\<close>

lemma p3_step_silent: "violation_list (psVerifier (p3_step f gvk e s)) = violation_list (psVerifier s)"
  by (cases e)
     (auto simp: violation_list_def Violations_def case_prod_beta verifier_step_violations split: list.splits option.splits)

lemma p3_silent: "violation_list (psVerifier (p3_final f cfg as ins w)) = []"
proof -
  have "violation_list (psVerifier (fold (p3_step f gvk) es s)) = violation_list (psVerifier s)" for gvk es s
    by (induction es arbitrary: s) (simp_all add: p3_step_silent)
  then show ?thesis by (simp add: p3_final_def p3_start_def phase_verifier_silent)
qed

lemma RunPhase3_result:
  assumes "RunPhase3 f u cfg ins w = Some (w', Inr r)"
  defines "s \<equiv> p3_final f cfg (p3_actions (killedWorkers (nat (numToKill u (KillFraction (Phase3Avalanche (Phases cfg)))))
    (p3Perm ins))) ins w"
  shows "w' = psWorld s" "r = p3_result (p3Elapsed ins) (psTotals s) []" "p3_finished s"
  using assms by (auto simp: RunPhase3_def Let_def p3_silent split: if_splits)

text \<open>The avalanche cannot make writers meet. In every interleaving of the writers, the cancellations and
  the start of their successors, with a network that answers, no write fails and each counted
  write has added one row; a killed writer and its successor write different names, so the
  handover is never contended, and the phase passes.\<close>

theorem phase3_writers_never_meet:
  assumes "RunPhase3 txt u cfg ins w = Some (w', Inr r)" "list_all p3_ok (p3Events ins)"
    and "\<And>i n. wr_key (p3_request (first_gvk cfg) i n) \<notin> table_keys w"
  shows "Errors r = [(''serialization'', 0), (''other'', 0)] \<and>
    int (length (rows (wdb w'))) = int (length (rows (wdb w))) + TotalWrites r \<and> Passed r"
proof -
  let ?as = "p3_actions (killedWorkers (nat (numToKill u (KillFraction (Phase3Avalanche (Phases cfg))))) (p3Perm ins))"
  note r = RunPhase3_result [OF assms(1)]
  have "p3_inv (first_gvk cfg) (length (rows (wdb w))) (p3_final txt cfg ?as ins w)"
    unfolding p3_final_def by (intro p3_steps_inv assms(2) p3_start_inv assms(3))
  then show ?thesis unfolding r(1,2) by (simp add: p3_inv_def p3_result_def)
qed

section \<open>Cancelled writers\<close>

text \<open>What a cancelled writer may still write: the write it is in.\<close>

definition last_write :: "loop_writer \<Rightarrow> nat" where
  "last_write lw = lwNum lw + (if lwPc lw = Writing then 1 else 0)"

definition cancelled_at :: "nat \<Rightarrow> nat \<Rightarrow> p3_state \<Rightarrow> bool" where
  "cancelled_at k m s \<longleftrightarrow> k < length (psWriters s) \<and> lwCancelled (psWriters s ! k) \<and> last_write (psWriters s ! k) \<le> m"

lemma writerLoop_cancelled:
  assumes "lwCancelled lw" "last_write lw \<le> m"
  shows "lwCancelled (fst (writerLoop f gvk li lw t w)) \<and> last_write (fst (writerLoop f gvk li lw t w)) \<le> m"
  using assms by (auto simp: writerLoop_def last_write_def split: loop_pc.splits option.splits prod.splits sum.splits)

lemma p3_act_cancelled:
  assumes "k < length ws" "lwCancelled (ws ! k)" "last_write (ws ! k) \<le> m"
  shows "k < length (p3_act a ws) \<and> lwCancelled (p3_act a ws ! k) \<and> last_write (p3_act a ws ! k) \<le> m"
  using assms by (cases a) (auto simp: nth_append nth_list_update last_write_def cancel_def)

lemma p3_step_cancelled: "cancelled_at k m s \<Longrightarrow> cancelled_at k m (p3_step f gvk e s)"
proof (cases e)
  case MainStep
  assume "cancelled_at k m s"
  then show ?thesis using MainStep p3_act_cancelled by (auto simp: cancelled_at_def split: list.splits)
next
  case (LoopStep i li)
  assume "cancelled_at k m s"
  then show ?thesis using LoopStep writerLoop_cancelled by (auto simp: cancelled_at_def case_prod_beta nth_list_update)
next
  case (VerifyLoop vi)
  assume "cancelled_at k m s"
  then show ?thesis using VerifyLoop by (auto simp: cancelled_at_def case_prod_beta split: option.splits)
qed

text \<open>A killed writer stops. Once its context is cancelled, a writer completes at most the write it is
  in the middle of, whatever the schedule, the main goroutine and the outcome of that write.\<close>

theorem phase3_killed_writer_stops:
  assumes "k < length (psWriters s)" "lwCancelled (psWriters s ! k)"
  shows "lwNum (psWriters (fold (p3_step txt gvk) es s) ! k) \<le> lwNum (psWriters s ! k) + 1 \<and>
    (lwPc (psWriters s ! k) \<noteq> Writing \<longrightarrow>
       lwNum (psWriters (fold (p3_step txt gvk) es s) ! k) \<le> lwNum (psWriters s ! k))"
proof -
  have "cancelled_at k (last_write (psWriters s ! k)) (fold (p3_step txt gvk) es s)"
    if "cancelled_at k (last_write (psWriters s ! k)) s"
    using that by (induction es rule: rev_induct) (simp_all add: p3_step_cancelled)
  then have "last_write (psWriters (fold (p3_step txt gvk) es s) ! k) \<le> last_write (psWriters s ! k)"
    using assms by (simp add: cancelled_at_def)
  then show ?thesis by (auto simp: last_write_def split: if_splits)
qed

section \<open>The end of a run\<close>

fun loop_rank :: "loop_pc \<Rightarrow> nat" where
  "loop_rank Connecting = 2"
| "loop_rank Writing = 2"
| "loop_rank Selecting = 1"
| "loop_rank Returned = 0"

text \<open>Steps of writer k, and actions of the main goroutine, in a list of events.\<close>

fun steps_of :: "nat \<Rightarrow> p3_event list \<Rightarrow> nat" where
  "steps_of k [] = 0"
| "steps_of k (LoopStep i li # es) = (if i = k then Suc (steps_of k es) else steps_of k es)"
| "steps_of k (_ # es) = steps_of k es"

fun main_steps :: "p3_event list \<Rightarrow> nat" where
  "main_steps [] = 0"
| "main_steps (MainStep # es) = Suc (main_steps es)"
| "main_steps (_ # es) = main_steps es"

definition all_cancelled :: "p3_state \<Rightarrow> bool" where
  "all_cancelled s \<longleftrightarrow> psActions s = [] \<and> list_all lwCancelled (psWriters s)"

lemma writerLoop_frame [simp]:
  "lwCancelled (fst (writerLoop f gvk li lw t w)) = lwCancelled lw" "lwId (fst (writerLoop f gvk li lw t w)) = lwId lw"
  by (auto simp: writerLoop_def split: loop_pc.splits option.splits prod.splits sum.splits)

lemma writerLoop_rank: "lwCancelled lw \<Longrightarrow> loop_rank (lwPc (fst (writerLoop f gvk li lw t w))) \<le> loop_rank (lwPc lw) - 1"
  by (auto simp: writerLoop_def split: loop_pc.splits option.splits prod.splits sum.splits)

lemma all_cancelled_step: "all_cancelled s \<Longrightarrow> all_cancelled (p3_step f gvk e s)"
  by (cases e) (auto simp: all_cancelled_def case_prod_beta list_all_length nth_list_update split: option.splits)

lemma p3_step_length: "all_cancelled s \<Longrightarrow> length (psWriters (p3_step f gvk e s)) = length (psWriters s)"
  by (cases e) (auto simp: all_cancelled_def case_prod_beta split: option.splits)

lemma rank_step:
  assumes "all_cancelled s" "k < length (psWriters s)"
  shows "loop_rank (lwPc (psWriters (p3_step f gvk e s) ! k)) \<le> loop_rank (lwPc (psWriters s ! k)) - steps_of k [e]"
proof (cases e)
  case (LoopStep i li)
  have "lwCancelled (psWriters s ! k)" using assms by (simp add: all_cancelled_def list_all_length)
  from writerLoop_rank [OF this] show ?thesis using assms(2) LoopStep by (simp add: case_prod_beta nth_list_update)
qed (use assms in \<open>auto simp: all_cancelled_def case_prod_beta split: option.splits\<close>)

lemma steps_of_Cons: "steps_of k (e # es) = steps_of k [e] + steps_of k es"
  by (cases e) simp_all

lemma all_cancelled_steps: "all_cancelled s \<Longrightarrow> all_cancelled (fold (p3_step f gvk) es s)"
  by (induction es arbitrary: s) (simp_all add: all_cancelled_step)

lemma steps_length: "all_cancelled s \<Longrightarrow> length (psWriters (fold (p3_step f gvk) es s)) = length (psWriters s)"
  by (induction es arbitrary: s) (simp_all add: all_cancelled_step p3_step_length)

lemma ranks:
  assumes "all_cancelled s" "k < length (psWriters s)"
  shows "loop_rank (lwPc (psWriters (fold (p3_step f gvk) es s) ! k)) \<le> loop_rank (lwPc (psWriters s ! k)) - steps_of k es"
  using assms
proof (induction es arbitrary: s)
  case (Cons e es)
  let ?s = "p3_step f gvk e s"
  have k: "k < length (psWriters ?s)" using Cons.prems by (simp add: p3_step_length)
  have "loop_rank (lwPc (psWriters (fold (p3_step f gvk) es ?s) ! k)) \<le> loop_rank (lwPc (psWriters ?s ! k)) - steps_of k es"
    by (rule Cons.IH [OF all_cancelled_step [OF Cons.prems(1)] k])
  also have "\<dots> \<le> loop_rank (lwPc (psWriters s ! k)) - steps_of k [e] - steps_of k es"
    by (rule diff_le_mono [OF rank_step [OF Cons.prems]])
  also have "\<dots> = loop_rank (lwPc (psWriters s ! k)) - steps_of k (e # es)"
    unfolding steps_of_Cons [of k e es] by (rule diff_diff_left)
  finally show ?case by simp
qed simp

lemma loop_rank_le: "loop_rank pc \<le> 2"
  by (cases pc) simp_all

lemma loop_rank_0: "loop_rank pc = 0 \<longleftrightarrow> pc = Returned"
  by (cases pc) simp_all

lemma cancelled_writers_return:
  assumes "all_cancelled s" "\<And>k. k < length (psWriters s) \<Longrightarrow> 2 \<le> steps_of k es"
  shows "p3_finished (fold (p3_step f gvk) es s)"
proof -
  let ?s = "fold (p3_step f gvk) es s"
  have "lwPc (psWriters ?s ! k) = Returned" if "k < length (psWriters s)" for k
  proof -
    have "loop_rank (lwPc (psWriters ?s ! k)) \<le> loop_rank (lwPc (psWriters s ! k)) - steps_of k es"
      by (rule ranks [OF assms(1) that])
    also have "\<dots> = 0" using assms(2) [OF that] loop_rank_le [of "lwPc (psWriters s ! k)"] by simp
    finally show ?thesis by (simp add: loop_rank_0)
  qed
  moreover have "psActions ?s = []" using all_cancelled_steps [OF assms(1)] by (simp add: all_cancelled_def)
  ultimately show ?thesis by (simp add: p3_finished_def list_all_length steps_length [OF assms(1)])
qed

text \<open>The actions end with the two cancels, which leave nobody running.\<close>

definition cancelling :: "p3_action list \<Rightarrow> loop_writer list \<Rightarrow> bool" where
  "cancelling as ws \<longleftrightarrow>
     (\<exists>xs. as = xs @ [CancelWarmup, CancelNew]) \<or>
     as = [CancelNew] \<and> list_all (\<lambda>lw. is_holder (lwId lw) \<longrightarrow> lwCancelled lw) ws \<or>
     as = [] \<and> list_all lwCancelled ws"

lemma cancelling_act: "cancelling (a # as) ws \<Longrightarrow> cancelling as (p3_act a ws)"
  by (auto simp: cancelling_def list_all_iff Cons_eq_append_conv cancel_def)

lemma cancelling_loop:
  assumes "cancelling as ws" shows "cancelling as (ws[k := fst (writerLoop f gvk li (ws ! k) t w)])"
proof (cases "k < length ws")
  case True
  have "list_all P (ws[k := fst (writerLoop f gvk li (ws ! k) t w)])"
    if "list_all P ws" "P (ws ! k) \<Longrightarrow> P (fst (writerLoop f gvk li (ws ! k) t w))" for P
    using that True by (simp add: list_all_length nth_list_update)
  then show ?thesis using assms unfolding cancelling_def by auto
next
  case False
  then show ?thesis using assms by (simp add: list_update_beyond)
qed

lemma cancelling_step:
  assumes "cancelling (psActions s) (psWriters s)"
  shows "cancelling (psActions (p3_step f gvk e s)) (psWriters (p3_step f gvk e s))"
proof (cases e)
  case MainStep
  then show ?thesis using assms cancelling_act by (auto split: list.splits)
next
  case (LoopStep i li)
  then show ?thesis using assms cancelling_loop by (auto simp: case_prod_beta)
next
  case (VerifyLoop vi)
  then show ?thesis using assms by (auto simp: case_prod_beta split: option.splits)
qed

definition planned :: "p3_state \<Rightarrow> nat" where
  "planned s = length (psWriters s) + length (concat (map started (psActions s)))"

lemma p3_act_length: "length (p3_act a ws) = length ws + length (started a)"
  by (cases a) simp_all

lemma planned_step: "planned (p3_step f gvk e s) = planned s"
  by (cases e) (auto simp: planned_def p3_act_length case_prod_beta split: list.splits option.splits)

lemma actions_step: "length (psActions (p3_step f gvk e s)) = length (psActions s) - main_steps [e]"
  by (cases e) (auto simp: case_prod_beta split: list.splits option.splits)

lemma main_steps_Cons: "main_steps (e # es) = main_steps [e] + main_steps es"
  by (cases e) simp_all

lemma p3_run_frame:
  "planned (fold (p3_step f gvk) es s) = planned s"
  "length (psActions (fold (p3_step f gvk) es s)) = length (psActions s) - main_steps es"
  "cancelling (psActions s) (psWriters s) \<Longrightarrow>
     cancelling (psActions (fold (p3_step f gvk) es s)) (psWriters (fold (p3_step f gvk) es s))"
proof (induction es arbitrary: s)
  case (Cons e es)
  {
    case 1
    show ?case using Cons.IH(1) planned_step by simp
  next
    case 2
    show ?case using Cons.IH(2) [of "p3_step f gvk e s"] by (simp add: actions_step main_steps_Cons [of e es])
  next
    case 3
    then show ?case using Cons.IH(3) [OF cancelling_step] by simp
  }
qed simp_all

lemma p3_start_planned: "planned (p3_start cfg (p3_actions killed) w) = 8 + length killed"
  by (simp add: planned_def p3_start_def started_ids)

lemma p3_run_returns:
  assumes "length killed \<le> 8" "18 \<le> main_steps es1" "\<And>k. k < 16 \<Longrightarrow> 2 \<le> steps_of k es2"
  shows "p3_finished (fold (p3_step f gvk) (es1 @ es2) (p3_start cfg (p3_actions killed) w))"
proof -
  let ?s = "fold (p3_step f gvk) es1 (p3_start cfg (p3_actions killed) w)"
  have "length (p3_actions killed) \<le> main_steps es1" using assms(1,2) by (simp add: p3_actions_def)
  then have done_: "psActions ?s = []"
    using p3_run_frame(2) [of f gvk es1 "p3_start cfg (p3_actions killed) w"] by (simp add: p3_start_def)
  have "cancelling (psActions ?s) (psWriters ?s)"
    by (rule p3_run_frame(3)) (simp add: p3_start_def p3_actions_def cancelling_def)
  then have "all_cancelled ?s" by (simp add: done_ cancelling_def all_cancelled_def)
  moreover have "length (psWriters ?s) \<le> 16"
    using trans [OF p3_run_frame(1) [of f gvk es1] p3_start_planned [of cfg killed w]] assms(1) by (simp add: planned_def [of ?s] done_)
  ultimately show ?thesis using cancelled_writers_return [of ?s es2 f gvk] assms(3) by simp
qed


section \<open>Witnesses\<close>

definition ex_li :: loop_input where
  "ex_li = \<lparr>liConnect = None, liLatency = 5, liCall = \<lparr>env_net = NetOk, env_fault = NoFault, env_uid = 3, env_now = 5\<rparr>\<rparr>"

text \<open>Writer 0 writes an object and is cancelled in its next write; then everybody connects and returns.\<close>

definition ex_p3 :: p3_inputs where
  "ex_p3 = \<lparr>p3VerConn = None, p3Perm = [0, 1, 2, 3, 4, 5, 6, 7],
     p3Events = (replicate 5 (LoopStep 0 ex_li) @ replicate 18 MainStep) @
       concat (map (\<lambda>i. [LoopStep i ex_li, LoopStep i ex_li]) [0..<16]), p3Elapsed = second\<rparr>"

lemma steps_of_append: "steps_of k (xs @ ys) = steps_of k xs + steps_of k ys"
  by (induction k xs rule: steps_of.induct) simp_all

lemma main_steps_append: "main_steps (xs @ ys) = main_steps xs + main_steps ys"
  by (induction xs rule: main_steps.induct) simp_all

lemma main_steps_replicate: "main_steps (replicate n MainStep) = n"
  by (induction n) simp_all

lemma two_steps_each: "k < n \<Longrightarrow> 2 \<le> steps_of k (concat (map (\<lambda>i. [LoopStep i li, LoopStep i li]) [0..<n]))"
proof (induction n)
  case (Suc n)
  then show ?case by (cases "k = n") (simp_all add: steps_of_append)
qed simp

lemma ex_p3_events:
  "p3Events ex_p3 = (replicate 5 (LoopStep 0 ex_li) @ replicate 18 MainStep) @
     concat (map (\<lambda>i. [LoopStep i ex_li, LoopStep i ex_li]) [0..<16])"
  by (simp add: ex_p3_def del: upt_rec_numeral)

lemma ex_p3_kill: "numToKill 0 (KillFraction (Phase3Avalanche (Phases ex_config))) = 4"
  by (simp add: ex_config_def numToKill_def Let_def)

lemma ex_p3_verifier: "vcEnabled (cfgVerifier ex_config) \<longrightarrow> p3VerConn ex_p3 = None"
  by (simp add: ex_p3_def)


theorem phase3_writers_never_meet_witness:
  "\<exists>w' r. RunPhase3 (\<lambda>_. []) 0 ex_config ex_p3 ex_seed_world = Some (w', Inr r) \<and>
     int (length (rows (wdb w'))) = TotalWrites r \<and> Passed r"
proof -
  let ?kill = "killedWorkers (nat (numToKill 0 (KillFraction (Phase3Avalanche (Phases ex_config))))) (p3Perm ex_p3)"
  have "p3_finished (p3_final (\<lambda>_. []) ex_config (p3_actions ?kill) ex_p3 ex_seed_world)"
    unfolding p3_final_def ex_p3_events
    by (rule p3_run_returns)
       (simp_all add: ex_p3_kill killedWorkers_def main_steps_append main_steps_replicate two_steps_each
          del: upt_rec_numeral)
  then obtain w' r where r: "RunPhase3 (\<lambda>_. []) 0 ex_config ex_p3 ex_seed_world = Some (w', Inr r)"
    using ex_p3_kill ex_p3_verifier by (auto simp: RunPhase3_def Let_def)
  have "list_all p3_ok (p3Events ex_p3)"
    by (auto simp: ex_p3_events list_all_iff ex_li_def simp del: upt_rec_numeral)
  moreover have "rows (wdb ex_seed_world) = []" by (simp add: ex_seed_world_def empty_db_def)
  ultimately show ?thesis using phase3_writers_never_meet [OF r] r by (simp add: table_keys_def)
qed

theorem phase3_killed_writer_stops_witness:
  "lwNum (psWriters (fold (p3_step (\<lambda>_. []) ''g'') [LoopStep 0 ex_li, LoopStep 0 ex_li]
     (p3_start ex_config [] ex_seed_world\<lparr>psWriters := [cancel (new_loop (Holder 0))]\<rparr>)) ! 0) = 0"
  using phase3_killed_writer_stops [of 0 "p3_start ex_config [] ex_seed_world\<lparr>psWriters := [cancel (new_loop (Holder 0))]\<rparr>"
      "\<lambda>_. []" "''g''" "[LoopStep 0 ex_li, LoopStep 0 ex_li]"]
  by (simp add: cancel_def new_loop_def)

end
