(* ===== verification/Phase5.thy ===== *)
theory Phase5
  imports Phase1 Watch
begin

text \<open>
  Phase 5, the poll test of src/loadtest/cmd/loadtest/phase5_poll.go: the cost of idle polls,
  the latency from a write to its delivery, and a drill without notifications. The watchers are
  those of the watch theory (mark, pollAll); a test is a list of events in the order in which
  they happen: the next write, a poll of a watcher at its snapshot's xmin, the end of a watcher,
  a collector taking an event, the deadline of a collector. Other transactions may hold xmin
  back; a poll that was woken by a notification is a poll like any other.
\<close>

section \<open>Idle polls\<close>

record timing_hooks =
  thStart :: int
  thDurations :: "duration list"

datatype hook_call = BeforePoll int | AfterPoll int

fun hook_step :: "hook_call \<Rightarrow> timing_hooks \<Rightarrow> timing_hooks" where
  "hook_step (BeforePoll now) h = h\<lparr>thStart := now\<rparr>"
| "hook_step (AfterPoll now) h = h\<lparr>thDurations := thDurations h @ [now - thStart h]\<rparr>"

definition hook_durations :: "hook_call list \<Rightarrow> duration list" where
  "hook_durations cs = thDurations (fold hook_step cs \<lparr>thStart = 0, thDurations = []\<rparr>)"

section \<open>A delivery test\<close>

definition p5_request :: "string \<Rightarrow> string \<Rightarrow> nat \<Rightarrow> WriteRequest" where
  "p5_request gvk ns i = load_request gvk ns (ns @ ''-'' @ dec i) (JObj [(''i'', JNum (int i))])"

text \<open>A watcher with its event channel, and its collector.\<close>

record delivery_watcher =
  dwWatcher :: watcher
  dwQueue :: "Event list"
  dwClosed :: bool
  dwCollected :: nat
  dwDone :: bool

record delivery_state =
  dyWatchers :: "delivery_watcher list"
  dyTimes :: "string \<Rightarrow> int option"
  dyNext :: nat
  dyWake :: int
  dyErrors :: nat
  dyDeliveries :: "(int \<times> int) list"
  dyWorld :: "unit world"

datatype delivery_event =
    WriteNext int call_env
  | PollBy nat txid
  | PollEnds nat
  | Receive nat int
  | Deadline nat

text \<open>The next write, unless the last sleep is not over.\<close>

definition write_next :: "string \<Rightarrow> string \<Rightarrow> nat \<Rightarrow> duration \<Rightarrow> int \<Rightarrow> call_env \<Rightarrow> delivery_state \<Rightarrow> delivery_state" where
  "write_next gvk ns writeCount interval now env s =
     (if dyNext s < writeCount \<and> dyWake s \<le> now then
        (let req = p5_request gvk ns (dyNext s);
             (w', res) = load_write env req (dyWorld s)
         in s\<lparr>dyTimes := (dyTimes s)(wName req \<mapsto> now), dyNext := dyNext s + 1, dyWake := now + interval,
              dyErrors := (case res of Inl e \<Rightarrow> dyErrors s + 1 | Inr _ \<Rightarrow> dyErrors s), dyWorld := w'\<rparr>)
      else s)"

text \<open>A poll sends its events into the channel; ErrGone ends the watcher and closes the channel.\<close>

definition watcher_polls :: "string \<Rightarrow> txid \<Rightarrow> db \<Rightarrow> delivery_watcher \<Rightarrow> delivery_watcher" where
  "watcher_polls gvk xmin d dw =
     (if dwClosed dw then dw
      else
        (case pollAll (\<lambda>_. 0) \<lparr>cGVK = gvk, cStart = 0, cShard = None\<rparr> (hwm (dwWatcher dw))
                \<lparr>s_db = d, s_xmin = min xmin (next_xid d)\<rparr> of
           Inl e \<Rightarrow> dw\<lparr>dwClosed := True\<rparr>
         | Inr (evs, h) \<Rightarrow> dw\<lparr>dwWatcher := (dwWatcher dw)\<lparr>hwm := h\<rparr>, dwQueue := dwQueue dw @ evs\<rparr>))"

text \<open>The collector's loop: an event of the namespace counts, whether or not its write time is known.\<close>

definition receive ::
  "string \<Rightarrow> nat \<Rightarrow> int \<Rightarrow> (string \<Rightarrow> int option) \<Rightarrow> delivery_watcher \<Rightarrow> delivery_watcher \<times> (int \<times> int) list" where
  "receive ns writeCount now wts dw =
     (if dwDone dw then (dw, [])
      else
        (case dwQueue dw of
           [] \<Rightarrow> (if dwClosed dw then (dw\<lparr>dwDone := True\<rparr>, []) else (dw, []))
         | ev # rest \<Rightarrow>
             if Namespace (Resource ev) = ns then
               (dw\<lparr>dwQueue := rest, dwCollected := dwCollected dw + 1, dwDone := (writeCount \<le> dwCollected dw + 1)\<rparr>,
                case wts (Name (Resource ev)) of None \<Rightarrow> [] | Some wt \<Rightarrow> [(wt, now)])
             else (dw\<lparr>dwQueue := rest\<rparr>, [])))"

fun delivery_step :: "string \<Rightarrow> string \<Rightarrow> nat \<Rightarrow> duration \<Rightarrow> delivery_event \<Rightarrow> delivery_state \<Rightarrow> delivery_state" where
  "delivery_step gvk ns writeCount interval (WriteNext now env) s = write_next gvk ns writeCount interval now env s"
| "delivery_step gvk ns writeCount interval (PollBy i xmin) s =
     (if i < length (dyWatchers s)
      then s\<lparr>dyWatchers := (dyWatchers s)[i := watcher_polls gvk xmin (wdb (dyWorld s)) (dyWatchers s ! i)]\<rparr> else s)"
| "delivery_step gvk ns writeCount interval (PollEnds i) s =
     (if i < length (dyWatchers s)
      then s\<lparr>dyWatchers := (dyWatchers s)[i := (dyWatchers s ! i)\<lparr>dwClosed := True\<rparr>]\<rparr> else s)"
| "delivery_step gvk ns writeCount interval (Receive i now) s =
     (if i < length (dyWatchers s) then
        (let (dw, ds) = receive ns writeCount now (dyTimes s) (dyWatchers s ! i)
         in s\<lparr>dyWatchers := (dyWatchers s)[i := dw], dyDeliveries := dyDeliveries s @ ds\<rparr>)
      else s)"
| "delivery_step gvk ns writeCount interval (Deadline i) s =
     (if i < length (dyWatchers s)
      then s\<lparr>dyWatchers := (dyWatchers s)[i := (dyWatchers s ! i)\<lparr>dwDone := True\<rparr>]\<rparr> else s)"

text \<open>All writes are sent and all collectors have returned.\<close>

definition delivery_finished :: "nat \<Rightarrow> delivery_state \<Rightarrow> bool" where
  "delivery_finished writeCount s \<longleftrightarrow> dyNext s = writeCount \<and> list_all dwDone (dyWatchers s)"

definition new_delivery :: "nat \<Rightarrow> nat \<Rightarrow> txid \<Rightarrow> int \<Rightarrow> unit world \<Rightarrow> delivery_state" where
  "new_delivery numWatchers writeCount mark start w =
     \<lparr>dyWatchers = replicate numWatchers
        \<lparr>dwWatcher = NewWatcher \<lparr>cGVK = [], cStart = mark, cShard = None\<rparr>, dwQueue = [], dwClosed = False,
         dwCollected = 0, dwDone = (writeCount = 0)\<rparr>,
      dyTimes = (\<lambda>_. None), dyNext = 0, dyWake = start, dyErrors = 0, dyDeliveries = [], dyWorld = w\<rparr>"

definition delivery_run ::
  "string \<Rightarrow> string \<Rightarrow> nat \<Rightarrow> nat \<Rightarrow> duration \<Rightarrow> txid \<Rightarrow> int \<Rightarrow> delivery_event list \<Rightarrow> unit world \<Rightarrow> delivery_state" where
  "delivery_run gvk ns numWatchers writeCount interval mark start es w =
     fold (delivery_step gvk ns writeCount interval) es (new_delivery numWatchers writeCount mark start w)"

definition latencies :: "(int \<times> int) list \<Rightarrow> duration list" where
  "latencies ds = sort (map (\<lambda>(wt, rt). rt - wt) ds)"

section \<open>The phase\<close>

record test_inputs =
  tiPollConn :: "nat \<Rightarrow> string option"
  tiListenConn :: "nat \<Rightarrow> string option"
  tiWriteConn :: "string option"
  tiStart :: int
  tiEvents :: "delivery_event list"

record p5_inputs =
  p5Probe :: "string option"
  p5List :: "string option"
  p5Xmin :: txid
  p5IdleConn :: "nat \<Rightarrow> string option"
  p5Idle :: "nat \<Rightarrow> hook_call list"
  p5Doorbell :: test_inputs
  p5Loss :: test_inputs
  p5Elapsed :: duration

text \<open>The mark to start from: the watermark of a list, or zero if the list fails.\<close>

definition start_mark :: "string \<Rightarrow> p5_inputs \<Rightarrow> unit world \<Rightarrow> txid" where
  "start_mark gvk ins w =
     (case p5List ins of
        Some e \<Rightarrow> 0
      | None \<Rightarrow> Watermark (List \<lparr>s_db = wdb w, s_xmin = min (p5Xmin ins) (next_xid (wdb w))\<rparr> gvk None))"

fun any_error :: "(nat \<Rightarrow> string option) \<Rightarrow> nat \<Rightarrow> bool" where
  "any_error f n = list_ex (\<lambda>i. f i \<noteq> None) [0..<n]"

text \<open>The connections of the second test, two per watcher, in the order in which they are opened.\<close>

fun doorbell_conns :: "(nat \<Rightarrow> string option) \<Rightarrow> (nat \<Rightarrow> string option) \<Rightarrow> nat list \<Rightarrow> phase_error option" where
  "doorbell_conns pc lc [] = None"
| "doorbell_conns pc lc (i # is) =
     (if pc i \<noteq> None then Some (Failed ''phase5: db poll conn'')
      else if lc i \<noteq> None then Some (Failed ''phase5: db listen conn'')
      else doorbell_conns pc lc is)"

text \<open>The highest mark of the watchers of the second test.\<close>

definition loss_hwm :: "delivery_state \<Rightarrow> txid" where
  "loss_hwm s = foldl (\<lambda>h dw. if h < hwm (dwWatcher dw) then hwm (dwWatcher dw) else h) 0 (dyWatchers s)"

definition write_interval :: "int \<Rightarrow> int \<Rightarrow> duration" where
  "write_interval u writeRate = trunc64 u (fdiv (Fin 1000000000) (Fin (of_int writeRate)))"

text \<open>lossDeliveredCount: what the collectors of the drill have counted together.\<close>

definition collected_total :: "delivery_state \<Rightarrow> nat" where
  "collected_total s = sum_list (map dwCollected (dyWatchers s))"

definition p5_verdict :: "Phase5Config \<Rightarrow> int \<Rightarrow> int \<Rightarrow> duration \<Rightarrow> nat \<Rightarrow> bool" where
  "p5_verdict pCfg numWatchers writeCount dbP99 totalLossDelivered =
     (let p1 = (if 0 < DoorbellDeliveryP99Ms pCfg \<and> DoorbellDeliveryP99Ms pCfg < Milliseconds dbP99 then False else True)
      in if NotifyLossDrill pCfg \<and> int totalLossDelivered < writeCount * numWatchers then False else p1)"

definition p5_result ::
  "Phase5Config \<Rightarrow> int \<Rightarrow> int \<Rightarrow> duration \<Rightarrow> duration list \<Rightarrow> duration list \<Rightarrow> duration list \<Rightarrow> nat \<Rightarrow> nat \<Rightarrow> PhaseResult" where
  "p5_result pCfg numWatchers writeCount elapsed idle db loss totalLossDelivered errors =
     (let total = (if NotifyLossDrill pCfg then writeCount + writeCount else writeCount);
          idleP99 = percentile_or_0 idle (99 / 100); dbP99 = percentile_or_0 db (99 / 100)
      in (phase_result ''phase5_poll'' (p5_verdict pCfg numWatchers writeCount dbP99 totalLossDelivered))
           \<lparr>prDuration := elapsed, TotalWrites := total, RPS := fdiv (Fin (of_int total)) (Seconds elapsed),
            P50 := percentile_or_0 db (1 / 2), P99 := dbP99, P999 := idleP99,
            Errors := [(''write_errors'', int errors), (''loss_p99_ms'', Milliseconds (percentile_or_0 loss (99 / 100))),
                       (''idle_p99_ms'', Milliseconds idleP99)]\<rparr>)"

text \<open>None: not returned after these events.\<close>

text \<open>Phase C: watchers without listen connections, from the highest mark of phase B; None is a run that does not end.\<close>

definition loss_drill ::
  "string \<Rightarrow> nat \<Rightarrow> nat \<Rightarrow> duration \<Rightarrow> test_inputs \<Rightarrow> delivery_state \<Rightarrow> (phase_error + delivery_state) option" where
  "loss_drill gvk n c interval loss s =
     (if any_error (tiPollConn loss) n then Some (Inl (Failed ''phase5: loss watcher conn''))
      else if tiWriteConn loss \<noteq> None then Some (Inl (Failed ''phase5: loss write conn''))
      else
        (let s2 = delivery_run gvk ''phase5-loss'' n c interval (loss_hwm s) (tiStart loss) (tiEvents loss) (dyWorld s) in
         if \<not> delivery_finished c s2 then None else Some (Inr s2)))"

definition RunPhase5 ::
  "int \<Rightarrow> Config \<Rightarrow> p5_inputs \<Rightarrow> unit world \<Rightarrow> (unit world \<times> (phase_error + PhaseResult)) option" where
  "RunPhase5 u cfg ins w =
     (let pCfg = Phase5Poll (Phases cfg); gvk = first_gvk cfg;
          numWatchers = or_default 10 (NumWatchers pCfg); writeRate = or_default 20 (WriteRate pCfg);
          writeCount = or_default 100 (WriteCount pCfg); n = nat numWatchers; c = nat writeCount;
          interval = write_interval u writeRate; db = p5Doorbell ins; loss = p5Loss ins;
          idle = sort (concat (map (\<lambda>i. hook_durations (p5Idle ins i)) [0..<n]))
      in
      if p5Probe ins \<noteq> None then Some (w, Inl (Failed ''phase5: probe conn''))
      else if any_error (p5IdleConn ins) n then Some (w, Inl (Failed ''phase5: idle watcher conn''))
      else (case doorbell_conns (tiPollConn db) (tiListenConn db) [0..<n] of
        Some e \<Rightarrow> Some (w, Inl e)
      | None \<Rightarrow>
          if tiWriteConn db \<noteq> None then Some (w, Inl (Failed ''phase5: write conn''))
          else
            (let s = delivery_run gvk ''phase5-db'' n c interval (start_mark gvk ins w) (tiStart db) (tiEvents db) w in
             if \<not> delivery_finished c s then None
             else if \<not> NotifyLossDrill pCfg then
               Some (dyWorld s, Inr (p5_result pCfg numWatchers writeCount (p5Elapsed ins) idle
                       (latencies (dyDeliveries s)) [] 0 (dyErrors s)))
             else
               (case loss_drill gvk n c interval loss s of
                  None \<Rightarrow> None
                | Some (Inl e) \<Rightarrow> Some (dyWorld s, Inl e)
                | Some (Inr s2) \<Rightarrow>
                    Some (dyWorld s2, Inr (p5_result pCfg numWatchers writeCount (p5Elapsed ins) idle
                       (latencies (dyDeliveries s)) (latencies (dyDeliveries s2)) (collected_total s2)
                       (dyErrors s + dyErrors s2)))))))"

end
