(* ===== verification/Phase5Runs.thy ===== *)
theory Phase5Runs
  imports Phase5
begin

text \<open>
  What the delivery tests of phase 5 show. While no other transaction holds xmin back, every
  watcher delivers every written object exactly once, so that the count of the drill is a proof
  of delivery; with a transaction that holds it back the same count can be reached without.
\<close>

section \<open>A write that may be lost\<close>

context numbered_writers
begin

lemma fresh_write_any:
  assumes "wr_key (req i n) \<notin> table_keys w"
  shows "\<exists>w' res. load_write env (req i n) w = (w', res) \<and>
    (wdb w' = wdb w \<or>
     (\<exists>r. rkey r = wr_key (req i n) \<and> TxidStamp r = next_xid (wdb w) \<and>
        wdb w' = put_row r ((wdb w)\<lparr>next_xid := next_xid (wdb w) + 1\<rparr>) \<and>
        rows (wdb w') = rows (wdb w) @ [r]))"
proof (cases "env_net env = LostBefore")
  case True
  then show ?thesis
    by (simp add: load_write_def Write_def writeStoredProc_def stored_proc_path_def callStoredProc_def observeResult_def)
next
  case False
  have none: "get_row (wdb w) (wr_key (req i n)) = None" using assms by (simp add: get_row_None table_keys_def)
  obtain sp st md where docs: "wSpec (req i n) = RDoc sp" "wStatus (req i n) = RDoc st" "wMetadata (req i n) = RDoc md"
    using documents by blast
  let ?r = "created_row (next_xid (wdb w)) (env_uid env) (env_now env) (req i n) sp st md"
  have none': "get_row (wdb w) (wGVK (req i n), wNamespace (req i n), wName (req i n)) = None"
    using none by (simp add: wr_key_def)
  have "wdb (fst (load_write env (req i n) w)) = put_row ?r ((wdb w)\<lparr>next_xid := next_xid (wdb w) + 1\<rparr>)"
    using none' docs creates False
    by (cases "env_net env") (simp_all add: load_write_def Write_def writeStoredProc_def stored_proc_path_def
        callStoredProc_def run_proc_def pg_args_def params_of_write_def pgctl_write_def p_key_def suppression_check_def
        upsert_def insert_row_def Let_def observeResult_def ring_doorbell_def created_row_def)
  moreover have "lookup_by rkey (rows (wdb w)) (rkey ?r) = None" using none by (simp add: rkey_created get_row_def)
  then have "rows (put_row ?r ((wdb w)\<lparr>next_xid := next_xid (wdb w) + 1\<rparr>)) = rows (wdb w) @ [?r]"
    by (simp add: put_row_def put_by_def)
  moreover have "TxidStamp ?r = next_xid (wdb w)" by (simp add: created_row_def)
  ultimately show ?thesis by (metis prod.collapse rkey_created)
qed

end

interpretation p5: numbered_writers "p5_request gvk" for gvk
  by unfold_locales (auto simp: p5_request_def)

section \<open>Counting\<close>

definition ns_rows :: "string \<Rightarrow> string \<Rightarrow> db \<Rightarrow> resource list" where
  "ns_rows gvk ns d = filter (\<lambda>r. GVK r = gvk \<and> Namespace r = ns) (rows d)"

definition queued :: "string \<Rightarrow> delivery_watcher \<Rightarrow> nat" where
  "queued ns dw = length (filter (\<lambda>ev. Namespace (Resource ev) = ns) (dwQueue dw))"

definition unseen :: "string \<Rightarrow> string \<Rightarrow> db \<Rightarrow> delivery_watcher \<Rightarrow> nat" where
  "unseen gvk ns d dw = length (filter (\<lambda>r. hwm (dwWatcher dw) < TxidStamp r) (ns_rows gvk ns d))"

text \<open>Every object of the test is counted, in the channel, or above the watcher's mark.\<close>

definition exact :: "string \<Rightarrow> string \<Rightarrow> db \<Rightarrow> delivery_watcher \<Rightarrow> bool" where
  "exact gvk ns d dw \<longleftrightarrow>
     dwCollected dw + queued ns dw + unseen gvk ns d dw = length (ns_rows gvk ns d) \<and> hwm (dwWatcher dw) < next_xid d"

lemma length_filter_sort_key: "length (filter P (sort_key f xs)) = length (filter P xs)"
  by (metis mset_filter mset_sort size_mset)

lemma exact_poll:
  assumes "exact gvk ns d dw" "wf_db d" "next_xid d \<le> xmin"
  shows "exact gvk ns d (watcher_polls gvk xmin d dw)"
proof -
  let ?cfg = "\<lparr>cGVK = gvk, cStart = 0, cShard = None\<rparr>" and ?h = "hwm (dwWatcher dw)"
  have xmin: "min xmin (next_xid d) = next_xid d" using assms(3) by simp
  show ?thesis
  proof (cases "dwClosed dw")
    case False
    show ?thesis
    proof (cases "pollAll (\<lambda>_. 0) ?cfg ?h \<lparr>s_db = d, s_xmin = next_xid d\<rparr>")
      case (Inl e)
      then show ?thesis using assms(1) False by (simp add: watcher_polls_def xmin exact_def queued_def unseen_def)
    next
      case (Inr p)
      obtain evs h where p: "p = (evs, h)" by (cases p)
      note poll = pollAll_Inr [OF Inr [unfolded p]]
      have evs: "evs = map event_of (poll_rows (\<lambda>_. 0) ?cfg ?h d)" and h: "h = max ?h (next_xid d - 1)" using poll by simp_all
      have "length (filter (\<lambda>ev. Namespace (Resource ev) = ns) evs) =
          length (filter (\<lambda>r. Namespace r = ns) (poll_rows (\<lambda>_. 0) ?cfg ?h d))"
        by (simp add: evs filter_map comp_def event_of_def)
      also have "\<dots> = unseen gvk ns d dw"
        unfolding poll_rows_def length_filter_sort_key unseen_def ns_rows_def
        by (simp add: in_shard_def conj_ac)
      finally have q: "length (filter (\<lambda>ev. Namespace (Resource ev) = ns) evs) = unseen gvk ns d dw" .
      have "\<not> h < TxidStamp r" if "r \<in> set (rows d)" for r
        using that assms(2) by (auto simp: h wf_db_def)
      then have none: "filter (\<lambda>r. h < TxidStamp r) (ns_rows gvk ns d) = []" by (auto simp: filter_empty_conv ns_rows_def)
      have "0 < next_xid d" using assms(2) by (simp add: wf_db_def)
      then have "h < next_xid d" using assms(1) by (simp add: h exact_def)
      then show ?thesis
        using assms(1) False Inr p q none by (simp add: watcher_polls_def xmin exact_def queued_def unseen_def)
    qed
  qed (use assms(1) in \<open>simp add: watcher_polls_def\<close>)
qed

lemma exact_receive:
  assumes "exact gvk ns d dw" shows "exact gvk ns d (fst (receive ns c now wts dw))"
  using assms by (cases "dwQueue dw") (auto simp: receive_def exact_def queued_def unseen_def)

lemma exact_frame:
  "exact gvk ns d (dw\<lparr>dwClosed := b\<rparr>) = exact gvk ns d dw" "exact gvk ns d (dw\<lparr>dwDone := b\<rparr>) = exact gvk ns d dw"
  by (simp_all add: exact_def queued_def unseen_def)

lemma exact_write:
  assumes "exact gvk ns d dw" "rows d' = rows d @ [r]" "TxidStamp r = next_xid d" "next_xid d' = next_xid d + 1"
  shows "exact gvk ns d' dw"
  using assms by (auto simp: exact_def queued_def unseen_def ns_rows_def)

section \<open>The invariant of a test\<close>

definition delivery_inv :: "string \<Rightarrow> string \<Rightarrow> nat \<Rightarrow> delivery_state \<Rightarrow> bool" where
  "delivery_inv gvk ns c s \<longleftrightarrow>
     wf_db (wdb (dyWorld s)) \<and> list_all (exact gvk ns (wdb (dyWorld s))) (dyWatchers s) \<and> dyNext s \<le> c \<and>
     (\<exists>idx. map rkey (ns_rows gvk ns (wdb (dyWorld s))) = map (\<lambda>n. wr_key (p5_request gvk ns n)) idx \<and>
        distinct idx \<and> set idx \<subseteq> {..<dyNext s})"

text \<open>No transaction older than the poll is running anywhere in the server.\<close>

fun up_to_date :: "string \<Rightarrow> string \<Rightarrow> nat \<Rightarrow> duration \<Rightarrow> delivery_event list \<Rightarrow> delivery_state \<Rightarrow> bool" where
  "up_to_date gvk ns c iv [] s = True"
| "up_to_date gvk ns c iv (e # es) s =
     ((case e of PollBy i xmin \<Rightarrow> next_xid (wdb (dyWorld s)) \<le> xmin | _ \<Rightarrow> True) \<and>
      up_to_date gvk ns c iv es (delivery_step gvk ns c iv e s))"

lemma p5_key: "wr_key (p5_request gvk ns n) = (gvk, ns, ns @ ''-'' @ dec n)"
  by (simp add: p5_request_def)

lemma write_next_inv:
  assumes "delivery_inv gvk ns c s" shows "delivery_inv gvk ns c (write_next gvk ns c iv now env s)"
proof (cases "dyNext s < c \<and> dyWake s \<le> now")
  case True
  let ?d = "wdb (dyWorld s)" and ?req = "p5_request gvk ns (dyNext s)"
  obtain idx where idx: "map rkey (ns_rows gvk ns ?d) = map (\<lambda>n. wr_key (p5_request gvk ns n)) idx" "distinct idx"
      "set idx \<subseteq> {..<dyNext s}"
    using assms by (auto simp: delivery_inv_def)
  have "wr_key ?req \<notin> table_keys (dyWorld s)"
  proof
    assume "wr_key ?req \<in> table_keys (dyWorld s)"
    then obtain r where "r \<in> set (rows ?d)" "rkey r = wr_key ?req" by (auto simp: table_keys_def)
    then have "wr_key ?req \<in> set (map rkey (ns_rows gvk ns ?d))" by (force simp: ns_rows_def p5_key rkey_def)
    then show False unfolding idx(1) using idx(3) by (auto simp: p5_key)
  qed
  from p5.fresh_write_any [OF this, of env] obtain w' res where w': "load_write env ?req (dyWorld s) = (w', res)"
      "wdb w' = ?d \<or> (\<exists>r. rkey r = wr_key ?req \<and> TxidStamp r = next_xid ?d \<and>
         wdb w' = put_row r (?d\<lparr>next_xid := next_xid ?d + 1\<rparr>) \<and> rows (wdb w') = rows ?d @ [r])"
    by blast
  let ?s = "write_next gvk ns c iv now env s"
  have s: "dyWatchers ?s = dyWatchers s" "dyWorld ?s = w'" "dyNext ?s = dyNext s + 1"
    using True by (simp_all add: write_next_def Let_def w'(1))
  from w'(2) show ?thesis
  proof
    assume eq: "wdb w' = ?d"
    have "wf_db ?d" "list_all (exact gvk ns ?d) (dyWatchers s)" "set idx \<subseteq> {..<dyNext s + 1}"
      using assms idx(3) by (auto simp: delivery_inv_def)
    then show ?thesis
      unfolding delivery_inv_def s eq using True idx(1,2) by (intro conjI exI [of _ idx]) simp_all
  next
    assume "\<exists>r. rkey r = wr_key ?req \<and> TxidStamp r = next_xid ?d \<and>
      wdb w' = put_row r (?d\<lparr>next_xid := next_xid ?d + 1\<rparr>) \<and> rows (wdb w') = rows ?d @ [r]"
    then obtain r where r: "rkey r = wr_key ?req" "TxidStamp r = next_xid ?d"
        "wdb w' = put_row r (?d\<lparr>next_xid := next_xid ?d + 1\<rparr>)" "rows (wdb w') = rows ?d @ [r]" by blast
    have wf: "wf_db ?d" using assms by (simp add: delivery_inv_def)
    then have "0 < next_xid ?d" by (simp add: wf_db_def)
    then have "wf_db (wdb w')" using r(2) wf_next_xid [OF wf] by (simp add: r(3) wf_put_row)
    moreover have "exact gvk ns (wdb w') dw" if "dw \<in> set (dyWatchers s)" for dw
      using exact_write [OF _ r(4,2)] assms that by (simp add: delivery_inv_def list_all_iff r(3))
    moreover have "map rkey (ns_rows gvk ns (wdb w')) = map (\<lambda>n. wr_key (p5_request gvk ns n)) (idx @ [dyNext s])"
    proof -
      have "GVK r = gvk" "Namespace r = ns" using r(1) by (simp_all add: p5_key rkey_def)
      then have "ns_rows gvk ns (wdb w') = ns_rows gvk ns ?d @ [r]" by (simp add: ns_rows_def r(4))
      then show ?thesis by (simp add: idx(1) r(1))
    qed
    moreover have "distinct (idx @ [dyNext s])" "set (idx @ [dyNext s]) \<subseteq> {..<dyNext ?s}" using idx(2,3) by (auto simp: s)
    ultimately show ?thesis using True unfolding delivery_inv_def s list_all_iff by (metis Suc_eq_plus1 Suc_leI)
  qed
qed (use assms in \<open>auto simp: write_next_def\<close>)

lemma delivery_inv_update:
  assumes "delivery_inv gvk ns c s" "exact gvk ns (wdb (dyWorld s)) dw"
  shows "delivery_inv gvk ns c (s\<lparr>dyWatchers := (dyWatchers s)[i := dw]\<rparr>)"
  using assms list_all_update [of "exact gvk ns (wdb (dyWorld s))" "dyWatchers s" dw i] by (simp add: delivery_inv_def)

lemma delivery_step_inv:
  assumes "delivery_inv gvk ns c s" "up_to_date gvk ns c iv [e] s"
  shows "delivery_inv gvk ns c (delivery_step gvk ns c iv e s)"
proof -
  have wf: "wf_db (wdb (dyWorld s))" using assms(1) by (simp add: delivery_inv_def)
  have dw: "exact gvk ns (wdb (dyWorld s)) (dyWatchers s ! i)" if "i < length (dyWatchers s)" for i
    using assms(1) that by (simp add: delivery_inv_def list_all_length)
  note upd = delivery_inv_update [OF assms(1)]
  show ?thesis
  proof (cases e)
    case (WriteNext now env)
    then show ?thesis using write_next_inv [OF assms(1)] by simp
  next
    case (PollBy i xmin)
    then show ?thesis using assms upd exact_poll [OF dw wf] by simp
  next
    case (PollEnds i)
    then show ?thesis using assms(1) upd dw by (simp add: exact_frame)
  next
    case (Receive i now)
    have "delivery_inv gvk ns c (s\<lparr>dyDeliveries := ds\<rparr>)" for ds using assms(1) by (simp add: delivery_inv_def)
    then have "delivery_inv gvk ns c (s\<lparr>dyWatchers := (dyWatchers s)[i := x], dyDeliveries := ds\<rparr>)"
      if "exact gvk ns (wdb (dyWorld s)) x" for x ds
      using upd [OF that, of i] by (simp add: delivery_inv_def)
    then show ?thesis using assms(1) exact_receive [OF dw] Receive by (simp add: case_prod_beta)
  next
    case (Deadline i)
    then show ?thesis using assms(1) upd dw by (simp add: exact_frame)
  qed
qed

lemma delivery_steps_inv:
  "up_to_date gvk ns c iv es s \<Longrightarrow> delivery_inv gvk ns c s \<Longrightarrow> delivery_inv gvk ns c (fold (delivery_step gvk ns c iv) es s)"
proof (induction es arbitrary: s)
  case (Cons e es)
  have "up_to_date gvk ns c iv [e] s" "up_to_date gvk ns c iv es (delivery_step gvk ns c iv e s)"
    using Cons.prems(1) by simp_all
  then show ?case using Cons.IH delivery_step_inv [OF Cons.prems(2)] by simp
qed simp

lemma delivery_start_inv:
  assumes "wf_db (wdb w)" "mark < next_xid (wdb w)" "ns_rows gvk ns (wdb w) = []"
  shows "delivery_inv gvk ns c (new_delivery n c mark start w)"
  using assms by (auto simp: delivery_inv_def new_delivery_def list_all_iff exact_def queued_def unseen_def NewWatcher_def)

lemma delivery_watchers_kept:
  "length (dyWatchers (fold (delivery_step gvk ns c iv) es s)) = length (dyWatchers s)"
proof -
  have "length (dyWatchers (delivery_step gvk ns c iv e s)) = length (dyWatchers s)" for e s
    by (cases e) (simp_all add: write_next_def Let_def case_prod_beta)
  then show ?thesis by (induction es arbitrary: s) simp_all
qed

text \<open>The drill counts deliveries. If the test starts at a mark below every future transaction on a table
  without its objects, and no poll meets a transaction that holds xmin back, then no collector
  counts more than the objects written; and the drill finds its expected number of deliveries
  only if every one of its writes is in the table and every watcher has counted every object
  once.\<close>

theorem phase5_drill_is_exact:
  fixes s gvk ns numWatchers c iv mark start es w
  defines "s \<equiv> delivery_run gvk ns numWatchers c iv mark start es w"
  assumes "wf_db (wdb w)" "mark < next_xid (wdb w)" "ns_rows gvk ns (wdb w) = []"
    and "up_to_date gvk ns c iv es (new_delivery numWatchers c mark start w)"
  shows "list_all (\<lambda>dw. dwCollected dw \<le> length (ns_rows gvk ns (wdb (dyWorld s)))) (dyWatchers s) \<and>
    length (ns_rows gvk ns (wdb (dyWorld s))) \<le> c \<and>
    (c * numWatchers \<le> collected_total s \<and> 0 < numWatchers \<longrightarrow>
       list_all (\<lambda>dw. dwCollected dw = c) (dyWatchers s) \<and>
       (\<forall>n < c. wr_key (p5_request gvk ns n) \<in> table_keys (dyWorld s)))"
proof -
  let ?rows = "ns_rows gvk ns (wdb (dyWorld s))"
  have inv: "delivery_inv gvk ns c s"
    unfolding s_def delivery_run_def by (rule delivery_steps_inv [OF assms(5) delivery_start_inv [OF assms(2-4)]])
  then obtain idx where idx0: "map rkey ?rows = map (\<lambda>n. wr_key (p5_request gvk ns n)) idx" "distinct idx"
      "set idx \<subseteq> {..<dyNext s}"
    unfolding delivery_inv_def by blast
  have "dyNext s \<le> c" using inv by (simp add: delivery_inv_def)
  then have idx: "map rkey ?rows = map (\<lambda>n. wr_key (p5_request gvk ns n)) idx" "distinct idx" "set idx \<subseteq> {..<c}"
    using idx0 by auto
  have len: "length ?rows = length idx" using arg_cong [OF idx(1), of length] by simp
  have card: "length idx \<le> c" using idx(2,3) by (metis card_lessThan card_mono distinct_card finite_lessThan)
  have le: "dwCollected dw \<le> length ?rows" if "dw \<in> set (dyWatchers s)" for dw
    using inv that by (auto simp: delivery_inv_def list_all_iff exact_def)
  have n: "length (dyWatchers s) = numWatchers"
    unfolding s_def delivery_run_def delivery_watchers_kept by (simp add: new_delivery_def)
  have "list_all (\<lambda>dw. dwCollected dw = c) (dyWatchers s) \<and> (\<forall>n < c. wr_key (p5_request gvk ns n) \<in> table_keys (dyWorld s))"
    if total: "c * numWatchers \<le> collected_total s" and pos: "0 < numWatchers"
  proof -
    have bound: "sum_list (map dwCollected ws) \<le> m * length ws \<and>
        (m * length ws \<le> sum_list (map dwCollected ws) \<longrightarrow> (\<forall>dw \<in> set ws. dwCollected dw = m))"
      if "\<forall>dw \<in> set ws. dwCollected dw \<le> m" for ws m
      using that by (induction ws) auto
    have all: "dwCollected dw = c" if "dw \<in> set (dyWatchers s)" for dw
      using bound [of "dyWatchers s" c] le card that total by (fastforce simp: len n collected_total_def)
    from pos n obtain dw where "dw \<in> set (dyWatchers s)" by (cases "dyWatchers s") auto
    then have "length idx = c" using all le card by (metis len le_antisym)
    then have "set idx = {..<c}" using idx(2,3) by (metis card_lessThan card_subset_eq distinct_card finite_lessThan)
    then have "wr_key (p5_request gvk ns n) \<in> set (map rkey ?rows)" if "n < c" for n using that by (auto simp: idx(1))
    then show ?thesis using all by (fastforce simp: list_all_iff table_keys_def ns_rows_def)
  qed
  then show ?thesis using le card by (auto simp: list_all_iff len)
qed

definition ex_env :: "net \<Rightarrow> call_env" where
  "ex_env n = \<lparr>env_net = n, env_fault = NoFault, env_uid = 3, env_now = 5\<rparr>"

lemmas drill_eval = delivery_run_def new_delivery_def write_next_def watcher_polls_def receive_def NewWatcher_def
  ex_env_def p5_request_def load_request_def load_write_def Write_def writeStoredProc_def stored_proc_path_def
  callStoredProc_def run_proc_def pg_args_def params_of_write_def pgctl_write_def p_key_def suppression_check_def
  upsert_def insert_row_def Let_def observeResult_def ring_doorbell_def get_row_def put_row_def put_by_def
  pollAll_def poll_rows_def event_of_def in_shard_def ex_seed_world_def empty_db_def rkey_def

definition ex_drill :: "delivery_event list" where
  "ex_drill = [WriteNext 0 (ex_env NetOk), PollBy 0 100, Receive 0 1]"

theorem phase5_drill_is_exact_witness:
  "list_all (\<lambda>dw. dwCollected dw \<le> 1) (dyWatchers (delivery_run ''g'' ''phase5-loss'' 1 1 0 0 0 ex_drill ex_seed_world))"
proof -
  have "wf_db (wdb ex_seed_world)" "0 < next_xid (wdb ex_seed_world)" "ns_rows ''g'' ''phase5-loss'' (wdb ex_seed_world) = []"
    by (simp_all add: ex_seed_world_def ns_rows_def) (simp_all add: empty_db_def)
  moreover have "up_to_date ''g'' ''phase5-loss'' 1 0 ex_drill (new_delivery 1 1 0 0 ex_seed_world)"
    by (simp add: ex_drill_def drill_eval)
  ultimately show ?thesis
    using phase5_drill_is_exact [of ex_seed_world 0 "''g''" "''phase5-loss''" 1 0 ex_drill 1 0]
    by (auto simp: list_all_iff intro: le_trans)
qed

text \<open>
  A transaction that holds xmin back makes the drill count an object twice: the second write is
  lost, the only watcher has received the first object in two polls, and the drill passes.
\<close>

definition ex_held_back :: "delivery_event list" where
  "ex_held_back = [WriteNext 0 (ex_env NetOk), PollBy 0 1, Receive 0 1, PollBy 0 1, Receive 0 2,
     WriteNext 3 (ex_env LostBefore)]"

definition ex_drill_config :: Phase5Config where
  "ex_drill_config = \<lparr>p5Enabled = True, NumWatchers = 1, WriteRate = 20, WriteCount = 2, DoorbellDeliveryP99Ms = 0,
     NotifyLossDrill = True\<rparr>"

theorem drill_passes_without_delivery:
  "let s = delivery_run ''g'' ''phase5-loss'' 1 2 0 0 0 ex_held_back ex_seed_world in
     delivery_finished 2 s \<and> p5_verdict ex_drill_config 1 2 0 (collected_total s) \<and>
     dyErrors s = 1 \<and> length (rows (wdb (dyWorld s))) = 1"
  by (simp add: ex_held_back_def drill_eval)
     (simp add: delivery_finished_def p5_verdict_def ex_drill_config_def collected_total_def)

text \<open>
  Without the drill the phase passes although every write failed and nothing was delivered: of
  no latencies the p99 is zero, and the number of failed writes is reported only.
\<close>

theorem phase5_needs_no_delivery:
  assumes "\<not> NotifyLossDrill pCfg"
  shows "Passed (p5_result pCfg n c elapsed idle [] [] 0 errors)"
  using assms by (simp add: p5_result_def phase_result_def Let_def p5_verdict_def percentile_or_0_def Milliseconds_def tdiv_def)

end
