(* ===== verification/Phase0.thy ===== *)
theory Phase0
  imports LoadWriter
begin

text \<open>
  Phase 0, the baseline measurements of src/loadtest/cmd/loadtest/phase0_baseline.go: pings, and
  batches of single-threaded creates through the writer and through pgctl_write in transactions
  of their own, each on a table truncated before. What a call meets and how long it takes are
  arguments, numbered like the iterations; synchronous_commit changes only durations here.
\<close>

definition wrap_error :: "string \<Rightarrow> phase_error \<Rightarrow> phase_error" where
  "wrap_error prefix e = (case e of Failed t \<Rightarrow> Failed (prefix @ t) | Panic t \<Rightarrow> Panic t)"

section \<open>Pings\<close>

fun ping_loop :: "(nat \<Rightarrow> string option \<times> duration) \<Rightarrow> nat \<Rightarrow> nat \<Rightarrow> duration list \<Rightarrow> phase_error + duration list" where
  "ping_loop pings i 0 lats = Inr lats"
| "ping_loop pings i (Suc n) lats =
     (case pings i of
        (Some e, _) \<Rightarrow> Inl (Failed ''ping iteration'')
      | (None, lat) \<Rightarrow> ping_loop pings (Suc i) n (lats @ [lat]))"

definition measurePingRTT ::
  "(nat \<Rightarrow> string option \<times> duration) \<Rightarrow> int \<Rightarrow> phase_error + duration \<times> duration \<times> duration" where
  "measurePingRTT pings iterations =
     (if iterations < 0 then Inl (Panic ''makeslice: cap out of range'')
      else (case ping_loop pings 0 (nat iterations) [] of
              Inl e \<Rightarrow> Inl e
            | Inr lats \<Rightarrow>
                (let s = sort lats in Inr (percentile s (1 / 2), percentile s (99 / 100), percentile s (999 / 1000)))))"

section \<open>Batches through the writer\<close>

definition truncate_rows :: "unit world \<Rightarrow> unit world" where
  "truncate_rows w = w\<lparr>wdb := (wdb w)\<lparr>rows := []\<rparr>\<rparr>"

definition p0_spec :: json where
  "p0_spec = JObj [(''phase0'', JBool True)]"

definition p0_request :: "string \<Rightarrow> string \<Rightarrow> nat \<Rightarrow> WriteRequest" where
  "p0_request gvk namespace i = load_request gvk namespace (''p0-'' @ namespace @ ''-'' @ dec i) p0_spec"

fun p0_writes ::
  "(nat \<Rightarrow> call_env \<times> duration) \<Rightarrow> string \<Rightarrow> string \<Rightarrow> nat \<Rightarrow> nat \<Rightarrow> duration list \<Rightarrow> unit world \<Rightarrow>
     unit world \<times> (phase_error + duration list)" where
  "p0_writes calls gvk ns i 0 lats w = (w, Inr lats)"
| "p0_writes calls gvk ns i (Suc n) lats w =
     (case load_write (fst (calls i)) (p0_request gvk ns i) w of
        (w', Inl e) \<Rightarrow> (w', Inl (Failed ''write''))
      | (w', Inr _) \<Rightarrow> p0_writes calls gvk ns (Suc i) n (lats @ [snd (calls i)]) w')"

text \<open>The errors of connect, TRUNCATE and SET, the calls, and the time the batch takes.\<close>

record batch =
  baConnect :: "string option"
  baTruncate :: "string option"
  baSet :: "string option"
  baCalls :: "nat \<Rightarrow> call_env \<times> duration"
  baElapsed :: duration

definition runSingleThreadedWrites ::
  "batch \<Rightarrow> int \<Rightarrow> string \<Rightarrow> string \<Rightarrow> string \<Rightarrow> unit world \<Rightarrow> unit world \<times> (phase_error + float64 \<times> duration)" where
  "runSingleThreadedWrites b iterations gvk namespace syncCommitMode w =
     (if baConnect b \<noteq> None then (w, Inl (Failed ''connect''))
      else if baTruncate b \<noteq> None then (w, Inl (Failed ''truncate''))
      else if syncCommitMode \<noteq> [] \<and> baSet b \<noteq> None then (truncate_rows w, Inl (Failed ''set synchronous_commit''))
      else if iterations < 0 then (truncate_rows w, Inl (Panic ''makeslice: cap out of range''))
      else (case p0_writes (baCalls b) gvk namespace 0 (nat iterations) [] (truncate_rows w) of
              (w', Inl e) \<Rightarrow> (w', Inl e)
            | (w', Inr lats) \<Rightarrow>
                (w', Inr (fdiv (Fin (of_int iterations)) (Seconds (baElapsed b)), percentile (sort lats) (1 / 2)))))"

definition runWritesWithLatencies ::
  "batch \<Rightarrow> int \<Rightarrow> string \<Rightarrow> string \<Rightarrow> unit world \<Rightarrow> unit world \<times> (phase_error + duration list)" where
  "runWritesWithLatencies b iterations gvk namespace w =
     (if baConnect b \<noteq> None then (w, Inl (Failed ''connect''))
      else if baTruncate b \<noteq> None then (w, Inl (Failed ''truncate''))
      else if iterations < 0 then (truncate_rows w, Inl (Panic ''makeslice: cap out of range''))
      else (case p0_writes (baCalls b) gvk namespace 0 (nat iterations) [] (truncate_rows w) of
              (w', Inl e) \<Rightarrow> (w', Inl e)
            | (w', Inr lats) \<Rightarrow> (w', Inr (sort lats))))"

definition measureSyncCommitCost ::
  "batch \<Rightarrow> batch \<Rightarrow> int \<Rightarrow> Config \<Rightarrow> BaselineResult \<Rightarrow> unit world \<Rightarrow> unit world \<times> (phase_error + BaselineResult)" where
  "measureSyncCommitCost on off iterations cfg result w =
     (case runSingleThreadedWrites on iterations (first_gvk cfg) ''phase0-sync'' [] w of
        (w1, Inl e) \<Rightarrow> (w1, Inl (wrap_error ''sync commit on: '' e))
      | (w1, Inr (syncRPS, syncP50)) \<Rightarrow>
          (case runSingleThreadedWrites off iterations (first_gvk cfg) ''phase0-async'' ''off'' w1 of
             (w2, Inl e) \<Rightarrow> (w2, Inl (wrap_error ''sync commit off: '' e))
           | (w2, Inr (asyncRPS, asyncP50)) \<Rightarrow>
               (w2, Inr (result\<lparr>SyncCommitRPS := syncRPS, SyncCommitP50 := syncP50, AsyncCommitRPS := asyncRPS,
                                AsyncCommitP50 := asyncP50\<rparr>))))"

section \<open>Batches of pgctl_write\<close>

text \<open>
  One transaction: the errors of BEGIN and of the call on the network, and what becomes of the
  COMMIT (Some says whether it was applied although it failed).
\<close>

record sproc_call =
  scBegin :: "string option"
  scCall :: "string option"
  scCommit :: "bool option"
  scUid :: uid
  scNow :: time
  scLatency :: duration

definition sproc_args :: "string \<Rightarrow> nat \<Rightarrow> pgargs" where
  "sproc_args gvk i =
     \<lparr>p_status_only = False, p_gvk = gvk, p_namespace = ''phase0-sproc'', p_name = ''p0-sproc-'' @ dec i,
      p_expected_version = 0, p_force_write = False, p_spec = Some (canon p0_spec), p_status = Some (JObj []),
      p_metadata = Some (JObj []), p_deletion_ts = None\<rparr>"

definition sproc_tx :: "string \<Rightarrow> sproc_call \<Rightarrow> nat \<Rightarrow> unit world \<Rightarrow> unit world \<times> phase_error option" where
  "sproc_tx gvk c i w =
     (if scBegin c \<noteq> None then (w, Some (Failed ''sproc begin''))
      else if scCall c \<noteq> None then (w, Some (Failed ''sproc call''))
      else
        (let (d', res) = pgctl_write (scUid c) (scNow c) (sproc_args gvk i) (wdb w);
             committed = w\<lparr>wdb := d'\<rparr>; rolled_back = w\<lparr>wdb := (wdb w)\<lparr>next_xid := next_xid d'\<rparr>\<rparr>
         in case res of
              Inl code \<Rightarrow> (rolled_back, Some (Failed ''sproc call''))
            | Inr _ \<Rightarrow>
                (case scCommit c of
                   None \<Rightarrow> (committed, None)
                 | Some applied \<Rightarrow> (if applied then committed else rolled_back, Some (Failed ''sproc commit'')))))"

fun sproc_loop ::
  "(nat \<Rightarrow> sproc_call) \<Rightarrow> string \<Rightarrow> nat \<Rightarrow> nat \<Rightarrow> duration list \<Rightarrow> unit world \<Rightarrow>
     unit world \<times> (phase_error + duration list)" where
  "sproc_loop calls gvk i 0 lats w = (w, Inr lats)"
| "sproc_loop calls gvk i (Suc n) lats w =
     (case sproc_tx gvk (calls i) i w of
        (w', Some e) \<Rightarrow> (w', Inl e)
      | (w', None) \<Rightarrow> sproc_loop calls gvk (Suc i) n (lats @ [scLatency (calls i)]) w')"

text \<open>The batch through the writer, the extra connection, the batch for its p99, and the procedure's.\<close>

record comparison =
  cmGo :: batch
  cmGoConn :: "string option"
  cmGoP99 :: batch
  cmSpConn :: "string option"
  cmSpTruncate :: "string option"
  cmSpCalls :: "nat \<Rightarrow> sproc_call"
  cmSpElapsed :: duration

definition round_trip_savings :: "duration \<Rightarrow> duration \<Rightarrow> float64" where
  "round_trip_savings spP50 goP50 =
     fmul (fsub (Fin 1) (fdiv (Fin (of_int spP50)) (Fin (of_int goP50)))) (Fin 100)"

definition measureStoredProcComparison ::
  "comparison \<Rightarrow> int \<Rightarrow> Config \<Rightarrow> BaselineResult \<Rightarrow> unit world \<Rightarrow> unit world \<times> (phase_error + BaselineResult)" where
  "measureStoredProcComparison c iterations cfg result w =
     (case runSingleThreadedWrites (cmGo c) iterations (first_gvk cfg) ''phase0-go'' [] w of
        (w1, Inl e) \<Rightarrow> (w1, Inl (wrap_error ''go writer: '' e))
      | (w1, Inr (goRPS, goP50)) \<Rightarrow>
          if cmGoConn c \<noteq> None then (w1, Inl (Failed ''go writer p99 connect''))
          else
            (case runWritesWithLatencies (cmGoP99 c) (min iterations 200) (first_gvk cfg) ''phase0-go-p99'' w1 of
               (w2, Inl e) \<Rightarrow> (w2, Inl (wrap_error ''go writer p99: '' e))
             | (w2, Inr goP99Lats) \<Rightarrow>
                 if cmSpConn c \<noteq> None then (w2, Inl (Failed ''stored proc connect''))
                 else if cmSpTruncate c \<noteq> None then (w2, Inl (Failed ''truncate for sproc''))
                 else
                   (case sproc_loop (cmSpCalls c) (first_gvk cfg) 0 (nat iterations) [] (truncate_rows w2) of
                      (w3, Inl e) \<Rightarrow> (w3, Inl e)
                    | (w3, Inr lats) \<Rightarrow>
                        (let s = sort lats; spP50 = percentile s (1 / 2);
                             result1 = result\<lparr>GoWriterRPS := goRPS, GoWriterP50 := goP50,
                               GoWriterP99 := percentile goP99Lats (99 / 100),
                               StoredProcRPS := fdiv (Fin (of_int iterations)) (Seconds (cmSpElapsed c)),
                               StoredProcP50 := spP50, StoredProcP99 := percentile s (99 / 100)\<rparr>
                         in (w3, Inr (if 0 < goP50 then result1\<lparr>RoundTripSavings := round_trip_savings spP50 goP50\<rparr>
                                      else result1))))))"

section \<open>The phase\<close>

definition new_baseline :: BaselineResult where
  "new_baseline =
     \<lparr>PingP50 = 0, PingP99 = 0, PingP999 = 0, StepTimings = [], SyncCommitRPS = Fin 0, AsyncCommitRPS = Fin 0,
      SyncCommitP50 = 0, AsyncCommitP50 = 0, GoWriterRPS = Fin 0, GoWriterP50 = 0, GoWriterP99 = 0,
      StoredProcRPS = Fin 0, StoredProcP50 = 0, StoredProcP99 = 0, RoundTripSavings = Fin 0, PgStatEntries = []\<rparr>"

record p0_inputs =
  p0Connect :: "string option"
  p0Pings :: "nat \<Rightarrow> string option \<times> duration"
  p0StatBefore :: "string + pgStatRow list"
  p0StatAfter :: "string + pgStatRow list"
  p0Visit :: "string list"
  p0SyncOn :: batch
  p0SyncOff :: batch
  p0Compare :: comparison
  p0Elapsed :: duration

text \<open>The entries of pg_stat_statements, if both snapshots could be taken.\<close>

definition stat_entries :: "p0_inputs \<Rightarrow> BaselineResult \<Rightarrow> BaselineResult" where
  "stat_entries ins b =
     (case (snapshotPgStat (p0StatBefore ins), snapshotPgStat (p0StatAfter ins)) of
        (Inr before, Inr after) \<Rightarrow> b\<lparr>PgStatEntries := diffPgStat (p0Visit ins) before after\<rparr>
      | _ \<Rightarrow> b)"

definition RunPhase0 :: "Config \<Rightarrow> p0_inputs \<Rightarrow> unit world \<Rightarrow> unit world \<times> (phase_error + PhaseResult)" where
  "RunPhase0 cfg ins w =
     (let pCfg = Phase0Baseline (Phases cfg) in
      if p0Connect ins \<noteq> None then (w, Inl (Failed ''phase0: connect''))
      else
        (case measurePingRTT (p0Pings ins) (PingIterations pCfg) of
           Inl e \<Rightarrow> (w, Inl (wrap_error ''phase0: ping RTT: '' e))
         | Inr (p50, p99, p999) \<Rightarrow>
             (case measureSyncCommitCost (p0SyncOn ins) (p0SyncOff ins) (SyncCommitCompare pCfg) cfg
                     (new_baseline\<lparr>PingP50 := p50, PingP99 := p99, PingP999 := p999\<rparr>) w of
                (w1, Inl e) \<Rightarrow> (w1, Inl (wrap_error ''phase0: sync commit: '' e))
              | (w1, Inr b1) \<Rightarrow>
                  (case measureStoredProcComparison (p0Compare ins) (StoredProcWrites pCfg) cfg b1 w1 of
                     (w2, Inl e) \<Rightarrow> (w2, Inl (wrap_error ''phase0: stored proc comparison: '' e))
                   | (w2, Inr b2) \<Rightarrow>
                       (w2, Inr ((phase_result ''phase0_baseline'' True)
                         \<lparr>prDuration := p0Elapsed ins, Baseline := Some (stat_entries ins b2)\<rparr>))))))"

section \<open>What is left in the table\<close>

lemma pgctl_write_horizon: "horizon (fst (pgctl_write u now a d)) = horizon d"
  by (simp add: pgctl_write_def Let_def split: option.splits sum.splits)

lemma load_write_horizon: "horizon (wdb (fst (load_write env req w))) = horizon (wdb w)"
  by (auto simp: load_write_def Write_def writeStoredProc_def stored_proc_path_def callStoredProc_def run_proc_def
      Let_def observeResult_def ring_doorbell_def case_prod_beta pgctl_write_horizon split: net.splits sum.splits)

lemma truncate_rows_simps [simp]: "rows (wdb (truncate_rows w)) = []" "horizon (wdb (truncate_rows w)) = horizon (wdb w)"
  by (simp_all add: truncate_rows_def)

lemma p0_writes_horizon: "horizon (wdb (fst (p0_writes calls gvk ns i n lats w))) = horizon (wdb w)"
proof (induction n arbitrary: i lats w)
  case (Suc n)
  then show ?case using load_write_horizon [of "fst (calls i)" "p0_request gvk ns i" w]
    by (auto split: prod.splits sum.splits)
qed simp

lemma runSingleThreadedWrites_horizon: "horizon (wdb (fst (runSingleThreadedWrites b n gvk ns m w))) = horizon (wdb w)"
  using p0_writes_horizon [of "baCalls b" gvk ns 0 "nat n" "[]" "truncate_rows w"]
  by (auto simp: runSingleThreadedWrites_def split: prod.splits sum.splits)

lemma runWritesWithLatencies_horizon: "horizon (wdb (fst (runWritesWithLatencies b n gvk ns w))) = horizon (wdb w)"
  using p0_writes_horizon [of "baCalls b" gvk ns 0 "nat n" "[]" "truncate_rows w"]
  by (auto simp: runWritesWithLatencies_def split: prod.splits sum.splits)

lemma measureSyncCommitCost_horizon:
  "measureSyncCommitCost on off n cfg b w = (w', Inr b') \<Longrightarrow> horizon (wdb w') = horizon (wdb w)"
  using runSingleThreadedWrites_horizon [of on n "first_gvk cfg" "''phase0-sync''" "[]" w]
    runSingleThreadedWrites_horizon [of off n "first_gvk cfg" "''phase0-async''" "''off''"]
  by (auto simp: measureSyncCommitCost_def split: prod.splits sum.splits) (metis fst_conv)

text \<open>A transaction of the batch adds its object to a table that does not hold it.\<close>

lemma sproc_tx_creates:
  assumes "sproc_tx gvk c i w = (w', None)" "p_key (sproc_args gvk i) \<notin> set (map rkey (rows (wdb w)))"
  shows "map rkey (rows (wdb w')) = map rkey (rows (wdb w)) @ [p_key (sproc_args gvk i)]"
    "horizon (wdb w') = horizon (wdb w)"
proof -
  have none: "get_row (wdb w) (p_key (sproc_args gvk i)) = None" using assms(2) by (simp add: get_row_None)
  obtain r where r: "upsert (next_xid (wdb w)) (scUid c) (scNow c) (sproc_args gvk i) None = Inr r" "rkey r = p_key (sproc_args gvk i)"
    by (simp add: upsert_def insert_row_def sproc_args_def Let_def p_key_def rkey_def)
  have "pgctl_write (scUid c) (scNow c) (sproc_args gvk i) (wdb w) =
      (put_row r ((wdb w)\<lparr>next_xid := next_xid (wdb w) + 1\<rparr>),
       Inr \<lparr>out_uid = UID r, out_version = ObjectVersion r, out_txid = next_xid (wdb w), out_changed = True\<rparr>)"
    by (simp add: pgctl_write_def none suppression_check_def r(1) Let_def)
  then have w': "wdb w' = put_row r ((wdb w)\<lparr>next_xid := next_xid (wdb w) + 1\<rparr>)"
    using assms(1) by (auto simp: sproc_tx_def Let_def split: if_splits option.splits)
  have "lookup_by rkey (rows (wdb w)) (rkey r) = None" using none by (simp add: r(2) get_row_def)
  then show "map rkey (rows (wdb w')) = map rkey (rows (wdb w)) @ [p_key (sproc_args gvk i)]"
    by (simp add: w' put_row_def put_by_def r(2))
  show "horizon (wdb w') = horizon (wdb w)" by (simp add: w')
qed

definition p0_key :: "string \<Rightarrow> nat \<Rightarrow> key" where
  "p0_key gvk i = (gvk, ''phase0-sproc'', ''p0-sproc-'' @ dec i)"

lemma p_key_sproc: "p_key (sproc_args gvk i) = p0_key gvk i"
  by (simp add: p_key_def sproc_args_def p0_key_def)

lemma sproc_loop_rows:
  assumes "sproc_loop calls gvk i n lats w = (w', Inr lats')" "map rkey (rows (wdb w)) = map (p0_key gvk) [0..<i]"
  shows "map rkey (rows (wdb w')) = map (p0_key gvk) [0..<i + n] \<and> horizon (wdb w') = horizon (wdb w) \<and>
    length lats' = length lats + n"
  using assms
proof (induction n arbitrary: i lats w)
  case (Suc n)
  obtain w1 where w1: "sproc_tx gvk (calls i) i w = (w1, None)"
      "sproc_loop calls gvk (Suc i) n (lats @ [scLatency (calls i)]) w1 = (w', Inr lats')"
    using Suc.prems(1) by (auto split: prod.splits option.splits)
  have "p_key (sproc_args gvk i) \<notin> set (map rkey (rows (wdb w)))"
    unfolding Suc.prems(2) p_key_sproc by (auto simp: p0_key_def)
  note creates = sproc_tx_creates [OF w1(1) this]
  have "map rkey (rows (wdb w1)) = map (p0_key gvk) [0..<Suc i]"
    using creates(1) Suc.prems(2) by (simp add: p_key_sproc)
  from Suc.IH [OF w1(2) this] creates(2) show ?case by simp
qed simp

lemma comparison_rows:
  assumes "measureStoredProcComparison c n cfg b w = (w', Inr b')"
  shows "map rkey (rows (wdb w')) = map (p0_key (first_gvk cfg)) [0..<nat n] \<and> horizon (wdb w') = horizon (wdb w)"
proof -
  obtain w1 x1 w2 x2 where go: "runSingleThreadedWrites (cmGo c) n (first_gvk cfg) ''phase0-go'' [] w = (w1, Inr x1)"
      "runWritesWithLatencies (cmGoP99 c) (min n 200) (first_gvk cfg) ''phase0-go-p99'' w1 = (w2, Inr x2)"
      "\<exists>lats. sproc_loop (cmSpCalls c) (first_gvk cfg) 0 (nat n) [] (truncate_rows w2) = (w', Inr lats)"
    using assms by (auto simp: measureStoredProcComparison_def Let_def split: prod.splits sum.splits if_splits)
  have "horizon (wdb w1) = horizon (wdb w)" "horizon (wdb w2) = horizon (wdb w1)"
    using runSingleThreadedWrites_horizon [of "cmGo c" n "first_gvk cfg" "''phase0-go''" "[]" w]
      runWritesWithLatencies_horizon [of "cmGoP99 c" "min n 200" "first_gvk cfg" "''phase0-go-p99''" w1] go(1,2) by simp_all
  with go(3) sproc_loop_rows show ?thesis by fastforce
qed

text \<open>Phase 0 leaves nothing of the seeded data: if it succeeds, the table holds exactly the objects of
  its last batch, in order, whatever it held before, and the compaction horizon is unchanged.
  The phases after it run on that table, not on the configured number of seeded objects.\<close>

theorem phase0_replaces_table:
  assumes "RunPhase0 cfg ins w = (w', Inr r)"
  shows "map rkey (rows (wdb w')) = map (\<lambda>i. (first_gvk cfg, ''phase0-sproc'', ''p0-sproc-'' @ dec i))
      [0..<nat (StoredProcWrites (Phase0Baseline (Phases cfg)))] \<and>
    horizon (wdb w') = horizon (wdb w) \<and> Passed r"
proof -
  obtain w1 b b1 b2 where m: "measureSyncCommitCost (p0SyncOn ins) (p0SyncOff ins)
        (SyncCommitCompare (Phase0Baseline (Phases cfg))) cfg b w = (w1, Inr b1)"
      "measureStoredProcComparison (p0Compare ins) (StoredProcWrites (Phase0Baseline (Phases cfg))) cfg b1 w1 = (w', Inr b2)"
      "Passed r"
    using assms by (auto simp: RunPhase0_def Let_def phase_result_def split: if_splits prod.splits sum.splits)
  show ?thesis
    using comparison_rows [OF m(2)] measureSyncCommitCost_horizon [OF m(1)] m(3) by (simp add: p0_key_def [abs_def])
qed

section \<open>A phase that meets no error\<close>

interpretation p0: numbered_writers "p0_request gvk" for gvk
  by unfold_locales (auto simp: p0_request_def p0_spec_def)

lemma p0_writes_ok:
  assumes "\<And>j. env_net (fst (calls j)) = NetOk" "\<And>j. i \<le> j \<Longrightarrow> wr_key (p0_request gvk ns j) \<notin> table_keys w"
  shows "\<exists>w'. p0_writes calls gvk ns i n lats w = (w', Inr (lats @ map (snd \<circ> calls) [i..<i + n]))"
  using assms(2)
proof (induction n arbitrary: i lats w)
  case (Suc n)
  obtain w1 res where w1: "load_write (fst (calls i)) (p0_request gvk ns i) w = (w1, Inr res)"
      "table_keys w1 = insert (wr_key (p0_request gvk ns i)) (table_keys w)"
    using p0.fresh_write [OF assms(1), of gvk ns i w i] Suc.prems by blast
  have "wr_key (p0_request gvk ns j) \<notin> table_keys w1" if "Suc i \<le> j" for j
    using that Suc.prems [of j] by (auto simp: w1(2) p0.key_inj)
  from Suc.IH [where i = "Suc i" and lats = "lats @ [snd (calls i)]", OF this] w1(1)
  show ?case by (simp add: upt_conv_Cons del: upt_Suc)
qed simp

definition batch_ok :: "batch \<Rightarrow> bool" where
  "batch_ok b \<longleftrightarrow> baConnect b = None \<and> baTruncate b = None \<and> baSet b = None"

lemma batch_returns:
  assumes "batch_ok b" "\<And>j. env_net (fst (baCalls b j)) = NetOk" "0 \<le> n"
  shows "\<exists>w'. runSingleThreadedWrites b n gvk ns m w = (w', Inr (fdiv (Fin (of_int n)) (Seconds (baElapsed b)),
      percentile (sort (map (snd \<circ> baCalls b) [0..<nat n])) (1 / 2)))"
    "\<exists>w'. runWritesWithLatencies b n gvk ns w = (w', Inr (sort (map (snd \<circ> baCalls b) [0..<nat n])))"
proof -
  have free: "wr_key (p0_request gvk ns j) \<notin> table_keys (truncate_rows w)" for j by (simp add: table_keys_def)
  obtain w' where "p0_writes (baCalls b) gvk ns 0 (nat n) [] (truncate_rows w) = (w', Inr (map (snd \<circ> baCalls b) [0..<nat n]))"
    using p0_writes_ok [where calls = "baCalls b" and i = 0 and n = "nat n" and lats = "[]", OF assms(2) free] by auto
  then show "\<exists>w'. runSingleThreadedWrites b n gvk ns m w = (w', Inr (fdiv (Fin (of_int n)) (Seconds (baElapsed b)),
      percentile (sort (map (snd \<circ> baCalls b) [0..<nat n])) (1 / 2)))"
    "\<exists>w'. runWritesWithLatencies b n gvk ns w = (w', Inr (sort (map (snd \<circ> baCalls b) [0..<nat n])))"
    using assms(1,3) by (simp_all add: runSingleThreadedWrites_def runWritesWithLatencies_def batch_ok_def)
qed

definition ex_batch :: batch where
  "ex_batch = \<lparr>baConnect = None, baTruncate = None, baSet = None,
     baCalls = (\<lambda>i. (\<lparr>env_net = NetOk, env_fault = NoFault, env_uid = i, env_now = 5\<rparr>, 7)), baElapsed = second\<rparr>"

definition ex_p0 :: p0_inputs where
  "ex_p0 = \<lparr>p0Connect = None, p0Pings = (\<lambda>i. (None, 3)), p0StatBefore = Inl ''no extension'', p0StatAfter = Inr [],
     p0Visit = [], p0SyncOn = ex_batch, p0SyncOff = ex_batch,
     p0Compare = \<lparr>cmGo = ex_batch, cmGoConn = None, cmGoP99 = ex_batch, cmSpConn = None, cmSpTruncate = None,
       cmSpCalls = (\<lambda>i. \<lparr>scBegin = None, scCall = None, scCommit = None, scUid = i, scNow = 5, scLatency = 4\<rparr>),
       cmSpElapsed = second\<rparr>, p0Elapsed = 4 * second\<rparr>"

definition ex_p0_config :: Config where
  "ex_p0_config = ex_config\<lparr>Phases := (Phases ex_config)\<lparr>Phase0Baseline :=
     \<lparr>p0Enabled = True, PingIterations = 2, WriteIterations = 1, StoredProcWrites = 1, SyncCommitCompare = 3\<rparr>\<rparr>\<rparr>"

definition ex_p0_world :: "unit world" where
  "ex_p0_world = \<lparr>wdb = ex_db, wbell = None, wmet = None\<rparr>"

lemma ex_sproc: "\<exists>w' lats. sproc_loop (cmSpCalls (p0Compare ex_p0)) gvk 0 1 [] (truncate_rows w) = (w', Inr lats)"
  by (simp add: ex_p0_def sproc_tx_def pgctl_write_def Let_def get_row_def truncate_rows_def suppression_check_def
      upsert_def insert_row_def sproc_args_def)

theorem phase0_replaces_table_witness:
  "\<exists>w' r. RunPhase0 ex_p0_config ex_p0 ex_p0_world = (w', Inr r) \<and>
     map rkey (rows (wdb w')) = [(''apps/v1/Deployment'', ''phase0-sproc'', ''p0-sproc-'' @ dec 0)]"
proof -
  let ?p = "Phase0Baseline (Phases ex_p0_config)"
  have ok: "batch_ok ex_batch" "\<And>j. env_net (fst (baCalls ex_batch j)) = NetOk"
    by (simp_all add: batch_ok_def ex_batch_def)
  have single: "\<exists>w' x y. runSingleThreadedWrites ex_batch n gvk ns m w = (w', Inr (x, y))" if "0 \<le> n" for n gvk ns m w
    using batch_returns(1) [OF ok that] by blast
  have lats: "\<exists>w' x. runWritesWithLatencies ex_batch n gvk ns w = (w', Inr x)" if "0 \<le> n" for n gvk ns w
    using batch_returns(2) [OF ok that] by blast
  have counts: "PingIterations ?p = 2" "SyncCommitCompare ?p = 3" "StoredProcWrites ?p = 1"
    "first_gvk ex_p0_config = ''apps/v1/Deployment''"
    by (simp_all add: ex_p0_config_def ex_config_def first_gvk_def)
  obtain p50 p99 p999 where ping: "measurePingRTT (p0Pings ex_p0) 2 = Inr (p50, p99, p999)"
    by (simp add: measurePingRTT_def ex_p0_def Let_def numeral_2_eq_2)
  have sync: "\<exists>w' b'. measureSyncCommitCost (p0SyncOn ex_p0) (p0SyncOff ex_p0) 3 cfg b w = (w', Inr b')" for cfg b w
  proof -
    obtain w1 x1 y1 where 1: "runSingleThreadedWrites ex_batch 3 (first_gvk cfg) ''phase0-sync'' [] w = (w1, Inr (x1, y1))"
      using single [of 3] by fastforce
    obtain w2 x2 y2 where 2: "runSingleThreadedWrites ex_batch 3 (first_gvk cfg) ''phase0-async'' ''off'' w1 = (w2, Inr (x2, y2))"
      using single [of 3] by fastforce
    show ?thesis by (simp add: measureSyncCommitCost_def ex_p0_def 1 2)
  qed
  have compare: "\<exists>w' b'. measureStoredProcComparison (p0Compare ex_p0) 1 cfg b w = (w', Inr b')" for cfg b w
  proof -
    obtain w1 x1 y1 where 1: "runSingleThreadedWrites ex_batch 1 (first_gvk cfg) ''phase0-go'' [] w = (w1, Inr (x1, y1))"
      using single [of 1] by fastforce
    obtain w2 x2 where 2: "runWritesWithLatencies ex_batch 1 (first_gvk cfg) ''phase0-go-p99'' w1 = (w2, Inr x2)"
      using lats [of 1] by fastforce
    obtain w3 x3 where 3: "sproc_loop (cmSpCalls (p0Compare ex_p0)) (first_gvk cfg) 0 1 [] (truncate_rows w2) = (w3, Inr x3)"
      using ex_sproc by blast
    have p0: "cmGo (p0Compare ex_p0) = ex_batch" "cmGoP99 (p0Compare ex_p0) = ex_batch" "cmGoConn (p0Compare ex_p0) = None"
      "cmSpConn (p0Compare ex_p0) = None" "cmSpTruncate (p0Compare ex_p0) = None" by (simp_all add: ex_p0_def)
    show ?thesis using 3 by (simp add: measureStoredProcComparison_def p0 1 2 Let_def)
  qed
  obtain w1 b1 where w1: "measureSyncCommitCost (p0SyncOn ex_p0) (p0SyncOff ex_p0) 3 ex_p0_config
      (new_baseline\<lparr>PingP50 := p50, PingP99 := p99, PingP999 := p999\<rparr>) ex_p0_world = (w1, Inr b1)"
    using sync by blast
  obtain w' b2 where w': "measureStoredProcComparison (p0Compare ex_p0) 1 ex_p0_config b1 w1 = (w', Inr b2)"
    using compare by blast
  have "p0Connect ex_p0 = None" by (simp add: ex_p0_def)
  then obtain r where r: "RunPhase0 ex_p0_config ex_p0 ex_p0_world = (w', Inr r)"
    by (simp add: RunPhase0_def Let_def counts ping w1 w')
  then show ?thesis using phase0_replaces_table [OF r] by (simp add: counts)
qed

end
