(* ===== verification/LoadMain.thy ===== *)
theory LoadMain
  imports Phase0 Phase2 Phase3 Phase5 Compaction
begin

text \<open>
  The load generator's main function, src/loadtest/cmd/loadtest/main.go: it resolves its
  arguments, migrates, seeds, runs the enabled phases in a fixed order, and writes a checkpoint
  after each phase, a report and an exit code. The ticker that writes checkpoints and the
  goroutine that compacts run beside the phases; what they do is given per phase, and no phase
  marks an object for deletion, so that a compaction changes no row (compact_spares_live).
\<close>

section \<open>Arguments\<close>

definition resolve_dsn :: "string \<Rightarrow> string \<Rightarrow> string option" where
  "resolve_dsn dsn env = (let c = (if dsn = [] then env else dsn) in if c = [] then None else Some c)"

text \<open>filepath.Join(filepath.Dir(path), name), for a path that is already clean.\<close>

definition beside :: "string \<Rightarrow> string \<Rightarrow> string" where
  "beside path name =
     (case dropWhile (\<lambda>c. c \<noteq> CHR ''/'') (rev path) of
        [] \<Rightarrow> name
      | _ # up \<Rightarrow> rev up @ ''/'' @ name)"

definition checkpoint_path :: "string \<Rightarrow> string" where
  "checkpoint_path reportPath =
     (if reportPath \<noteq> [] then beside reportPath ''checkpoint.json'' else ''/results/checkpoint.json'')"

definition passFailStr :: "bool \<Rightarrow> string" where
  "passFailStr passed = (if passed then ''PASSED'' else ''FAILED'')"

section \<open>The phases\<close>

text \<open>
  One entry of the list of phases: when it starts, the ticker's writes and the compactions while
  it runs, and the write of the checkpoint after it.
\<close>

record phase_slot =
  slName :: string
  slEnabled :: bool
  slRun :: "unit world \<Rightarrow> (unit world \<times> (phase_error + PhaseResult)) option"
  slStart :: int
  slTicks :: "(int \<times> string option) list"
  slCompact :: "time list"
  slWrite :: "int \<times> string option"

record main_state =
  msWorld :: "unit world"
  msCheckpoint :: "CheckpointWriter \<times> Checkpoint option"
  msPhases :: "PhaseResult list"
  msAllPassed :: bool

definition phase_progress :: "string \<Rightarrow> int \<Rightarrow> PhaseProgress" where
  "phase_progress name start =
     \<lparr>ppName = name, StartedAt = start, ppElapsed = 0, ppTotalWrites = 0, CurrentRPS = Fin 0, ppErrors = []\<rparr>"

text \<open>A retention of one hour; the number of deleted rows is only logged.\<close>

definition compact_tick :: "time \<Rightarrow> unit world \<Rightarrow> unit world" where
  "compact_tick now w = w\<lparr>wdb := fst (Compact now \<lparr>Retention = 3600000000\<rparr> (wdb w))\<rparr>"

definition fatal_result :: "string \<Rightarrow> PhaseResult" where
  "fatal_result name = (phase_result name False)\<lparr>Errors := [(''fatal'', 1)]\<rparr>"

definition phase_done :: "phase_slot \<Rightarrow> PhaseResult \<Rightarrow> unit world \<Rightarrow> CheckpointWriter \<times> Checkpoint option \<Rightarrow> main_state \<Rightarrow> main_state" where
  "phase_done p r w cp s =
     \<lparr>msWorld = w, msCheckpoint = cp_run [Record r, WriteNow (fst (slWrite p)) (snd (slWrite p))] cp,
      msPhases = msPhases s @ [r], msAllPassed = (if \<not> Passed r then False else msAllPassed s)\<rparr>"

text \<open>How the loop over the phases ends; a phase that never returns leaves a checkpoint behind.\<close>

datatype phases_end = PhasesDone main_state | PhaseHangs main_state | PhasePanics string main_state

fun run_phases :: "phase_slot list \<Rightarrow> main_state \<Rightarrow> phases_end" where
  "run_phases [] s = PhasesDone s"
| "run_phases (p # ps) s =
     (if \<not> slEnabled p then run_phases ps s
      else
        (let cp = cp_run (SetCurrent (Some (phase_progress (slName p) (slStart p))) #
                          map (\<lambda>(now, io). WriteNow now io) (slTicks p)) (msCheckpoint s);
             w = fold compact_tick (slCompact p) (msWorld s)
         in case slRun p w of
              None \<Rightarrow> PhaseHangs (s\<lparr>msCheckpoint := cp\<rparr>)
            | Some (w', Inr r) \<Rightarrow> run_phases ps (phase_done p r w' cp s)
            | Some (w', Inl (Failed e)) \<Rightarrow> run_phases ps (phase_done p (fatal_result (slName p)) w' cp s)
            | Some (w', Inl (Panic e)) \<Rightarrow> PhasePanics e (s\<lparr>msCheckpoint := cp, msWorld := w'\<rparr>)))"

text \<open>The inputs of the six phases, and what happens beside each.\<close>

record beside_phase =
  bpStart :: int
  bpTicks :: "(int \<times> string option) list"
  bpCompact :: "time list"
  bpWrite :: "int \<times> string option"

record phases_inputs =
  phP0 :: p0_inputs
  phP1 :: p1_inputs
  phSweep :: "nat \<Rightarrow> sweep_inputs list"
  phP2 :: job_inputs
  phP2b :: job_inputs
  phP3 :: p3_inputs
  phP5 :: p5_inputs
  phBeside :: "nat \<Rightarrow> beside_phase"

definition slot :: "string \<Rightarrow> bool \<Rightarrow> (unit world \<Rightarrow> (unit world \<times> (phase_error + PhaseResult)) option) \<Rightarrow> beside_phase \<Rightarrow> phase_slot" where
  "slot name enabled run b =
     \<lparr>slName = name, slEnabled = enabled, slRun = run, slStart = bpStart b, slTicks = bpTicks b,
      slCompact = bpCompact b, slWrite = bpWrite b\<rparr>"

definition phase_list :: "(werr \<Rightarrow> string) \<Rightarrow> int \<Rightarrow> Config \<Rightarrow> phases_inputs \<Rightarrow> phase_slot list" where
  "phase_list txt u cfg ins =
     (let ph = Phases cfg; b = phBeside ins in
      [slot ''phase0_baseline'' (p0Enabled (Phase0Baseline ph)) (\<lambda>w. Some (RunPhase0 cfg (phP0 ins) w)) (b 0),
       slot ''phase1_ceiling'' (p1Enabled (Phase1Ceiling ph)) (RunPhase1 txt cfg (phP1 ins) (phSweep ins)) (b 1),
       slot ''phase2_steady'' (p2Enabled (Phase2Steady ph)) (RunPhase2 txt u cfg (phP2 ins)) (b 2),
       slot ''phase2b_skew'' (Phase2bSkew ph) (RunPhase2b txt u cfg (phP2b ins)) (b 3),
       slot ''phase3_avalanche'' (p3Enabled (Phase3Avalanche ph)) (RunPhase3 txt u cfg (phP3 ins)) (b 4),
       slot ''phase5_poll'' (p5Enabled (Phase5Poll ph)) (RunPhase5 u cfg (phP5 ins)) (b 5)])"

section \<open>main\<close>

record main_inputs =
  miDsn :: string
  miEnv :: string
  miSpec :: string
  miReport :: string
  miFile :: "string + string"
  miConnect :: "string option"
  miMigrate :: "string option"
  miTruncate :: "string option"
  miSeed :: seed_env
  miCheckpointStart :: int
  miCompactConn :: "string option"
  miPhases :: phases_inputs
  miStart :: int
  miEnd :: int
  miReportIo :: "string option"

datatype ending = Fatal string | Hung | Crashed string | Exited nat

record run_output =
  roEnding :: ending
  roWorld :: "unit world"
  roCheckpoint :: "Checkpoint option"
  roReport :: "Report option"
  roSummary :: "summary_item list"

definition ended :: "ending \<Rightarrow> unit world \<Rightarrow> Checkpoint option \<Rightarrow> run_output" where
  "ended e w disk = \<lparr>roEnding = e, roWorld = w, roCheckpoint = disk, roReport = None, roSummary = []\<rparr>"

text \<open>Clear and seed, if the specification has objects to seed; None: no result of Seed.\<close>

definition seed_step :: "main_inputs \<Rightarrow> Config \<Rightarrow> unit world \<Rightarrow> (unit world \<times> string option) option" where
  "seed_step ins cfg w =
     (if SeedGVKs cfg \<noteq> [] \<and> 0 < ComputeTotalObjects cfg then
        (if miTruncate ins \<noteq> None then Some (w, Some ''truncate failed'')
         else (case Seed (miSeed ins) cfg (truncate_all w) of
                 None \<Rightarrow> None
               | Some (w', Inl e) \<Rightarrow> Some (w', Some ''seed failed'')
               | Some (w', Inr n) \<Rightarrow> Some (w', None)))
      else Some (w, None))"

definition report_of :: "Config \<Rightarrow> main_inputs \<Rightarrow> main_state \<Rightarrow> Report" where
  "report_of cfg ins s =
     \<lparr>SpecName = mcName (cfgMetadata cfg), Description = mcDescription (cfgMetadata cfg), StartTime = miStart ins,
      EndTime = miEnd ins, rpDuration = miEnd ins - miStart ins, AllPassed = msAllPassed s, rpPhases = msPhases s\<rparr>"

definition finish :: "Config \<Rightarrow> main_inputs \<Rightarrow> main_state \<Rightarrow> run_output" where
  "finish cfg ins s =
     (let report = report_of cfg ins s in
      \<lparr>roEnding = Exited (if \<not> msAllPassed s then 1 else 0), roWorld = msWorld s, roCheckpoint = snd (msCheckpoint s),
       roReport = (if miReport ins \<noteq> [] then
                     (case WriteJSON (miReportIo ins) report of Inl e \<Rightarrow> None | Inr r \<Rightarrow> Some r)
                   else None),
       roSummary = PrintSummary report\<rparr>)"

definition main :: "(werr \<Rightarrow> string) \<Rightarrow> int \<Rightarrow> (string \<Rightarrow> string + Config) \<Rightarrow> main_inputs \<Rightarrow> unit world \<Rightarrow> run_output" where
  "main txt u yaml ins w =
     (case resolve_dsn (miDsn ins) (miEnv ins) of
        None \<Rightarrow> ended (Fatal ''--dsn flag or PGCTL_DSN environment variable required'') w None
      | Some dsn \<Rightarrow>
          if miSpec ins = [] then ended (Fatal ''--spec flag required'') w None
          else (case LoadConfig (miFile ins) yaml of
            Inl e \<Rightarrow> ended (Fatal ''load config'') w None
          | Inr cfg \<Rightarrow>
              if miConnect ins \<noteq> None then ended (Fatal ''connect to postgres'') w None
              else if miMigrate ins \<noteq> None then ended (Fatal ''schema migration failed'') w None
              else (case seed_step ins cfg w of
                None \<Rightarrow> ended Hung w None
              | Some (w1, Some e) \<Rightarrow> ended (Fatal e) w1 None
              | Some (w1, None) \<Rightarrow>
                  (let cw = NewCheckpointWriter (miCheckpointStart ins) (mcName (cfgMetadata cfg)) (checkpoint_path (miReport ins)) in
                   if miCompactConn ins \<noteq> None then ended (Fatal ''compaction conn'') w1 None
                   else (case run_phases (phase_list txt u cfg (miPhases ins))
                                \<lparr>msWorld = w1, msCheckpoint = (cw, None), msPhases = [], msAllPassed = True\<rparr> of
                     PhasesDone s \<Rightarrow> finish cfg ins s
                   | PhaseHangs s \<Rightarrow> ended Hung (msWorld s) (snd (msCheckpoint s))
                   | PhasePanics e s \<Rightarrow> ended (Crashed e) (msWorld s) (snd (msCheckpoint s)))))))"

end
