(* ===== verification/LoadMainRuns.thy ===== *)
theory LoadMainRuns
  imports LoadMain
begin

text \<open>
  What the outputs of the load generator say: summary, report, checkpoint and exit code agree on
  the results of the enabled phases; and what a checkpoint never says.
\<close>

section \<open>Compaction beside the phases\<close>

lemma compact_filter_live: "DeletionTimestamp r = None \<Longrightarrow> \<not> is_true (compact_filter now cutoff r)"
  by (simp add: compact_filter_iff tombstone_filter_iff)

theorem compact_spares_live:
  assumes "\<forall>r \<in> set (rows (wdb w)). DeletionTimestamp r = None"
  shows "rows (wdb (compact_tick now w)) = rows (wdb w) \<and> horizon (wdb (compact_tick now w)) = horizon (wdb w)"
proof -
  have "filter (\<lambda>r. is_true (compact_filter now c r)) (rows (wdb w)) = []" for c
    using assms compact_filter_live by (simp add: filter_empty_conv)
  moreover have "filter (\<lambda>r. \<not> is_true (compact_filter now c r)) (rows (wdb w)) = rows (wdb w)" for c
    using assms compact_filter_live by (simp add: filter_id_conv)
  ultimately show ?thesis
    by (simp add: compact_tick_def Compact_def compact_rows_def raise_horizon_def Let_def fun_eq_iff)
qed

section \<open>The loop over the phases\<close>

definition main_inv :: "main_state \<Rightarrow> bool" where
  "main_inv s \<longleftrightarrow> cp_inv (msPhases s) (msCheckpoint s) \<and> (msAllPassed s \<longleftrightarrow> list_all Passed (msPhases s))"

lemma cp_beside_inv:
  "cp_inv rs cp \<Longrightarrow> cp_inv rs (cp_run (SetCurrent p # map (\<lambda>(now, io). WriteNow now io) ts) cp)"
proof -
  have "concat (map recorded (map (\<lambda>(now, io). WriteNow now io) ts)) = []" by (induction ts) auto
  then have "concat (map recorded (SetCurrent p # map (\<lambda>(now, io). WriteNow now io) ts)) = []" by simp
  then show "cp_inv rs cp \<Longrightarrow> ?thesis"
    using cp_run_inv [of rs cp "SetCurrent p # map (\<lambda>(now, io). WriteNow now io) ts"] by (simp only: append_Nil2)
qed

lemma phase_done_inv: "main_inv s \<Longrightarrow> cp_inv (msPhases s) cp \<Longrightarrow> main_inv (phase_done p r w cp s)"
  using cp_run_inv [of "msPhases s" cp "[Record r, WriteNow (fst (slWrite p)) (snd (slWrite p))]"]
  by (simp add: main_inv_def phase_done_def)

text \<open>A phase names its results after itself.\<close>

definition named :: "phase_slot \<Rightarrow> bool" where
  "named p \<longleftrightarrow> (\<forall>w w' r. slRun p w = Some (w', Inr r) \<longrightarrow> prName r = slName p)"

lemma run_phases_done:
  assumes "run_phases ps s = PhasesDone s'" "main_inv s" "list_all named ps"
  shows "main_inv s' \<and> map prName (msPhases s') = map prName (msPhases s) @ map slName (filter slEnabled ps)"
  using assms
proof (induction ps arbitrary: s)
  case (Cons p ps)
  show ?case
  proof (cases "slEnabled p")
    case True
    let ?cp = "cp_run (SetCurrent (Some (phase_progress (slName p) (slStart p))) #
      map (\<lambda>(now, io). WriteNow now io) (slTicks p)) (msCheckpoint s)"
    have cp: "cp_inv (msPhases s) ?cp" using Cons.prems(2) cp_beside_inv by (simp add: main_inv_def)
    obtain w' x where run: "slRun p (fold compact_tick (slCompact p) (msWorld s)) = Some (w', x)"
      using Cons.prems(1) True by (auto simp: Let_def split: option.splits)
    define r where "r = (case x of Inr r \<Rightarrow> r | Inl _ \<Rightarrow> fatal_result (slName p))"
    have "run_phases ps (phase_done p r w' ?cp s) = PhasesDone s'"
      using Cons.prems(1) True run by (auto simp: Let_def r_def split: sum.splits phase_error.splits)
    moreover have "prName r = slName p"
      using Cons.prems(3) run by (auto simp: r_def named_def fatal_result_def phase_result_def split: sum.splits)
    moreover have "msPhases (phase_done p r w' ?cp s) = msPhases s @ [r]" by (simp add: phase_done_def)
    ultimately show ?thesis
      using Cons.IH [OF _ phase_done_inv [OF Cons.prems(2) cp]] Cons.prems(3) True by simp
  next
    case False
    then show ?thesis using Cons by simp
  qed
qed simp

lemma totals_result_name [simp]: "prName (totals_result nm ok d t vs) = nm"
  by (simp add: totals_result_def phase_result_def Let_def)

lemma phases_named: "list_all named (phase_list f u cfg ins)"
proof -
  have "prName r = ''phase0_baseline''" if "RunPhase0 cfg i w = (w', Inr r)" for i w w' r
    using that by (auto simp: RunPhase0_def Let_def phase_result_def split: if_splits prod.splits sum.splits)
  moreover have "prName r = ''phase1_ceiling''" if "RunPhase1 f cfg i j w = Some (w', Inr r)" for i j w w' r
    using that by (auto simp: RunPhase1_def runPhase1Single_def p1_result_def Let_def phase_result_def
        split: if_splits option.splits prod.splits sum.splits)
  moreover have "prName r = ''phase2_steady''" if "RunPhase2 f u cfg i w = Some (w', Inr r)" for i w w' r
    using that by (auto simp: RunPhase2_def p2_result_def Let_def split: if_splits)
  moreover have "prName r = ''phase2b_skew''" if "RunPhase2b f u cfg i w = Some (w', Inr r)" for i w w' r
    using that by (auto simp: RunPhase2b_def p2b_result_def Let_def split: if_splits)
  moreover have "prName r = ''phase3_avalanche''" if "RunPhase3 f u cfg i w = Some (w', Inr r)" for i w w' r
    using that by (auto simp: RunPhase3_def p3_result_def Let_def split: if_splits)
  moreover have "prName r = ''phase5_poll''" if "RunPhase5 u cfg i w = Some (w', Inr r)" for i w w' r
    using that by (auto simp: RunPhase5_def p5_result_def Let_def phase_result_def split: if_splits option.splits sum.splits)
  ultimately show ?thesis by (auto simp: phase_list_def Let_def named_def slot_def)
qed

definition enabled_phases :: "Config \<Rightarrow> string list" where
  "enabled_phases cfg =
     map fst (filter snd
       [(''phase0_baseline'', p0Enabled (Phase0Baseline (Phases cfg))), (''phase1_ceiling'', p1Enabled (Phase1Ceiling (Phases cfg))),
        (''phase2_steady'', p2Enabled (Phase2Steady (Phases cfg))), (''phase2b_skew'', Phase2bSkew (Phases cfg)),
        (''phase3_avalanche'', p3Enabled (Phase3Avalanche (Phases cfg))), (''phase5_poll'', p5Enabled (Phase5Poll (Phases cfg)))])"

lemma enabled_slots: "map slName (filter slEnabled (phase_list f u cfg ins)) = enabled_phases cfg"
  by (simp add: phase_list_def Let_def slot_def enabled_phases_def)


section \<open>Progress\<close>

text \<open>
  A checkpoint taken while a phase runs is meant to show its progress, but main sets the current
  phase once, before the phase starts, and no phase updates it.
\<close>

definition no_progress :: "PhaseProgress option \<Rightarrow> bool" where
  "no_progress cur \<longleftrightarrow> cur = None \<or> (\<exists>nm start. cur = Some (phase_progress nm start))"

definition checkpoints_idle :: "CheckpointWriter \<times> Checkpoint option \<Rightarrow> bool" where
  "checkpoints_idle cd \<longleftrightarrow>
     no_progress (currentPhase (fst cd)) \<and> (case snd cd of None \<Rightarrow> True | Some cp \<Rightarrow> no_progress (CurrentPhase cp))"

fun idle_op :: "cp_op \<Rightarrow> bool" where
  "idle_op (SetCurrent p) = no_progress p"
| "idle_op _ = True"

lemma cp_step_idle: "idle_op c \<Longrightarrow> checkpoints_idle cd \<Longrightarrow> checkpoints_idle (cp_step c cd)"
  by (cases cd; cases c)
     (auto simp: checkpoints_idle_def RecordPhaseComplete_def SetCurrentPhase_def WriteCheckpoint_def checkpoint_of_def
        no_progress_def Let_def split: option.splits)

lemma cp_run_idle: "list_all idle_op ops \<Longrightarrow> checkpoints_idle cd \<Longrightarrow> checkpoints_idle (cp_run ops cd)"
  unfolding cp_run_def by (induction ops arbitrary: cd) (simp_all add: cp_step_idle)

fun end_state :: "phases_end \<Rightarrow> main_state" where
  "end_state (PhasesDone s) = s"
| "end_state (PhaseHangs s) = s"
| "end_state (PhasePanics e s) = s"

lemma beside_idle:
  "list_all idle_op (SetCurrent (Some (phase_progress nm start)) # map (\<lambda>(now, io). WriteNow now io) ts)"
  by (auto simp: list_all_iff no_progress_def)

lemma run_phases_idle: "checkpoints_idle (msCheckpoint s) \<Longrightarrow> checkpoints_idle (msCheckpoint (end_state (run_phases ps s)))"
proof (induction ps arbitrary: s)
  case (Cons p ps)
  note idle = cp_run_idle [OF beside_idle Cons.prems]
  have "checkpoints_idle (msCheckpoint (phase_done p r w (cp_run (SetCurrent (Some (phase_progress (slName p) (slStart p))) #
      map (\<lambda>(now, io). WriteNow now io) (slTicks p)) (msCheckpoint s)) s))" for r w
    using cp_run_idle [OF _ idle, of "[Record r, WriteNow (fst (slWrite p)) (snd (slWrite p))]"] by (simp add: phase_done_def)
  then show ?case
    using Cons idle by (auto simp: Let_def split: option.splits prod.splits sum.splits phase_error.splits)
qed simp

lemma run_idle:
  assumes "run_phases ps \<lparr>msWorld = w, msCheckpoint = (NewCheckpointWriter t nm path, None), msPhases = [], msAllPassed = True\<rparr> = e"
    and "snd (msCheckpoint (end_state e)) = Some cp"
  shows "no_progress (CurrentPhase cp)"
proof -
  have "checkpoints_idle (msCheckpoint (end_state e))"
    unfolding assms(1) [symmetric]
    by (rule run_phases_idle) (simp add: checkpoints_idle_def NewCheckpointWriter_def no_progress_def)
  then show ?thesis using assms(2) by (simp add: checkpoints_idle_def)
qed

theorem checkpoint_progress_zero:
  assumes "roCheckpoint (main f u yaml ins w) = Some cp" "CurrentPhase cp = Some p"
  shows "ppTotalWrites p = 0 \<and> ppElapsed p = 0 \<and> CurrentRPS p = Fin 0 \<and> ppErrors p = []"
proof -
  have "no_progress (CurrentPhase cp)"
    using assms(1) unfolding main_def ended_def finish_def Let_def
    by (auto split: option.splits sum.splits if_splits prod.splits phases_end.splits dest!: run_idle)
  then show ?thesis by (auto simp: assms(2) no_progress_def phase_progress_def)
qed

section \<open>A whole run\<close>

text \<open>The ceiling test on an empty table, with a tick, a compaction and a report.\<close>

definition ex_beside :: beside_phase where
  "ex_beside = \<lparr>bpStart = 0, bpTicks = [(1, None)], bpCompact = [2], bpWrite = (3, None)\<rparr>"

definition ex_test :: test_inputs where
  "ex_test = \<lparr>tiPollConn = (\<lambda>_. None), tiListenConn = (\<lambda>_. None), tiWriteConn = None, tiStart = 0, tiEvents = []\<rparr>"

definition ex_phases :: phases_inputs where
  "ex_phases = \<lparr>phP0 = ex_p0, phP1 = ex_p1, phSweep = (\<lambda>_. []), phP2 =
       \<lparr>jiVerConn = None, jiConnect = (\<lambda>i. None), jiStart = 0, jiEvents = [], jiElapsed = 0\<rparr>,
     phP2b = \<lparr>jiVerConn = None, jiConnect = (\<lambda>i. None), jiStart = 0, jiEvents = [], jiElapsed = 0\<rparr>,
     phP3 = \<lparr>p3VerConn = None, p3Perm = [], p3Events = [], p3Elapsed = 0\<rparr>,
     phP5 = \<lparr>p5Probe = None, p5List = None, p5Xmin = 1, p5IdleConn = (\<lambda>_. None), p5Idle = (\<lambda>_. []), p5Doorbell = ex_test,
       p5Loss = ex_test, p5Elapsed = 0\<rparr>,
     phBeside = (\<lambda>_. ex_beside)\<rparr>"

definition ex_main :: main_inputs where
  "ex_main = \<lparr>miDsn = '''', miEnv = ''postgres://'', miSpec = ''spec.yaml'', miReport = ''out/report.json'', miFile = Inr ''spec'',
     miConnect = None, miMigrate = None, miTruncate = None, miSeed = ex_seed_env, miCheckpointStart = 0,
     miCompactConn = None, miPhases = ex_phases, miStart = 0, miEnd = 9, miReportIo = None\<rparr>"

definition ex_ceiling :: Config where
  "ex_ceiling = ex_config\<lparr>SeedGVKs := [], Phases := (Phases ex_config)\<lparr>Phase3Avalanche := \<lparr>p3Enabled = False, KillFraction = Fin 0\<rparr>\<rparr>\<rparr>"

lemma ex_run_exits: "\<exists>code. roEnding (main (\<lambda>_. []) 0 (\<lambda>_. Inr ex_ceiling) ex_main ex_seed_world) = Exited code"
proof -
  have cfg: "LoadConfig (Inr ''spec'') (\<lambda>_. Inr ex_ceiling) = Inr (validate ex_ceiling)" by (simp add: LoadConfig_def)
  have "\<exists>s'. run_phases (phase_list (\<lambda>_. []) 0 (validate ex_ceiling) ex_phases) s = PhasesDone s'" for s
    by (simp add: phase_list_def Let_def slot_def RunPhase1_def runPhase1Single_def ex_ceiling_def ex_config_def validate_defs
        ex_phases_def)
  then obtain s' where "run_phases (phase_list (\<lambda>_. []) 0 (validate ex_ceiling) ex_phases)
      \<lparr>msWorld = ex_seed_world, msCheckpoint = (NewCheckpointWriter 0 (mcName (cfgMetadata (validate ex_ceiling)))
         (checkpoint_path ''out/report.json''), None), msPhases = [], msAllPassed = True\<rparr> = PhasesDone s'" by blast
  moreover have "seed_step ex_main (validate ex_ceiling) ex_seed_world = Some (ex_seed_world, None)"
    by (simp add: seed_step_def ex_ceiling_def validate_def)
  ultimately show ?thesis by (simp add: main_def ex_main_def resolve_dsn_def cfg Let_def finish_def)
qed


end
