(* ===== verification/Spec2Isabelle.thy ===== *)
theory Spec2Isabelle
  imports Contention Relay Delivery GreetingMain Metrics Migrations Phase3Runs Phase5Runs LoadMainRuns
begin

text \<open>
  A model of postgres-controller-backend: a Kubernetes-style object store for controllers on
  one PostgreSQL table, with optimistic concurrency, list and watch, and no API server; of the
  example controller that runs on it; and of the load generator that measures it.

  \<^bold>\<open>How the program works.\<close> Every object is a row of kubernetes_resources. A write is one call of
  the stored procedure pgctl_write (internal/schema/migrations/001_initial.sql), made by
  internal/writer; it suppresses content-equal writes, checks the expected version and stamps
  the row with its transaction id. A reader (internal/reader) takes a repeatable-read snapshot;
  its watermark is pg_snapshot_xmin minus one, below every transaction that may still commit. A
  watcher polls for rows stamped above its mark, woken by a timer or by LISTEN/NOTIFY
  (internal/doorbell); compaction (pkg/compaction) deletes old tombstones and raises a horizon
  below which a watcher gets ErrGone. pkg/pgruntime puts controller-runtime's client, cache and
  manager on top; internal/verifier probes a running system with canary writes. The load
  generator (loadtest/cmd/loadtest) seeds the table, runs phases of writers and watchers over
  the same writer and reader, and reports whether each phase passed.

  \<^bold>\<open>Theories and sources: the library.\<close>
  \<^item> Prelude: SQL's three-valued logic and keyed tables. Json: documents, jsonb's canonical form,
    JSONEqual of writer.go. Model: internal/model/types.go and the tables.
  \<^item> Pgctl: pgctl_write, one definition per branch of the procedure.
  \<^item> Writer: the stored-procedure path of writer.go, its errors, metrics and ReadBack; the locale
    doorbell states what the writer needs of one. WriterTx: the multi-statement path with hooks,
    savepoint and commit faults, and its agreement with the stored procedure.
  \<^item> Compaction: compactor.go. Reader: list.go, shard.go, event.go and pollAll of watcher.go.
  \<^item> Sessions: any number of transactions in READ COMMITTED, each a sequence of the procedure's
    statements, with row locks, aborts and compaction between them (an inductive step relation).
  \<^item> Contention: what racing writers are promised; the locale versioned_writer states what one
    write with an expected version does, and is interpreted on every write operation of Writer.
  \<^item> Watch: the watcher and the cache its events build; the locale commit_feed states what it
    needs of the database. WatchPg: the interpretation of commit_feed on Sessions, and the
    properties of informers. WatchLoop: the scheduler of watcher.go (Run, poll, listenLoop).
  \<^item> Doorbell: the Debouncer, which interprets the locale doorbell.
  \<^item> ResourceVersion: internal/resourceversion/rv.go with strconv's decimal parsers. Meta and
    Convert: convert.go. FieldSelector: fieldselector.go. Base64: encoding/base64. JsonText and
    JsonParse: the text encoding/json writes, and the scanner that reads it, byte by byte.
  \<^item> PgClient: pgclient.go and errors.go, but for List, which is in ClientList with the continue
    tokens. PgWatch: pgwatch.go. Manager: pgcache.go, pgmanager.go and tracer.go.
    Lifecycle: the goroutines of Start in pgmanager.go and pgcache.go. Verifier:
    verifier.go.
  \<^item> Relay: the path from a row to a controller; the locale watch_source is the Go interface
    watchSource as the relay of pgwatch.go relies on it, interpreted on a polling watcher and on
    the whole scheduler.
  \<^item> Delivery: the scheduler, its listener, the doorbell and the sessions in one step relation with
    a clock. A step is an iteration of Run or of listenLoop, a flush, the arrival of a
    notification, its loss, or a statement of a session; the record delivery_env holds how long a
    woken goroutine, a poll and a notification may take.
  \<^item> Runtime: setListItems of convert.go with typed lists, the small methods of pgclient.go,
    pgcache.go and pgmanager.go. ClientEffects: what the client's operations do to the rows, as
    a controller relies on it. Metrics: internal/metrics and the collectors of the load
    generator's metrics.go. Migrations: schema.go and the statements of 001_initial.sql that
    define the schema, over a catalog.

  \<^bold>\<open>Theories and sources: the example controller\<close> (examples/greeting-controller/greeting).
  \<^item> GreetingTypes: types.go, with the JSON form of the types and their deep copies over a heap of
    metadata and slices. GreetingController: controller.go over the client of PgClient and
    ClientList. GreetingMain: cmd/postgres/main.go.

  \<^bold>\<open>Theories and sources: the load generator.\<close>
  \<^item> Float64: float64 with infinities and NaN over exact
    reals (rounding and overflow are not modelled), int64 conversion, truncating division.
  \<^item> LoadConfig: config.go. LoadStats: the statistics of phase1_ceiling.go and the
    pg_stat_statements diff of phase0_baseline.go. LoadReport: reporter.go and checkpoint.go.
  \<^item> SeedTemplates, Padding, Seeder: the payloads, padToSize and Seed of seeder.go. The loop of
    padToSize has no bound in the code, so it is a partial_function, and is proved to return.
  \<^item> LoadWriter: the locale numbered_writers, for writers whose object names contain the writer
    and a number, so that none meets another; interpreted on the requests of every phase.
  \<^item> Phase0, Phase1, Phase2, Phase3, Phase5: phase0_baseline.go, phase1_ceiling.go,
    phase2_steady.go with phase2b_skew.go, phase3_avalanche.go, phase5_poll.go (there is no
    phase 4). Phase2Runs, Phase3Runs, Phase5Runs: what their runs do; Phase2Runs extends
    numbered_writers to the locale job_writers, for jobs that pass through a channel.
  \<^item> LoadMain: main.go. LoadMainRuns: what its outputs say.

  A phase runs a list of events, one per iteration of a goroutine's loop in the order in which
  they reach the database or the channel; the theorems quantify over all such lists. Compactions
  that the load test starts beside a phase are left out of the phases, because no phase marks an
  object for deletion and a compaction then changes no row (compact_spares_live).

  \<^bold>\<open>State and errors.\<close> A database is its rows, the horizon per kind and the next transaction id. A Go
  function that writes takes the world (database, doorbell, metrics, log) and returns it with a
  sum of an error and a result; an error keeps the constructor the source tests for, and texts
  are cut to their fixed part. xid8 and int64 values are unbounded where the code only copies or
  compares them; object_version + 1 fails above the BIGINT range (bigint_succ), and
  ResourceVersion keeps the 64-bit limits of the parsers.

  \<^bold>\<open>Arguments for what is not in the repository.\<close> The hexadecimal SHA-256 digest (sha),
  PostgreSQL's hashtext (ht), the printing of a UUID (us), the printing of a jsonb value
  as text (jt), the JSON codec of an object type (cd), its zero object
  (new), which owner references decode (own), the kinds a scheme registers (kinds), label
  selectors, the REST mapping of a kind, the Prometheus registerer and bucket helpers, the order in which Go visits a map, clocks and generated uuids, and every failure of
  the network or the pool. In the load generator also the YAML decoder, the bytes and the
  permutation of math/rand, the texts of errors, the durations of calls, and the value that an
  out-of-range conversion from float64 to int gives. The theorems hold for all of them unless a
  hypothesis says otherwise. The example controller calls controller-runtime's CreateOrUpdate and
  SetControllerReference and the deep copy of ObjectMeta; create_or_update_law, owner_law and
  copies_meta state what their documentation promises, and a concrete function instantiates each.
  The round trips of PgClient assume that a type's codec decodes what
  it encodes (codec_law), and a witness instantiates it. filepath.Dir and filepath.Join are
  written out for clean paths.

  \<^bold>\<open>What the lemmas show.\<close> Pgctl: what a write checks, changes, refuses and suppresses.
  WriterTx: the two write paths are equivalent, and what ReadBack can resolve. Sessions and
  Contention: the server's invariant, that no update is lost and that one of the racing updates
  wins. Reader: list and poll are exact, shards partition. JsonParse: any document that was written is
  read back. ClientList: a caller who follows the continue tokens collects what one list returns.
  Watch, WatchPg and Relay: a simulation between the table, the informer's cache and the
  reflector's store; the mark is safe, no event is lost, the cache converges. Doorbell and
  WatchLoop: a change is always followed by a notification or a poll that is due within the
  configured bounds. Delivery: how old an informer's view can be. If its polls succeed it shows, at
  any moment, a state no older than the larger of baseline and floor plus the lag plus two
  polls, whatever is lost; a change whose gvk was rung arrives within the doorbell window,
  the transit, the floor, two lags and two polls while the path works.
  PgClient and ClientEffects: each operation's effect on the row and on the caller's object.
  Lifecycle: Start follows its sequential specification under every interleaving, every informer
  runs once, and a cancelled manager stops; the cache of a running manager refines Manager's.
  Runtime: a typed list holds exactly what the query found. Metrics: no name is registered
  twice, so a start on a fresh registerer does not panic. Migrations: migrating can be repeated
  and retried, and keeps the data. GreetingTypes: a deep copy is equal and shares nothing.
  GreetingController: a successful reconciliation has settled the greeting and its card, with
  others writing other rows between its calls, a working connection makes it successful, a
  settled greeting is left alone, and the requests of a policy event settle a whole namespace.
  The load generator: seeding fills the table as configured, padding ends, no two writers of a
  phase meet, each job is written once, phase 3 returns on every fair schedule, rates are
  bounded, the notify-loss drill counts what was delivered, and the four outputs of a test
  agree.

  Counterexamples mark where a property stops. Of the library: relist_stays_gone,
  resume_from_stamp_skips, list_pages_skip, stale_version_crosses_incarnations,
  tombstone_tests_differ, nil_status_paths_differ, read_into_used_object,
  restarted_canary_is_silent, json_equal_rounds, delete_with_version_moves_timestamp,
  pointer_lists_fail, overload_stops_migration, late_goroutines_are_lost. Of the example controller:
  lost_list_resets_prefix, editing_policy_switches_prefix. Of the load generator: phase1_without_duration_passes, phase2_hangs_without_writers,
  drill_passes_without_delivery, phase5_needs_no_delivery, checkpoint_progress_zero.

  \<^bold>\<open>Bounds.\<close> No model of code uses fuel: the loops run over the list of their inputs (wake-ups,
  events, ticks, rows), and the statements quantify over all such lists. The select statements
  are the choice of the next input. list_walk counts the requests of a caller that pages, and its
  theorem says how many are enough. A JSON text nests at most 10000 deep, as in encoding/json. The verifier's ring has its 1000 slots, and its percentile
  index is exact for every sample count up to 1000. JSON number literals are integers.

  \<^bold>\<open>Not modelled.\<close> The HTTP server of the load generator's metrics.go, client-go's informer beyond
  the effect of an event on its store (the methods of pgInformer only delegate to it), the event
  recorder stubs, the scheduling of the ticker that writes checkpoints, the example's main for
  etcd, which wires a manager of controller-runtime, and the test helpers. Planned next: the
  controller driven by the events of Relay, and the phases of the load generator with other
  writers beside them.
\<close>

end
